(* ===== verification/Cool_Prelude.thy ===== *)
theory Cool_Prelude
  imports Main "HOL-Library.Word"
begin

text \<open>
  Shared vocabulary of the development: the machine integers of the C++ code, the ways an
  operation of the code can fail, the error-propagating composition the components are
  written with, and the list and word lemmas they share.
\<close>

unbundle bit_operations_syntax

section \<open>Collections of facts\<close>

named_theorems outcome_simps "rewrite rules for outcomes and their sequencing"
named_theorems overwrite_simps "rewrite rules for in-place updates of byte sequences"

section \<open>Machine integers\<close>

text \<open>
  \<open>uint8_t\<close> \dots \<open>uint64_t\<close> are words of that width. Signed integers of the same width
  share the bit pattern: they are the same words read with \<^const>\<open>sint\<close>.
\<close>

type_synonym byte = "8 word"
type_synonym u16 = "16 word"
type_synonym u32 = "32 word"
type_synonym u64 = "64 word"

section \<open>Failures\<close>

text \<open>
  \<^item> \<open>Exception w\<close>: a C++ exception with message \<open>w\<close>;
  \<^item> \<open>Assert_failed w\<close>: an \<^verbatim>\<open>ASSERT\<close>/\<^verbatim>\<open>ASSERT2\<close> of macro.h (or a C assert) that does not hold;
  \<^item> \<open>Null_deref\<close>: a member access through a null pointer;
  \<^item> \<open>Out_of_bounds\<close>: an access outside an array, a vector or a heap block;
  \<^item> \<open>Bad_iterator\<close>: use of a past-the-end iterator;
  \<^item> \<open>Bad_count\<close>: a negative byte count handed to a library call;
  \<^item> \<open>Bad_arith\<close>: a shift by the width or more, or an overflow of a signed integer;
  \<^item> \<open>Deadlock\<close>: a thread waits for a lock that it holds itself;
  \<^item> \<open>Stale_context\<close>: a machine context is resumed while its fiber is still executing;
  \<^item> \<open>Diverges\<close>: a loop or a recursion that can never end.
\<close>

datatype fault =
    Exception string
  | Assert_failed string
  | Null_deref
  | Out_of_bounds
  | Bad_iterator
  | Bad_count
  | Bad_arith
  | Deadlock
  | Stale_context
  | Diverges

type_synonym 'a outcome = "fault + 'a"

definition bindE :: "'a outcome \<Rightarrow> ('a \<Rightarrow> 'b outcome) \<Rightarrow> 'b outcome" where
  "bindE m f = (case m of Inl e \<Rightarrow> Inl e | Inr x \<Rightarrow> f x)"

definition assertE :: "string \<Rightarrow> bool \<Rightarrow> unit outcome" where
  "assertE w b = (if b then Inr () else Inl (Assert_failed w))"

lemma bindE_Inl [simp, outcome_simps]: "bindE (Inl e) f = Inl e"
  by (simp add: bindE_def)

lemma bindE_Inr [simp, outcome_simps]: "bindE (Inr x) f = f x"
  by (simp add: bindE_def)

lemma bindE_eq_Inr_iff: "bindE m f = Inr y \<longleftrightarrow> (\<exists>x. m = Inr x \<and> f x = Inr y)"
  by (cases m) simp_all

lemma bindE_eq_Inl_iff: "bindE m f = Inl e \<longleftrightarrow> m = Inl e \<or> (\<exists>x. m = Inr x \<and> f x = Inl e)"
  by (cases m) simp_all

lemma bindE_assoc: "bindE (bindE m f) g = bindE m (\<lambda>x. bindE (f x) g)"
  by (cases m) simp_all

lemma bindE_cong [fundef_cong]:
  "m = m' \<Longrightarrow> (\<And>x. m' = Inr x \<Longrightarrow> f x = f' x) \<Longrightarrow> bindE m f = bindE m' f'"
  by (cases m') simp_all

lemma assertE_True [simp, outcome_simps]: "assertE w True = Inr ()"
  by (simp add: assertE_def)

lemma assertE_False [simp, outcome_simps]: "assertE w False = Inl (Assert_failed w)"
  by (simp add: assertE_def)

lemma assertE_eq_Inr_iff [simp]: "assertE w b = Inr u \<longleftrightarrow> b"
  by (simp add: assertE_def)

section \<open>Overwriting part of a sequence\<close>

text \<open>What \<open>memcpy (dst + i, xs, |xs|)\<close> does to the destination.\<close>

definition overwrite :: "nat \<Rightarrow> 'a list \<Rightarrow> 'a list \<Rightarrow> 'a list" where
  "overwrite i xs ys = take i ys @ xs @ drop (i + length xs) ys"

lemma overwrite_Nil [simp, overwrite_simps]: "overwrite i [] ys = ys"
  by (simp add: overwrite_def)

lemma length_overwrite [simp, overwrite_simps]:
  "i + length xs \<le> length ys \<Longrightarrow> length (overwrite i xs ys) = length ys"
  by (simp add: overwrite_def)

lemma overwrite_append_right:
  "length us \<le> i \<Longrightarrow> overwrite i xs (us @ vs) = us @ overwrite (i - length us) xs vs"
  by (simp add: overwrite_def)

lemma overwrite_append_left:
  "i + length xs \<le> length us \<Longrightarrow> overwrite i xs (us @ vs) = overwrite i xs us @ vs"
  by (simp add: overwrite_def)

text \<open>An overwrite that crosses the border of two blocks is two overwrites.\<close>

lemma overwrite_split:
  assumes "i \<le> length us" and "k = length us - i" and "k \<le> length xs"
    and "length xs \<le> k + length vs"
  shows "overwrite i xs (us @ vs) = overwrite i (take k xs) us @ overwrite 0 (drop k xs) vs"
proof -
  have "xs = take k xs @ drop k xs" by simp
  moreover have "i + length xs - length us = length xs - k" using assms by simp
  ultimately show ?thesis using assms by (simp add: overwrite_def min_def)
qed

lemma take_overwrite: "n \<le> i \<Longrightarrow> i \<le> length ys \<Longrightarrow> take n (overwrite i xs ys) = take n ys"
  by (simp add: overwrite_def)

lemma drop_overwrite:
  assumes "i + length xs \<le> n" and "i \<le> length ys"
  shows "drop n (overwrite i xs ys) = drop n ys"
proof -
  have "drop n (overwrite i xs ys) = drop (n - (i + length xs)) (drop (i + length xs) ys)"
    using assms by (simp add: overwrite_def)
  then show ?thesis using assms by simp
qed

lemma read_back_overwrite:
  "i \<le> length ys \<Longrightarrow> take (length xs) (drop i (overwrite i xs ys)) = xs"
  by (simp add: overwrite_def)

lemma overwrite_overwrite:
  "i \<le> length zs \<Longrightarrow> overwrite (i + length xs) ys (overwrite i xs zs) = overwrite i (xs @ ys) zs"
  by (simp add: overwrite_def ac_simps)

section \<open>Blocks of equal length\<close>

definition uniform :: "nat \<Rightarrow> 'a list list \<Rightarrow> bool" where
  "uniform b ns \<longleftrightarrow> (\<forall>n \<in> set ns. length n = b)"

lemma uniform_Nil [simp]: "uniform b []"
  by (simp add: uniform_def)

lemma uniform_Cons [simp]: "uniform b (n # ns) \<longleftrightarrow> length n = b \<and> uniform b ns"
  by (simp add: uniform_def)

lemma uniform_append [simp]: "uniform b (ns @ ms) \<longleftrightarrow> uniform b ns \<and> uniform b ms"
  by (auto simp: uniform_def)

lemma uniform_nth: "uniform b ns \<Longrightarrow> c < length ns \<Longrightarrow> length (ns ! c) = b"
  by (simp add: uniform_def)

lemma uniform_update: "uniform b ns \<Longrightarrow> length n = b \<Longrightarrow> uniform b (ns[c := n])"
  by (auto simp: uniform_def dest: set_update_subset_insert [THEN subsetD])

lemma uniform_take: "uniform b ns \<Longrightarrow> uniform b (take c ns)"
  by (auto simp: uniform_def dest: in_set_takeD)

lemma uniform_drop: "uniform b ns \<Longrightarrow> uniform b (drop c ns)"
  by (auto simp: uniform_def dest: in_set_dropD)

lemma length_concat_uniform: "uniform b ns \<Longrightarrow> length (concat ns) = length ns * b"
  by (induction ns) auto

lemma drop_concat_uniform: "uniform b ns \<Longrightarrow> drop (c * b) (concat ns) = concat (drop c ns)"
  by (induction ns arbitrary: c) (auto simp: drop_Cons split: nat.split)

lemma take_concat_uniform: "uniform b ns \<Longrightarrow> take (c * b) (concat ns) = concat (take c ns)"
  by (induction ns arbitrary: c) (auto simp: take_Cons split: nat.split)

lemma concat_split_at:
  "c < length ns \<Longrightarrow> concat ns = concat (take c ns) @ ns ! c @ concat (drop (Suc c) ns)"
  by (metis concat.simps(2) concat_append id_take_nth_drop)

lemma concat_update:
  "c < length ns \<Longrightarrow> concat (ns[c := n]) = concat (take c ns) @ n @ concat (drop (Suc c) ns)"
  by (simp add: upd_conv_take_nth_drop)

lemma unat_less_exp: "unat (v :: 'a::len word) < 2 ^ LENGTH('a)"
  by (rule unsigned_less)

lemma unat_of_nat_less: "n < 2 ^ LENGTH('a) \<Longrightarrow> unat (of_nat n :: 'a::len word) = n"
  by (simp add: unat_of_nat take_bit_nat_eq_self)

lemma ucast_of_nat_less:
  "n < 2 ^ LENGTH('a) \<Longrightarrow> ucast (of_nat n :: 'a::len word) = (of_nat n :: 'b::len word)"
  by (metis of_nat_unat unat_of_nat_less)

end
