(* ===== verification/Cool_Text.thy ===== *)
theory Cool_Text
  imports Cool_Prelude
begin

text \<open>
  Text as the C++ code handles it: numbers written to and read from streams, C strings inside
  \<open>std::string\<close> buffers, searching for a character, and joining with a separator.
\<close>

section \<open>Numbers\<close>

definition hex_digit :: "nat \<Rightarrow> char" where
  "hex_digit d = ''0123456789abcdef'' ! d"

text \<open>\<open>os << n\<close>, in the base the stream is set to.\<close>

fun digits :: "nat \<Rightarrow> nat \<Rightarrow> nat list" where
  "digits b n = (if b < 2 \<or> n < b then [n] else digits b (n div b) @ [n mod b])"

declare digits.simps [simp del]

definition dec :: "nat \<Rightarrow> string" where
  "dec n = map hex_digit (digits 10 n)"

definition hex :: "nat \<Rightarrow> string" where
  "hex n = map hex_digit (digits 16 n)"

definition dec_int :: "int \<Rightarrow> string" where
  "dec_int i = (if i < 0 then CHR ''-'' # dec (nat (- i)) else dec (nat i))"

fun undigits :: "nat \<Rightarrow> nat list \<Rightarrow> nat" where
  "undigits b [] = 0"
| "undigits b (d # ds) = d * b ^ length ds + undigits b ds"

lemma undigits_snoc: "undigits b (ds @ [d]) = undigits b ds * b + d"
  by (induction ds) (simp_all add: algebra_simps)

lemma undigits_digits [simp]: "undigits b (digits b n) = n"
proof (induction b n rule: digits.induct)
  case (1 b n)
  then show ?case by (subst digits.simps) (simp add: undigits_snoc)
qed

lemma digits_less: "2 \<le> b \<Longrightarrow> d \<in> set (digits b n) \<Longrightarrow> d < b"
proof (induction b n rule: digits.induct)
  case (1 b n)
  then show ?case by (subst (asm) (2) digits.simps) (auto split: if_splits)
qed

lemma digits_Nil [simp]: "digits b n \<noteq> []"
  by (subst digits.simps) simp

lemma digits_inj: "digits b m = digits b n \<Longrightarrow> m = n"
  by (metis undigits_digits)

lemma hex_digit_inj: "a < 16 \<Longrightarrow> b < 16 \<Longrightarrow> hex_digit a = hex_digit b \<Longrightarrow> a = b"
proof -
  have "distinct ''0123456789abcdef''" by simp
  then show "a < 16 \<Longrightarrow> b < 16 \<Longrightarrow> hex_digit a = hex_digit b \<Longrightarrow> a = b"
    using nth_eq_iff_index_eq [of "''0123456789abcdef''" a b] by (simp add: hex_digit_def)
qed

lemma hex_digit_set: "d < 16 \<Longrightarrow> hex_digit d \<in> set ''0123456789abcdef''"
  unfolding hex_digit_def by (rule nth_mem) simp

lemma hex_digit_dec: "d < 10 \<Longrightarrow> hex_digit d \<in> set ''0123456789''"
proof -
  assume "d < 10"
  then have "hex_digit d = ''0123456789'' ! d"
    using nth_append [of "''0123456789''" "''abcdef''" d] by (simp add: hex_digit_def)
  then show ?thesis using \<open>d < 10\<close> nth_mem [of d "''0123456789''"] by simp
qed

lemma map_hex_digit_inj:
  assumes "\<forall>d\<in>set ds. d < 16" and "\<forall>d\<in>set es. d < 16" and "map hex_digit ds = map hex_digit es"
  shows "ds = es"
  by (rule map_inj_on [OF assms(3)]) (use assms(1,2) hex_digit_inj in \<open>auto simp: inj_on_def\<close>)

lemma dec_inj: "dec m = dec n \<longleftrightarrow> m = n"
proof
  have "\<forall>d\<in>set (digits 10 k). d < 16" for k using digits_less [of 10 _ k] by fastforce
  then show "dec m = dec n \<Longrightarrow> m = n" unfolding dec_def using map_hex_digit_inj digits_inj by blast
qed simp

lemma hex_inj: "hex m = hex n \<longleftrightarrow> m = n"
proof
  have "\<forall>d\<in>set (digits 16 k). d < 16" for k using digits_less [of 16 _ k] by fastforce
  then show "hex m = hex n \<Longrightarrow> m = n" unfolding hex_def using map_hex_digit_inj digits_inj by blast
qed simp

lemma set_dec: "set (dec n) \<subseteq> set ''0123456789''"
  using digits_less [of 10 _ n] hex_digit_dec unfolding dec_def by force

lemma set_hex: "set (hex n) \<subseteq> set ''0123456789abcdef''"
  using digits_less [of 16 _ n] hex_digit_set unfolding hex_def by force

lemma dec_Nil [simp]: "dec n \<noteq> []"
  by (simp add: dec_def)

lemma hex_Nil [simp]: "hex n \<noteq> []"
  by (simp add: hex_def)

section \<open>Strings\<close>

text \<open>The C string at the start of a buffer: up to the first null character.\<close>

definition c_str :: "string \<Rightarrow> string" where
  "c_str s = takeWhile (\<lambda>c. c \<noteq> CHR 0x00) s"

text \<open>\<open>memchr\<close>, \<open>std::string::find\<close>: the index of the first occurrence of a character.\<close>

fun find_char :: "char \<Rightarrow> string \<Rightarrow> nat option" where
  "find_char c [] = None"
| "find_char c (x # xs) = (if x = c then Some 0 else map_option Suc (find_char c xs))"

definition tolower :: "char \<Rightarrow> char" where
  "tolower c = (if 65 \<le> (of_char c :: int) \<and> (of_char c :: int) \<le> 90 then char_of ((of_char c :: int) + 32) else c)"

fun join :: "string \<Rightarrow> string list \<Rightarrow> string" where
  "join s [] = []"
| "join s [x] = x"
| "join s (x # y # xs) = x @ s @ join s (y # xs)"

lemma c_str_id: "CHR 0x00 \<notin> set s \<Longrightarrow> c_str s = s"
  by (auto simp: c_str_def intro!: takeWhile_eq_all_conv [THEN iffD2])

lemma c_str_app_nul: "CHR 0x00 \<notin> set s \<Longrightarrow> c_str (s @ CHR 0x00 # t) = s"
  by (induction s) (auto simp: c_str_def)

lemma find_char_None: "find_char c s = None \<longleftrightarrow> c \<notin> set s"
  by (induction s) auto

lemma find_char_app: "c \<notin> set s \<Longrightarrow> find_char c (s @ c # t) = Some (length s)"
  by (induction s) auto

lemma find_char_Some: "find_char c s = Some i \<longleftrightarrow> i < length s \<and> s ! i = c \<and> c \<notin> set (take i s)"
proof (induction s arbitrary: i)
  case (Cons x s)
  then show ?case by (cases i) auto
qed simp

lemma join_Cons: "xs \<noteq> [] \<Longrightarrow> join s (x # xs) = x @ s @ join s xs"
  by (cases xs) simp_all

lemma join_append: "xs \<noteq> [] \<Longrightarrow> ys \<noteq> [] \<Longrightarrow> join s (xs @ ys) = join s xs @ s @ join s ys"
proof (induction xs)
  case (Cons x xs)
  then show ?case by (cases "xs = []") (simp_all add: join_Cons)
qed simp

end
