(* ===== verification/Cool_Endian.thy ===== *)
theory Cool_Endian
  imports Cool_Prelude
begin

text \<open>
  Byte order (src/endian.h): the order tags, the compile-time choice of
  \<^verbatim>\<open>COOL_BYTE_ORDER\<close>, \<open>byteswap\<close>, and the in-memory layout of integers on the little-endian
  machine the code runs on.
\<close>

datatype endian = COOL_LITTLE_ENDIAN | COOL_BIG_ENDIAN

section \<open>Integers in memory\<close>

text \<open>
  The bytes of an integer in the order a little-endian machine stores them, and back; this is
  what \<open>memcpy\<close> and \<open>write (&val, sizeof val)\<close> see.
\<close>

definition le_bytes :: "'a::len word \<Rightarrow> byte list" where
  "le_bytes w = map (\<lambda>i. ucast (drop_bit (8 * i) w)) [0..<LENGTH('a) div 8]"

fun of_le_bytes :: "byte list \<Rightarrow> 'a::len word" where
  "of_le_bytes [] = 0"
| "of_le_bytes (x # xs) = ucast x OR push_bit 8 (of_le_bytes xs)"

lemma length_le_bytes [simp]: "length (le_bytes (w :: 'a::len word)) = LENGTH('a) div 8"
  by (simp add: le_bytes_def)

lemma bit_of_le_bytes:
  "bit (of_le_bytes bs :: 'a::len word) n \<longleftrightarrow>
     n < LENGTH('a) \<and> n div 8 < length bs \<and> bit (bs ! (n div 8)) (n mod 8)"
proof (induction bs arbitrary: n)
  case Nil
  then show ?case by simp
next
  case (Cons x xs)
  show ?case
  proof (cases "n < 8")
    case True
    then show ?thesis by (auto simp: bit_simps)
  next
    case False
    then have "n div 8 = Suc ((n - 8) div 8)" and "n mod 8 = (n - 8) mod 8"
      by (simp_all add: le_div_geq le_mod_geq)
    moreover have "\<not> bit x n" using False by (auto dest: bit_imp_le_length)
    ultimately show ?thesis
      using False by (auto simp: bit_simps Cons.IH)
  qed
qed

lemma of_le_bytes_le_bytes [simp]:
  assumes "8 dvd LENGTH('a)"
  shows "of_le_bytes (le_bytes (w :: 'a::len word)) = w"
proof (rule bit_word_eqI)
  fix n assume n: "n < LENGTH('a)"
  have "n div 8 < LENGTH('a) div 8"
    using n assms by (auto simp: less_mult_imp_div_less)
  then show "bit (of_le_bytes (le_bytes w) :: 'a word) n = bit w n"
    using n by (simp add: bit_of_le_bytes le_bytes_def bit_simps)
qed

lemma le_bytes_of_le_bytes:
  assumes "length bs = LENGTH('a) div 8"
  shows "le_bytes (of_le_bytes bs :: 'a::len word) = bs"
proof (rule nth_equalityI)
  show "length (le_bytes (of_le_bytes bs :: 'a word)) = length bs" using assms by simp
next
  fix i assume "i < length (le_bytes (of_le_bytes bs :: 'a word))"
  then have i: "i < LENGTH('a) div 8" by simp
  show "le_bytes (of_le_bytes bs :: 'a word) ! i = bs ! i"
  proof (rule bit_word_eqI)
    fix n assume "n < LENGTH(8)"
    then have n: "n < 8" by simp
    have "8 * i + n < LENGTH('a)" using i n by linarith
    then show "bit (le_bytes (of_le_bytes bs :: 'a word) ! i) n = bit (bs ! i) n"
      using i n assms by (simp add: le_bytes_def bit_simps bit_of_le_bytes)
  qed
qed

section \<open>Swapping\<close>

text \<open>
  \<open>byteswap\<close> is one template per size, each calling \<open>bswap_16\<close>, \<open>bswap_32\<close> or \<open>bswap_64\<close>
  of the C library, which reverse the bytes of their argument.
\<close>

definition byteswap :: "'a::len word \<Rightarrow> 'a word" where
  "byteswap v = of_le_bytes (rev (le_bytes v))"

lemma le_bytes_byteswap: "le_bytes (byteswap v) = rev (le_bytes v)"
  by (simp add: byteswap_def le_bytes_of_le_bytes)

lemma byteswap_byteswap [simp]: "8 dvd LENGTH('a) \<Longrightarrow> byteswap (byteswap v) = (v :: 'a::len word)"
  by (simp add: byteswap_def le_bytes_of_le_bytes)

text \<open>
  The preprocessor test \<^verbatim>\<open>#if COOL_ORDER == BIG_ENDIAN\<close>: \<^verbatim>\<open>COOL_ORDER\<close> is defined nowhere, and
  an undefined name is 0, so the test is about whether \<^verbatim>\<open>BIG_ENDIAN\<close> is known at that point.
\<close>

definition byte_order :: "int option \<Rightarrow> endian" where
  "byte_order big_endian_macro =
     (if 0 = (case big_endian_macro of None \<Rightarrow> 0 | Some v \<Rightarrow> v) then COOL_BIG_ENDIAN else COOL_LITTLE_ENDIAN)"

text \<open>
  In bytearray.cpp and address.cpp the headers included before endian.h have already brought
  in the C library's definition of \<^verbatim>\<open>BIG_ENDIAN\<close>, 4321.
\<close>

definition COOL_BYTE_ORDER :: endian where
  "COOL_BYTE_ORDER = byte_order (Some 4321)"

lemma COOL_BYTE_ORDER_little [simp]: "COOL_BYTE_ORDER = COOL_LITTLE_ENDIAN"
  by (simp add: COOL_BYTE_ORDER_def byte_order_def)

definition byteswapOnLittleEndian :: "'a::len word \<Rightarrow> 'a word" where
  "byteswapOnLittleEndian t = (if COOL_BYTE_ORDER = COOL_BIG_ENDIAN then t else byteswap t)"

definition byteswapOnBigEndian :: "'a::len word \<Rightarrow> 'a word" where
  "byteswapOnBigEndian t = (if COOL_BYTE_ORDER = COOL_BIG_ENDIAN then byteswap t else t)"

lemma byteswapOnLittleEndian_twice [simp]:
  "8 dvd LENGTH('a) \<Longrightarrow> byteswapOnLittleEndian (byteswapOnLittleEndian v) = (v :: 'a::len word)"
  by (simp add: byteswapOnLittleEndian_def)

end
