(* ===== verification/Cool_ByteArray.thy ===== *)
theory Cool_ByteArray
  imports Cool_Text Cool_Endian
begin

text \<open>
  The block storage of \<^verbatim>\<open>cool::ByteArray\<close> (src/bytearray.h, src/bytearray.cpp): the chain of
  fixed-size nodes, the cursor into it, growth, raw reads and writes, repositioning, the
  scatter/gather views and the file transfer. The typed readers and writers on top of it are
  in the theory \<open>Cool_Codec\<close>.

  Sizes and positions are natural numbers: the invariant \<open>ba_wf\<close> keeps every difference the
  code forms on \<open>size_t\<close> non-negative, and sums are bounded by the allocated memory.
\<close>

section \<open>State\<close>

text \<open>
  A node is its buffer; \<open>Node::size\<close> is the buffer's length. The chain linked through
  \<open>Node::next\<close> from \<open>m_root\<close> is a list, and a \<open>Node*\<close> is the index of a node of the chain,
  or \<open>None\<close> for \<open>nullptr\<close>. The contents of memory obtained from \<open>new char[s]\<close> are
  indeterminate: \<open>m_fresh\<close> is an arbitrary function that supplies them.
\<close>

type_synonym node = "byte list"
type_synonym node_ptr = "nat option"

record byte_array =
  m_base_size :: nat
  m_pos :: nat
  m_capacity :: nat
  m_size :: nat
  m_endian :: endian
  m_root :: "node list"
  m_cur :: node_ptr
  m_fresh :: "nat \<Rightarrow> byte"

definition new_node :: "(nat \<Rightarrow> byte) \<Rightarrow> nat \<Rightarrow> node" where
  "new_node fresh s = map fresh [0..<s]"

definition node_next :: "node list \<Rightarrow> nat \<Rightarrow> node_ptr" where
  "node_next ns c = (if Suc c < length ns then Some (Suc c) else None)"

definition deref :: "node list \<Rightarrow> node_ptr \<Rightarrow> node outcome" where
  "deref ns p = (case p of None \<Rightarrow> Inl Null_deref
                 | Some c \<Rightarrow> if c < length ns then Inr (ns ! c) else Inl Null_deref)"

text \<open>\<open>memcpy\<close> into and out of a node's buffer; going past its end is a fault.\<close>

definition memcpy_to :: "node \<Rightarrow> nat \<Rightarrow> byte list \<Rightarrow> node outcome" where
  "memcpy_to n i xs = (if i + length xs \<le> length n then Inr (overwrite i xs n) else Inl Out_of_bounds)"

definition memcpy_from :: "node \<Rightarrow> nat \<Rightarrow> nat \<Rightarrow> byte list outcome" where
  "memcpy_from n i k = (if i + k \<le> length n then Inr (take k (drop i n)) else Inl Out_of_bounds)"

definition ByteArray_new :: "(nat \<Rightarrow> byte) \<Rightarrow> nat \<Rightarrow> byte_array" where
  "ByteArray_new fresh base_size =
     \<lparr>m_base_size = base_size, m_pos = 0, m_capacity = base_size, m_size = 0,
      m_endian = COOL_BIG_ENDIAN, m_root = [new_node fresh base_size], m_cur = Some 0,
      m_fresh = fresh\<rparr>"

section \<open>Operations\<close>

definition isLittleEndian :: "byte_array \<Rightarrow> bool" where
  "isLittleEndian ba = (m_endian ba = COOL_LITTLE_ENDIAN)"

definition setIsLittleEndian :: "bool \<Rightarrow> byte_array \<Rightarrow> byte_array" where
  "setIsLittleEndian val ba =
     (if val then ba\<lparr>m_endian := COOL_LITTLE_ENDIAN\<rparr> else ba\<lparr>m_endian := COOL_BIG_ENDIAN\<rparr>)"

definition getBaseSize :: "byte_array \<Rightarrow> nat" where
  "getBaseSize ba = m_base_size ba"

definition getReadSize :: "byte_array \<Rightarrow> nat" where
  "getReadSize ba = m_size ba - m_pos ba"

definition getCapacity :: "byte_array \<Rightarrow> nat" where
  "getCapacity ba = m_capacity ba - m_pos ba"

definition getSize :: "byte_array \<Rightarrow> nat" where
  "getSize ba = m_size ba"

text \<open>\<open>clear\<close> frees every node after the root and rewinds; the root keeps its buffer.\<close>

definition ba_clear :: "byte_array \<Rightarrow> byte_array" where
  "ba_clear ba = ba\<lparr>m_pos := 0, m_size := 0, m_capacity := m_base_size ba,
                    m_root := take 1 (m_root ba), m_cur := Some 0\<rparr>"

text \<open>
  The number of nodes \<open>addCapacity\<close> allocates, as the code computes it: \<open>size\<close> is first
  reduced by \<open>old_cap\<close>, and the remainder is then compared with \<open>old_cap\<close>.
\<close>

definition node_count :: "nat \<Rightarrow> nat \<Rightarrow> nat \<Rightarrow> nat" where
  "node_count base old_cap sz =
     (let sz = sz - old_cap
      in sz div base + (if sz mod base > old_cap then 1 else 0))"

definition addCapacity :: "nat \<Rightarrow> byte_array \<Rightarrow> byte_array" where
  "addCapacity sz ba =
     (if sz = 0 then ba
      else let old_cap = getCapacity ba in
        if old_cap \<ge> sz then ba
        else let count = node_count (m_base_size ba) old_cap sz;
                 first = (if count = 0 then None else Some (length (m_root ba)));
                 ba' = ba\<lparr>m_root := m_root ba @ replicate count (new_node (m_fresh ba) (m_base_size ba)),
                          m_capacity := m_capacity ba + count * m_base_size ba\<rparr>
             in if old_cap = 0 then ba'\<lparr>m_cur := first\<rparr> else ba')"

text \<open>
  The copy loop of \<open>write\<close>. Every round either finishes or moves \<open>m_cur\<close> to the next node,
  so the loop ends; following \<open>next\<close> off the end of the chain dereferences a null pointer.
\<close>

function write_loop ::
  "node list \<Rightarrow> node_ptr \<Rightarrow> nat \<Rightarrow> nat \<Rightarrow> nat \<Rightarrow> byte list \<Rightarrow> (node list \<times> node_ptr \<times> nat) outcome" where
  "write_loop ns cur npos ncap pos buf =
     (if buf = [] then Inr (ns, cur, pos)
      else case cur of
        None \<Rightarrow> Inl Null_deref
      | Some c \<Rightarrow>
          if \<not> c < length ns then Inl Null_deref
          else if ncap \<ge> length buf then
            bindE (memcpy_to (ns ! c) npos buf) (\<lambda>n.
              Inr (ns[c := n],
                   (if length (ns ! c) = npos + length buf then node_next ns c else cur),
                   pos + length buf))
          else
            bindE (memcpy_to (ns ! c) npos (take ncap buf)) (\<lambda>n.
              case node_next ns c of
                None \<Rightarrow> Inl Null_deref
              | Some c' \<Rightarrow>
                  write_loop (ns[c := n]) (Some c') 0 (length (ns ! c')) (pos + ncap) (drop ncap buf)))"
  by pat_completeness auto
termination
  by (relation "measure (\<lambda>(ns, cur, _). case cur of None \<Rightarrow> 0 | Some c \<Rightarrow> length ns - c)")
    (auto simp: node_next_def split: if_splits)

declare write_loop.simps [simp del]

definition ba_write :: "byte list \<Rightarrow> byte_array \<Rightarrow> byte_array outcome" where
  "ba_write buf ba =
     (if length buf = 0 then Inr ba
      else let ba = addCapacity (length buf) ba;
               npos = m_pos ba mod m_base_size ba in
        bindE (deref (m_root ba) (m_cur ba)) (\<lambda>n.
        bindE (write_loop (m_root ba) (m_cur ba) npos (length n - npos) (m_pos ba) buf)
          (\<lambda>(ns, cur, pos).
             Inr (ba\<lparr>m_root := ns, m_cur := cur, m_pos := pos,
                     m_size := (if pos > m_size ba then pos else m_size ba)\<rparr>))))"

text \<open>
  The copy loop of the two \<open>read\<close> overloads; \<open>buf\<close> collects the bytes copied so far.
\<close>

function read_loop ::
  "node list \<Rightarrow> node_ptr \<Rightarrow> nat \<Rightarrow> nat \<Rightarrow> nat \<Rightarrow> nat \<Rightarrow> byte list \<Rightarrow>
     (byte list \<times> node_ptr \<times> nat) outcome" where
  "read_loop ns cur npos ncap pos sz buf =
     (if sz = 0 then Inr (buf, cur, pos)
      else case cur of
        None \<Rightarrow> Inl Null_deref
      | Some c \<Rightarrow>
          if \<not> c < length ns then Inl Null_deref
          else if ncap \<ge> sz then
            bindE (memcpy_from (ns ! c) npos sz) (\<lambda>xs.
              Inr (buf @ xs,
                   (if length (ns ! c) = npos + sz then node_next ns c else cur),
                   pos + sz))
          else
            bindE (memcpy_from (ns ! c) npos ncap) (\<lambda>xs.
              case node_next ns c of
                None \<Rightarrow> Inl Null_deref
              | Some c' \<Rightarrow>
                  read_loop ns (Some c') 0 (length (ns ! c')) (pos + ncap) (sz - ncap) (buf @ xs)))"
  by pat_completeness auto
termination
  by (relation "measure (\<lambda>(ns, cur, _). case cur of None \<Rightarrow> 0 | Some c \<Rightarrow> length ns - c)")
    (auto simp: node_next_def split: if_splits)

declare read_loop.simps [simp del]

definition ba_read :: "nat \<Rightarrow> byte_array \<Rightarrow> (byte list \<times> byte_array) outcome" where
  "ba_read sz ba =
     (if sz > getReadSize ba then Inl (Exception ''not enough len'')
      else let npos = m_pos ba mod m_base_size ba in
        bindE (deref (m_root ba) (m_cur ba)) (\<lambda>n.
        bindE (read_loop (m_root ba) (m_cur ba) npos (length n - npos) (m_pos ba) sz [])
          (\<lambda>(buf, cur, pos). Inr (buf, ba\<lparr>m_cur := cur, m_pos := pos\<rparr>))))"

text \<open>
  The \<open>const\<close> overload with an explicit position: the offset inside the node comes from
  \<open>pos\<close>, the node itself from the current cursor.
\<close>

definition ba_read_at :: "nat \<Rightarrow> nat \<Rightarrow> byte_array \<Rightarrow> byte list outcome" where
  "ba_read_at sz pos ba =
     (if sz > getReadSize ba then Inl (Exception ''not enough len'')
      else let npos = pos mod m_base_size ba in
        bindE (deref (m_root ba) (m_cur ba)) (\<lambda>n.
        bindE (read_loop (m_root ba) (m_cur ba) npos (length n - npos) pos sz [])
          (\<lambda>(buf, cur, pos). Inr buf)))"

text \<open>The node search of \<open>position\<close>: \<open>while (val > m_cur->sz)\<close>, then one more step on equality.\<close>

fun position_loop :: "node list \<Rightarrow> nat \<Rightarrow> nat \<Rightarrow> node_ptr outcome" where
  "position_loop [] c val = Inl Null_deref"
| "position_loop (n # ns) c val =
     (if val > length n then position_loop ns (Suc c) (val - length n)
      else if val = length n then Inr (if ns = [] then None else Some (Suc c))
      else Inr (Some c))"

definition ba_set_position :: "nat \<Rightarrow> byte_array \<Rightarrow> byte_array outcome" where
  "ba_set_position val ba =
     (if val > m_capacity ba then Inl (Exception ''set pos out of range'')
      else bindE (position_loop (m_root ba) 0 val) (\<lambda>cur.
        Inr (ba\<lparr>m_pos := val, m_size := (if val > m_size ba then val else m_size ba), m_cur := cur\<rparr>)))"

definition ba_to_string :: "byte_array \<Rightarrow> byte list outcome" where
  "ba_to_string ba =
     (if getReadSize ba = 0 then Inr []
      else ba_read_at (getReadSize ba) (m_pos ba) ba)"


text \<open>Two hexadecimal digits and a blank per byte, a line break before every 32nd byte but the first.\<close>

fun hex_dump :: "nat \<Rightarrow> byte list \<Rightarrow> string" where
  "hex_dump i [] = []"
| "hex_dump i (x # xs) =
     (if i > 0 \<and> i mod 32 = 0 then [CHR 0x0A] else []) @
     [hex_digit (unat x div 16), hex_digit (unat x mod 16), CHR '' ''] @ hex_dump (Suc i) xs"

definition ba_to_hex_string :: "byte_array \<Rightarrow> string outcome" where
  "ba_to_hex_string ba = bindE (ba_to_string ba) (\<lambda>str. Inr (hex_dump 0 str))"

subsection \<open>Scatter/gather views\<close>

text \<open>
  An \<open>iovec\<close> is the node it points into, the offset in its buffer and the length. The loop is
  the same text in the three functions that build such vectors.
\<close>

type_synonym iovec = "nat \<times> nat \<times> nat"

function iov_loop :: "node list \<Rightarrow> node_ptr \<Rightarrow> nat \<Rightarrow> nat \<Rightarrow> nat \<Rightarrow> iovec list \<Rightarrow> iovec list outcome" where
  "iov_loop ns cur npos ncap len buffers =
     (if len = 0 then Inr buffers
      else case cur of
        None \<Rightarrow> Inl Null_deref
      | Some c \<Rightarrow>
          if \<not> c < length ns then Inl Null_deref
          else if ncap \<ge> len then Inr (buffers @ [(c, npos, len)])
          else (case node_next ns c of
            None \<Rightarrow> Inl Null_deref
          | Some c' \<Rightarrow>
              iov_loop ns (Some c') 0 (length (ns ! c')) (len - ncap) (buffers @ [(c, npos, ncap)])))"
  by pat_completeness auto
termination
  by (relation "measure (\<lambda>(ns, cur, _). case cur of None \<Rightarrow> 0 | Some c \<Rightarrow> length ns - c)")
    (auto simp: node_next_def split: if_splits)

declare iov_loop.simps [simp del]

definition getReadBuffers :: "iovec list \<Rightarrow> nat \<Rightarrow> byte_array \<Rightarrow> (nat \<times> iovec list) outcome" where
  "getReadBuffers buffers len ba =
     (let len = (if len > getReadSize ba then getReadSize ba else len) in
      if len = 0 then Inr (0, buffers)
      else let npos = m_pos ba mod m_base_size ba in
        bindE (deref (m_root ba) (m_cur ba)) (\<lambda>n.
        bindE (iov_loop (m_root ba) (m_cur ba) npos (length n - npos) len buffers) (\<lambda>bufs.
          Inr (len, bufs))))"

text \<open>The overload with a position walks \<open>count\<close> nodes from the root.\<close>

fun walk :: "node list \<Rightarrow> node_ptr \<Rightarrow> nat \<Rightarrow> node_ptr outcome" where
  "walk ns cur 0 = Inr cur"
| "walk ns cur (Suc count) =
     (case cur of None \<Rightarrow> Inl Null_deref | Some c \<Rightarrow> walk ns (node_next ns c) count)"

definition getReadBuffers_at :: "iovec list \<Rightarrow> nat \<Rightarrow> nat \<Rightarrow> byte_array \<Rightarrow> (nat \<times> iovec list) outcome" where
  "getReadBuffers_at buffers len pos ba =
     (let len = (if len > getReadSize ba then getReadSize ba else len) in
      if len = 0 then Inr (0, buffers)
      else let npos = pos mod m_base_size ba; count = pos div m_base_size ba in
        bindE (walk (m_root ba) (Some 0) count) (\<lambda>cur.
        bindE (deref (m_root ba) cur) (\<lambda>n.
        bindE (iov_loop (m_root ba) cur npos (length n - npos) len buffers) (\<lambda>bufs.
          Inr (len, bufs)))))"

definition getWriteBuffers ::
  "iovec list \<Rightarrow> nat \<Rightarrow> byte_array \<Rightarrow> (nat \<times> iovec list \<times> byte_array) outcome" where
  "getWriteBuffers buffers len ba =
     (if len = 0 then Inr (0, buffers, ba)
      else let ba = addCapacity len ba; npos = m_pos ba mod m_base_size ba in
        bindE (deref (m_root ba) (m_cur ba)) (\<lambda>n.
        bindE (iov_loop (m_root ba) (m_cur ba) npos (length n - npos) len buffers) (\<lambda>bufs.
          Inr (len, bufs, ba))))"

subsection \<open>Files\<close>

text \<open>
  \<open>writeToFile\<close>: \<open>opened\<close> is whether the output stream could be opened; the result is the
  value returned and the bytes the stream received. A node is skipped on every round.
\<close>

function file_loop :: "node list \<Rightarrow> int \<Rightarrow> node_ptr \<Rightarrow> int \<Rightarrow> int \<Rightarrow> byte list \<Rightarrow> byte list outcome" where
  "file_loop ns base cur pos read_size out =
     (if \<not> read_size > 0 then Inr out
      else let diff = pos mod base;
               len = (if read_size > base then base else read_size) - diff in
        case cur of
          None \<Rightarrow> Inl Null_deref
        | Some c \<Rightarrow>
            if \<not> c < length ns then Inl Null_deref
            else if len < 0 then Inl Bad_count
            else bindE (memcpy_from (ns ! c) (nat diff) (nat len)) (\<lambda>xs.
              file_loop ns base (node_next ns c) (pos + len) (read_size - len) (out @ xs)))"
  by pat_completeness auto
termination
  by (relation "measure (\<lambda>(ns, _, cur, _). case cur of None \<Rightarrow> 0 | Some c \<Rightarrow> Suc (length ns) - c)")
    (auto simp: node_next_def split: option.splits if_splits)

declare file_loop.simps [simp del]

definition writeToFile :: "bool \<Rightarrow> byte_array \<Rightarrow> (bool \<times> byte list) outcome" where
  "writeToFile opened ba =
     (if \<not> opened then Inr (False, [])
      else bindE (file_loop (m_root ba) (int (m_base_size ba)) (m_cur ba) (int (m_pos ba))
                    (int (getReadSize ba)) [])
             (\<lambda>out. Inr (True, out)))"

text \<open>
  \<open>readFromFile\<close>: the stream is \<open>None\<close> when it cannot be opened. A read sets \<open>eof\<close> when fewer
  than \<open>m_base_size\<close> bytes are left, and the short block is written too.
\<close>

function read_file_loop :: "byte list \<Rightarrow> byte_array \<Rightarrow> byte_array outcome" where
  "read_file_loop ifs ba =
     (if m_base_size ba = 0 then Inl Diverges
      else if length ifs < m_base_size ba then ba_write ifs ba
      else bindE (ba_write (take (m_base_size ba) ifs) ba) (\<lambda>ba'.
             read_file_loop (drop (m_base_size ba) ifs) ba'))"
  by pat_completeness auto
termination
  by (relation "measure (\<lambda>(ifs, _). length ifs)") auto

declare read_file_loop.simps [simp del]

definition readFromFile :: "byte list option \<Rightarrow> byte_array \<Rightarrow> (bool \<times> byte_array) outcome" where
  "readFromFile file ba =
     (case file of None \<Rightarrow> Inr (False, ba)
      | Some ifs \<Rightarrow> bindE (read_file_loop ifs ba) (\<lambda>ba'. Inr (True, ba')))"

section \<open>Invariant and abstraction\<close>

text \<open>
  The canonical cursor for an absolute position: the node that holds it, or \<open>nullptr\<close> when
  the position is the end of the chain.
\<close>

definition ptr_at :: "nat \<Rightarrow> nat \<Rightarrow> nat \<Rightarrow> node_ptr" where
  "ptr_at k b p = (if p div b < k then Some (p div b) else None)"

definition ba_wf :: "byte_array \<Rightarrow> bool" where
  "ba_wf ba \<longleftrightarrow>
     0 < m_base_size ba \<and> m_root ba \<noteq> [] \<and> uniform (m_base_size ba) (m_root ba) \<and>
     m_capacity ba = length (m_root ba) * m_base_size ba \<and>
     m_pos ba \<le> m_size ba \<and> m_size ba \<le> m_capacity ba \<and>
     m_cur ba = ptr_at (length (m_root ba)) (m_base_size ba) (m_pos ba)"

text \<open>The byte sequence an array stands for: the written prefix of the concatenated nodes.\<close>

definition content :: "byte_array \<Rightarrow> byte list" where
  "content ba = take (m_size ba) (concat (m_root ba))"

lemma length_concat_root: "ba_wf ba \<Longrightarrow> length (concat (m_root ba)) = m_capacity ba"
  by (simp add: ba_wf_def length_concat_uniform)

lemma length_content [simp]: "ba_wf ba \<Longrightarrow> length (content ba) = m_size ba"
  using length_concat_root [of ba] by (simp add: content_def ba_wf_def)

lemma ptr_at_in: "c < k \<Longrightarrow> i < b \<Longrightarrow> ptr_at k b (c * b + i) = Some c"
  by (simp add: ptr_at_def)

lemma ptr_at_next: "0 < b \<Longrightarrow> ptr_at k b (c * b + b) = (if Suc c < k then Some (Suc c) else None)"
  by (simp add: ptr_at_def)

section \<open>The copy loops\<close>

lemma overwrite_block:
  assumes "uniform b ns" and "c < length ns" and "i \<le> b" and "b - i \<le> length buf"
    and "c * b + i + length buf \<le> length ns * b"
  shows "overwrite (Suc c * b) (drop (b - i) buf)
           (concat (ns[c := overwrite i (take (b - i) buf) (ns ! c)])) =
         overwrite (c * b + i) buf (concat ns)"
proof -
  let ?A = "concat (take c ns)" and ?B = "concat (drop (Suc c) ns)"
  have n: "length (ns ! c) = b" using assms(1,2) by (rule uniform_nth)
  have A: "length ?A = c * b"
    using assms(1,2) length_concat_uniform [of b "take c ns"] by (simp add: uniform_take min_def)
  have B: "length ?B = length ns * b - Suc c * b"
    using length_concat_uniform [OF uniform_drop [OF assms(1)]] by (simp add: diff_mult_distrib)
  have "overwrite (c * b + i) buf (concat ns) = ?A @ overwrite i buf (ns ! c @ ?B)"
    using A by (simp add: concat_split_at [OF assms(2)] overwrite_append_right)
  also have "overwrite i buf (ns ! c @ ?B) =
      overwrite i (take (b - i) buf) (ns ! c) @ overwrite 0 (drop (b - i) buf) ?B"
    by (rule overwrite_split) (use assms n B in auto)
  finally show ?thesis
    using A n assms by (simp add: concat_update overwrite_append_right min_def)
qed

lemma memcpy_to_ok [simp]: "i + length xs \<le> length n \<Longrightarrow> memcpy_to n i xs = Inr (overwrite i xs n)"
  by (simp add: memcpy_to_def)

lemma memcpy_from_ok [simp]: "i + k \<le> length n \<Longrightarrow> memcpy_from n i k = Inr (take k (drop i n))"
  by (simp add: memcpy_from_def)

lemma overwrite_in_block:
  assumes "uniform b ns" and "c < length ns" and "i + length buf \<le> b"
  shows "concat (ns[c := overwrite i buf (ns ! c)]) = overwrite (c * b + i) buf (concat ns)"
proof -
  have A: "length (concat (take c ns)) = c * b"
    using assms(1,2) length_concat_uniform [of b "take c ns"] by (simp add: uniform_take min_def)
  show ?thesis
    using assms A by (simp add: concat_update concat_split_at [OF assms(2)] overwrite_append_right
        overwrite_append_left uniform_nth)
qed

text \<open>
  Within the chain the loop of \<open>write\<close> overwrites exactly the addressed bytes of the
  concatenated nodes and leaves the canonical cursor.
\<close>

lemma write_loop_ok:
  assumes "uniform b ns" and "0 < b" and "c < length ns" and "i < b" and "buf \<noteq> []"
    and "c * b + i + length buf \<le> length ns * b"
  shows "\<exists>ns'. write_loop ns (Some c) i (b - i) pos buf =
            Inr (ns', ptr_at (length ns) b (c * b + i + length buf), pos + length buf) \<and>
          uniform b ns' \<and> length ns' = length ns \<and>
          concat ns' = overwrite (c * b + i) buf (concat ns)"
  using assms
proof (induction "length buf" arbitrary: ns c i pos buf rule: less_induct)
  case less
  note n = uniform_nth [OF less.prems(1,3)]
  show ?case
  proof (cases "b - i \<ge> length buf")
    case True
    then have "length (ns ! c) = i + length buf \<Longrightarrow>
        node_next ns c = ptr_at (length ns) b (c * b + i + length buf)"
      using less.prems n by (simp add: node_next_def ptr_at_next add.assoc)
    moreover have "length (ns ! c) \<noteq> i + length buf \<Longrightarrow>
        Some c = ptr_at (length ns) b (c * b + i + length buf)"
      using True less.prems n by (simp add: add.assoc ptr_at_in)
    ultimately show ?thesis
      using True less.prems n
      by (simp add: write_loop.simps [of ns "Some c"] overwrite_in_block uniform_update)
  next
    case False
    let ?ns = "ns[c := overwrite i (take (b - i) buf) (ns ! c)]"
    have "Suc c * b < length ns * b" using False less.prems by simp
    then have c': "Suc c < length ns" by (simp only: mult_less_cancel2)
    have step: "write_loop ns (Some c) i (b - i) pos buf =
        write_loop ?ns (Some (Suc c)) 0 (b - 0) (pos + (b - i)) (drop (b - i) buf)"
      using False c' less.prems n uniform_nth [OF less.prems(1) c']
      by (simp add: write_loop.simps [of ns "Some c"] node_next_def)
    have "\<exists>ns'. write_loop ?ns (Some (Suc c)) 0 (b - 0) (pos + (b - i)) (drop (b - i) buf) =
            Inr (ns', ptr_at (length ?ns) b (Suc c * b + 0 + length (drop (b - i) buf)),
                 pos + (b - i) + length (drop (b - i) buf)) \<and>
          uniform b ns' \<and> length ns' = length ?ns \<and>
          concat ns' = overwrite (Suc c * b + 0) (drop (b - i) buf) (concat ?ns)"
      by (rule less.hyps) (use False c' less.prems n in \<open>auto intro!: uniform_update\<close>)
    then show ?thesis
      using step False less.prems overwrite_block [of b ns c i buf] by (auto simp: algebra_simps)
  qed
qed

text \<open>Past the end of the chain the loop runs into the null \<open>next\<close> pointer of the last node.\<close>

lemma write_loop_fault:
  assumes "uniform b ns" and "0 < b" and "c < length ns" and "i < b"
    and "length ns * b < c * b + i + length buf"
  shows "write_loop ns (Some c) i (b - i) pos buf = Inl Null_deref"
  using assms
proof (induction "length buf" arbitrary: ns c i pos buf rule: less_induct)
  case less
  note n = uniform_nth [OF less.prems(1,3)]
  have "Suc c * b \<le> length ns * b" using less.prems(3) by (simp only: mult_le_mono1 Suc_leI)
  then have big: "b - i < length buf" using less.prems by simp
  let ?ns = "ns[c := overwrite i (take (b - i) buf) (ns ! c)]"
  show ?case
  proof (cases "Suc c < length ns")
    case True
    have "write_loop ?ns (Some (Suc c)) 0 (b - 0) (pos + (b - i)) (drop (b - i) buf) = Inl Null_deref"
      by (rule less.hyps) (use big True less.prems n in \<open>auto intro!: uniform_update\<close>)
    then show ?thesis
      using True big less.prems n uniform_nth [OF less.prems(1) True]
      by (auto simp: write_loop.simps [of ns "Some c"] node_next_def)
  next
    case False
    then show ?thesis
      using big less.prems n by (auto simp: write_loop.simps [of ns "Some c"] node_next_def)
  qed
qed

lemma read_block:
  assumes "uniform b ns" and "c < length ns" and "i \<le> b" and "b - i \<le> k"
  shows "take k (drop (c * b + i) (concat ns)) =
         drop i (ns ! c) @ take (k - (b - i)) (drop (Suc c * b) (concat ns))"
proof -
  have n: "length (ns ! c) = b" using assms(1,2) by (rule uniform_nth)
  have "drop (c * b + i) (concat ns) = drop i (ns ! c @ concat (drop (Suc c) ns))"
    using drop_concat_uniform [OF assms(1), of c] assms(2)
    by (metis Cons_nth_drop_Suc add.commute concat.simps(2) drop_drop)
  then show ?thesis
    using assms n drop_concat_uniform [OF assms(1), of "Suc c"] by simp
qed

lemma read_in_block:
  assumes "uniform b ns" and "c < length ns" and "i + k \<le> b"
  shows "take k (drop (c * b + i) (concat ns)) = take k (drop i (ns ! c))"
proof -
  have n: "length (ns ! c) = b" using assms(1,2) by (rule uniform_nth)
  have "drop (c * b + i) (concat ns) = drop i (ns ! c @ concat (drop (Suc c) ns))"
    using drop_concat_uniform [OF assms(1), of c] assms(2)
    by (metis Cons_nth_drop_Suc add.commute concat.simps(2) drop_drop)
  then show ?thesis using assms n by simp
qed

lemma read_loop_ok:
  assumes "uniform b ns" and "0 < b" and "c < length ns" and "i < b"
    and "c * b + i + k \<le> length ns * b"
  shows "read_loop ns (Some c) i (b - i) pos k acc =
           Inr (acc @ take k (drop (c * b + i) (concat ns)),
                ptr_at (length ns) b (c * b + i + k), pos + k)"
  using assms
proof (induction k arbitrary: c i pos acc rule: less_induct)
  case (less k)
  note n = uniform_nth [OF less.prems(1,3)]
  consider "k = 0" | "0 < k" "k \<le> b - i" | "b - i < k" by linarith
  then show ?case
  proof cases
    case 1
    then show ?thesis
      using less.prems by (simp add: read_loop.simps [of ns "Some c"] ptr_at_in)
  next
    case 2
    then have "length (ns ! c) = i + k \<Longrightarrow> node_next ns c = ptr_at (length ns) b (c * b + i + k)"
      using less.prems n by (simp add: node_next_def ptr_at_next add.assoc)
    moreover have "length (ns ! c) \<noteq> i + k \<Longrightarrow> Some c = ptr_at (length ns) b (c * b + i + k)"
      using 2 less.prems n by (simp add: add.assoc ptr_at_in)
    ultimately show ?thesis
      using 2 less.prems n by (simp add: read_loop.simps [of ns "Some c"] read_in_block)
  next
    case 3
    have "Suc c * b < length ns * b" using 3 less.prems by simp
    then have c': "Suc c < length ns" by (simp only: mult_less_cancel2)
    have IH: "read_loop ns (Some (Suc c)) 0 (b - 0) (pos + (b - i)) (k - (b - i)) (acc @ drop i (ns ! c)) =
        Inr ((acc @ drop i (ns ! c)) @ take (k - (b - i)) (drop (Suc c * b + 0) (concat ns)),
             ptr_at (length ns) b (Suc c * b + 0 + (k - (b - i))), pos + (b - i) + (k - (b - i)))"
      by (rule less.IH) (use 3 c' less.prems in auto)
    have "Suc c * b + (k - (b - i)) = c * b + i + k" using 3 less.prems by simp
    then show ?thesis
      using IH 3 c' less.prems n uniform_nth [OF less.prems(1) c']
      by (simp add: read_loop.simps [of ns "Some c"] node_next_def read_block [of b ns c i k])
        (simp add: ac_simps)
  qed
qed

section \<open>Growth\<close>

text \<open>
  When the nodes \<open>addCapacity\<close> allocates suffice: there was room already, or the missing
  bytes are a whole number of nodes, or their remainder exceeds the room that was left.
\<close>

definition fits :: "nat \<Rightarrow> byte_array \<Rightarrow> bool" where
  "fits n ba \<longleftrightarrow> n \<le> getCapacity ba \<or>
     (n - getCapacity ba) mod m_base_size ba = 0 \<or>
     getCapacity ba < (n - getCapacity ba) mod m_base_size ba"

lemma length_new_node [simp]: "length (new_node fresh s) = s"
  by (simp add: new_node_def)

lemma uniform_replicate [simp]: "length n = b \<Longrightarrow> uniform b (replicate k n)"
  by (simp add: uniform_def)

lemma addCapacity_frame [simp]:
  "m_base_size (addCapacity n ba) = m_base_size ba"
  "m_pos (addCapacity n ba) = m_pos ba"
  "m_size (addCapacity n ba) = m_size ba"
  "m_endian (addCapacity n ba) = m_endian ba"
  "m_fresh (addCapacity n ba) = m_fresh ba"
  by (simp_all add: addCapacity_def Let_def)

lemma addCapacity_root:
  "\<exists>k. m_root (addCapacity n ba) = m_root ba @ replicate k (new_node (m_fresh ba) (m_base_size ba))"
  by (auto simp: addCapacity_def Let_def intro: exI [of _ 0])

lemma ptr_at_grow: "p < k * b \<Longrightarrow> ptr_at (k + j) b p = ptr_at k b p"
  by (auto simp: ptr_at_def less_mult_imp_div_less trans_less_add1)

lemma addCapacity_wf [simp]: "ba_wf ba \<Longrightarrow> ba_wf (addCapacity n ba)"
proof -
  assume wf: "ba_wf ba"
  show ?thesis
  proof (cases "n = 0 \<or> getCapacity ba \<ge> n")
    case True
    then show ?thesis using wf by (auto simp: addCapacity_def Let_def)
  next
    case False
    let ?k = "length (m_root ba)" and ?b = "m_base_size ba"
    let ?j = "node_count ?b (getCapacity ba) n"
    show ?thesis
    proof (cases "getCapacity ba = 0")
      case True
      then have p: "m_pos ba = ?k * ?b" using wf by (simp add: ba_wf_def getCapacity_def)
      have "0 < n div ?b + (if n mod ?b > 0 then 1 else 0)"
        using False wf by (auto simp: ba_wf_def div_eq_0_iff)
      then have "0 < ?j" using True by (simp add: node_count_def)
      then have "ptr_at (?k + ?j) ?b (m_pos ba) = Some ?k"
        using p wf by (simp add: ptr_at_def ba_wf_def)
      then show ?thesis
        using True False wf \<open>0 < ?j\<close>
        by (simp add: addCapacity_def Let_def ba_wf_def add_mult_distrib)
    next
      case nz: False
      then have "m_pos ba < ?k * ?b" using wf by (simp add: ba_wf_def getCapacity_def)
      then show ?thesis
        using nz False wf
        by (simp add: addCapacity_def Let_def ba_wf_def add_mult_distrib ptr_at_grow)
    qed
  qed
qed

lemma addCapacity_content [simp]: "ba_wf ba \<Longrightarrow> content (addCapacity n ba) = content ba"
  using addCapacity_root [of n ba] length_concat_root [of ba] by (auto simp: content_def ba_wf_def)

text \<open>Growth always leaves room for at least one byte, so the cursor is not null.\<close>

lemma addCapacity_room:
  assumes wf: "ba_wf ba" and n: "0 < n"
  shows "m_pos ba < m_capacity (addCapacity n ba)"
proof (cases "getCapacity ba \<ge> n")
  case True
  then show ?thesis using n by (simp add: addCapacity_def getCapacity_def)
next
  case False
  have "0 < getCapacity ba \<or> 0 < n div m_base_size ba \<or> 0 < n mod m_base_size ba"
    using n wf by (auto simp: ba_wf_def div_eq_0_iff)
  then show ?thesis
    using False wf n
    by (auto simp: addCapacity_def Let_def getCapacity_def node_count_def ba_wf_def)
qed

text \<open>The growth suffices exactly when \<^const>\<open>fits\<close> says so.\<close>

lemma addCapacity_fits:
  assumes wf: "ba_wf ba" and n: "0 < n"
  shows "m_pos ba + n \<le> m_capacity (addCapacity n ba) \<longleftrightarrow> fits n ba"
proof (cases "getCapacity ba \<ge> n")
  case True
  then show ?thesis using n by (simp add: addCapacity_def getCapacity_def fits_def)
next
  case False
  let ?b = "m_base_size ba" and ?a = "getCapacity ba"
  let ?d = "n - ?a"
  have cap: "m_capacity (addCapacity n ba) = m_pos ba + ?a + node_count ?b ?a n * ?b"
    using False n wf by (simp add: addCapacity_def Let_def getCapacity_def ba_wf_def)
  have d: "?d = ?d div ?b * ?b + ?d mod ?b" by simp
  have m: "?d mod ?b < ?b" using wf by (simp add: ba_wf_def)
  have "m_pos ba + n \<le> m_capacity (addCapacity n ba) \<longleftrightarrow> ?d \<le> node_count ?b ?a n * ?b"
    using cap by (simp add: le_diff_conv add.commute)
  also have "\<dots> \<longleftrightarrow> ?d mod ?b \<le> (if ?a < ?d mod ?b then 1 else 0) * ?b"
    using d unfolding node_count_def Let_def add_mult_distrib by linarith
  finally show ?thesis
    using m False by (auto simp: fits_def)
qed

section \<open>Raw writes\<close>

lemma wf_split_pos:
  assumes "ba_wf ba"
  shows "m_pos ba div m_base_size ba * m_base_size ba + m_pos ba mod m_base_size ba = m_pos ba"
    and "m_pos ba mod m_base_size ba < m_base_size ba"
  using assms by (simp_all add: ba_wf_def)

lemma wf_cursor:
  assumes "ba_wf ba" and "m_pos ba < m_capacity ba"
  shows "m_cur ba = Some (m_pos ba div m_base_size ba)"
    and "m_pos ba div m_base_size ba < length (m_root ba)"
  using assms by (simp_all add: ba_wf_def ptr_at_def less_mult_imp_div_less)

lemma ba_write_Nil [simp]: "ba_write [] ba = Inr ba"
  by (simp add: ba_write_def)

lemma ba_write_cases:
  assumes wf: "ba_wf ba" and buf: "buf \<noteq> []"
  defines "ba1 \<equiv> addCapacity (length buf) ba"
  defines "b \<equiv> m_base_size ba"
  shows "ba_write buf ba =
     bindE (write_loop (m_root ba1) (Some (m_pos ba div b)) (m_pos ba mod b)
              (b - m_pos ba mod b) (m_pos ba) buf)
       (\<lambda>(ns, cur, pos). Inr (ba1\<lparr>m_root := ns, m_cur := cur, m_pos := pos,
            m_size := (if pos > m_size ba1 then pos else m_size ba1)\<rparr>))"
    and "m_pos ba div b < length (m_root ba1)"
proof -
  have wf1: "ba_wf ba1" using wf by (simp add: ba1_def)
  have "m_pos ba1 < m_capacity ba1"
    using addCapacity_room [OF wf, of "length buf"] buf by (simp add: ba1_def)
  note cur = wf_cursor [OF wf1 this]
  then show "m_pos ba div b < length (m_root ba1)" by (simp add: ba1_def b_def)
  moreover have "length (m_root ba1 ! (m_pos ba div b)) = b"
    using wf1 cur uniform_nth [of b "m_root ba1"] by (simp add: ba_wf_def ba1_def b_def)
  ultimately show "ba_write buf ba =
     bindE (write_loop (m_root ba1) (Some (m_pos ba div b)) (m_pos ba mod b)
              (b - m_pos ba mod b) (m_pos ba) buf)
       (\<lambda>(ns, cur, pos). Inr (ba1\<lparr>m_root := ns, m_cur := cur, m_pos := pos,
            m_size := (if pos > m_size ba1 then pos else m_size ba1)\<rparr>))"
    using buf cur unfolding ba1_def b_def by (simp add: ba_write_def deref_def Let_def)
qed

text \<open>What a successful write does to the array, seen from outside.\<close>

definition written :: "byte list \<Rightarrow> byte_array \<Rightarrow> byte_array \<Rightarrow> bool" where
  "written buf ba ba' \<longleftrightarrow>
     ba_wf ba' \<and> m_pos ba' = m_pos ba + length buf \<and>
     m_size ba' = max (m_size ba) (m_pos ba + length buf) \<and>
     content ba' = overwrite (m_pos ba) buf (content ba) \<and>
     m_base_size ba' = m_base_size ba \<and> m_endian ba' = m_endian ba"

lemma take_max_overwrite:
  assumes "i \<le> s" and "s \<le> length ys" and "i + length xs \<le> length ys"
  shows "take (max s (i + length xs)) (overwrite i xs ys) = overwrite i xs (take s ys)"
  using assms by (cases "s \<le> i + length xs") (simp_all add: overwrite_def drop_take min.absorb1)

lemma ba_write_ok:
  assumes wf: "ba_wf ba" and "fits (length buf) ba"
  shows "\<exists>ba'. ba_write buf ba = Inr ba' \<and> written buf ba ba'"
proof (cases "buf = []")
  case True
  then show ?thesis using wf by (simp add: written_def ba_wf_def)
next
  case False
  let ?b = "m_base_size ba" and ?ba = "addCapacity (length buf) ba"
  let ?c = "m_pos ba div ?b" and ?i = "m_pos ba mod ?b"
  have wf1: "ba_wf ?ba" using wf by simp
  have cap: "m_pos ba + length buf \<le> m_capacity ?ba"
    using addCapacity_fits [OF wf] assms(2) False by simp
  have "\<exists>ns'. write_loop (m_root ?ba) (Some ?c) ?i (?b - ?i) (m_pos ba) buf =
            Inr (ns', ptr_at (length (m_root ?ba)) ?b (?c * ?b + ?i + length buf), m_pos ba + length buf) \<and>
          uniform ?b ns' \<and> length ns' = length (m_root ?ba) \<and>
          concat ns' = overwrite (?c * ?b + ?i) buf (concat (m_root ?ba))"
    by (rule write_loop_ok) (use wf wf1 False cap ba_write_cases(2) [OF wf False] in \<open>auto simp: ba_wf_def\<close>)
  then obtain ns' where ns':
    "write_loop (m_root ?ba) (Some ?c) ?i (?b - ?i) (m_pos ba) buf =
       Inr (ns', ptr_at (length (m_root ?ba)) ?b (m_pos ba + length buf), m_pos ba + length buf)"
    "uniform ?b ns'" "length ns' = length (m_root ?ba)"
    "concat ns' = overwrite (m_pos ba) buf (concat (m_root ?ba))"
    by auto
  have "take (max (m_size ba) (m_pos ba + length buf)) (concat ns') =
      overwrite (m_pos ba) buf (take (m_size ba) (concat (m_root ?ba)))"
    using ns'(4) wf1 cap length_concat_root [OF wf1]
    by (auto intro!: take_max_overwrite simp: ba_wf_def)
  also have "\<dots> = overwrite (m_pos ba) buf (content ba)"
    using addCapacity_content [OF wf, of "length buf"] by (simp add: content_def)
  finally show ?thesis
    using ns' wf1 cap False
    by (auto simp: ba_write_cases(1) [OF wf] written_def ba_wf_def content_def max_def)
qed

lemma ba_write_fault:
  assumes wf: "ba_wf ba" and "\<not> fits (length buf) ba"
  shows "ba_write buf ba = Inl Null_deref"
proof -
  have ne: "buf \<noteq> []" using assms(2) by (auto simp: fits_def)
  let ?b = "m_base_size ba" and ?ba = "addCapacity (length buf) ba"
  let ?c = "m_pos ba div ?b" and ?i = "m_pos ba mod ?b"
  note wf1 = addCapacity_wf [OF wf, of "length buf", unfolded ba_wf_def]
  have short: "m_capacity ?ba < m_pos ba + length buf"
    using addCapacity_fits [OF wf, of "length buf"] assms(2) ne by simp
  have "write_loop (m_root ?ba) (Some ?c) ?i (?b - ?i) (m_pos ba) buf = Inl Null_deref"
    by (rule write_loop_fault) (use wf1 short ba_write_cases(2) [OF wf ne] in auto)
  then show ?thesis by (simp add: ba_write_cases(1) [OF wf ne])
qed

section \<open>Raw reads\<close>

lemma ba_read_ok:
  assumes wf: "ba_wf ba" and k: "k \<le> getReadSize ba" and room: "m_pos ba < m_capacity ba"
  shows "ba_read k ba =
     Inr (take k (drop (m_pos ba) (content ba)),
          ba\<lparr>m_cur := ptr_at (length (m_root ba)) (m_base_size ba) (m_pos ba + k), m_pos := m_pos ba + k\<rparr>)"
proof -
  let ?b = "m_base_size ba"
  let ?c = "m_pos ba div ?b" and ?i = "m_pos ba mod ?b"
  note cur = wf_cursor [OF wf room]
  have le: "m_pos ba + k \<le> m_size ba"
    using wf k unfolding ba_wf_def getReadSize_def by linarith
  have "read_loop (m_root ba) (Some ?c) ?i (?b - ?i) (m_pos ba) k [] =
      Inr ([] @ take k (drop (?c * ?b + ?i) (concat (m_root ba))),
           ptr_at (length (m_root ba)) ?b (?c * ?b + ?i + k), m_pos ba + k)"
    by (rule read_loop_ok) (use wf le cur in \<open>auto simp: ba_wf_def\<close>)
  moreover have "take k (drop (m_pos ba) (concat (m_root ba))) = take k (drop (m_pos ba) (content ba))"
    using le by (simp add: content_def drop_take min_def)
  moreover have "length (m_root ba ! ?c) = ?b"
    using wf cur uniform_nth [of ?b "m_root ba"] by (simp add: ba_wf_def)
  ultimately show ?thesis
    using k cur by (simp add: ba_read_def deref_def Let_def)
qed

lemma ba_read_at_pos:
  assumes wf: "ba_wf ba" and k: "k \<le> getReadSize ba" and room: "m_pos ba < m_capacity ba"
  shows "ba_read_at k (m_pos ba) ba = Inr (take k (drop (m_pos ba) (content ba)))"
proof -
  have "bindE (ba_read k ba) (\<lambda>(xs, _). Inr xs) = ba_read_at k (m_pos ba) ba"
    by (auto simp: ba_read_def ba_read_at_def bindE_assoc Let_def bindE_def split: sum.splits prod.splits)
  then show ?thesis using ba_read_ok [OF assms] by simp
qed

lemma ba_read_too_long: "getReadSize ba < k \<Longrightarrow> ba_read k ba = Inl (Exception ''not enough len'')"
  by (simp add: ba_read_def)

text \<open>
  At the end of the chain the cursor is null, and \<open>read\<close> dereferences it even for a request
  of zero bytes.
\<close>

lemma ba_read_at_end:
  assumes "ba_wf ba" and "m_pos ba = m_capacity ba"
  shows "ba_read 0 ba = Inl Null_deref"
  using assms by (simp add: ba_read_def ba_wf_def ptr_at_def deref_def Let_def)

definition was_read :: "nat \<Rightarrow> byte_array \<Rightarrow> byte list \<Rightarrow> byte_array \<Rightarrow> bool" where
  "was_read k ba xs ba' \<longleftrightarrow>
     ba_wf ba' \<and> xs = take k (drop (m_pos ba) (content ba)) \<and> length xs = k \<and>
     m_pos ba' = m_pos ba + k \<and> m_size ba' = m_size ba \<and> content ba' = content ba \<and>
     m_base_size ba' = m_base_size ba \<and> m_endian ba' = m_endian ba \<and> m_capacity ba' = m_capacity ba"

lemma ba_read_was_read:
  assumes wf: "ba_wf ba" and k: "k \<le> getReadSize ba" and room: "m_pos ba < m_capacity ba"
  shows "\<exists>xs ba'. ba_read k ba = Inr (xs, ba') \<and> was_read k ba xs ba'"
proof -
  have "m_pos ba + k \<le> m_size ba"
    using wf k unfolding ba_wf_def getReadSize_def by linarith
  then show ?thesis
    using wf length_content [OF wf] by (simp add: ba_read_ok [OF assms] was_read_def ba_wf_def content_def)
qed

section \<open>Repositioning\<close>

lemma position_loop_ok:
  assumes "uniform b ns" and "0 < b" and "ns \<noteq> []" and "val \<le> length ns * b"
  shows "position_loop ns c val = Inr (map_option (\<lambda>i. c + i) (ptr_at (length ns) b val))"
  using assms
proof (induction ns arbitrary: c val)
  case Nil
  then show ?case by simp
next
  case (Cons n ns)
  show ?case
  proof (cases "val > b")
    case True
    then have "ns \<noteq> []" using Cons.prems by auto
    then have "position_loop ns (Suc c) (val - b) =
        Inr (map_option (\<lambda>i. Suc c + i) (ptr_at (length ns) b (val - b)))"
      using Cons.prems by (intro Cons.IH) auto
    moreover have "val div b = Suc ((val - b) div b)"
      using True Cons.prems by (simp add: le_div_geq)
    ultimately show ?thesis
      using True Cons.prems by (simp add: ptr_at_def)
  next
    case False
    then show ?thesis
      using Cons.prems by (cases "val = b") (auto simp: ptr_at_def)
  qed
qed

lemma ba_set_position_ok:
  assumes wf: "ba_wf ba" and "v \<le> m_capacity ba"
  shows "ba_set_position v ba =
    Inr (ba\<lparr>m_pos := v, m_size := max v (m_size ba),
            m_cur := ptr_at (length (m_root ba)) (m_base_size ba) v\<rparr>)"
proof -
  have "position_loop (m_root ba) 0 v = Inr (ptr_at (length (m_root ba)) (m_base_size ba) v)"
    using assms position_loop_ok [of "m_base_size ba" "m_root ba" v 0]
    by (simp add: ba_wf_def option.map_ident)
  then show ?thesis
    using assms(2) by (simp add: ba_set_position_def max_def)
qed

lemma ba_set_position_wf:
  assumes "ba_wf ba" and "ba_set_position v ba = Inr ba'"
  shows "ba_wf ba'"
proof -
  have v: "v \<le> m_capacity ba"
    using assms(2) by (auto simp: ba_set_position_def split: if_splits)
  then show ?thesis
    using assms ba_set_position_ok [OF assms(1) v] by (auto simp: ba_wf_def)
qed

lemma ba_set_position_content:
  assumes "ba_wf ba" and "v \<le> m_size ba"
  shows "\<exists>ba'. ba_set_position v ba = Inr ba' \<and> ba_wf ba' \<and> content ba' = content ba \<and> m_pos ba' = v \<and>
           m_size ba' = m_size ba \<and> m_base_size ba' = m_base_size ba \<and> m_endian ba' = m_endian ba \<and>
           m_capacity ba' = m_capacity ba"
  using assms ba_set_position_ok [of ba v]
  by (auto simp: ba_wf_def content_def max_def)

lemma ba_clear_wf: "ba_wf ba \<Longrightarrow> ba_wf (ba_clear ba) \<and> content (ba_clear ba) = []"
  by (cases "m_root ba") (auto simp: ba_clear_def ba_wf_def content_def ptr_at_def)

lemma ByteArray_new_wf: "0 < b \<Longrightarrow> ba_wf (ByteArray_new f b) \<and> content (ByteArray_new f b) = []"
  by (simp add: ByteArray_new_def ba_wf_def content_def ptr_at_def)

lemma ba_to_string_ok: "ba_wf ba \<Longrightarrow> ba_to_string ba = Inr (drop (m_pos ba) (content ba))"
proof -
  assume wf: "ba_wf ba"
  show ?thesis
  proof (cases "getReadSize ba = 0")
    case True
    then show ?thesis using wf by (simp add: ba_to_string_def getReadSize_def)
  next
    case False
    then have "m_pos ba < m_capacity ba" using wf by (simp add: ba_wf_def getReadSize_def)
    then show ?thesis
      using wf False by (simp add: ba_to_string_def ba_read_at_pos getReadSize_def)
  qed
qed

section \<open>Scatter/gather views\<close>

text \<open>The bytes a vector refers to, and the effect of filling it from a received buffer.\<close>

definition gather :: "node list \<Rightarrow> iovec list \<Rightarrow> byte list" where
  "gather ns v = concat (map (\<lambda>(c, i, k). take k (drop i (ns ! c))) v)"

fun scatter :: "node list \<Rightarrow> iovec list \<Rightarrow> byte list \<Rightarrow> node list" where
  "scatter ns [] data = ns"
| "scatter ns ((c, i, k) # v) data = scatter (ns[c := overwrite i (take k data) (ns ! c)]) v (drop k data)"

definition iov_valid :: "node list \<Rightarrow> iovec list \<Rightarrow> bool" where
  "iov_valid ns v \<longleftrightarrow> (\<forall>(c, i, k) \<in> set v. c < length ns \<and> 0 < k \<and> i + k \<le> length (ns ! c))"

lemma gather_append [simp]: "gather ns (v @ w) = gather ns v @ gather ns w"
  by (simp add: gather_def)

lemma gather_Nil [simp]: "gather ns [] = []"
  by (simp add: gather_def)

lemma gather_Cons [simp]: "gather ns ((c, i, k) # v) = take k (drop i (ns ! c)) @ gather ns v"
  by (simp add: gather_def)

lemma scatter_Nil [simp]: "scatter ns v [] = ns"
  by (induction ns v "[] :: byte list" rule: scatter.induct) simp_all

lemma iov_valid_Nil [simp]: "iov_valid ns []"
  by (simp add: iov_valid_def)

lemma iov_valid_append [simp]: "iov_valid ns (v @ w) \<longleftrightarrow> iov_valid ns v \<and> iov_valid ns w"
  by (simp add: iov_valid_def ball_Un)

lemma iov_valid_Cons [simp]:
  "iov_valid ns ((c, i, k) # v) \<longleftrightarrow> c < length ns \<and> 0 < k \<and> i + k \<le> length (ns ! c) \<and> iov_valid ns v"
  by (auto simp: iov_valid_def)

text \<open>
  Inside the chain the vector built by the loop is valid memory, denotes the addressed bytes,
  and filling it overwrites exactly those bytes.
\<close>

lemma iov_loop_ok:
  assumes "uniform b ns" and "0 < b" and "c < length ns" and "i < b" and "0 < len"
    and "c * b + i + len \<le> length ns * b"
  shows "\<exists>v. iov_loop ns (Some c) i (b - i) len acc = Inr (acc @ v) \<and> iov_valid ns v \<and>
           gather ns v = take len (drop (c * b + i) (concat ns)) \<and>
           (\<forall>ms data. uniform b ms \<longrightarrow> length ms = length ns \<longrightarrow> length data \<le> len \<longrightarrow>
              uniform b (scatter ms v data) \<and> length (scatter ms v data) = length ns \<and>
              concat (scatter ms v data) = overwrite (c * b + i) data (concat ms))"
  using assms
proof (induction len arbitrary: c i acc rule: less_induct)
  case (less len)
  note n = uniform_nth [OF less.prems(1,3)]
  show ?case
  proof (cases "len \<le> b - i")
    case True
    then have "iov_loop ns (Some c) i (b - i) len acc = Inr (acc @ [(c, i, len)])"
      using less.prems by (simp add: iov_loop.simps [of ns "Some c"])
    moreover have "uniform b (ms[c := overwrite i data (ms ! c)]) \<and>
        concat (ms[c := overwrite i data (ms ! c)]) = overwrite (c * b + i) data (concat ms)"
      if "uniform b ms" "length ms = length ns" "length data \<le> len" for ms and data :: "byte list"
      using that True less.prems
      by (auto simp: overwrite_in_block uniform_nth intro!: uniform_update)
    ultimately show ?thesis
      using True less.prems n by (intro exI [of _ "[(c, i, len)]"]) (auto simp: read_in_block)
  next
    case False
    have "Suc c * b < length ns * b" using False less.prems by simp
    then have c': "Suc c < length ns" by (simp only: mult_less_cancel2)
    have "\<exists>v. iov_loop ns (Some (Suc c)) 0 (b - 0) (len - (b - i)) (acc @ [(c, i, b - i)]) =
             Inr ((acc @ [(c, i, b - i)]) @ v) \<and> iov_valid ns v \<and>
           gather ns v = take (len - (b - i)) (drop (Suc c * b + 0) (concat ns)) \<and>
           (\<forall>ms data. uniform b ms \<longrightarrow> length ms = length ns \<longrightarrow> length data \<le> len - (b - i) \<longrightarrow>
              uniform b (scatter ms v data) \<and> length (scatter ms v data) = length ns \<and>
              concat (scatter ms v data) = overwrite (Suc c * b + 0) data (concat ms))"
      by (rule less.IH) (use False c' less.prems in auto)
    then obtain v where v:
      "iov_loop ns (Some (Suc c)) 0 b (len - (b - i)) (acc @ [(c, i, b - i)]) = Inr ((acc @ [(c, i, b - i)]) @ v)"
      "iov_valid ns v" "gather ns v = take (len - (b - i)) (drop (Suc c * b) (concat ns))"
      and sc: "\<And>ms data. uniform b ms \<Longrightarrow> length ms = length ns \<Longrightarrow> length data \<le> len - (b - i) \<Longrightarrow>
              uniform b (scatter ms v data) \<and> length (scatter ms v data) = length ns \<and>
              concat (scatter ms v data) = overwrite (Suc c * b) data (concat ms)"
      by auto
    have "iov_loop ns (Some c) i (b - i) len acc = Inr (acc @ (c, i, b - i) # v)"
      using v(1) False c' less.prems uniform_nth [OF less.prems(1) c']
      by (simp add: iov_loop.simps [of ns "Some c"] node_next_def)
    moreover have "uniform b (scatter ms ((c, i, b - i) # v) data) \<and>
        length (scatter ms ((c, i, b - i) # v) data) = length ns \<and>
        concat (scatter ms ((c, i, b - i) # v) data) = overwrite (c * b + i) data (concat ms)"
      if ms: "uniform b ms" "length ms = length ns" "length data \<le> len" for ms data
    proof (cases "length data \<le> b - i")
      case True
      then show ?thesis
        using ms less.prems by (auto simp: overwrite_in_block uniform_nth intro!: uniform_update)
    next
      case long: False
      let ?ms = "ms[c := overwrite i (take (b - i) data) (ms ! c)]"
      have "uniform b ?ms"
        using ms less.prems long by (auto simp: uniform_nth intro!: uniform_update)
      then show ?thesis
        using sc [of ?ms "drop (b - i) data"] ms less.prems long overwrite_block [of b ms c i data]
        by simp
    qed
    ultimately show ?thesis
      using v(2,3) less.prems n False read_block [of b ns c i len]
      by (intro exI [of _ "(c, i, b - i) # v"]) auto
  qed
qed

lemma wf_cursor_node:
  assumes "ba_wf ba" and "m_pos ba < m_capacity ba"
  shows "deref (m_root ba) (m_cur ba) = Inr (m_root ba ! (m_pos ba div m_base_size ba))"
    and "length (m_root ba ! (m_pos ba div m_base_size ba)) = m_base_size ba"
proof -
  show "deref (m_root ba) (m_cur ba) = Inr (m_root ba ! (m_pos ba div m_base_size ba))"
    using wf_cursor [OF assms] by (simp add: deref_def)
  show "length (m_root ba ! (m_pos ba div m_base_size ba)) = m_base_size ba"
    using assms(1) wf_cursor(2) [OF assms] by (simp add: uniform_nth ba_wf_def)
qed

lemma take_min_content:
  assumes "ba_wf ba" and "k \<le> getReadSize ba"
  shows "take k (drop (m_pos ba) (concat (m_root ba))) = take k (drop (m_pos ba) (content ba))"
proof -
  have "m_pos ba + k \<le> m_size ba"
    using assms unfolding ba_wf_def getReadSize_def by linarith
  then show ?thesis by (simp add: content_def drop_take min_def)
qed

lemma getReadBuffers_ok:
  assumes wf: "ba_wf ba"
  shows "\<exists>v. getReadBuffers bufs len ba = Inr (min len (getReadSize ba), bufs @ v) \<and>
           iov_valid (m_root ba) v \<and>
           gather (m_root ba) v = take (min len (getReadSize ba)) (drop (m_pos ba) (content ba))"
proof (cases "min len (getReadSize ba) = 0")
  case True
  then show ?thesis by (auto simp: getReadBuffers_def Let_def intro!: exI [of _ "[]"])
next
  case False
  let ?l = "min len (getReadSize ba)" and ?b = "m_base_size ba"
  let ?c = "m_pos ba div ?b" and ?i = "m_pos ba mod ?b"
  have room: "m_pos ba < m_capacity ba" "m_pos ba + ?l \<le> m_capacity ba"
    using wf False unfolding ba_wf_def getReadSize_def by linarith+
  note cur = wf_cursor [OF wf room(1)] and node = wf_cursor_node [OF wf room(1)]
  have "\<exists>v. iov_loop (m_root ba) (Some ?c) ?i (?b - ?i) ?l bufs = Inr (bufs @ v) \<and>
      iov_valid (m_root ba) v \<and> gather (m_root ba) v = take ?l (drop (?c * ?b + ?i) (concat (m_root ba)))"
    using iov_loop_ok [of ?b "m_root ba" ?c ?i ?l bufs] wf cur room False by (auto simp: ba_wf_def)
  then show ?thesis
    using False cur node take_min_content [OF wf, of ?l]
    by (auto simp: getReadBuffers_def Let_def min_def)
qed

lemma gather_length: "iov_valid ns v \<Longrightarrow> length (gather ns v) = sum_list (map (\<lambda>(_, _, k). k) v)"
proof (induction v)
  case (Cons x v)
  then show ?case by (cases x) auto
qed simp

lemma getWriteBuffers_ok:
  assumes wf: "ba_wf ba" and fit: "fits len ba" and len: "0 < len"
  shows "\<exists>v. getWriteBuffers bufs len ba = Inr (len, bufs @ v, addCapacity len ba) \<and>
           iov_valid (m_root (addCapacity len ba)) v \<and> sum_list (map (\<lambda>(_, _, k). k) v) = len \<and>
           (\<forall>data. length data \<le> len \<longrightarrow>
              uniform (m_base_size ba) (scatter (m_root (addCapacity len ba)) v data) \<and>
              length (scatter (m_root (addCapacity len ba)) v data) = length (m_root (addCapacity len ba)) \<and>
              concat (scatter (m_root (addCapacity len ba)) v data) =
                overwrite (m_pos ba) data (concat (m_root (addCapacity len ba))))"
proof -
  let ?ba = "addCapacity len ba"
  let ?b = "m_base_size ba" and ?c = "m_pos ba div m_base_size ba" and ?i = "m_pos ba mod m_base_size ba"
  have wf1: "ba_wf ?ba" using wf by simp
  note wfd = wf1 [unfolded ba_wf_def]
  have room: "m_pos ?ba < m_capacity ?ba" "m_pos ba + len \<le> m_capacity ?ba"
    using addCapacity_room [OF wf len] addCapacity_fits [OF wf len] fit by simp_all
  note cur = wf_cursor [OF wf1 room(1)] and node = wf_cursor_node [OF wf1 room(1)]
  obtain v where v: "iov_loop (m_root ?ba) (Some ?c) ?i (?b - ?i) len bufs = Inr (bufs @ v)"
    "iov_valid (m_root ?ba) v" and g: "gather (m_root ?ba) v = take len (drop (?c * ?b + ?i) (concat (m_root ?ba)))" and sc:
    "\<And>ms data. uniform ?b ms \<Longrightarrow> length ms = length (m_root ?ba) \<Longrightarrow> length data \<le> len \<Longrightarrow>
       uniform ?b (scatter ms v data) \<and> length (scatter ms v data) = length (m_root ?ba) \<and>
       concat (scatter ms v data) = overwrite (?c * ?b + ?i) data (concat ms)"
    using iov_loop_ok [of ?b "m_root ?ba" ?c ?i len bufs] wfd cur room len by auto
  have "getWriteBuffers bufs len ba = Inr (len, bufs @ v, ?ba)"
    using v(1) cur node len by (simp add: getWriteBuffers_def Let_def)
  moreover have "sum_list (map (\<lambda>(_, _, k). k) v) = len"
    using gather_length [OF v(2)] g room(2) length_concat_root [OF wf1] by simp
  ultimately show ?thesis using v(2) sc [of "m_root ?ba"] wfd by auto
qed

section \<open>Files\<close>

text \<open>
  From a position at a node border the loop of \<open>writeToFile\<close> emits every byte up to the size.
\<close>

lemma file_loop_aligned:
  assumes "uniform b ns" and "0 < b" and "c * b + k \<le> length ns * b"
  shows "file_loop ns (int b) (if c < length ns then Some c else None) (int (c * b)) (int k) out =
           Inr (out @ take k (drop (c * b) (concat ns)))"
  using assms
proof (induction k arbitrary: c out rule: less_induct)
  case (less k)
  show ?case
  proof (cases "k = 0")
    case True
    then show ?thesis by (simp add: file_loop.simps)
  next
    case False
    then have "c * b < length ns * b" using less.prems by linarith
    then have c: "c < length ns" by (simp only: mult_less_cancel2)
    note n = uniform_nth [OF less.prems(1) c]
    show ?thesis
    proof (cases "k > b")
      case True
      have "file_loop ns (int b) (if Suc c < length ns then Some (Suc c) else None) (int (Suc c * b))
              (int (k - b)) (out @ ns ! c) =
            Inr ((out @ ns ! c) @ take (k - b) (drop (Suc c * b) (concat ns)))"
        by (rule less.IH) (use True less.prems in auto)
      then show ?thesis
        using True c n less.prems read_block [of b ns c 0 k]
        by (simp add: file_loop.simps [of ns _ "Some c"] node_next_def Let_def of_nat_diff add.commute)
    next
      case short: False
      then show ?thesis
        using False c n less.prems read_in_block [of b ns c 0 k]
        by (simp add: file_loop.simps [of ns _ "Some c"] file_loop.simps [of ns _ "node_next ns c"] Let_def)
    qed
  qed
qed

lemma file_loop_inside:
  assumes "uniform b ns" and "c < length ns" and "i < b" and "b < k"
  shows "file_loop ns (int b) (Some c) (int (c * b + i)) (int k) out =
    file_loop ns (int b) (node_next ns c) (int (Suc c * b)) (int (k - (b - i))) (out @ drop i (ns ! c))"
proof -
  have m: "int (c * b + i) mod int b = int i"
    using assms(3) by (simp flip: zmod_int)
  have p: "int (c * b + i) + (int b - int i) = int (Suc c * b)" by simp
  have k: "int k - (int b - int i) = int (k - (b - i))"
    using assms by (simp add: of_nat_diff)
  have l: "nat (int b - int i) = b - i" by simp
  have n: "length (ns ! c) = b" using assms(1,2) by (rule uniform_nth)
  have "memcpy_from (ns ! c) i (b - i) = Inr (drop i (ns ! c))"
    using n assms(3) by simp
  then show ?thesis
    using assms by (subst file_loop.simps) (simp add: Let_def m p k l del: of_nat_add of_nat_mult of_nat_Suc)
qed

text \<open>The first round may start inside a node only when more than one node's worth is left.\<close>

lemma writeToFile_ok:
  assumes wf: "ba_wf ba"
    and ok: "m_pos ba mod m_base_size ba = 0 \<or> m_base_size ba < getReadSize ba"
  shows "writeToFile True ba = Inr (True, drop (m_pos ba) (content ba))"
proof -
  let ?b = "m_base_size ba" and ?k = "getReadSize ba" and ?ns = "m_root ba"
  let ?c = "m_pos ba div ?b" and ?i = "m_pos ba mod ?b"
  note wfd = wf [unfolded ba_wf_def]
  have rest: "take ?k (drop (m_pos ba) (concat ?ns)) = drop (m_pos ba) (content ba)"
    using take_min_content [OF wf, of ?k] wf by (simp add: getReadSize_def)
  have le: "m_pos ba + ?k \<le> length ?ns * ?b"
    using wfd unfolding getReadSize_def by linarith
  have cur: "m_cur ba = (if ?c < length ?ns then Some ?c else None)"
    using wfd by (simp add: ptr_at_def)
  show ?thesis
  proof (cases "?i = 0")
    case True
    then have p: "?c * ?b = m_pos ba" by auto
    show ?thesis
      using file_loop_aligned [of ?b ?ns ?c ?k "[]"] wfd le rest cur p by (simp add: writeToFile_def)
  next
    case False
    then have k: "?b < ?k" using ok by simp
    have p: "?c * ?b + ?i = m_pos ba" by simp
    have "?c * ?b < length ?ns * ?b" using le k p by linarith
    then have c: "?c < length ?ns" by (simp only: mult_less_cancel2)
    have i: "?i < ?b" using wfd by simp
    have nxt: "Suc ?c * ?b + (?k - (?b - ?i)) \<le> length ?ns * ?b" using le k p i by simp
    have "file_loop ?ns (int ?b) (Some ?c) (int (m_pos ba)) (int ?k) [] =
        file_loop ?ns (int ?b) (node_next ?ns ?c) (int (Suc ?c * ?b)) (int (?k - (?b - ?i))) (drop ?i (?ns ! ?c))"
      using file_loop_inside [of ?b ?ns ?c ?i ?k "[]"] wfd c i k p by simp
    also have "\<dots> = Inr (drop ?i (?ns ! ?c) @ take (?k - (?b - ?i)) (drop (Suc ?c * ?b) (concat ?ns)))"
      using file_loop_aligned [of ?b ?ns "Suc ?c" "?k - (?b - ?i)"] wfd nxt by (simp add: node_next_def)
    also have "drop ?i (?ns ! ?c) @ take (?k - (?b - ?i)) (drop (Suc ?c * ?b) (concat ?ns)) =
        drop (m_pos ba) (content ba)"
      using read_block [of ?b ?ns ?c ?i ?k] wfd c i k p rest by simp
    finally show ?thesis using cur c by (simp add: writeToFile_def)
  qed
qed

text \<open>Inside a node with little left to write, the computed length is negative.\<close>

lemma writeToFile_short:
  assumes wf: "ba_wf ba" and "0 < getReadSize ba" and "getReadSize ba < m_pos ba mod m_base_size ba"
  shows "writeToFile True ba = Inl Bad_count"
proof -
  have "m_pos ba < m_capacity ba"
    using assms unfolding ba_wf_def getReadSize_def by linarith
  note cur = wf_cursor [OF wf this]
  have "m_pos ba mod m_base_size ba < m_base_size ba" using wf by (simp add: ba_wf_def)
  then have "getReadSize ba \<le> m_base_size ba" using assms(3) by simp
  then show ?thesis
    using assms(2,3) cur
    by (simp add: writeToFile_def file_loop.simps [of _ _ "Some _"] Let_def zmod_int [symmetric])
qed

lemma written_trans:
  assumes "ba_wf ba" and "written xs ba ba1" and "written ys ba1 ba2"
  shows "written (xs @ ys) ba ba2"
proof -
  have "m_pos ba \<le> length (content ba)" using assms(1) by (simp add: ba_wf_def [symmetric]) (simp add: ba_wf_def)
  then show ?thesis
    using assms overwrite_overwrite [of "m_pos ba" "content ba" xs ys]
    by (simp add: written_def max_def)
qed

lemma written_Nil [simp]: "ba_wf ba \<Longrightarrow> written [] ba ba"
  by (simp add: written_def ba_wf_def)

lemma fits_aligned:
  assumes "ba_wf ba" and "m_pos ba mod m_base_size ba = 0" and "n \<le> m_base_size ba"
  shows "fits n ba"
proof -
  obtain q where q: "m_pos ba = q * m_base_size ba" using assms(2) by (metis mod_0_imp_dvd dvd_def mult.commute)
  let ?d = "length (m_root ba) - q"
  have cap: "getCapacity ba = ?d * m_base_size ba"
    using assms(1) q by (simp add: getCapacity_def ba_wf_def diff_mult_distrib)
  show ?thesis
  proof (cases "?d = 0")
    case True
    then show ?thesis using cap by (auto simp: fits_def)
  next
    case False
    then have "m_base_size ba \<le> ?d * m_base_size ba" by (cases ?d) auto
    then have "n \<le> getCapacity ba" using cap assms(3) by linarith
    then show ?thesis by (simp add: fits_def)
  qed
qed

text \<open>Reading a file in at a node border appends the whole file.\<close>

lemma readFromFile_ok:
  assumes "ba_wf ba" and "m_pos ba mod m_base_size ba = 0"
  shows "\<exists>ba'. readFromFile (Some ifs) ba = Inr (True, ba') \<and> written ifs ba ba'"
proof -
  have "\<exists>ba'. read_file_loop ifs ba = Inr ba' \<and> written ifs ba ba'"
    using assms
  proof (induction "length ifs" arbitrary: ifs ba rule: less_induct)
    case less
    let ?b = "m_base_size ba"
    have b: "0 < ?b" using less.prems by (simp add: ba_wf_def)
    show ?case
    proof (cases "length ifs < ?b")
      case True
      then show ?thesis
        using b less.prems ba_write_ok [of ba ifs] fits_aligned [of ba "length ifs"]
        by (simp add: read_file_loop.simps [of ifs])
    next
      case False
      then obtain ba1 where ba1: "ba_write (take ?b ifs) ba = Inr ba1" "written (take ?b ifs) ba ba1"
        using less.prems ba_write_ok [of ba "take ?b ifs"] fits_aligned [of ba ?b] by auto
      have "\<exists>ba'. read_file_loop (drop ?b ifs) ba1 = Inr ba' \<and> written (drop ?b ifs) ba1 ba'"
        by (rule less.hyps) (use False b less.prems ba1(2) in \<open>auto simp: written_def\<close>)
      then obtain ba2 where "read_file_loop (drop ?b ifs) ba1 = Inr ba2" "written (drop ?b ifs) ba1 ba2"
        by blast
      then show ?thesis
        using False b ba1 less.prems written_trans [of ba "take ?b ifs" ba1 "drop ?b ifs" ba2]
        by (simp add: read_file_loop.simps [of ifs])
    qed
  qed
  then show ?thesis by (auto simp: readFromFile_def)
qed

text \<open>The overload with a position addresses the chain from its root.\<close>

lemma walk_ok: "c + k < length ns \<Longrightarrow> walk ns (Some c) k = Inr (Some (c + k))"
  by (induction k arbitrary: c) (auto simp: node_next_def)

lemma getReadBuffers_at_ok:
  assumes wf: "ba_wf ba" and p: "p + min len (getReadSize ba) \<le> m_capacity ba"
  shows "\<exists>v. getReadBuffers_at bufs len p ba = Inr (min len (getReadSize ba), bufs @ v) \<and>
           iov_valid (m_root ba) v \<and>
           gather (m_root ba) v = take (min len (getReadSize ba)) (drop p (concat (m_root ba)))"
proof (cases "min len (getReadSize ba) = 0")
  case True
  then show ?thesis by (auto simp: getReadBuffers_at_def Let_def intro!: exI [of _ "[]"])
next
  case False
  let ?l = "min len (getReadSize ba)" and ?b = "m_base_size ba"
  let ?c = "p div ?b" and ?i = "p mod ?b"
  note wfd = wf [unfolded ba_wf_def]
  have "p < length (m_root ba) * ?b" using wfd p False by linarith
  then have c: "?c < length (m_root ba)" by (simp add: less_mult_imp_div_less)
  then have n: "length (m_root ba ! ?c) = ?b" using wfd uniform_nth by blast
  have w: "walk (m_root ba) (Some 0) ?c = Inr (Some ?c)" using walk_ok [of 0 ?c "m_root ba"] c by simp
  have "\<exists>v. iov_loop (m_root ba) (Some ?c) ?i (?b - ?i) ?l bufs = Inr (bufs @ v) \<and>
      iov_valid (m_root ba) v \<and> gather (m_root ba) v = take ?l (drop (?c * ?b + ?i) (concat (m_root ba)))"
    using iov_loop_ok [of ?b "m_root ba" ?c ?i ?l bufs] wfd c p False by auto
  then show ?thesis
    using False w c n by (auto simp: getReadBuffers_at_def deref_def Let_def min_def)
qed

section \<open>The tape a byte array implements\<close>

text \<open>
  Seen from outside, a byte array is a finite tape with a head. The public operations that
  move the head or change the bytes, and the tape they promise to be.
\<close>

datatype ba_op =
    Write "byte list"
  | Read nat
  | Seek nat
  | Clear
  | SetLittle bool

definition ba_exec :: "ba_op \<Rightarrow> byte_array \<Rightarrow> (byte list \<times> byte_array) outcome" where
  "ba_exec a ba = (case a of
      Write xs \<Rightarrow> bindE (ba_write xs ba) (\<lambda>ba'. Inr ([], ba'))
    | Read k \<Rightarrow> ba_read k ba
    | Seek v \<Rightarrow> bindE (ba_set_position v ba) (\<lambda>ba'. Inr ([], ba'))
    | Clear \<Rightarrow> Inr ([], ba_clear ba)
    | SetLittle l \<Rightarrow> Inr ([], setIsLittleEndian l ba))"

fun ba_run :: "ba_op list \<Rightarrow> byte_array \<Rightarrow> (byte list list \<times> byte_array) outcome" where
  "ba_run [] ba = Inr ([], ba)"
| "ba_run (a # as) ba =
     bindE (ba_exec a ba) (\<lambda>(xs, ba'). bindE (ba_run as ba') (\<lambda>(xss, ba''). Inr (xs # xss, ba'')))"

type_synonym tape = "byte list \<times> nat"

definition tape_of :: "byte_array \<Rightarrow> tape" where
  "tape_of ba = (content ba, m_pos ba)"

inductive tape_step :: "ba_op \<Rightarrow> tape \<Rightarrow> byte list \<Rightarrow> tape \<Rightarrow> bool" where
  t_write: "tape_step (Write xs) (bs, p) [] (overwrite p xs bs, p + length xs)"
| t_read: "p + k \<le> length bs \<Longrightarrow> tape_step (Read k) (bs, p) (take k (drop p bs)) (bs, p + k)"
| t_seek: "v \<le> length bs \<Longrightarrow> tape_step (Seek v) (bs, p) [] (bs, v)"
| t_extend: "v = length bs + length junk \<Longrightarrow> tape_step (Seek v) (bs, p) [] (bs @ junk, v)"
| t_clear: "tape_step Clear (bs, p) [] ([], 0)"
| t_endian: "tape_step (SetLittle l) t [] t"

inductive tape_steps :: "ba_op list \<Rightarrow> tape \<Rightarrow> byte list list \<Rightarrow> tape \<Rightarrow> bool" where
  ts_done: "tape_steps [] t [] t"
| ts_step: "tape_step a t xs t1 \<Longrightarrow> tape_steps as t1 xss t2 \<Longrightarrow> tape_steps (a # as) t (xs # xss) t2"

inductive_cases tape_readE: "tape_step (Read k) t xs t'"
inductive_cases tape_seekE: "tape_step (Seek v) t xs t'"
inductive_simps tape_steps_simps: "tape_steps [] t xss t'" "tape_steps (a # as) t xss t'"

lemma ba_write_written:
  assumes "ba_wf ba" and "ba_write xs ba = Inr ba'"
  shows "written xs ba ba'"
  using assms ba_write_ok [of ba xs] ba_write_fault [of ba xs] by (cases "fits (length xs) ba") auto

lemma ba_read_InrD:
  assumes wf: "ba_wf ba" and "ba_read k ba = Inr (xs, ba')"
  shows "was_read k ba xs ba' \<and> m_pos ba + k \<le> m_size ba"
proof -
  have k: "k \<le> getReadSize ba" using assms(2) by (auto simp: ba_read_def split: if_splits)
  have "m_cur ba \<noteq> None"
    using assms(2) k by (cases "m_cur ba") (auto simp: ba_read_def deref_def Let_def)
  then have "m_pos ba < m_capacity ba"
    using wf by (auto simp: ba_wf_def ptr_at_def div_less_iff_less_mult split: if_splits)
  then have "was_read k ba xs ba'" using ba_read_was_read [OF wf k] assms(2) by auto
  then show ?thesis using k wf unfolding ba_wf_def getReadSize_def by linarith
qed

lemma content_extend:
  assumes "ba_wf ba" and "m_size ba \<le> v" and "v \<le> m_capacity ba"
  shows "\<exists>junk. take v (concat (m_root ba)) = content ba @ junk \<and> v = m_size ba + length junk"
proof -
  have "take v (concat (m_root ba)) = content ba @ take (v - m_size ba) (drop (m_size ba) (concat (m_root ba)))"
    using assms(2) by (simp add: content_def flip: take_add)
  moreover have "length (take (v - m_size ba) (drop (m_size ba) (concat (m_root ba)))) = v - m_size ba"
    using assms length_concat_root [OF assms(1)] by simp
  ultimately show ?thesis using assms(2) by fastforce
qed

lemma seek_refines:
  assumes wf: "ba_wf ba" and "ba_set_position v ba = Inr ba'"
  shows "tape_step (Seek v) (tape_of ba) [] (tape_of ba')"
proof -
  have v: "v \<le> m_capacity ba" using assms(2) by (auto simp: ba_set_position_def split: if_splits)
  then have ba': "ba' = ba\<lparr>m_pos := v, m_size := max v (m_size ba),
      m_cur := ptr_at (length (m_root ba)) (m_base_size ba) v\<rparr>"
    using ba_set_position_ok [OF wf v] assms(2) by simp
  show ?thesis
  proof (cases "v \<le> m_size ba")
    case True
    then show ?thesis
      using wf by (auto simp: ba' tape_of_def content_def max_def length_concat_root ba_wf_def [symmetric]
          intro!: t_seek) (simp add: ba_wf_def)
  next
    case False
    then have "m_size ba \<le> v" by simp
    from content_extend [OF wf this v] obtain junk
      where j: "take v (concat (m_root ba)) = content ba @ junk" "v = m_size ba + length junk" by blast
    have "tape_of ba' = (take v (concat (m_root ba)), v)"
      using False by (simp add: ba' tape_of_def content_def max_def)
    then show ?thesis
      using t_extend [of v "content ba" junk "m_pos ba"] j wf by (simp add: tape_of_def)
  qed
qed

lemma ba_exec_refines:
  assumes wf: "ba_wf ba" and ex: "ba_exec a ba = Inr (xs, ba')"
  shows "ba_wf ba' \<and> tape_step a (tape_of ba) xs (tape_of ba')"
proof (cases a)
  case (Write ys)
  then have "written ys ba ba'" "xs = []"
    using ex ba_write_written [OF wf] by (auto simp: ba_exec_def bindE_eq_Inr_iff)
  then show ?thesis using Write t_write [of ys "content ba" "m_pos ba"] by (simp add: written_def tape_of_def)
next
  case (Read k)
  then have "was_read k ba xs ba' \<and> m_pos ba + k \<le> m_size ba"
    using ex ba_read_InrD [OF wf] by (simp add: ba_exec_def)
  then show ?thesis
    using Read wf t_read [of "m_pos ba" k "content ba"] by (auto simp: was_read_def tape_of_def)
next
  case (Seek v)
  then show ?thesis
    using ex ba_set_position_wf [OF wf] seek_refines [OF wf] by (auto simp: ba_exec_def bindE_eq_Inr_iff)
next
  case Clear
  then show ?thesis
    using ex ba_clear_wf [OF wf] t_clear by (auto simp: ba_exec_def tape_of_def ba_clear_def)
next
  case (SetLittle l)
  then show ?thesis
    using ex wf t_endian
    by (cases l) (auto simp: ba_exec_def setIsLittleEndian_def tape_of_def content_def ba_wf_def)
qed

lemma ba_sample: "\<exists>ba. ba_wf ba \<and> content ba = [1, 2, 3, 4] \<and> m_pos ba = 1 \<and> m_base_size ba = 2"
proof -
  let ?b = "ByteArray_new (\<lambda>_. 0) 2"
  have wf: "ba_wf ?b" "content ?b = []" using ByteArray_new_wf [of 2] by simp_all
  have "fits (length [1, 2, 3, 4 :: byte]) ?b" by (simp add: fits_def getCapacity_def ByteArray_new_def)
  then obtain ba1 where ba1: "written [1, 2, 3, 4] ?b ba1" using ba_write_ok [OF wf(1)] by blast
  have "m_pos ?b = 0" "m_base_size ?b = 2" by (simp_all add: ByteArray_new_def)
  then have "ba_wf ba1" "content ba1 = [1, 2, 3, 4]" "m_base_size ba1 = 2" "4 \<le> m_size ba1"
    using ba1 wf(2) by (auto simp: written_def overwrite_def)
  then show ?thesis using ba_set_position_content [of ba1 1] by auto
qed

section \<open>Properties\<close>

text \<open>
  C4. A byte array refines a tape with a head: along any sequence of writes, reads, seeks,
  clears and byte-order changes that runs without a fault, every byte string read out is the
  one the abstract tape delivers, and the representation invariant (equal nodes, capacity,
  position, size and cursor in agreement) holds at the end. A seek past the end extends the tape
  with unspecified bytes, as the code leaves them uninitialised.
\<close>

theorem ba_run_refines:
  assumes "ba_wf ba" and "ba_run as ba = Inr (xss, ba')"
  shows "ba_wf ba' \<and> tape_steps as (tape_of ba) xss (tape_of ba')"
  using assms
proof (induction as arbitrary: ba xss)
  case Nil
  then show ?case by (simp add: tape_steps_simps)
next
  case (Cons a as)
  then obtain xs ba1 yss where "ba_exec a ba = Inr (xs, ba1)" "ba_run as ba1 = Inr (yss, ba')" "xss = xs # yss"
    by (auto simp: bindE_eq_Inr_iff)
  then show ?case
    using Cons.IH [of ba1 yss] ba_exec_refines [OF Cons.prems(1), of a xs ba1] by (auto intro: ts_step)
qed

theorem ba_run_refines_witness:
  "\<exists>xss ba'. ba_run [Write [1, 2, 3, 4, 5, 6], Seek 1, Read 3, Clear, SetLittle True, Write [9]]
     (ByteArray_new (\<lambda>_. 0) 2) = Inr (xss, ba') \<and> ba_wf ba' \<and>
     tape_steps [Write [1, 2, 3, 4, 5, 6], Seek 1, Read 3, Clear, SetLittle True, Write [9]]
       ([], 0) xss (tape_of ba')"
proof -
  let ?as = "[Write [1, 2, 3, 4, 5, 6], Seek 1, Read 3, Clear, SetLittle True, Write [9]]"
  let ?ba = "ByteArray_new (\<lambda>_. 0) 2"
  have "case ba_run ?as ?ba of Inr _ \<Rightarrow> True | Inl _ \<Rightarrow> False" by code_simp
  then obtain xss ba' where r: "ba_run ?as ?ba = Inr (xss, ba')" by (auto split: sum.splits)
  have "tape_of ?ba = ([], 0)" by (simp add: tape_of_def ByteArray_new_def content_def)
  then show ?thesis using ba_run_refines [OF _ r] r ByteArray_new_wf [of 2] by auto
qed

text \<open>
  C22. \<open>write\<close> in full: on a well-formed array it either stores the whole buffer at the
  position, growing the chain and the size as needed, or dereferences a null pointer; the
  latter happens exactly when \<open>addCapacity\<close> rounds the number of missing nodes down, which is
  when bytes are missing, they are not a multiple of the node size, and their remainder does
  not exceed the room that was left.
\<close>

theorem ba_write_spec:
  assumes "ba_wf ba"
  shows "if fits (length buf) ba then \<exists>ba'. ba_write buf ba = Inr ba' \<and> written buf ba ba'
         else ba_write buf ba = Inl Null_deref"
  using ba_write_ok [OF assms] ba_write_fault [OF assms] by simp

theorem ba_write_spec_witness:
  "(\<exists>ba'. ba_write [1, 2, 3, 4] (ByteArray_new (\<lambda>_. 0) 2) = Inr ba' \<and>
      written [1, 2, 3, 4] (ByteArray_new (\<lambda>_. 0) 2) ba') \<and>
   ba_write [1, 2, 3, 4, 5] (ByteArray_new (\<lambda>_. 0) 4) = Inl Null_deref"
proof -
  have "fits (length [1, 2, 3, 4 :: byte]) (ByteArray_new (\<lambda>_. 0) 2)"
    "\<not> fits (length [1, 2, 3, 4, 5 :: byte]) (ByteArray_new (\<lambda>_. 0) 4)"
    by (simp_all add: fits_def getCapacity_def ByteArray_new_def)
  then show ?thesis
    using ba_write_spec [of "ByteArray_new (\<lambda>_. 0) 2" "[1, 2, 3, 4]"]
      ba_write_spec [of "ByteArray_new (\<lambda>_. 0) 4" "[1, 2, 3, 4, 5]"]
      ByteArray_new_wf [of 2] ByteArray_new_wf [of 4]
    by simp
qed

text \<open>
  C23. \<open>read\<close> in full: a request for more than the readable bytes throws; otherwise the bytes
  at the position are returned and the position advances over them, everything else being
  unchanged; but at the very end of the chain, where the cursor is null, even a request for
  zero bytes dereferences it.
\<close>

theorem ba_read_spec:
  assumes "ba_wf ba"
  shows "if getReadSize ba < k then ba_read k ba = Inl (Exception ''not enough len'')
         else if m_pos ba = m_capacity ba then ba_read k ba = Inl Null_deref
         else \<exists>ba'. ba_read k ba = Inr (take k (drop (m_pos ba) (content ba)), ba') \<and>
                was_read k ba (take k (drop (m_pos ba) (content ba))) ba'"
proof -
  have "k = 0" if "\<not> getReadSize ba < k" "m_pos ba = m_capacity ba"
    using that assms by (simp add: ba_wf_def getReadSize_def)
  moreover have "m_pos ba < m_capacity ba" if "m_pos ba \<noteq> m_capacity ba"
    using that assms by (simp add: ba_wf_def)
  ultimately show ?thesis
    using ba_read_too_long [of ba k] ba_read_at_end [OF assms] ba_read_was_read [OF assms, of k]
    by (auto simp: was_read_def)
qed

theorem ba_read_spec_witness:
  "ba_read 1 (ByteArray_new (\<lambda>_. 0) 4) = Inl (Exception ''not enough len'') \<and>
   (\<exists>ba'. ba_read 0 (ByteArray_new (\<lambda>_. 0) 4) = Inr ([], ba') \<and>
      was_read 0 (ByteArray_new (\<lambda>_. 0) 4) [] ba')"
  using ba_read_spec [of "ByteArray_new (\<lambda>_. 0) 4" 1] ba_read_spec [of "ByteArray_new (\<lambda>_. 0) 4" 0]
    ByteArray_new_wf [of 4]
  by (simp add: getReadSize_def ByteArray_new_def)

text \<open>
  \<open>getReadBuffers\<close> hands out valid memory: the vectors it appends lie inside the nodes, and
  the bytes they denote are exactly the next readable bytes of the array, at most \<open>len\<close>; so
  \<open>writev\<close> on them sends what \<open>read\<close> would have returned.
\<close>

theorem getReadBuffers_spec:
  assumes "ba_wf ba"
  shows "\<exists>v. getReadBuffers bufs len ba = Inr (min len (getReadSize ba), bufs @ v) \<and>
           iov_valid (m_root ba) v \<and>
           gather (m_root ba) v = take (min len (getReadSize ba)) (drop (m_pos ba) (content ba))"
  by (rule getReadBuffers_ok [OF assms])

theorem getReadBuffers_spec_witness:
  "\<exists>ba v. content ba = [1, 2, 3, 4] \<and> m_pos ba = 1 \<and> getReadBuffers [] 2 ba = Inr (2, v) \<and>
     iov_valid (m_root ba) v \<and> gather (m_root ba) v = [2, 3]"
proof -
  obtain ba where ba: "ba_wf ba" "content ba = [1, 2, 3, 4]" "m_pos ba = 1" using ba_sample by blast
  have "m_size ba = 4" using length_content [OF ba(1)] ba(2) by simp
  then show ?thesis
    using getReadBuffers_spec [OF ba(1), of "[]" 2] ba(2,3)
    by (intro exI [of _ ba]) (auto simp: getReadSize_def numeral_2_eq_2)
qed

text \<open>
  \<open>getWriteBuffers\<close> for a length that \<open>addCapacity\<close> can provide: the vectors lie inside the
  grown chain, and filling them with any received data of at most that length changes exactly
  the bytes from the position on, as \<open>write\<close> of that data would.
\<close>

theorem getWriteBuffers_spec:
  assumes "ba_wf ba" and "fits len ba" and "0 < len" and "length data \<le> len"
  shows "\<exists>v ba'. getWriteBuffers bufs len ba = Inr (len, bufs @ v, ba') \<and> ba_wf ba' \<and>
           content ba' = content ba \<and> m_pos ba' = m_pos ba \<and> iov_valid (m_root ba') v \<and>
           concat (scatter (m_root ba') v data) = overwrite (m_pos ba) data (concat (m_root ba'))"
  using getWriteBuffers_ok [OF assms(1-3), of bufs] assms by auto

theorem getWriteBuffers_spec_witness:
  "\<exists>v ba'. getWriteBuffers [] 3 (ByteArray_new (\<lambda>_. 0) 4) = Inr (3, v, ba') \<and> ba_wf ba' \<and>
     content ba' = [] \<and> m_pos ba' = 0 \<and> iov_valid (m_root ba') v \<and>
     concat (scatter (m_root ba') v [7, 8]) = overwrite 0 [7, 8] (concat (m_root ba'))"
  using getWriteBuffers_spec [of "ByteArray_new (\<lambda>_. 0) 4" 3 "[7, 8]" "[]"] ByteArray_new_wf [of 4]
  by (simp add: fits_def getCapacity_def ByteArray_new_def)

text \<open>
  C25. Saving to a file and loading it back: from a node border, \<open>writeToFile\<close> writes exactly the
  readable bytes, and \<open>readFromFile\<close> of that file into any array positioned at a node border
  stores exactly those bytes there; neither faults.
\<close>

theorem file_round_trip:
  assumes "ba_wf ba" and "m_pos ba mod m_base_size ba = 0"
    and "ba_wf ba2" and "m_pos ba2 mod m_base_size ba2 = 0"
  shows "\<exists>file ba3. writeToFile True ba = Inr (True, file) \<and> readFromFile (Some file) ba2 = Inr (True, ba3) \<and>
           written (drop (m_pos ba) (content ba)) ba2 ba3"
  using writeToFile_ok [OF assms(1)] readFromFile_ok [OF assms(3,4)] assms(2) by simp

theorem file_round_trip_witness:
  "\<exists>file ba3. writeToFile True (ByteArray_new (\<lambda>_. 0) 4) = Inr (True, file) \<and>
     readFromFile (Some file) (ByteArray_new (\<lambda>_. 0) 2) = Inr (True, ba3) \<and>
     written [] (ByteArray_new (\<lambda>_. 0) 2) ba3"
proof -
  have "m_pos (ByteArray_new (\<lambda>_. 0) n) = 0" for n by (simp add: ByteArray_new_def)
  then show ?thesis
    using file_round_trip [of "ByteArray_new (\<lambda>_. 0) 4" "ByteArray_new (\<lambda>_. 0) 2"]
      ByteArray_new_wf [of 4] ByteArray_new_wf [of 2] by simp
qed

text \<open>
  \<open>writeToFile\<close> from inside a node fails when less is left to write than the offset in the
  node: the length passed to the stream is negative.
\<close>

theorem writeToFile_negative_count:
  assumes "ba_wf ba" and "0 < getReadSize ba" and "getReadSize ba < m_pos ba mod m_base_size ba"
  shows "writeToFile True ba = Inl Bad_count"
  using assms by (rule writeToFile_short)

theorem writeToFile_negative_count_witness:
  "\<exists>ba1 ba2. ba_write [1, 2, 3] (ByteArray_new (\<lambda>_. 0) 4) = Inr ba1 \<and> ba_set_position 2 ba1 = Inr ba2 \<and>
     writeToFile True ba2 = Inl Bad_count"
proof -
  let ?b = "ByteArray_new (\<lambda>_. 0) 4"
  obtain ba1 where ba1: "ba_write [1, 2, 3] ?b = Inr ba1" "written [1, 2, 3] ?b ba1"
    using ba_write_ok [of ?b "[1, 2, 3]"] ByteArray_new_wf [of 4]
    by (auto simp: fits_def getCapacity_def ByteArray_new_def)
  have s: "m_size ba1 = 3" "m_base_size ba1 = 4" "ba_wf ba1"
    using ba1(2) by (simp_all add: written_def ByteArray_new_def)
  then obtain ba2 where ba2: "ba_set_position 2 ba1 = Inr ba2" "ba_wf ba2" "m_pos ba2 = 2" "m_size ba2 = 3"
      "m_base_size ba2 = 4"
    using ba_set_position_content [of ba1 2] by auto
  then have "writeToFile True ba2 = Inl Bad_count"
    using writeToFile_negative_count [of ba2] by (simp add: getReadSize_def)
  then show ?thesis using ba1(1) ba2(1) by blast
qed

end
