(* ===== verification/Cool_Codec.thy ===== *)
theory Cool_Codec
  imports Cool_ByteArray
begin

text \<open>
  The typed readers and writers of \<^verbatim>\<open>cool::ByteArray\<close> (src/bytearray.cpp, lines 56--287): fixed-width
  integers in either byte order, base-128 variable-length integers, zigzag coding of signed
  values, floating point as raw bits, and length-prefixed strings. A \<open>std::string\<close> is the list
  of its bytes.
\<close>

section \<open>Fixed-width integers\<close>

text \<open>
  The signed and the unsigned writer of a width are the same code on the same bits; \<open>float\<close>
  and \<open>double\<close> go through the unsigned writer of their width.
\<close>

definition write_fixed :: "'a::len word \<Rightarrow> byte_array \<Rightarrow> byte_array outcome" where
  "write_fixed val ba =
     (let val = (if m_endian ba \<noteq> COOL_BYTE_ORDER then byteswap val else val)
      in ba_write (le_bytes val) ba)"

definition read_fixed :: "byte_array \<Rightarrow> ('a::len word \<times> byte_array) outcome" where
  "read_fixed ba =
     bindE (ba_read (LENGTH('a) div 8) ba) (\<lambda>(bs, ba').
       let val = of_le_bytes bs
       in Inr (if m_endian ba = COOL_BYTE_ORDER then val else byteswap val, ba'))"

definition write_fint8 :: "byte \<Rightarrow> byte_array \<Rightarrow> byte_array outcome" where
  "write_fint8 val ba = ba_write (le_bytes val) ba"

definition write_fuint8 :: "byte \<Rightarrow> byte_array \<Rightarrow> byte_array outcome" where
  "write_fuint8 val ba = ba_write (le_bytes val) ba"

definition write_fint16 :: "u16 \<Rightarrow> byte_array \<Rightarrow> byte_array outcome" where
  "write_fint16 val ba = write_fixed val ba"

definition write_fuint16 :: "u16 \<Rightarrow> byte_array \<Rightarrow> byte_array outcome" where
  "write_fuint16 val ba = write_fixed val ba"

definition write_fint32 :: "u32 \<Rightarrow> byte_array \<Rightarrow> byte_array outcome" where
  "write_fint32 val ba = write_fixed val ba"

definition write_fuint32 :: "u32 \<Rightarrow> byte_array \<Rightarrow> byte_array outcome" where
  "write_fuint32 val ba = write_fixed val ba"

definition write_fint64 :: "u64 \<Rightarrow> byte_array \<Rightarrow> byte_array outcome" where
  "write_fint64 val ba = write_fixed val ba"

definition write_fuint64 :: "u64 \<Rightarrow> byte_array \<Rightarrow> byte_array outcome" where
  "write_fuint64 val ba = write_fixed val ba"

definition read_fint8 :: "byte_array \<Rightarrow> (byte \<times> byte_array) outcome" where
  "read_fint8 ba = bindE (ba_read 1 ba) (\<lambda>(bs, ba'). Inr (of_le_bytes bs, ba'))"

definition read_fuint8 :: "byte_array \<Rightarrow> (byte \<times> byte_array) outcome" where
  "read_fuint8 ba = bindE (ba_read 1 ba) (\<lambda>(bs, ba'). Inr (of_le_bytes bs, ba'))"

definition read_fint16 :: "byte_array \<Rightarrow> (u16 \<times> byte_array) outcome" where
  "read_fint16 ba = read_fixed ba"

definition read_fuint16 :: "byte_array \<Rightarrow> (u16 \<times> byte_array) outcome" where
  "read_fuint16 ba = read_fixed ba"

definition read_fint32 :: "byte_array \<Rightarrow> (u32 \<times> byte_array) outcome" where
  "read_fint32 ba = read_fixed ba"

definition read_fuint32 :: "byte_array \<Rightarrow> (u32 \<times> byte_array) outcome" where
  "read_fuint32 ba = read_fixed ba"

definition read_fint64 :: "byte_array \<Rightarrow> (u64 \<times> byte_array) outcome" where
  "read_fint64 ba = read_fixed ba"

definition read_fuint64 :: "byte_array \<Rightarrow> (u64 \<times> byte_array) outcome" where
  "read_fuint64 ba = read_fixed ba"

text \<open>\<open>float\<close> and \<open>double\<close> values are their IEEE bit patterns.\<close>

definition write_float :: "u32 \<Rightarrow> byte_array \<Rightarrow> byte_array outcome" where
  "write_float bits ba = write_fuint32 bits ba"

definition write_double :: "u64 \<Rightarrow> byte_array \<Rightarrow> byte_array outcome" where
  "write_double bits ba = write_fuint64 bits ba"

definition read_float :: "byte_array \<Rightarrow> (u32 \<times> byte_array) outcome" where
  "read_float ba = read_fuint32 ba"

definition read_double :: "byte_array \<Rightarrow> (u64 \<times> byte_array) outcome" where
  "read_double ba = read_fuint64 ba"

section \<open>Zigzag\<close>

text \<open>
  The negation and the doubling of the signed value are taken modulo the width, as the
  unoptimised build of CMakeLists.txt computes them.
\<close>

definition EncodeZigzap32 :: "u32 \<Rightarrow> u32" where
  "EncodeZigzap32 val = (if sint val < 0 then (- val) * 2 - 1 else val * 2)"

definition DecodeZigzap32 :: "u32 \<Rightarrow> u32" where
  "DecodeZigzap32 val = drop_bit 1 val XOR - (val AND 1)"

definition EncodeZigzap64 :: "u64 \<Rightarrow> u64" where
  "EncodeZigzap64 val = (if sint val < 0 then (- val) * 2 - 1 else val * 2)"

definition DecodeZigzap64 :: "u64 \<Rightarrow> u64" where
  "DecodeZigzap64 val = drop_bit 1 val XOR - (val AND 1)"

section \<open>Variable-length integers\<close>

text \<open>
  The encoding loops of the two widths fill the stack array \<open>temp\<close> of \<open>cap\<close> bytes (5 or 10);
  a store past its end is a fault. The array size bounds the recursion.
\<close>

function enc_loop :: "nat \<Rightarrow> 'a::len word \<Rightarrow> byte list \<Rightarrow> byte list outcome" where
  "enc_loop cap val temp =
     (if \<not> length temp < cap then Inl Out_of_bounds
      else if val \<ge> 0x80 then enc_loop cap (drop_bit 7 val) (temp @ [ucast ((val AND 0x7f) OR 0x80)])
      else Inr (temp @ [ucast val]))"
  by pat_completeness auto
termination
  by (relation "measure (\<lambda>(cap, _, temp). cap - length temp)") auto

declare enc_loop.simps [simp del]

definition write_uint32 :: "u32 \<Rightarrow> byte_array \<Rightarrow> byte_array outcome" where
  "write_uint32 val ba = bindE (enc_loop 5 val []) (\<lambda>temp. ba_write temp ba)"

definition write_uint64 :: "u64 \<Rightarrow> byte_array \<Rightarrow> byte_array outcome" where
  "write_uint64 val ba = bindE (enc_loop 10 val []) (\<lambda>temp. ba_write temp ba)"

definition write_int32 :: "u32 \<Rightarrow> byte_array \<Rightarrow> byte_array outcome" where
  "write_int32 val ba = write_uint32 (EncodeZigzap32 val) ba"

definition write_int64 :: "u64 \<Rightarrow> byte_array \<Rightarrow> byte_array outcome" where
  "write_int64 val ba = write_uint64 (EncodeZigzap64 val) ba"

text \<open>The decoding loops take at most 5 and 10 rounds, whatever the bytes are.\<close>

function dec_loop :: "nat \<Rightarrow> nat \<Rightarrow> 'a::len word \<Rightarrow> byte_array \<Rightarrow> ('a word \<times> byte_array) outcome" where
  "dec_loop bits i res ba =
     (if \<not> i < bits then Inr (res, ba)
      else bindE (read_fuint8 ba) (\<lambda>(b, ba').
        if b < 0x80 then Inr (res OR push_bit i (ucast b), ba')
        else dec_loop bits (i + 7) (res OR push_bit i (ucast b AND 0x7f)) ba'))"
  by pat_completeness auto
termination
  by (relation "measure (\<lambda>(bits, i, _, _). bits - i)") auto

declare dec_loop.simps [simp del]

definition read_uint32 :: "byte_array \<Rightarrow> (u32 \<times> byte_array) outcome" where
  "read_uint32 ba = dec_loop 32 0 0 ba"

definition read_uint64 :: "byte_array \<Rightarrow> (u64 \<times> byte_array) outcome" where
  "read_uint64 ba = dec_loop 64 0 0 ba"

definition read_int32 :: "byte_array \<Rightarrow> (u32 \<times> byte_array) outcome" where
  "read_int32 ba = bindE (read_uint32 ba) (\<lambda>(v, ba'). Inr (DecodeZigzap32 v, ba'))"

definition read_int64 :: "byte_array \<Rightarrow> (u64 \<times> byte_array) outcome" where
  "read_int64 ba = bindE (read_uint64 ba) (\<lambda>(v, ba'). Inr (DecodeZigzap64 v, ba'))"

section \<open>Strings\<close>

text \<open>The length argument is converted to the prefix type, the data is written in full.\<close>

definition write_string_f16 :: "byte list \<Rightarrow> byte_array \<Rightarrow> byte_array outcome" where
  "write_string_f16 val ba =
     bindE (write_fint16 (of_nat (length val)) ba) (\<lambda>ba. ba_write val ba)"

definition write_string_f32 :: "byte list \<Rightarrow> byte_array \<Rightarrow> byte_array outcome" where
  "write_string_f32 val ba =
     bindE (write_fint32 (of_nat (length val)) ba) (\<lambda>ba. ba_write val ba)"

definition write_string_f64 :: "byte list \<Rightarrow> byte_array \<Rightarrow> byte_array outcome" where
  "write_string_f64 val ba =
     bindE (write_fint64 (of_nat (length val)) ba) (\<lambda>ba. ba_write val ba)"

definition write_string_vint :: "byte list \<Rightarrow> byte_array \<Rightarrow> byte_array outcome" where
  "write_string_vint val ba =
     bindE (write_uint64 (of_nat (length val)) ba) (\<lambda>ba. ba_write val ba)"

definition write_string_withoutlen :: "byte list \<Rightarrow> byte_array \<Rightarrow> byte_array outcome" where
  "write_string_withoutlen val ba = ba_write val ba"

definition read_string_f16 :: "byte_array \<Rightarrow> (byte list \<times> byte_array) outcome" where
  "read_string_f16 ba = bindE (read_fuint16 ba) (\<lambda>(len, ba'). ba_read (unat len) ba')"

definition read_string_f32 :: "byte_array \<Rightarrow> (byte list \<times> byte_array) outcome" where
  "read_string_f32 ba = bindE (read_fuint32 ba) (\<lambda>(len, ba'). ba_read (unat len) ba')"

definition read_string_f64 :: "byte_array \<Rightarrow> (byte list \<times> byte_array) outcome" where
  "read_string_f64 ba = bindE (read_fuint64 ba) (\<lambda>(len, ba'). ba_read (unat len) ba')"

text \<open>The reader for the variable-length prefix fetches a fixed 8-byte length.\<close>

definition read_string_vint :: "byte_array \<Rightarrow> (byte list \<times> byte_array) outcome" where
  "read_string_vint ba = bindE (read_fuint64 ba) (\<lambda>(len, ba'). ba_read (unat len) ba')"

section \<open>What a codec promises\<close>

text \<open>The array has the bytes \<open>xs\<close> in front of its cursor.\<close>

definition ahead :: "byte list \<Rightarrow> byte_array \<Rightarrow> bool" where
  "ahead xs ba \<longleftrightarrow> take (length xs) (drop (m_pos ba) (content ba)) = xs"

text \<open>Writing and reading back a series of values.\<close>

fun put_all :: "('v \<Rightarrow> byte_array \<Rightarrow> byte_array outcome) \<Rightarrow> 'v list \<Rightarrow> byte_array \<Rightarrow> byte_array outcome" where
  "put_all put [] ba = Inr ba"
| "put_all put (v # vs) ba = bindE (put v ba) (put_all put vs)"

fun get_all ::
  "('k \<Rightarrow> byte_array \<Rightarrow> ('v \<times> byte_array) outcome) \<Rightarrow> 'k list \<Rightarrow> byte_array \<Rightarrow> ('v list \<times> byte_array) outcome" where
  "get_all get [] ba = Inr ([], ba)"
| "get_all get (k # ks) ba =
     bindE (get k ba) (\<lambda>(v, ba'). bindE (get_all get ks ba') (\<lambda>(vs, ba''). Inr (v # vs, ba'')))"

lemma ahead_Nil [simp]: "ahead [] ba"
  by (simp add: ahead_def)

lemma ahead_iff: "ahead xs ba \<longleftrightarrow> (\<exists>zs. drop (m_pos ba) (content ba) = xs @ zs)"
  unfolding ahead_def by (metis append_eq_conv_conj)

lemma ahead_appendD: "ahead (xs @ ys) ba \<Longrightarrow> ahead xs ba"
  by (auto simp: ahead_iff)

lemma ahead_after:
  assumes "ahead (xs @ ys) ba" and "was_read (length xs) ba xs ba'"
  shows "ahead ys ba'"
proof -
  obtain zs where "drop (m_pos ba) (content ba) = xs @ ys @ zs" using assms(1) by (auto simp: ahead_iff)
  then have "drop (length xs) (drop (m_pos ba) (content ba)) = ys @ zs" by simp
  then show ?thesis using assms(2) by (auto simp: ahead_iff was_read_def add.commute)
qed

lemma was_read_trans:
  assumes "was_read (length xs) ba xs ba1" and "was_read (length ys) ba1 ys ba2"
  shows "was_read (length (xs @ ys)) ba (xs @ ys) ba2"
  using assms by (auto simp: was_read_def take_add drop_drop add.commute)

lemma was_read_Nil: "ba_wf ba \<Longrightarrow> was_read 0 ba [] ba"
  by (simp add: was_read_def)

lemma written_ahead:
  assumes "ba_wf ba" and "written xs ba ba1" and "ba_set_position (m_pos ba) ba1 = Inr ba2"
  shows "ba_wf ba2 \<and> ahead xs ba2 \<and> m_pos ba2 = m_pos ba \<and> m_endian ba2 = m_endian ba"
proof -
  have "m_pos ba \<le> m_size ba1" and p: "m_pos ba \<le> length (content ba)"
    using assms(1,2) by (auto simp: written_def) (simp add: ba_wf_def)
  then obtain "ba_wf ba2" "content ba2 = content ba1" "m_pos ba2 = m_pos ba" "m_endian ba2 = m_endian ba1"
    using ba_set_position_content [of ba1 "m_pos ba"] assms(2,3) by (auto simp: written_def)
  then show ?thesis
    using assms(2) p by (simp add: ahead_def written_def read_back_overwrite)
qed

text \<open>
  A family of codecs: \<open>put\<close> writes exactly the encoding of a value, and succeeds when the
  encoding fits in the room left; \<open>get\<close>, told the kind of value expected, consumes the
  encoding of a representable value and returns the value.
\<close>

locale wire_family =
  fixes put :: "'v \<Rightarrow> byte_array \<Rightarrow> byte_array outcome"
    and get :: "'k \<Rightarrow> byte_array \<Rightarrow> ('v \<times> byte_array) outcome"
    and kind :: "'v \<Rightarrow> 'k"
    and enc :: "endian \<Rightarrow> 'v \<Rightarrow> byte list"
    and ok :: "'v \<Rightarrow> bool"
  assumes put_written: "ba_wf ba \<Longrightarrow> put v ba = Inr ba' \<Longrightarrow> written (enc (m_endian ba) v) ba ba'"
    and put_room: "ba_wf ba \<Longrightarrow> length (enc (m_endian ba) v) \<le> getCapacity ba \<Longrightarrow> \<exists>ba'. put v ba = Inr ba'"
    and get_enc: "ba_wf ba \<Longrightarrow> ok v \<Longrightarrow> ahead (enc (m_endian ba) v) ba \<Longrightarrow>
        \<exists>ba'. get (kind v) ba = Inr (v, ba') \<and>
              was_read (length (enc (m_endian ba) v)) ba (enc (m_endian ba) v) ba'"
begin

lemma put_all_written:
  "ba_wf ba \<Longrightarrow> put_all put vs ba = Inr ba' \<Longrightarrow>
     written (concat (map (enc (m_endian ba)) vs)) ba ba'"
proof (induction vs arbitrary: ba)
  case Nil
  then show ?case by simp
next
  case (Cons v vs)
  then obtain ba1 where ba1: "put v ba = Inr ba1" "put_all put vs ba1 = Inr ba'"
    by (auto simp: bindE_eq_Inr_iff)
  have w: "written (enc (m_endian ba) v) ba ba1" using put_written Cons.prems(1) ba1(1) .
  then have "ba_wf ba1" "m_endian ba1 = m_endian ba" by (simp_all add: written_def)
  then have "written (concat (map (enc (m_endian ba)) vs)) ba1 ba'"
    using Cons.IH [of ba1] ba1(2) by simp
  then show ?case using written_trans [OF Cons.prems(1) w] by simp
qed

lemma get_all_enc:
  "ba_wf ba \<Longrightarrow> list_all ok vs \<Longrightarrow> ahead (concat (map (enc (m_endian ba)) vs)) ba \<Longrightarrow>
     \<exists>ba'. get_all get (map kind vs) ba = Inr (vs, ba') \<and>
       was_read (length (concat (map (enc (m_endian ba)) vs))) ba (concat (map (enc (m_endian ba)) vs)) ba'"
proof (induction vs arbitrary: ba)
  case Nil
  then show ?case by (simp add: was_read_Nil)
next
  case (Cons v vs)
  let ?e = "enc (m_endian ba) v" and ?es = "concat (map (enc (m_endian ba)) vs)"
  have a: "ahead (?e @ ?es) ba" using Cons.prems(3) by simp
  obtain ba1 where ba1: "get (kind v) ba = Inr (v, ba1)" "was_read (length ?e) ba ?e ba1"
    using get_enc [OF Cons.prems(1) _ ahead_appendD [OF a]] Cons.prems(2) by auto
  have "ba_wf ba1" "m_endian ba1 = m_endian ba" using ba1(2) by (simp_all add: was_read_def)
  moreover have "ahead ?es ba1" by (rule ahead_after [OF a ba1(2)])
  ultimately obtain ba2 where "get_all get (map kind vs) ba1 = Inr (vs, ba2)" "was_read (length ?es) ba1 ?es ba2"
    using Cons.IH [of ba1] Cons.prems(2) by auto
  then show ?case using ba1 was_read_trans [OF ba1(2), of ?es ba2] by simp
qed

lemma round_trip_all:
  assumes "ba_wf ba" and "list_all ok vs" and "put_all put vs ba = Inr ba1"
    and "ba_set_position (m_pos ba) ba1 = Inr ba2"
  shows "\<exists>ba3. get_all get (map kind vs) ba2 = Inr (vs, ba3) \<and> m_pos ba3 = m_pos ba1"
proof -
  note w = put_all_written [OF assms(1,3)]
  have r: "ba_wf ba2" "ahead (concat (map (enc (m_endian ba)) vs)) ba2"
    "m_pos ba2 = m_pos ba" "m_endian ba2 = m_endian ba"
    using written_ahead [OF assms(1) w assms(4)] by simp_all
  then obtain ba3 where "get_all get (map kind vs) ba2 = Inr (vs, ba3)"
    "was_read (length (concat (map (enc (m_endian ba)) vs))) ba2 (concat (map (enc (m_endian ba)) vs)) ba3"
    using get_all_enc [of ba2 vs] assms(2) by auto
  then show ?thesis using w r(3) by (auto simp: was_read_def written_def)
qed

end

text \<open>A single codec is a family with one kind.\<close>

locale wire_codec =
  fixes put :: "'v \<Rightarrow> byte_array \<Rightarrow> byte_array outcome"
    and get :: "byte_array \<Rightarrow> ('v \<times> byte_array) outcome"
    and enc :: "endian \<Rightarrow> 'v \<Rightarrow> byte list"
    and ok :: "'v \<Rightarrow> bool"
  assumes put1_written: "ba_wf ba \<Longrightarrow> put v ba = Inr ba' \<Longrightarrow> written (enc (m_endian ba) v) ba ba'"
    and put1_room: "ba_wf ba \<Longrightarrow> length (enc (m_endian ba) v) \<le> getCapacity ba \<Longrightarrow> \<exists>ba'. put v ba = Inr ba'"
    and get1_enc: "ba_wf ba \<Longrightarrow> ok v \<Longrightarrow> ahead (enc (m_endian ba) v) ba \<Longrightarrow>
        \<exists>ba'. get ba = Inr (v, ba') \<and>
              was_read (length (enc (m_endian ba) v)) ba (enc (m_endian ba) v) ba'"

sublocale wire_codec \<subseteq> one: wire_family put "\<lambda>_ :: unit. get" "\<lambda>_. ()" enc ok
  by unfold_locales (fact put1_written put1_room get1_enc)+

section \<open>Fixed-width instances\<close>

lemma ba_write_room:
  assumes "ba_wf ba" and "length xs \<le> getCapacity ba"
  shows "\<exists>ba'. ba_write xs ba = Inr ba' \<and> written xs ba ba' \<and>
           getCapacity ba' = getCapacity ba - length xs"
proof -
  obtain ba' where ba': "ba_write xs ba = Inr ba'" "written xs ba ba'"
    using ba_write_ok [of ba xs] assms by (auto simp: fits_def)
  have "addCapacity (length xs) ba = ba"
    using assms(2) by (simp add: addCapacity_def)
  then have "m_capacity ba' = m_capacity ba"
    using ba'(1) by (auto simp: ba_write_def bindE_eq_Inr_iff Let_def split: if_splits)
  then show ?thesis using ba' by (auto simp: getCapacity_def written_def)
qed

lemma ba_write_succeeds: "ba_wf ba \<Longrightarrow> length xs \<le> getCapacity ba \<Longrightarrow> \<exists>ba'. ba_write xs ba = Inr ba'"
  using ba_write_room by blast

lemma ba_read_ahead:
  assumes wf: "ba_wf ba" and "ahead xs ba" and "xs \<noteq> []"
  shows "\<exists>ba'. ba_read (length xs) ba = Inr (xs, ba') \<and> was_read (length xs) ba xs ba'"
proof -
  obtain zs where zs: "drop (m_pos ba) (content ba) = xs @ zs" using assms(2) by (auto simp: ahead_iff)
  have "length xs \<le> length (drop (m_pos ba) (content ba))" unfolding zs by simp
  then have k: "length xs \<le> getReadSize ba" using wf by (simp add: getReadSize_def)
  then have "m_pos ba < m_capacity ba" 
    using wf assms(3) unfolding ba_wf_def getReadSize_def by (cases xs) auto
  then show ?thesis using ba_read_was_read [OF wf k] zs by (auto simp: was_read_def)
qed

definition enc_fixed :: "endian \<Rightarrow> 'a::len word \<Rightarrow> byte list" where
  "enc_fixed e v = (if e = COOL_LITTLE_ENDIAN then le_bytes v else rev (le_bytes v))"

lemma length_enc_fixed [simp]: "length (enc_fixed e (v :: 'a::len word)) = LENGTH('a) div 8"
  by (simp add: enc_fixed_def)

lemma write_fixed_enc: "write_fixed v ba = ba_write (enc_fixed (m_endian ba) v) ba"
  by (simp add: write_fixed_def enc_fixed_def le_bytes_byteswap Let_def)

lemma dec_enc_fixed:
  assumes "8 dvd LENGTH('a)"
  shows "(if e = COOL_LITTLE_ENDIAN then of_le_bytes (enc_fixed e v)
          else byteswap (of_le_bytes (enc_fixed e v))) = (v :: 'a::len word)"
proof -
  have "byteswap (of_le_bytes (rev (le_bytes v)) :: 'a word) = byteswap (byteswap v)"
    by (simp only: byteswap_def)
  then show ?thesis using assms by (simp add: enc_fixed_def)
qed

lemma wire_fixed:
  assumes "8 dvd LENGTH('a)"
  shows "wire_codec (write_fixed :: 'a::len word \<Rightarrow> _) read_fixed enc_fixed (\<lambda>_. True)"
proof
  fix ba ba' :: byte_array and v :: "'a word"
  assume "ba_wf ba" "write_fixed v ba = Inr ba'"
  then show "written (enc_fixed (m_endian ba) v) ba ba'"
    by (simp add: write_fixed_enc ba_write_written)
next
  fix ba :: byte_array and v :: "'a word"
  assume "ba_wf ba" "length (enc_fixed (m_endian ba) v) \<le> getCapacity ba"
  then show "\<exists>ba'. write_fixed v ba = Inr ba'"
    using ba_write_room [of ba "enc_fixed (m_endian ba) v"] by (auto simp: write_fixed_enc)
next
  fix ba :: byte_array and v :: "'a word"
  let ?e = "enc_fixed (m_endian ba) v"
  assume a: "ba_wf ba" "ahead ?e ba"
  have "0 < LENGTH('a) div 8"
    using assms dvd_imp_le [of 8 "LENGTH('a)"] by (simp add: div_greater_zero_iff)
  then have "?e \<noteq> []" by (metis length_enc_fixed length_greater_0_conv)
  then show "\<exists>ba'. read_fixed ba = Inr (v, ba') \<and> was_read (length ?e) ba ?e ba'"
    using ba_read_ahead [OF a] dec_enc_fixed [OF assms, of "m_endian ba" v]
    by (auto simp: read_fixed_def Let_def)
qed

lemma fixed_eqs:
  "write_fint8 = write_fixed" "write_fuint8 = write_fixed"
  "write_fint16 = write_fixed" "write_fuint16 = write_fixed"
  "write_fint32 = write_fixed" "write_fuint32 = write_fixed"
  "write_fint64 = write_fixed" "write_fuint64 = write_fixed"
  "write_float = write_fixed" "write_double = write_fixed"
  "read_fint8 = read_fixed" "read_fuint8 = read_fixed"
  "read_fint16 = read_fixed" "read_fuint16 = read_fixed"
  "read_fint32 = read_fixed" "read_fuint32 = read_fixed"
  "read_fint64 = read_fixed" "read_fuint64 = read_fixed"
  "read_float = read_fixed" "read_double = read_fixed"
proof -
  have s: "byteswap v = v" for v :: byte
    by (simp add: byteswap_def le_bytes_def)
  show "write_fint8 = write_fixed" "write_fuint8 = write_fixed"
    by (auto simp: fun_eq_iff write_fint8_def write_fuint8_def write_fixed_def s Let_def)
  show "read_fint8 = read_fixed" "read_fuint8 = read_fixed"
    by (auto simp: fun_eq_iff read_fint8_def read_fuint8_def read_fixed_def s Let_def intro!: bindE_cong)
qed (auto simp: fun_eq_iff write_fint16_def write_fuint16_def write_fint32_def write_fuint32_def
    write_fint64_def write_fuint64_def write_float_def write_double_def
    read_fint16_def read_fuint16_def read_fint32_def read_fuint32_def
    read_fint64_def read_fuint64_def read_float_def read_double_def)

interpretation fint8: wire_codec write_fint8 read_fint8 enc_fixed "\<lambda>_. True"
  unfolding fixed_eqs by (rule wire_fixed) simp

interpretation fuint8: wire_codec write_fuint8 read_fuint8 enc_fixed "\<lambda>_. True"
  unfolding fixed_eqs by (rule wire_fixed) simp

interpretation fint16: wire_codec write_fint16 read_fint16 enc_fixed "\<lambda>_. True"
  unfolding fixed_eqs by (rule wire_fixed) simp

interpretation fuint16: wire_codec write_fuint16 read_fuint16 enc_fixed "\<lambda>_. True"
  unfolding fixed_eqs by (rule wire_fixed) simp

interpretation fint32: wire_codec write_fint32 read_fint32 enc_fixed "\<lambda>_. True"
  unfolding fixed_eqs by (rule wire_fixed) simp

interpretation fuint32: wire_codec write_fuint32 read_fuint32 enc_fixed "\<lambda>_. True"
  unfolding fixed_eqs by (rule wire_fixed) simp

interpretation fint64: wire_codec write_fint64 read_fint64 enc_fixed "\<lambda>_. True"
  unfolding fixed_eqs by (rule wire_fixed) simp

interpretation fuint64: wire_codec write_fuint64 read_fuint64 enc_fixed "\<lambda>_. True"
  unfolding fixed_eqs by (rule wire_fixed) simp

interpretation float_bits: wire_codec write_float read_float enc_fixed "\<lambda>_. True"
  unfolding fixed_eqs by (rule wire_fixed) simp

interpretation double_bits: wire_codec write_double read_double enc_fixed "\<lambda>_. True"
  unfolding fixed_eqs by (rule wire_fixed) simp

section \<open>Zigzag is a bijection\<close>

lemma double_and_1: "(v * 2) AND 1 = (0 :: 'a::len word)"
  by (rule bit_word_eqI) (auto simp: bit_simps mult.commute [of v])

lemma double_minus_1_and_1: "(v * 2 - 1) AND 1 = (1 :: 'a::len word)"
proof -
  have odd: "NOT (2 * w) AND 1 = (1 :: 'a word)" for w
    by (rule bit_word_eqI) (auto simp: bit_simps)
  have "v * 2 - 1 = NOT (2 * (- v))" by (simp add: not_eq_complement algebra_simps)
  then show ?thesis by (simp only: odd)
qed

lemma half_double: "\<not> sint v < 0 \<Longrightarrow> drop_bit 1 (v * 2) = (v :: 'a::len word)"
proof (rule bit_word_eqI)
  fix n assume "\<not> sint v < 0" "n < LENGTH('a)"
  then show "bit (drop_bit 1 (v * 2)) n = bit v n"
    by (cases "n = LENGTH('a) - 1") (auto simp: bit_simps mult.commute [of v] simp flip: bit_last_iff)
qed

lemma half_double_neg: "sint v < 0 \<Longrightarrow> NOT (drop_bit 1 ((- v) * 2 - 1)) = (v :: 'a::len word)"
proof (rule bit_word_eqI)
  fix n assume a: "sint v < 0" "n < LENGTH('a)"
  have "(- v) * 2 - 1 = NOT (2 * v)" by (simp add: not_eq_complement algebra_simps)
  then show "bit (NOT (drop_bit 1 ((- v) * 2 - 1))) n = bit v n"
    using a by (cases "n = LENGTH('a) - 1") (auto simp: bit_simps simp flip: bit_last_iff)
qed

lemma zigzag_inv:
  "drop_bit 1 (if sint v < 0 then (- v) * 2 - 1 else v * 2) XOR
     - ((if sint v < 0 then (- v) * 2 - 1 else v * 2) AND 1) = (v :: 'a::len word)"
proof (cases "sint v < 0")
  case True
  then show ?thesis
    using half_double_neg [of v] by (simp only: double_minus_1_and_1 if_True bit.xor_one_right)
next
  case False
  then show ?thesis
    using half_double [of v] by (simp only: double_and_1 if_False minus_zero xor.right_neutral simp_thms)
qed

lemma DecodeEncode32 [simp]: "DecodeZigzap32 (EncodeZigzap32 v) = v"
  unfolding DecodeZigzap32_def EncodeZigzap32_def by (rule zigzag_inv)

lemma DecodeEncode64 [simp]: "DecodeZigzap64 (EncodeZigzap64 v) = v"
  unfolding DecodeZigzap64_def EncodeZigzap64_def by (rule zigzag_inv)

lemma right_inverse_finite:
  fixes f :: "'a::finite \<Rightarrow> 'a"
  assumes "\<And>x. g (f x) = x"
  shows "f (g y) = y"
proof -
  have "inj f" by (rule inj_on_inverseI [of _ g]) (simp add: assms)
  then have "surj f" by (simp add: finite_UNIV_inj_surj)
  then obtain x where "y = f x" by (rule surjE)
  then show ?thesis by (simp add: assms)
qed

lemma EncodeDecode32: "EncodeZigzap32 (DecodeZigzap32 u) = u"
  by (rule right_inverse_finite) simp

lemma EncodeDecode64: "EncodeZigzap64 (DecodeZigzap64 u) = u"
  by (rule right_inverse_finite) simp

section \<open>Variable-length instances\<close>

text \<open>The base-128 code of a number, least significant group first.\<close>

fun varint :: "nat \<Rightarrow> byte list" where
  "varint n = (if n < 128 then [of_nat n] else of_nat (n mod 128 + 128) # varint (n div 128))"

declare varint.simps [simp del]

lemma length_varint: "n < 128 ^ Suc k \<Longrightarrow> length (varint n) \<le> Suc k"
proof (induction n arbitrary: k rule: varint.induct)
  case (1 n)
  show ?case
  proof (cases "n < 128")
    case False
    then obtain j where "k = Suc j" using 1(2) by (cases k) auto
    then show ?thesis
      using False 1 by (simp add: varint.simps [of n] less_mult_imp_div_less mult.commute)
  qed (simp add: varint.simps)
qed

lemma length_varint_u32: "length (varint (unat (v :: u32))) \<le> 5"
  using length_varint [of "unat v" 4] unat_less_exp [of v] by simp

lemma length_varint_u64: "length (varint (unat (v :: u64))) \<le> 10"
  using length_varint [of "unat v" 9] unat_less_exp [of v] by simp

lemma and_7f: "v AND 0x7f = (of_nat (unat v mod 128) :: 'a::len word)"
proof -
  have "v AND 0x7f = take_bit 7 v" by (simp add: take_bit_eq_mask mask_eq_exp_minus_1)
  also have "\<dots> = of_nat (take_bit 7 (unat v))" by (simp add: of_nat_take_bit)
  finally show ?thesis by (simp add: take_bit_eq_mod)
qed

lemma or_80: "m < 128 \<Longrightarrow> of_nat m OR 0x80 = (of_nat (m + 128) :: 'a::len word)"
proof -
  assume m: "m < 128"
  have e: "push_bit 7 1 = (128 :: nat)" by (simp add: push_bit_eq_mult)
  have "bit (m AND push_bit 7 1) n = bit (0 :: nat) n" for n
    using m bit_iff_odd [of m 7] unfolding bit_and_iff bit_push_bit_iff_nat bit_1_iff
    by (cases "n = 7") auto
  then have "m AND push_bit 7 1 = 0" by (rule bit_eqI)
  then have "m OR 128 = m + 128" unfolding e by (rule disjunctive_add_eq_or [symmetric])
  then have "of_nat (m + 128) = (of_nat (m OR 128) :: 'a word)" by simp
  also have "\<dots> = of_nat m OR of_nat 128" by (rule of_nat_or_eq)
  finally show ?thesis by simp
qed

lemma join_7: "of_nat (m mod 128) OR push_bit 7 (of_nat (m div 128)) = (of_nat m :: 'a::len word)"
proof -
  have "take_bit 7 m OR push_bit 7 (drop_bit 7 m) = m"
  proof (rule bit_eqI)
    show "bit (take_bit 7 m OR push_bit 7 (drop_bit 7 m)) n = bit m n" for n
      by (cases "n < 7") (auto simp: bit_simps)
  qed
  then have "of_nat m = (of_nat (take_bit 7 m) OR push_bit 7 (of_nat (drop_bit 7 m)) :: 'a word)"
    by (metis of_nat_or_eq of_nat_push_bit)
  then show ?thesis by (simp add: take_bit_eq_mod drop_bit_eq_div)
qed

text \<open>The encoding loop computes the code, and the array \<open>temp\<close> is large enough.\<close>

lemma enc_loop_varint:
  assumes "8 \<le> LENGTH('a)" and "length temp + length (varint (unat v)) \<le> cap"
  shows "enc_loop cap (v :: 'a::len word) temp = Inr (temp @ varint (unat v))"
  using assms(2)
proof (induction cap v temp rule: enc_loop.induct)
  case (1 cap v temp)
  have "(2 :: nat) ^ 8 \<le> 2 ^ LENGTH('a)" using assms(1) by (intro power_increasing) auto
  then have u: "unat (0x80 :: 'a word) = 128"
    using unat_of_nat_less [of 128, where 'a = 'a] by simp
  have t: "length temp < cap" using 1(2) by (subst (asm) varint.simps) (auto split: if_splits)
  show ?case
  proof (cases "v \<ge> 0x80")
    case True
    then have n: "\<not> unat v < 128" using u by (simp add: word_le_nat_alt)
    have d: "unat (drop_bit 7 v) = unat v div 128" unfolding unat_drop_bit_eq by (simp add: drop_bit_eq_div)
    have b: "ucast ((v AND 0x7f) OR 0x80) = (of_nat (unat v mod 128 + 128) :: byte)"
    proof -
      have l: "unat v mod 128 + 128 < 2 ^ LENGTH('a)"
        using \<open>2 ^ 8 \<le> 2 ^ LENGTH('a)\<close> mod_less_divisor [of 128 "unat v"] by simp
      then show ?thesis by (simp add: and_7f or_80 ucast_of_nat_less del: of_nat_add)
    qed
    have "enc_loop cap (drop_bit 7 v) (temp @ [ucast ((v AND 0x7f) OR 0x80)]) =
        Inr ((temp @ [ucast ((v AND 0x7f) OR 0x80)]) @ varint (unat (drop_bit 7 v)))"
      using True t 1(2) n by (intro 1(1)) (auto simp: d varint.simps [of "unat v"])
    then show ?thesis
      using True t n by (simp add: enc_loop.simps [of cap v] varint.simps [of "unat v"] d b)
  next
    case False
    then have "unat v < 128" using u by (simp add: word_le_nat_alt)
    then show ?thesis
      using False t by (simp add: enc_loop.simps [of cap v] varint.simps [of "unat v"])
  qed
qed

lemma enc_fixed_byte [simp]: "enc_fixed e (x :: byte) = [x]"
  by (simp add: enc_fixed_def le_bytes_def)

lemma read_fuint8_ahead:
  assumes "ba_wf ba" and "ahead (x # xs) ba"
  obtains ba' where "read_fuint8 ba = Inr (x, ba')" and "was_read 1 ba [x] ba'" and "ahead xs ba'"
proof -
  obtain ba' where "read_fuint8 ba = Inr (x, ba')" "was_read (length [x]) ba [x] ba'"
    using fuint8.get1_enc [OF assms(1), of x] ahead_appendD [of "[x]" xs ba] assms(2) by auto
  then show ?thesis using that ahead_after [of "[x]" xs ba ba'] assms(2) by simp
qed

text \<open>Decoding a code whose value fits the width ends before the shift leaves the word.\<close>

lemma dec_loop_varint:
  assumes "8 \<le> LENGTH('a)" and "ba_wf ba" and "ahead (varint m) ba" and "i < w" and "m * 2 ^ i < 2 ^ w"
  shows "\<exists>ba'. dec_loop w i (res :: 'a::len word) ba = Inr (res OR push_bit i (of_nat m), ba') \<and>
           was_read (length (varint m)) ba (varint m) ba'"
  using assms(2-)
proof (induction m arbitrary: i res ba rule: varint.induct)
  case (1 m)
  have p: "(2 :: nat) ^ 8 \<le> 2 ^ LENGTH('a)" using assms(1) by (intro power_increasing) auto
  show ?case
  proof (cases "m < 128")
    case True
    then have v: "varint m = [of_nat m]" by (simp add: varint.simps)
    have lt: "(of_nat m :: byte) < 0x80" using True by (simp add: word_less_nat_alt unat_of_nat_less)
    have c: "ucast (of_nat m :: byte) = (of_nat m :: 'a word)" using True by (simp add: ucast_of_nat_less)
    obtain ba' where "read_fuint8 ba = Inr (of_nat m, ba')" "was_read 1 ba [of_nat m] ba'"
      using read_fuint8_ahead [of ba "of_nat m" "[]"] 1(2,3) v by auto
    then show ?thesis using v 1(4) lt c by (simp add: dec_loop.simps)
  next
    case False
    let ?b = "of_nat (m mod 128 + 128) :: byte"
    have v: "varint m = ?b # varint (m div 128)" using False by (subst varint.simps) simp
    have s: "m mod 128 + 128 < 2 ^ LENGTH(8)" using mod_less_divisor [of 128 m] by simp
    have ge: "\<not> ?b < 0x80" using unat_of_nat_less [OF s] by (simp add: word_less_nat_alt del: of_nat_add)
    have c: "ucast ?b AND 0x7f = (of_nat (m mod 128) :: 'a word)"
    proof -
      have "unat (of_nat (m mod 128 + 128) :: 'a word) = m mod 128 + 128"
        by (rule unat_of_nat_less) (use s p in simp)
      then show ?thesis using s by (simp add: ucast_of_nat_less and_7f del: of_nat_add)
    qed
    obtain ba1 where ba1: "read_fuint8 ba = Inr (?b, ba1)" "was_read 1 ba [?b] ba1" "ahead (varint (m div 128)) ba1"
      using read_fuint8_ahead [of ba ?b "varint (m div 128)"] 1(2,3) v by metis
    have sm: "m div 128 * 2 ^ (i + 7) \<le> m * 2 ^ i"
      by (simp add: power_add)
    have "1 \<le> m div 128" using False by (simp add: less_eq_div_iff_mult_less_eq)
    then have "(2 :: nat) ^ (i + 7) \<le> m div 128 * 2 ^ (i + 7)" by simp
    then have "(2 :: nat) ^ (i + 7) < 2 ^ w" using sm 1(5) by linarith
    then have iw: "i + 7 < w" by (simp only: power_strict_increasing_iff [OF one_less_numeral_iff [THEN iffD2]] semiring_norm)
    obtain ba2 where ba2:
      "dec_loop w (i + 7) (res OR push_bit i (of_nat (m mod 128))) ba1 =
         Inr ((res OR push_bit i (of_nat (m mod 128))) OR push_bit (i + 7) (of_nat (m div 128)), ba2)"
      "was_read (length (varint (m div 128))) ba1 (varint (m div 128)) ba2"
      using 1(1) [OF False _ ba1(3) iw] ba1(2) sm 1(5) by (fastforce simp: was_read_def)
    have "(res OR push_bit i (of_nat (m mod 128))) OR push_bit (i + 7) (of_nat (m div 128)) =
        res OR push_bit i (of_nat m)"
      by (simp add: or.assoc join_7 flip: push_bit_push_bit push_bit_or)
    then show ?thesis
      using ba1 ba2 1(4) ge c v was_read_trans [of "[?b]" ba ba1 "varint (m div 128)" ba2]
      by (auto simp: dec_loop.simps [of w i] simp del: of_nat_add)
  qed
qed

definition enc_u32 :: "endian \<Rightarrow> u32 \<Rightarrow> byte list" where
  "enc_u32 e v = varint (unat v)"

definition enc_u64 :: "endian \<Rightarrow> u64 \<Rightarrow> byte list" where
  "enc_u64 e v = varint (unat v)"

lemma enc_loop_u32: "enc_loop 5 (v :: u32) [] = Inr (varint (unat v))"
  using enc_loop_varint [of "[]" v 5] length_varint_u32 [of v] by simp

lemma enc_loop_u64: "enc_loop 10 (v :: u64) [] = Inr (varint (unat v))"
  using enc_loop_varint [of "[]" v 10] length_varint_u64 [of v] by simp

interpretation uint32: wire_codec write_uint32 read_uint32 enc_u32 "\<lambda>_. True"
proof
  fix ba :: byte_array and v
  assume "ba_wf ba" "ahead (enc_u32 (m_endian ba) v) ba"
  then show "\<exists>ba'. read_uint32 ba = Inr (v, ba') \<and>
      was_read (length (enc_u32 (m_endian ba) v)) ba (enc_u32 (m_endian ba) v) ba'"
    using dec_loop_varint [where 'a = 32, of ba "unat v" 0 32 0] unat_less_exp [of v]
    by (simp add: read_uint32_def enc_u32_def)
qed (auto simp: write_uint32_def enc_loop_u32 enc_u32_def intro: ba_write_written ba_write_succeeds)

interpretation uint64: wire_codec write_uint64 read_uint64 enc_u64 "\<lambda>_. True"
proof
  fix ba :: byte_array and v
  assume "ba_wf ba" "ahead (enc_u64 (m_endian ba) v) ba"
  then show "\<exists>ba'. read_uint64 ba = Inr (v, ba') \<and>
      was_read (length (enc_u64 (m_endian ba) v)) ba (enc_u64 (m_endian ba) v) ba'"
    using dec_loop_varint [where 'a = 64, of ba "unat v" 0 64 0] unat_less_exp [of v]
    by (simp add: read_uint64_def enc_u64_def)
qed (auto simp: write_uint64_def enc_loop_u64 enc_u64_def intro: ba_write_written ba_write_succeeds)

interpretation int32: wire_codec write_int32 read_int32 "\<lambda>e v. enc_u32 e (EncodeZigzap32 v)" "\<lambda>_. True"
proof
  fix ba :: byte_array and v
  assume a: "ba_wf ba" "ahead (enc_u32 (m_endian ba) (EncodeZigzap32 v)) ba"
  show "\<exists>ba'. read_int32 ba = Inr (v, ba') \<and>
      was_read (length (enc_u32 (m_endian ba) (EncodeZigzap32 v))) ba (enc_u32 (m_endian ba) (EncodeZigzap32 v)) ba'"
    using uint32.get1_enc [OF a(1) _ a(2)] by (auto simp: read_int32_def)
qed (use uint32.put1_written uint32.put1_room in \<open>auto simp: write_int32_def\<close>)

interpretation int64: wire_codec write_int64 read_int64 "\<lambda>e v. enc_u64 e (EncodeZigzap64 v)" "\<lambda>_. True"
proof
  fix ba :: byte_array and v
  assume a: "ba_wf ba" "ahead (enc_u64 (m_endian ba) (EncodeZigzap64 v)) ba"
  show "\<exists>ba'. read_int64 ba = Inr (v, ba') \<and>
      was_read (length (enc_u64 (m_endian ba) (EncodeZigzap64 v))) ba (enc_u64 (m_endian ba) (EncodeZigzap64 v)) ba'"
    using uint64.get1_enc [OF a(1) _ a(2)] by (auto simp: read_int64_def)
qed (use uint64.put1_written uint64.put1_room in \<open>auto simp: write_int64_def\<close>)

section \<open>String instances\<close>

text \<open>
  A non-empty string shorter than the prefix type can count. (The empty string is read back
  too, except at the very end of the chain; see \<open>read_string_empty_at_end\<close>.)
\<close>

definition enc_string :: "'a::len itself \<Rightarrow> endian \<Rightarrow> byte list \<Rightarrow> byte list" where
  "enc_string _ e val = enc_fixed e (of_nat (length val) :: 'a word) @ val"

definition prefix_ok :: "'a::len itself \<Rightarrow> byte list \<Rightarrow> bool" where
  "prefix_ok _ val \<longleftrightarrow> val \<noteq> [] \<and> length val < 2 ^ LENGTH('a)"

lemma wire_string:
  assumes "8 dvd LENGTH('a)"
    and put: "\<And>val ba. put val ba = bindE (write_fixed (of_nat (length val) :: 'a::len word) ba) (\<lambda>ba. ba_write val ba)"
    and get: "\<And>ba. get ba = bindE (read_fixed ba) (\<lambda>(len :: 'a word, ba'). ba_read (unat len) ba')"
  shows "wire_codec put get (enc_string TYPE('a)) (prefix_ok TYPE('a))"
proof
  note fixed = wire_codec.put1_written [OF wire_fixed [OF assms(1)]]
    wire_codec.get1_enc [OF wire_fixed [OF assms(1)]]
  {
    fix ba ba' :: byte_array and val :: "byte list"
    assume wf: "ba_wf ba" and p: "put val ba = Inr ba'"
    obtain ba1 where ba1: "write_fixed (of_nat (length val) :: 'a word) ba = Inr ba1" "ba_write val ba1 = Inr ba'"
      using p by (auto simp: put bindE_eq_Inr_iff)
    note w = fixed(1) [OF wf ba1(1)]
    then have "written val ba1 ba'" using ba_write_written [of ba1] ba1(2) by (simp add: written_def)
    then show "written (enc_string TYPE('a) (m_endian ba) val) ba ba'"
      unfolding enc_string_def by (rule written_trans [OF wf w])
  next
    fix ba :: byte_array and val :: "byte list"
    let ?p = "enc_fixed (m_endian ba) (of_nat (length val) :: 'a word)"
    assume wf: "ba_wf ba" and r: "length (enc_string TYPE('a) (m_endian ba) val) \<le> getCapacity ba"
    obtain ba1 where ba1: "ba_write ?p ba = Inr ba1" "written ?p ba ba1" "getCapacity ba1 = getCapacity ba - length ?p"
      using ba_write_room [OF wf, of ?p] r by (auto simp: enc_string_def)
    have "ba_wf ba1" "length val \<le> getCapacity ba1"
      using ba1(2,3) r by (simp_all add: enc_string_def written_def)
    then obtain ba2 where "ba_write val ba1 = Inr ba2"
      using ba_write_succeeds by blast
    then show "\<exists>ba'. put val ba = Inr ba'" using ba1 by (simp add: put write_fixed_enc)
  next
    fix ba :: byte_array and val :: "byte list"
    let ?p = "enc_fixed (m_endian ba) (of_nat (length val) :: 'a word)" and ?e = "enc_string TYPE('a) (m_endian ba) val"
    assume wf: "ba_wf ba" and ok: "prefix_ok TYPE('a) val" and a: "ahead ?e ba"
    have a': "ahead (?p @ val) ba" using a by (simp only: enc_string_def)
    obtain ba1 where ba1: "read_fixed ba = Inr (of_nat (length val) :: 'a word, ba1)" "was_read (length ?p) ba ?p ba1"
      using fixed(2) [OF wf _ ahead_appendD [OF a']] by blast
    have "ba_wf ba1" "val \<noteq> []" using ba1(2) ok by (simp_all add: was_read_def prefix_ok_def)
    then obtain ba2 where "ba_read (length val) ba1 = Inr (val, ba2)" "was_read (length val) ba1 val ba2"
      using ba_read_ahead [OF _ ahead_after [OF a' ba1(2)]] by blast
    then show "\<exists>ba'. get ba = Inr (val, ba') \<and> was_read (length ?e) ba ?e ba'"
      using ba1 was_read_trans [OF ba1(2), of val ba2] ok
      by (simp add: get enc_string_def prefix_ok_def unat_of_nat_less)
  }
qed

interpretation string_f16: wire_codec write_string_f16 read_string_f16 "enc_string TYPE(16)" "prefix_ok TYPE(16)"
  by (rule wire_string) (simp_all add: write_string_f16_def read_string_f16_def fixed_eqs)

interpretation string_f32: wire_codec write_string_f32 read_string_f32 "enc_string TYPE(32)" "prefix_ok TYPE(32)"
  by (rule wire_string) (simp_all add: write_string_f32_def read_string_f32_def fixed_eqs)

interpretation string_f64: wire_codec write_string_f64 read_string_f64 "enc_string TYPE(64)" "prefix_ok TYPE(64)"
  by (rule wire_string) (simp_all add: write_string_f64_def read_string_f64_def fixed_eqs)

section \<open>Messages\<close>

text \<open>A field of a message, one constructor per typed writer, and the writer and reader for it.\<close>

datatype wire_value =
    Fint8 byte | Fuint8 byte | Fint16 u16 | Fuint16 u16 | Fint32 u32 | Fuint32 u32
  | Fint64 u64 | Fuint64 u64 | Float u32 | Double u64
  | Int32 u32 | Uint32 u32 | Int64 u64 | Uint64 u64
  | String_f16 "byte list" | String_f32 "byte list" | String_f64 "byte list"

datatype wire_kind =
    KFint8 | KFuint8 | KFint16 | KFuint16 | KFint32 | KFuint32 | KFint64 | KFuint64 | KFloat | KDouble
  | KInt32 | KUint32 | KInt64 | KUint64 | KString_f16 | KString_f32 | KString_f64

fun kind_of :: "wire_value \<Rightarrow> wire_kind" where
  "kind_of (Fint8 _) = KFint8" | "kind_of (Fuint8 _) = KFuint8"
| "kind_of (Fint16 _) = KFint16" | "kind_of (Fuint16 _) = KFuint16"
| "kind_of (Fint32 _) = KFint32" | "kind_of (Fuint32 _) = KFuint32"
| "kind_of (Fint64 _) = KFint64" | "kind_of (Fuint64 _) = KFuint64"
| "kind_of (Float _) = KFloat" | "kind_of (Double _) = KDouble"
| "kind_of (Int32 _) = KInt32" | "kind_of (Uint32 _) = KUint32"
| "kind_of (Int64 _) = KInt64" | "kind_of (Uint64 _) = KUint64"
| "kind_of (String_f16 _) = KString_f16" | "kind_of (String_f32 _) = KString_f32"
| "kind_of (String_f64 _) = KString_f64"

fun put_value :: "wire_value \<Rightarrow> byte_array \<Rightarrow> byte_array outcome" where
  "put_value (Fint8 v) = write_fint8 v" | "put_value (Fuint8 v) = write_fuint8 v"
| "put_value (Fint16 v) = write_fint16 v" | "put_value (Fuint16 v) = write_fuint16 v"
| "put_value (Fint32 v) = write_fint32 v" | "put_value (Fuint32 v) = write_fuint32 v"
| "put_value (Fint64 v) = write_fint64 v" | "put_value (Fuint64 v) = write_fuint64 v"
| "put_value (Float v) = write_float v" | "put_value (Double v) = write_double v"
| "put_value (Int32 v) = write_int32 v" | "put_value (Uint32 v) = write_uint32 v"
| "put_value (Int64 v) = write_int64 v" | "put_value (Uint64 v) = write_uint64 v"
| "put_value (String_f16 v) = write_string_f16 v" | "put_value (String_f32 v) = write_string_f32 v"
| "put_value (String_f64 v) = write_string_f64 v"

definition lift_get :: "('a \<Rightarrow> 'v) \<Rightarrow> (byte_array \<Rightarrow> ('a \<times> byte_array) outcome) \<Rightarrow> byte_array \<Rightarrow> ('v \<times> byte_array) outcome" where
  "lift_get c g ba = bindE (g ba) (\<lambda>(v, ba'). Inr (c v, ba'))"

fun get_value :: "wire_kind \<Rightarrow> byte_array \<Rightarrow> (wire_value \<times> byte_array) outcome" where
  "get_value KFint8 = lift_get Fint8 read_fint8" | "get_value KFuint8 = lift_get Fuint8 read_fuint8"
| "get_value KFint16 = lift_get Fint16 read_fint16" | "get_value KFuint16 = lift_get Fuint16 read_fuint16"
| "get_value KFint32 = lift_get Fint32 read_fint32" | "get_value KFuint32 = lift_get Fuint32 read_fuint32"
| "get_value KFint64 = lift_get Fint64 read_fint64" | "get_value KFuint64 = lift_get Fuint64 read_fuint64"
| "get_value KFloat = lift_get Float read_float" | "get_value KDouble = lift_get Double read_double"
| "get_value KInt32 = lift_get Int32 read_int32" | "get_value KUint32 = lift_get Uint32 read_uint32"
| "get_value KInt64 = lift_get Int64 read_int64" | "get_value KUint64 = lift_get Uint64 read_uint64"
| "get_value KString_f16 = lift_get String_f16 read_string_f16"
| "get_value KString_f32 = lift_get String_f32 read_string_f32"
| "get_value KString_f64 = lift_get String_f64 read_string_f64"

fun enc_value :: "endian \<Rightarrow> wire_value \<Rightarrow> byte list" where
  "enc_value e (Fint8 v) = enc_fixed e v" | "enc_value e (Fuint8 v) = enc_fixed e v"
| "enc_value e (Fint16 v) = enc_fixed e v" | "enc_value e (Fuint16 v) = enc_fixed e v"
| "enc_value e (Fint32 v) = enc_fixed e v" | "enc_value e (Fuint32 v) = enc_fixed e v"
| "enc_value e (Fint64 v) = enc_fixed e v" | "enc_value e (Fuint64 v) = enc_fixed e v"
| "enc_value e (Float v) = enc_fixed e v" | "enc_value e (Double v) = enc_fixed e v"
| "enc_value e (Int32 v) = enc_u32 e (EncodeZigzap32 v)" | "enc_value e (Uint32 v) = enc_u32 e v"
| "enc_value e (Int64 v) = enc_u64 e (EncodeZigzap64 v)" | "enc_value e (Uint64 v) = enc_u64 e v"
| "enc_value e (String_f16 v) = enc_string TYPE(16) e v"
| "enc_value e (String_f32 v) = enc_string TYPE(32) e v"
| "enc_value e (String_f64 v) = enc_string TYPE(64) e v"

fun ok_value :: "wire_value \<Rightarrow> bool" where
  "ok_value (String_f16 v) = prefix_ok TYPE(16) v"
| "ok_value (String_f32 v) = prefix_ok TYPE(32) v"
| "ok_value (String_f64 v) = prefix_ok TYPE(64) v"
| "ok_value _ = True"

lemma lift_get_enc:
  assumes "\<exists>ba'. g ba = Inr (v, ba') \<and> was_read k ba xs ba'"
  shows "\<exists>ba'. lift_get c g ba = Inr (c v, ba') \<and> was_read k ba xs ba'"
  using assms by (auto simp: lift_get_def)

lemmas codec_written = fint8.put1_written fuint8.put1_written fint16.put1_written fuint16.put1_written
  fint32.put1_written fuint32.put1_written fint64.put1_written fuint64.put1_written
  float_bits.put1_written double_bits.put1_written int32.put1_written uint32.put1_written
  int64.put1_written uint64.put1_written string_f16.put1_written string_f32.put1_written
  string_f64.put1_written

lemmas codec_room = fint8.put1_room fuint8.put1_room fint16.put1_room fuint16.put1_room
  fint32.put1_room fuint32.put1_room fint64.put1_room fuint64.put1_room
  float_bits.put1_room double_bits.put1_room int32.put1_room uint32.put1_room
  int64.put1_room uint64.put1_room string_f16.put1_room string_f32.put1_room string_f64.put1_room

lemmas codec_get = fint8.get1_enc fuint8.get1_enc fint16.get1_enc fuint16.get1_enc
  fint32.get1_enc fuint32.get1_enc fint64.get1_enc fuint64.get1_enc
  float_bits.get1_enc double_bits.get1_enc int32.get1_enc uint32.get1_enc
  int64.get1_enc uint64.get1_enc string_f16.get1_enc string_f32.get1_enc string_f64.get1_enc

interpretation wire: wire_family put_value get_value kind_of enc_value ok_value
proof
  show "written (enc_value (m_endian ba) v) ba ba'" if "ba_wf ba" "put_value v ba = Inr ba'" for ba v ba'
    using that by (cases v) (simp_all only: put_value.simps enc_value.simps codec_written)
  show "\<exists>ba'. put_value v ba = Inr ba'" if "ba_wf ba" "length (enc_value (m_endian ba) v) \<le> getCapacity ba" for ba v
    using that by (cases v) (simp_all only: put_value.simps enc_value.simps codec_room)
  show "\<exists>ba'. get_value (kind_of v) ba = Inr (v, ba') \<and>
      was_read (length (enc_value (m_endian ba) v)) ba (enc_value (m_endian ba) v) ba'"
    if "ba_wf ba" "ok_value v" "ahead (enc_value (m_endian ba) v) ba" for ba v
    using that
    by (cases v) (simp only: kind_of.simps get_value.simps enc_value.simps ok_value.simps;
        rule lift_get_enc; simp only: codec_get simp_thms)+
qed

text \<open>
  The length prefix of an empty string may end at the end of the chain; reading the zero bytes
  that follow then dereferences the null cursor.
\<close>

lemma read_string_empty_at_end:
  assumes "read_fuint16 ba = Inr (0, ba')" and "ba_wf ba'" and "m_pos ba' = m_capacity ba'"
  shows "read_string_f16 ba = Inl Null_deref"
  using assms ba_read_at_end [of ba'] by (simp add: read_string_f16_def)

lemma read_fixed_too_long:
  "getReadSize ba < LENGTH('a) div 8 \<Longrightarrow>
     (read_fixed ba :: ('a::len word \<times> byte_array) outcome) = Inl (Exception ''not enough len'')"
  by (simp add: read_fixed_def ba_read_too_long)

lemma written_size: "ba_wf ba \<Longrightarrow> written xs ba ba1 \<Longrightarrow> m_pos ba = m_size ba \<Longrightarrow> m_size ba1 = m_pos ba + length xs"
  by (simp add: written_def)

section \<open>Properties\<close>

text \<open>
  C5. Whatever fields a message has (fixed-width integers of every size in either byte order,
  floating-point bit patterns, plain and zigzag varints, non-empty strings with a 16, 32 or 64-bit length),
  writing them one after another, seeking back to where the message began and reading fields of the
  same kinds yields the values written, and leaves the position where the writing ended.
\<close>

theorem message_round_trip:
  assumes "ba_wf ba" and "list_all ok_value vs" and "put_all put_value vs ba = Inr ba1"
    and "ba_set_position (m_pos ba) ba1 = Inr ba2"
  shows "\<exists>ba3. get_all get_value (map kind_of vs) ba2 = Inr (vs, ba3) \<and> m_pos ba3 = m_pos ba1"
  using assms by (rule wire.round_trip_all)

theorem message_round_trip_witness:
  "\<exists>ba1 ba2 ba3. put_all put_value [Uint32 300, Int64 (- 3), String_f16 [104, 105], Fint32 7] (ByteArray_new (\<lambda>_. 0) 64) = Inr ba1 \<and>
     ba_set_position 0 ba1 = Inr ba2 \<and>
     get_all get_value [KUint32, KInt64, KString_f16, KFint32] ba2 =
       Inr ([Uint32 300, Int64 (- 3), String_f16 [104, 105], Fint32 7], ba3)"
proof -
  let ?vs = "[Uint32 300, Int64 (- 3), String_f16 [104, 105], Fint32 7]" and ?ba = "ByteArray_new (\<lambda>_. 0) 64"
  have "case bindE (put_all put_value ?vs ?ba) (ba_set_position 0) of Inr _ \<Rightarrow> True | Inl _ \<Rightarrow> False" by code_simp
  then obtain ba1 ba2 where r: "put_all put_value ?vs ?ba = Inr ba1" "ba_set_position 0 ba1 = Inr ba2"
    by (auto simp: bindE_def simp del: put_all.simps split: sum.splits)
  have "m_pos ?ba = 0" by (simp add: ByteArray_new_def)
  then show ?thesis
    using message_round_trip [OF _ _ r(1)] r ByteArray_new_wf [of 64]
    by (auto simp: prefix_ok_def simp del: put_all.simps get_all.simps)
qed

text \<open>
  The wire format: when writing a message succeeds, the array holds, from the old position on,
  exactly the concatenated encodings of its fields (network or host order as the byte-order
  flag says, base-128 groups for varints, the length prefix before string data), the bytes
  around them are untouched and the invariant is kept.
\<close>

theorem message_layout:
  assumes "ba_wf ba" and "put_all put_value vs ba = Inr ba1"
  shows "written (concat (map (enc_value (m_endian ba)) vs)) ba ba1"
  using assms by (rule wire.put_all_written)

theorem message_layout_witness:
  "\<exists>ba1. put_all put_value [Fuint16 258, Uint32 300] (ByteArray_new (\<lambda>_. 0) 64) = Inr ba1 \<and>
     content ba1 = [1, 2, 172, 2]"
proof -
  let ?vs = "[Fuint16 258, Uint32 300]" and ?ba = "ByteArray_new (\<lambda>_. 0) 64"
  have "case put_all put_value ?vs ?ba of Inr _ \<Rightarrow> True | Inl _ \<Rightarrow> False" by code_simp
  then obtain ba1 where r: "put_all put_value ?vs ?ba = Inr ba1" by (auto simp del: put_all.simps split: sum.splits)
  have e: "m_endian ?ba = COOL_BIG_ENDIAN" "m_pos ?ba = 0" by (simp_all add: ByteArray_new_def)
  have "concat (map (enc_value COOL_BIG_ENDIAN) ?vs) = [1, 2, 172, 2]" by code_simp
  then have "written [1, 2, 172, 2] ?ba ba1" using message_layout [OF _ r] ByteArray_new_wf [of 64] e(1) by (simp del: enc_value.simps)
  then show ?thesis
    using r e ByteArray_new_wf [of 64] by (auto simp: written_def overwrite_def simp del: put_all.simps)
qed

text \<open>
  C24. The varint writers are memory safe and canonical: for every value the loop stays inside
  its 5- or 10-byte stack array and produces the base-128 code of the value.
\<close>

theorem varint_safe:
  "enc_loop 5 (v :: u32) [] = Inr (varint (unat v)) \<and> length (varint (unat v)) \<le> 5 \<and>
   enc_loop 10 (w :: u64) [] = Inr (varint (unat w)) \<and> length (varint (unat w)) \<le> 10"
  by (simp add: enc_loop_u32 enc_loop_u64 length_varint_u32 length_varint_u64)

text \<open>
  The zigzag maps of both widths are mutually inverse bijections on all bit patterns, the
  smallest negative number included.
\<close>

theorem zigzag_bijection:
  "DecodeZigzap32 (EncodeZigzap32 v) = v \<and> EncodeZigzap32 (DecodeZigzap32 v) = v \<and>
   DecodeZigzap64 (EncodeZigzap64 w) = w \<and> EncodeZigzap64 (DecodeZigzap64 w) = w"
  by (simp add: EncodeDecode32 EncodeDecode64)

text \<open>
  \<open>read_string_vint\<close> does not read what \<open>write_string_vint\<close> writes: the writer emits a varint
  length and the reader takes eight bytes for it, so a string of fewer than seven bytes
  written at the end of an array cannot be read back, the reader throws.
\<close>

theorem string_vint_mismatch:
  assumes "ba_wf ba" and "m_pos ba = m_size ba" and "length s < 7"
    and "write_string_vint s ba = Inr ba1" and "ba_set_position (m_pos ba) ba1 = Inr ba2"
  shows "read_string_vint ba2 = Inl (Exception ''not enough len'')"
proof -
  obtain ba0 where ba0: "write_uint64 (of_nat (length s)) ba = Inr ba0" "ba_write s ba0 = Inr ba1"
    using assms(4) by (auto simp: write_string_vint_def bindE_eq_Inr_iff)
  have "varint (length s) = [of_nat (length s)]" using assms(3) by (simp add: varint.simps)
  then have w0: "written [of_nat (length s)] ba ba0"
    using uint64.put1_written [OF assms(1) ba0(1)] assms(3) by (simp add: enc_u64_def unat_of_nat_less)
  then have "ba_wf ba0" by (simp add: written_def)
  then have "written s ba0 ba1" using ba0(2) by (rule ba_write_written)
  then have w: "written ([of_nat (length s)] @ s) ba ba1" by (rule written_trans [OF assms(1) w0])
  have "m_size ba1 = m_pos ba + 1 + length s" using written_size [OF assms(1) w assms(2)] by simp
  moreover have "m_pos ba2 = m_pos ba" "m_size ba2 = m_size ba1"
    using ba_set_position_content [of ba1 "m_pos ba"] assms(5) w \<open>m_size ba1 = _\<close> by (auto simp: written_def)
  ultimately have "getReadSize ba2 < 8" using assms(3) by (simp add: getReadSize_def)
  then show ?thesis by (simp add: read_string_vint_def fixed_eqs read_fixed_too_long)
qed

theorem string_vint_mismatch_witness:
  "\<exists>ba1 ba2. write_string_vint [104, 105] (ByteArray_new (\<lambda>_. 0) 64) = Inr ba1 \<and>
     ba_set_position 0 ba1 = Inr ba2 \<and> read_string_vint ba2 = Inl (Exception ''not enough len'')"
proof -
  let ?ba = "ByteArray_new (\<lambda>_. 0) 64"
  have "case bindE (write_string_vint [104, 105] ?ba) (ba_set_position 0) of Inr _ \<Rightarrow> True | Inl _ \<Rightarrow> False"
    by code_simp
  then obtain ba1 ba2 where r: "write_string_vint [104, 105] ?ba = Inr ba1" "ba_set_position 0 ba1 = Inr ba2"
    by (auto simp: bindE_def split: sum.splits)
  have "m_pos ?ba = 0" "m_size ?ba = 0" by (simp_all add: ByteArray_new_def)
  then show ?thesis
    using string_vint_mismatch [OF _ _ _ r(1)] r ByteArray_new_wf [of 64] by auto
qed

end
