(* ===== verification/Cool_Containers.thy ===== *)
theory Cool_Containers
  imports Cool_Prelude
begin

text \<open>
  The ordered containers of the C++ library the code uses (\<open>std::set\<close>, \<open>std::map\<close>) as sorted
  lists over a comparator, which need not be total: two keys neither of which is below the
  other are the same key for the container. The laws are proved once for every strict weak
  order, which is what the library demands of a comparator.
\<close>

definition equiv_by :: "('k \<Rightarrow> 'k \<Rightarrow> bool) \<Rightarrow> 'k \<Rightarrow> 'k \<Rightarrow> bool" where
  "equiv_by lt a b \<longleftrightarrow> \<not> lt a b \<and> \<not> lt b a"

definition ord_sorted :: "('k \<Rightarrow> 'k \<Rightarrow> bool) \<Rightarrow> ('e \<Rightarrow> 'k) \<Rightarrow> 'e list \<Rightarrow> bool" where
  "ord_sorted lt key xs \<longleftrightarrow> sorted_wrt (\<lambda>a b. lt (key a) (key b)) xs"

text \<open>\<open>lower_bound\<close>: the part of the sequence from the first element not below the key.\<close>

definition lower_bound :: "('k \<Rightarrow> 'k \<Rightarrow> bool) \<Rightarrow> ('e \<Rightarrow> 'k) \<Rightarrow> 'k \<Rightarrow> 'e list \<Rightarrow> 'e list" where
  "lower_bound lt key k xs = dropWhile (\<lambda>e. lt (key e) k) xs"

definition ord_find :: "('k \<Rightarrow> 'k \<Rightarrow> bool) \<Rightarrow> ('e \<Rightarrow> 'k) \<Rightarrow> 'k \<Rightarrow> 'e list \<Rightarrow> 'e option" where
  "ord_find lt key k xs =
     (case lower_bound lt key k xs of [] \<Rightarrow> None | e # _ \<Rightarrow> if lt k (key e) then None else Some e)"

text \<open>\<open>insert\<close> leaves an equivalent element in place.\<close>

definition ord_insert :: "('k \<Rightarrow> 'k \<Rightarrow> bool) \<Rightarrow> ('e \<Rightarrow> 'k) \<Rightarrow> 'e \<Rightarrow> 'e list \<Rightarrow> 'e list" where
  "ord_insert lt key e xs =
     (if ord_find lt key (key e) xs = None
      then takeWhile (\<lambda>x. lt (key x) (key e)) xs @ e # lower_bound lt key (key e) xs
      else xs)"

definition ord_erase :: "('k \<Rightarrow> 'k \<Rightarrow> bool) \<Rightarrow> ('e \<Rightarrow> 'k) \<Rightarrow> 'k \<Rightarrow> 'e list \<Rightarrow> 'e list" where
  "ord_erase lt key k xs = filter (\<lambda>e. \<not> equiv_by lt (key e) k) xs"

text \<open>\<open>m[k] = v\<close> of a map: an existing entry keeps its key.\<close>

definition omap_get :: "('k \<Rightarrow> 'k \<Rightarrow> bool) \<Rightarrow> 'k \<Rightarrow> ('k \<times> 'v) list \<Rightarrow> 'v option" where
  "omap_get lt k xs = map_option snd (ord_find lt fst k xs)"

definition omap_put :: "('k \<Rightarrow> 'k \<Rightarrow> bool) \<Rightarrow> 'k \<Rightarrow> 'v \<Rightarrow> ('k \<times> 'v) list \<Rightarrow> ('k \<times> 'v) list" where
  "omap_put lt k v xs =
     (if ord_find lt fst k xs = None then ord_insert lt fst (k, v) xs
      else map (\<lambda>(a, b). if equiv_by lt a k then (a, v) else (a, b)) xs)"

definition omap_erase :: "('k \<Rightarrow> 'k \<Rightarrow> bool) \<Rightarrow> 'k \<Rightarrow> ('k \<times> 'v) list \<Rightarrow> ('k \<times> 'v) list" where
  "omap_erase lt k xs = ord_erase lt fst k xs"

lemma equiv_by_sym: "equiv_by lt a b \<longleftrightarrow> equiv_by lt b a"
  by (auto simp: equiv_by_def)

lemma ord_sorted_Nil [simp]: "ord_sorted lt key []"
  by (simp add: ord_sorted_def)

lemma ord_find_Nil [simp]: "ord_find lt key k [] = None"
  by (simp add: ord_find_def lower_bound_def)

lemma ord_insert_Nil [simp]: "ord_insert lt key e [] = [e]"
  by (simp add: ord_insert_def lower_bound_def)

lemma ord_erase_sorted [simp]: "ord_sorted lt key xs \<Longrightarrow> ord_sorted lt key (ord_erase lt key k xs)"
  by (simp add: ord_sorted_def ord_erase_def sorted_wrt_filter)

lemma set_ord_erase: "set (ord_erase lt key k xs) = {e \<in> set xs. \<not> equiv_by lt (key e) k}"
  by (auto simp: ord_erase_def)

section \<open>Strict weak orders\<close>

locale weak_order =
  fixes lt :: "'k \<Rightarrow> 'k \<Rightarrow> bool"
  assumes irrefl: "\<not> lt a a"
    and trans: "lt a b \<Longrightarrow> lt b c \<Longrightarrow> lt a c"
    and between: "lt a c \<Longrightarrow> lt a b \<or> lt b c"
begin

lemma asym: "lt a b \<Longrightarrow> \<not> lt b a"
  using irrefl trans by blast

lemma equiv_refl: "equiv_by lt a a"
  by (simp add: equiv_by_def irrefl)

lemma equiv_trans: "equiv_by lt a b \<Longrightarrow> equiv_by lt b c \<Longrightarrow> equiv_by lt a c"
  using between unfolding equiv_by_def by blast

lemma equiv_lt_left: "equiv_by lt a b \<Longrightarrow> lt a c \<longleftrightarrow> lt b c"
  using between unfolding equiv_by_def by blast

lemma equiv_lt_right: "equiv_by lt a b \<Longrightarrow> lt c a \<longleftrightarrow> lt c b"
  using between unfolding equiv_by_def by blast

lemma lower_bound_filter:
  "ord_sorted lt key xs \<Longrightarrow> lower_bound lt key k xs = filter (\<lambda>e. \<not> lt (key e) k) xs"
proof (induction xs)
  case (Cons x xs)
  then have "lt (key x) k \<or> (\<forall>e\<in>set xs. \<not> lt (key e) k)"
    using trans by (auto simp: ord_sorted_def)
  then show ?case
    using Cons by (auto simp: lower_bound_def ord_sorted_def filter_True [symmetric] intro!: filter_True [symmetric])
qed (simp add: lower_bound_def)

lemma below_filter:
  "ord_sorted lt key xs \<Longrightarrow> takeWhile (\<lambda>e. lt (key e) k) xs = filter (\<lambda>e. lt (key e) k) xs"
proof (induction xs)
  case (Cons x xs)
  then have "lt (key x) k \<or> (\<forall>e\<in>set xs. \<not> lt (key e) k)"
    using trans by (auto simp: ord_sorted_def)
  then show ?case using Cons by (auto simp: ord_sorted_def)
qed simp

lemma find_in: "ord_sorted lt key xs \<Longrightarrow> ord_find lt key k xs = Some e \<Longrightarrow> e \<in> set xs \<and> equiv_by lt (key e) k"
  by (auto simp: ord_find_def lower_bound_filter equiv_by_def filter_eq_Cons_iff split: list.splits if_splits)

lemma sorted_unique:
  "ord_sorted lt key xs \<Longrightarrow> a \<in> set xs \<Longrightarrow> b \<in> set xs \<Longrightarrow> equiv_by lt (key a) (key b) \<Longrightarrow> a = b"
  by (induction xs) (auto simp: ord_sorted_def equiv_by_def)

lemma find_Some:
  assumes s: "ord_sorted lt key xs" and e: "e \<in> set xs" "equiv_by lt (key e) k"
  shows "ord_find lt key k xs = Some e"
proof -
  have l: "lower_bound lt key k xs = filter (\<lambda>e. \<not> lt (key e) k) xs" by (rule lower_bound_filter [OF s])
  have "e \<in> set (lower_bound lt key k xs)" using e by (simp add: l equiv_by_def)
  then obtain y ys where y: "lower_bound lt key k xs = y # ys" by (cases "lower_bound lt key k xs") auto
  have "y = e"
  proof (rule ccontr)
    assume "y \<noteq> e"
    then have "e \<in> set ys" using \<open>e \<in> set (lower_bound lt key k xs)\<close> y by simp
    moreover have "ord_sorted lt key (y # ys)" using s y l sorted_wrt_filter unfolding ord_sorted_def by metis
    ultimately have "lt (key y) (key e)" by (simp add: ord_sorted_def)
    then have "lt (key y) k" using equiv_lt_right [OF e(2)] by simp
    moreover have "y \<in> set (filter (\<lambda>e. \<not> lt (key e) k) xs)" using y l by simp
    ultimately show False by simp
  qed
  then show ?thesis using y e(2) by (simp add: ord_find_def equiv_by_def)
qed

lemma find_None:
  assumes "ord_sorted lt key xs"
  shows "ord_find lt key k xs = None \<longleftrightarrow> (\<forall>e\<in>set xs. \<not> equiv_by lt (key e) k)"
  using find_in [OF assms] find_Some [OF assms] by (metis not_Some_eq option.distinct(1))

lemma insert_new:
  assumes "ord_sorted lt key xs" and "ord_find lt key (key e) xs = None"
  shows "ord_insert lt key e xs =
    filter (\<lambda>x. lt (key x) (key e)) xs @ e # filter (\<lambda>x. \<not> lt (key x) (key e)) xs"
  using assms by (simp add: ord_insert_def lower_bound_filter below_filter)

lemma set_insert:
  assumes "ord_sorted lt key xs" and "ord_find lt key (key e) xs = None"
  shows "set (ord_insert lt key e xs) = insert e (set xs)"
  unfolding insert_new [OF assms] by auto

lemma insert_sorted:
  assumes s: "ord_sorted lt key xs"
  shows "ord_sorted lt key (ord_insert lt key e xs)"
proof (cases "ord_find lt key (key e) xs = None")
  case True
  then have n: "\<forall>x\<in>set xs. \<not> equiv_by lt (key x) (key e)" using find_None [OF s] by simp
  have "\<forall>x\<in>set xs. \<not> lt (key x) (key e) \<longrightarrow> lt (key e) (key x)" using n by (auto simp: equiv_by_def)
  then show ?thesis
    using s trans unfolding insert_new [OF s True] ord_sorted_def
    by (auto simp: sorted_wrt_append sorted_wrt_filter)
qed (use s in \<open>auto simp: ord_insert_def\<close>)

lemma find_insert:
  assumes s: "ord_sorted lt key xs"
  shows "ord_find lt key k (ord_insert lt key e xs) =
    (if equiv_by lt (key e) k
     then (case ord_find lt key (key e) xs of None \<Rightarrow> Some e | Some e' \<Rightarrow> Some e')
     else ord_find lt key k xs)"
proof (cases "ord_find lt key (key e) xs")
  case None
  note i = insert_sorted [OF s, of e] and m = set_insert [OF s None]
  show ?thesis
  proof (cases "equiv_by lt (key e) k")
    case True
    then show ?thesis using find_Some [OF i, of e k] m None by simp
  next
    case False
    show ?thesis
    proof (cases "ord_find lt key k xs")
      case (Some y)
      then show ?thesis using find_in [OF s Some] find_Some [OF i, of y k] m False by simp
    next
      case n: None
      then show ?thesis using find_None [OF i, of k] find_None [OF s, of k] m False by simp
    qed
  qed
next
  case (Some e')
  moreover have "equiv_by lt (key e) k \<Longrightarrow> ord_find lt key k xs = Some e'"
    using find_in [OF s Some] find_Some [OF s, of e' k] equiv_trans [of "key e'" "key e" k] by simp
  ultimately show ?thesis by (simp add: ord_insert_def)
qed

lemma find_erase:
  assumes s: "ord_sorted lt key xs"
  shows "ord_find lt key k (ord_erase lt key k' xs) = (if equiv_by lt k k' then None else ord_find lt key k xs)"
proof -
  note es = ord_erase_sorted [OF s, of k']
  have "ord_find lt key k (ord_erase lt key k' xs) = None" if "equiv_by lt k k'"
    using that equiv_trans [of _ k k'] by (simp add: find_None [OF es] set_ord_erase) blast
  moreover have "ord_find lt key k (ord_erase lt key k' xs) = ord_find lt key k xs" if "\<not> equiv_by lt k k'"
  proof (cases "ord_find lt key k xs")
    case None
    then have "\<forall>e\<in>set xs. \<not> equiv_by lt (key e) k" using find_None [OF s, of k] by simp
    then have "ord_find lt key k (ord_erase lt key k' xs) = None" by (simp add: find_None [OF es] set_ord_erase)
    then show ?thesis using None by simp
  next
    case (Some e)
    then have "e \<in> set xs" "equiv_by lt (key e) k" using find_in [OF s] by auto
    moreover have "\<not> equiv_by lt (key e) k'"
      using that equiv_trans [of k "key e" k'] calculation(2) by (auto simp: equiv_by_sym)
    ultimately show ?thesis using find_Some [OF es, of e k] Some by (simp add: set_ord_erase)
  qed
  ultimately show ?thesis by simp
qed

lemma put_sorted:
  assumes s: "ord_sorted lt fst xs"
  shows "ord_sorted lt fst (omap_put lt k v xs)"
proof (cases "ord_find lt fst k xs = None")
  case True
  then show ?thesis using insert_sorted [OF s] by (simp add: omap_put_def)
next
  case False
  have "fst ((\<lambda>(a, b). if equiv_by lt a k then (a, v) else (a, b)) e) = fst e" for e by (cases e) simp
  then show ?thesis
    using False s by (auto simp: omap_put_def ord_sorted_def sorted_wrt_map)
qed

lemma get_put:
  assumes s: "ord_sorted lt fst xs"
  shows "omap_get lt k' (omap_put lt k v xs) = (if equiv_by lt k k' then Some v else omap_get lt k' xs)"
proof (cases "ord_find lt fst k xs")
  case None
  then show ?thesis
    using find_insert [OF s, of k' "(k, v)"] by (simp add: omap_put_def omap_get_def)
next
  case (Some e)
  let ?f = "\<lambda>(a, b). if equiv_by lt a k then (a, v) else (a, b)"
  have put: "omap_put lt k v xs = map ?f xs" using Some by (simp add: omap_put_def)
  have s': "ord_sorted lt fst (map ?f xs)" using put_sorted [OF s, of k v] by (simp add: put)
  have e: "e \<in> set xs" "equiv_by lt (fst e) k" using find_in [OF s Some] by auto
  show ?thesis
  proof (cases "ord_find lt fst k' xs")
    case None
    then have n: "\<forall>e\<in>set xs. \<not> equiv_by lt (fst e) k'" using find_None [OF s] by simp
    then have "\<not> equiv_by lt k k'" using e equiv_trans by blast
    moreover have "ord_find lt fst k' (map ?f xs) = None" using n by (auto simp: find_None [OF s'] split: if_splits)
    ultimately show ?thesis using None by (simp add: put omap_get_def)
  next
    case o: (Some y)
    then have y: "y \<in> set xs" "equiv_by lt (fst y) k'" using find_in [OF s] by auto
    have "ord_find lt fst k' (map ?f xs) = Some (?f y)"
      by (rule find_Some [OF s']) (use y in \<open>auto split: prod.splits\<close>)
    moreover have "equiv_by lt (fst y) k \<longleftrightarrow> equiv_by lt k k'"
      using y(2) equiv_trans equiv_by_sym by metis
    ultimately show ?thesis using o by (cases y) (simp add: put omap_get_def)
  qed
qed

lemma get_erase:
  assumes s: "ord_sorted lt fst xs"
  shows "omap_get lt k' (omap_erase lt k xs) = (if equiv_by lt k k' then None else omap_get lt k' xs)"
  using find_erase [OF s, of k' k] equiv_by_sym [of lt k k'] by (simp add: omap_get_def omap_erase_def)

lemma sorted_distinct: "ord_sorted lt key xs \<Longrightarrow> distinct (map key xs)"
proof (induction xs)
  case (Cons x xs)
  then have "\<forall>y\<in>set xs. lt (key x) (key y)" "distinct (map key xs)" by (simp_all add: ord_sorted_def)
  then show ?case using irrefl [of "key x"] by auto
qed simp

text \<open>Elements inserted in ascending order keep it.\<close>

lemma insert_last:
  assumes "ord_sorted lt key (xs @ [e])"
  shows "ord_insert lt key e xs = xs @ [e]"
proof -
  have s: "ord_sorted lt key xs" and b: "\<forall>x\<in>set xs. lt (key x) (key e)"
    using assms by (auto simp: ord_sorted_def sorted_wrt_append)
  then have "ord_find lt key (key e) xs = None" using find_None [OF s] by (auto simp: equiv_by_def)
  moreover have "filter (\<lambda>x. lt (key x) (key e)) xs = xs" "filter (\<lambda>x. \<not> lt (key x) (key e)) xs = []"
    using b by (auto intro: filter_True filter_False)
  ultimately show ?thesis by (simp add: insert_new [OF s])
qed

lemma fold_insert: "ord_sorted lt key (ys @ xs) \<Longrightarrow> fold (ord_insert lt key) xs ys = ys @ xs"
proof (induction xs arbitrary: ys)
  case (Cons x xs)
  then have "ord_sorted lt key (ys @ [x])" by (simp add: ord_sorted_def sorted_wrt_append)
  then show ?case using Cons.IH [of "ys @ [x]"] Cons.prems by (simp add: insert_last)
qed simp

end

text \<open>\<open>std::less\<close> on a totally ordered type.\<close>

interpretation std_less: weak_order "(<) :: 'a::linorder \<Rightarrow> 'a \<Rightarrow> bool"
  by unfold_locales auto

lemma equiv_by_less [simp]: "equiv_by (<) a b \<longleftrightarrow> a = (b :: 'a::linorder)"
  by (auto simp: equiv_by_def)

end
