(* ===== verification/Cool_Address.thy ===== *)
theory Cool_Address
  imports Cool_Text Cool_Endian Cool_Containers "HOL-Library.List_Lexorder" "HOL-Library.Char_ord"
begin

text \<open>
  Socket addresses (src/address.h, src/address.cpp): the address classes over their \<open>sockaddr\<close>
  structures, prefix masks, printing, ordering, and the lookup of host names and interfaces. What the resolver and the
  interface list of the operating system return are parameters.
\<close>

section \<open>Bits\<close>

text \<open>
  \<open>(1 << (sizeof (T) * 8 - bits)) - 1\<close> in \<open>int\<close>: undefined for a shift by 32 or more, and for 31
  because the subtraction overflows. \<open>width\<close> is the number of bits of \<open>T\<close>.
\<close>

definition CreateMask :: "nat \<Rightarrow> u32 \<Rightarrow> nat outcome" where
  "CreateMask width bits =
     (if unat bits \<le> width \<and> width - unat bits < 31 then Inr (2 ^ (width - unat bits) - 1) else Inl Bad_arith)"

text \<open>The number of ones, by clearing the lowest one until nothing is left.\<close>

lemma and_minus_one_less: "(v :: 'a::len word) \<noteq> 0 \<Longrightarrow> unat (v AND (v - 1)) < unat v"
proof -
  assume "v \<noteq> 0"
  then have "v - 1 < v" by (simp add: word_less_nat_alt unat_minus_one unat_gt_0)
  moreover have "v AND (v - 1) \<le> v - 1" by (rule word_and_le1)
  ultimately show ?thesis by (simp add: word_less_nat_alt word_le_nat_alt)
qed

function CountBytes_loop :: "'a::len word \<Rightarrow> u32 \<Rightarrow> u32" where
  "CountBytes_loop v result = (if v \<noteq> 0 then CountBytes_loop (v AND (v - 1)) (result + 1) else result)"
  by auto
termination by (relation "measure (\<lambda>(v, _). unat v)") (auto dest: and_minus_one_less)

declare CountBytes_loop.simps [simp del]

definition CountBytes :: "'a::len word \<Rightarrow> u32" where
  "CountBytes v = CountBytes_loop v 0"

section \<open>Addresses\<close>

definition AF_UNSPEC :: u16 where "AF_UNSPEC = 0"
definition AF_UNIX :: u16 where "AF_UNIX = 1"
definition AF_INET :: u16 where "AF_INET = 2"
definition AF_INET6 :: u16 where "AF_INET6 = 10"

record sockaddr_in =
  sin_family :: u16
  sin_port :: u16
  sin_addr :: u32
  sin_zero :: "byte list"

record sockaddr_in6 =
  sin6_family :: u16
  sin6_port :: u16
  sin6_flowinfo :: u32
  sin6_addr :: "byte list"
  sin6_scope_id :: u32

record sockaddr_un =
  sun_family :: u16
  sun_path :: "byte list"

record sockaddr_any =
  sa_family :: u16
  sa_data :: "byte list"

text \<open>A \<open>sockaddr\<close> of the operating system, by the structure it points to.\<close>

datatype sockaddr = Sa_in sockaddr_in | Sa_in6 sockaddr_in6 | Sa_other sockaddr_any

text \<open>The classes derived from \<open>Address\<close>; a Unix address keeps its length.\<close>

datatype address =
    IPv4Address sockaddr_in
  | IPv6Address sockaddr_in6
  | UnixAddress sockaddr_un u32
  | UnknowAddress sockaddr_any

definition IPv4Address_new :: "u32 \<Rightarrow> u16 \<Rightarrow> sockaddr_in" where
  "IPv4Address_new address port =
     \<lparr>sin_family = AF_INET, sin_port = byteswapOnLittleEndian port, sin_addr = byteswapOnLittleEndian address,
      sin_zero = replicate 8 0\<rparr>"

definition IPv6Address_new :: "byte list \<Rightarrow> u16 \<Rightarrow> sockaddr_in6 outcome" where
  "IPv6Address_new address port =
     (if length address < 16 then Inl Out_of_bounds
      else Inr \<lparr>sin6_family = AF_INET6, sin6_port = byteswapOnLittleEndian port, sin6_flowinfo = 0,
                sin6_addr = take 16 address, sin6_scope_id = 0\<rparr>)"

definition IPv6Address_any :: sockaddr_in6 where
  "IPv6Address_any = \<lparr>sin6_family = AF_INET6, sin6_port = 0, sin6_flowinfo = 0, sin6_addr = replicate 16 0, sin6_scope_id = 0\<rparr>"

definition SUN_PATH :: nat where "SUN_PATH = 108"

definition UnixAddress_any :: address where
  "UnixAddress_any = UnixAddress \<lparr>sun_family = AF_UNIX, sun_path = replicate SUN_PATH 0\<rparr> (of_nat (2 + (SUN_PATH - 1)))"

text \<open>\<open>path.c_str ()\<close> holds the characters of the path and a null character.\<close>

definition UnixAddress_new :: "byte list \<Rightarrow> address outcome" where
  "UnixAddress_new path =
     (let len = (of_nat (length path + 1) :: u32);
          len = (if path \<noteq> [] \<and> path ! 0 = 0 then len - 1 else len)
      in if unat len > SUN_PATH then Inl (Exception ''path too long'')
         else Inr (UnixAddress \<lparr>sun_family = AF_UNIX, sun_path = overwrite 0 (take (unat len) (path @ [0])) (replicate SUN_PATH 0)\<rparr> (len + 2)))"

definition UnknowAddress_new :: "u16 \<Rightarrow> address" where
  "UnknowAddress_new family = UnknowAddress \<lparr>sa_family = family, sa_data = replicate 14 0\<rparr>"

definition Address_Create :: "sockaddr option \<Rightarrow> address option" where
  "Address_Create addr = (case addr of
      None \<Rightarrow> None
    | Some (Sa_in a) \<Rightarrow> Some (IPv4Address a)
    | Some (Sa_in6 a) \<Rightarrow> Some (IPv6Address a)
    | Some (Sa_other a) \<Rightarrow> Some (UnknowAddress a))"

text \<open>The memory \<open>addr ()\<close> points to and the length \<open>addrlen ()\<close> reports.\<close>

fun addr_bytes :: "address \<Rightarrow> byte list" where
  "addr_bytes (IPv4Address a) = le_bytes (sin_family a) @ le_bytes (sin_port a) @ le_bytes (sin_addr a) @ sin_zero a"
| "addr_bytes (IPv6Address a) =
     le_bytes (sin6_family a) @ le_bytes (sin6_port a) @ le_bytes (sin6_flowinfo a) @ sin6_addr a @ le_bytes (sin6_scope_id a)"
| "addr_bytes (UnixAddress a _) = le_bytes (sun_family a) @ sun_path a"
| "addr_bytes (UnknowAddress a) = le_bytes (sa_family a) @ sa_data a"

fun addrlen :: "address \<Rightarrow> u32" where
  "addrlen (IPv4Address _) = 16"
| "addrlen (IPv6Address _) = 28"
| "addrlen (UnixAddress _ n) = n"
| "addrlen (UnknowAddress _) = 16"

fun addr_family :: "address \<Rightarrow> u16" where
  "addr_family (IPv4Address a) = sin_family a"
| "addr_family (IPv6Address a) = sin6_family a"
| "addr_family (UnixAddress a _) = sun_family a"
| "addr_family (UnknowAddress a) = sa_family a"

text \<open>\<open>UnixAddress::addrlen (v)\<close>, which the socket calls with the length the kernel returned.\<close>

fun set_addrlen :: "u32 \<Rightarrow> address \<Rightarrow> address" where
  "set_addrlen v (UnixAddress a _) = UnixAddress a v"
| "set_addrlen v a = a"

section \<open>Comparison\<close>

text \<open>\<open>memcmp\<close> on unsigned bytes.\<close>

fun memcmp :: "byte list \<Rightarrow> byte list \<Rightarrow> nat \<Rightarrow> int outcome" where
  "memcmp xs ys 0 = Inr 0"
| "memcmp (x # xs) (y # ys) (Suc n) = (if x < y then Inr (- 1) else if y < x then Inr 1 else memcmp xs ys n)"
| "memcmp _ _ (Suc n) = Inl Out_of_bounds"

definition addr_less :: "address \<Rightarrow> address \<Rightarrow> bool outcome" where
  "addr_less a b =
     (let minlen = min (addrlen a) (addrlen b)
      in bindE (memcmp (addr_bytes a) (addr_bytes b) (unat minlen)) (\<lambda>res.
           if res < 0 then Inr True else if res > 0 then Inr False
           else if addrlen a < addrlen b then Inr True else Inr False))"

definition addr_eq :: "address \<Rightarrow> address \<Rightarrow> bool outcome" where
  "addr_eq a b =
     (if addrlen a = addrlen b then bindE (memcmp (addr_bytes a) (addr_bytes b) (unat (addrlen a))) (\<lambda>res. Inr (res = 0))
      else Inr False)"

definition addr_neq :: "address \<Rightarrow> address \<Rightarrow> bool outcome" where
  "addr_neq a b = bindE (addr_eq a b) (\<lambda>r. Inr (\<not> r))"

section \<open>Prefixes\<close>

definition broadcastAddress4 :: "u32 \<Rightarrow> sockaddr_in \<Rightarrow> sockaddr_in option outcome" where
  "broadcastAddress4 prefix_len a =
     (if prefix_len > 32 then Inr None
      else bindE (CreateMask 32 prefix_len) (\<lambda>m.
        Inr (Some (a\<lparr>sin_addr := sin_addr a OR byteswapOnLittleEndian (of_nat m)\<rparr>))))"

definition networkAddress4 :: "u32 \<Rightarrow> sockaddr_in \<Rightarrow> sockaddr_in option outcome" where
  "networkAddress4 prefix_len a =
     (if prefix_len > 32 then Inr None
      else bindE (CreateMask 32 prefix_len) (\<lambda>m.
        Inr (Some (a\<lparr>sin_addr := sin_addr a AND byteswapOnLittleEndian (of_nat m)\<rparr>))))"

definition subnetMask4 :: "u32 \<Rightarrow> sockaddr_in outcome" where
  "subnetMask4 prefix_len =
     bindE (CreateMask 32 prefix_len) (\<lambda>m.
       Inr \<lparr>sin_family = AF_INET, sin_port = 0, sin_addr = NOT (byteswapOnLittleEndian (of_nat m)), sin_zero = replicate 8 0\<rparr>)"

definition broadcastAddress6 :: "u32 \<Rightarrow> sockaddr_in6 \<Rightarrow> sockaddr_in6 outcome" where
  "broadcastAddress6 prefix_len a =
     bindE (CreateMask 8 (prefix_len mod 8)) (\<lambda>m.
       let i = unat prefix_len div 8 in
       if length (sin6_addr a) \<le> i then Inl Out_of_bounds
       else let bs = (sin6_addr a)[i := sin6_addr a ! i OR of_nat m]
            in Inr (a\<lparr>sin6_addr := take (i + 1) bs @ map (\<lambda>_. 0xff) (drop (i + 1) bs)\<rparr>))"

definition networkAddress6 :: "u32 \<Rightarrow> sockaddr_in6 \<Rightarrow> sockaddr_in6 outcome" where
  "networkAddress6 prefix_len a =
     bindE (CreateMask 8 (prefix_len mod 8)) (\<lambda>m.
       let i = unat prefix_len div 8 in
       if length (sin6_addr a) \<le> i then Inl Out_of_bounds
       else Inr (a\<lparr>sin6_addr := (sin6_addr a)[i := sin6_addr a ! i AND of_nat m]\<rparr>))"

definition subnetMask6 :: "u32 \<Rightarrow> sockaddr_in6 outcome" where
  "subnetMask6 prefix_len =
     bindE (CreateMask 8 (prefix_len mod 8)) (\<lambda>m.
       let i = unat prefix_len div 8 in
       if 16 \<le> i then Inl Out_of_bounds
       else Inr \<lparr>sin6_family = AF_INET6, sin6_port = 0, sin6_flowinfo = 0,
                 sin6_addr = replicate i 0xff @ [NOT (of_nat m)] @ replicate (15 - i) 0, sin6_scope_id = 0\<rparr>)"

text \<open>\<open>IPAddress::port\<close>, for reading and for setting.\<close>

fun port :: "address \<Rightarrow> u16 option" where
  "port (IPv4Address a) = Some (byteswapOnLittleEndian (sin_port a))"
| "port (IPv6Address a) = Some (byteswapOnLittleEndian (sin6_port a))"
| "port _ = None"

fun set_port :: "u16 \<Rightarrow> address \<Rightarrow> address" where
  "set_port v (IPv4Address a) = IPv4Address (a\<lparr>sin_port := byteswapOnLittleEndian v\<rparr>)"
| "set_port v (IPv6Address a) = IPv6Address (a\<lparr>sin6_port := byteswapOnLittleEndian v\<rparr>)"
| "set_port v a = a"

section \<open>Printing\<close>

definition insert4 :: "sockaddr_in \<Rightarrow> string" where
  "insert4 a =
     (let addr = byteswapOnLittleEndian (sin_addr a); part = (\<lambda>n. dec (unat (drop_bit n addr AND 0xff)))
      in part 24 @ ''.'' @ part 16 @ ''.'' @ part 8 @ ''.'' @ part 0 @ '':'' @ dec (unat (byteswapOnLittleEndian (sin_port a))))"

text \<open>The address read as eight 16-bit words of the machine.\<close>

definition words6 :: "byte list \<Rightarrow> u16 list" where
  "words6 bs = map (\<lambda>i. of_le_bytes (take 2 (drop (2 * i) bs))) [0..<8]"

text \<open>
  The loop over the words from one on; \<open>prev\<close> is the word before it, if any. The result also
  tells whether zeros were left out.
\<close>

fun insert6_loop :: "bool \<Rightarrow> u16 option \<Rightarrow> u16 list \<Rightarrow> string \<times> bool" where
  "insert6_loop used_zeros prev [] = ('''', used_zeros)"
| "insert6_loop used_zeros prev (w # ws) =
     (if w = 0 \<and> \<not> used_zeros then insert6_loop used_zeros (Some w) ws
      else let skip = (prev = Some 0 \<and> \<not> used_zeros);
               (s, used_zeros) = insert6_loop (used_zeros \<or> skip) (Some w) ws
           in ((if skip then '':'' else '''') @ (if prev \<noteq> None then '':'' else '''') @ hex (unat (byteswapOnLittleEndian w)) @ s, used_zeros))"

definition insert6 :: "sockaddr_in6 \<Rightarrow> string" where
  "insert6 a =
     (let addr = words6 (sin6_addr a); (s, used_zeros) = insert6_loop False None addr
      in ''['' @ s @ (if \<not> used_zeros \<and> addr ! 7 = 0 then ''::'' else '''') @ '']:'' @ dec (unat (byteswapOnLittleEndian (sin6_port a))))"

definition char_of_byte :: "byte \<Rightarrow> char" where
  "char_of_byte b = char_of (unat b)"

fun address_insert :: "address \<Rightarrow> string" where
  "address_insert (IPv4Address a) = insert4 a"
| "address_insert (IPv6Address a) = insert6 a"
| "address_insert (UnixAddress a n) =
     (if n > 2 \<and> sun_path a ! 0 = 0
      then CHR 0x5C # CHR ''0'' # map char_of_byte (take (unat n - 2 - 1) (drop 1 (sun_path a)))
      else c_str (map char_of_byte (sun_path a)))"
| "address_insert (UnknowAddress a) = ''[UnknowAddress family='' @ dec (unat (sa_family a)) @ '']''"

section \<open>Lookup\<close>

text \<open>Splitting a host into the node and the service for the resolver.\<close>

definition bracketed :: "string \<Rightarrow> string \<times> string option" where
  "bracketed host =
     (if host \<noteq> [] \<and> host ! 0 = CHR ''['' then
        (case find_char (CHR '']'') (tl host) of
           None \<Rightarrow> ('''', None)
         | Some k \<Rightarrow> (take k (tl host), if drop (k + 2) host \<noteq> [] \<and> host ! (k + 2) = CHR '':'' then Some (drop (k + 3) host) else None))
      else ('''', None))"

definition split_host :: "string \<Rightarrow> string \<times> string option" where
  "split_host host =
     (let (node, service) = bracketed host;
          (node, service) =
            (if node = '''' then
               (case find_char (CHR '':'') host of
                  None \<Rightarrow> (node, None)
                | Some k \<Rightarrow> if find_char (CHR '':'') (drop (k + 1) host) = None then (take k host, Some (drop (k + 1) host))
                            else (node, Some (drop k host)))
             else (node, service))
      in (if node = '''' then host else node, service))"

text \<open>
  \<open>getaddrinfo\<close>: node, service, family, socket type and protocol to an error code or the
  addresses found.
\<close>

type_synonym resolver = "string \<Rightarrow> string option \<Rightarrow> int \<times> int \<times> int \<Rightarrow> int + sockaddr list"

definition Address_Lookup :: "resolver \<Rightarrow> string \<Rightarrow> int \<Rightarrow> int \<Rightarrow> int \<Rightarrow> address option list \<Rightarrow> bool \<times> address option list" where
  "Address_Lookup getaddrinfo host family type protocol res =
     (let (node, service) = split_host host
      in case getaddrinfo (c_str node) (map_option c_str service) (family, type, protocol) of
           Inl error \<Rightarrow> (False, res)
         | Inr results \<Rightarrow> (True, res @ map (\<lambda>a. Address_Create (Some a)) results))"

definition LookupAny :: "resolver \<Rightarrow> string \<Rightarrow> int \<Rightarrow> int \<Rightarrow> int \<Rightarrow> address option outcome" where
  "LookupAny getaddrinfo host family type protocol =
     (let (ok, res) = Address_Lookup getaddrinfo host family type protocol []
      in if ok then (case res of [] \<Rightarrow> Inl Out_of_bounds | a # _ \<Rightarrow> Inr a) else Inr None)"

definition is_ip :: "address option \<Rightarrow> bool" where
  "is_ip a = (case a of Some (IPv4Address _) \<Rightarrow> True | Some (IPv6Address _) \<Rightarrow> True | _ \<Rightarrow> False)"

definition LookupAnyIPAddress :: "resolver \<Rightarrow> string \<Rightarrow> int \<Rightarrow> int \<Rightarrow> int \<Rightarrow> address option" where
  "LookupAnyIPAddress getaddrinfo host family type protocol =
     (let (ok, res) = Address_Lookup getaddrinfo host family type protocol []
      in if ok then (case find is_ip res of Some a \<Rightarrow> a | None \<Rightarrow> None) else None)"

text \<open>Numeric addresses; the resolver is asked with \<open>AI_NUMERICHOST\<close>, \<open>inet_pton\<close> is a parameter.\<close>

definition IPAddress_Create :: "(string \<Rightarrow> int + sockaddr list) \<Rightarrow> string \<Rightarrow> u16 \<Rightarrow> address option outcome" where
  "IPAddress_Create getaddrinfo addr p = (case getaddrinfo addr of
      Inl error \<Rightarrow> Inr None
    | Inr [] \<Rightarrow> Inl Null_deref
    | Inr (a # _) \<Rightarrow>
        let iptr = Address_Create (Some a)
        in Inr (if is_ip iptr then map_option (set_port p) iptr else None))"

definition IPv4Address_Create :: "(string \<Rightarrow> u32 option) \<Rightarrow> string \<Rightarrow> u16 \<Rightarrow> sockaddr_in option" where
  "IPv4Address_Create inet_pton addr p =
     (let rt = (IPv4Address_new 0 0)\<lparr>sin_port := byteswapOnLittleEndian p\<rparr>
      in map_option (\<lambda>v. rt\<lparr>sin_addr := v\<rparr>) (inet_pton addr))"

definition IPv6Address_Create :: "(string \<Rightarrow> byte list option) \<Rightarrow> string \<Rightarrow> u16 \<Rightarrow> sockaddr_in6 option" where
  "IPv6Address_Create inet_pton addr p =
     (let rt = IPv6Address_any\<lparr>sin6_port := byteswapOnLittleEndian p\<rparr>
      in map_option (\<lambda>v. rt\<lparr>sin6_addr := v\<rparr>) (inet_pton addr))"

section \<open>Interfaces\<close>

text \<open>
  An entry of the list of \<open>getifaddrs\<close>. The memory behind the mask pointer is given as it reads through \<open>sockaddr_in\<close> and
  through \<open>sockaddr_in6\<close>.
\<close>

record ifaddr =
  ifa_name :: string
  ifa_addr :: "sockaddr option"
  ifa_netmask :: "(u32 \<times> byte list) option"

definition sa_family_of :: "sockaddr \<Rightarrow> u16" where
  "sa_family_of a = (case a of Sa_in x \<Rightarrow> sin_family x | Sa_in6 x \<Rightarrow> sin6_family x | Sa_other x \<Rightarrow> sa_family x)"

text \<open>\<open>std::multimap::insert\<close>: after the entries with the same key.\<close>

definition mm_insert :: "string \<Rightarrow> 'v \<Rightarrow> (string \<times> 'v) list \<Rightarrow> (string \<times> 'v) list" where
  "mm_insert k v xs = takeWhile (\<lambda>e. fst e \<le> k) xs @ (k, v) # dropWhile (\<lambda>e. fst e \<le> k) xs"

definition equal_range :: "string \<Rightarrow> (string \<times> 'v) list \<Rightarrow> 'v list" where
  "equal_range k xs = map snd (takeWhile (\<lambda>e. fst e \<le> k) (dropWhile (\<lambda>e. fst e < k) xs))"

text \<open>One entry: skipped, or an address with its prefix length.\<close>

definition interface_entry :: "u16 \<Rightarrow> ifaddr \<Rightarrow> (address \<times> u32) option outcome" where
  "interface_entry family nxt =
     (if family \<noteq> AF_UNSPEC \<and> ifa_addr nxt = None then Inl Null_deref
      else case ifa_addr nxt of
        None \<Rightarrow> Inr None
      | Some sa \<Rightarrow>
          if family \<noteq> AF_UNSPEC \<and> family \<noteq> sa_family_of sa then Inr None
          else (case sa of
             Sa_in a \<Rightarrow> (case ifa_netmask nxt of
                 None \<Rightarrow> Inl Null_deref
               | Some (netmask, _) \<Rightarrow> Inr (Some (IPv4Address a, CountBytes netmask)))
           | Sa_in6 a \<Rightarrow> (case ifa_netmask nxt of
                 None \<Rightarrow> Inl Null_deref
               | Some (_, netmask) \<Rightarrow> Inr (Some (IPv6Address a, sum_list (map CountBytes (take 16 netmask)))))
           | Sa_other _ \<Rightarrow> Inr None))"

fun interface_loop :: "u16 \<Rightarrow> ifaddr list \<Rightarrow> (string \<times> address \<times> u32) list \<Rightarrow> (string \<times> address \<times> u32) list outcome" where
  "interface_loop family [] res = Inr res"
| "interface_loop family (x # xs) res =
     bindE (interface_entry family x) (\<lambda>e.
       interface_loop family xs (case e of None \<Rightarrow> res | Some v \<Rightarrow> mm_insert (ifa_name x) v res))"

definition GetInterfaceAddress_all ::
  "ifaddr list option \<Rightarrow> u16 \<Rightarrow> (string \<times> address \<times> u32) list \<Rightarrow> (bool \<times> (string \<times> address \<times> u32) list) outcome" where
  "GetInterfaceAddress_all getifaddrs family res = (case getifaddrs of
      None \<Rightarrow> Inr (False, res)
    | Some results \<Rightarrow> bindE (interface_loop family results res) (\<lambda>res. Inr (res \<noteq> [], res)))"

definition GetInterfaceAddress ::
  "ifaddr list option \<Rightarrow> string \<Rightarrow> u16 \<Rightarrow> (address \<times> u32) list \<Rightarrow> (bool \<times> (address \<times> u32) list) outcome" where
  "GetInterfaceAddress getifaddrs iface family res =
     (if iface = '''' \<or> iface = ''*'' then
        let res = (if family = AF_INET \<or> family = AF_UNSPEC then res @ [(IPv4Address (IPv4Address_new 0 0), 0)] else res);
            res = (if family = AF_INET6 \<or> family = AF_UNSPEC then res @ [(IPv6Address IPv6Address_any, 0)] else res)
        in Inr (True, res)
      else bindE (GetInterfaceAddress_all getifaddrs family []) (\<lambda>(ok, results).
        if \<not> ok then Inr (False, res) else Inr (True, res @ equal_range iface results)))"

section \<open>Counting and masks\<close>

definition ones :: "'a::len word \<Rightarrow> nat" where
  "ones v = length (filter (bit v) [0..<LENGTH('a)])"

fun nat_ones :: "nat \<Rightarrow> nat" where
  "nat_ones n = (if n = 0 then 0 else n mod 2 + nat_ones (n div 2))"

declare nat_ones.simps [simp del]

lemma nat_ones_simps [simp]: "nat_ones 0 = 0" "nat_ones (2 * m) = nat_ones m" "nat_ones (Suc (2 * m)) = Suc (nat_ones m)"
  by (subst nat_ones.simps, simp)+

lemma nat_ones_bits: "n < 2 ^ w \<Longrightarrow> nat_ones n = length (filter (bit n) [0..<w])"
proof (induction w arbitrary: n)
  case (Suc w)
  have "[0..<Suc w] = 0 # map Suc [0..<w]" by (simp add: map_Suc_upt upt_conv_Cons)
  then have "length (filter (bit n) [0..<Suc w]) = n mod 2 + length (filter (bit (n div 2)) [0..<w])"
    by (simp add: filter_map o_def bit_Suc bit_0 odd_iff_mod_2_eq_one)
  moreover have "n div 2 < 2 ^ w" using Suc.prems by auto
  ultimately show ?case using Suc.IH [of "n div 2"] by (subst nat_ones.simps) auto
qed simp

lemma ones_unat: "ones v = nat_ones (unat (v :: 'a::len word))"
  using nat_ones_bits [OF unat_less_exp, of v] by (simp add: ones_def bit_unsigned_iff cong: filter_cong)

lemma nat_ones_clear: "0 < n \<Longrightarrow> nat_ones n = Suc (nat_ones (n AND (n - 1)))"
proof (induction n rule: nat_ones.induct)
  case (1 n)
  show ?case
  proof (cases "even n")
    case True
    then obtain m where m: "n = 2 * m" by (auto elim: evenE)
    then have pos: "0 < m" and e: "n - 1 = Suc (2 * (m - 1))" using 1 by auto
    have "n AND (n - 1) = 2 * (m AND (m - 1))"
      unfolding e unfolding m by (rule bit_eqI) (auto simp: bit_simps bit_Suc gr0_conv_Suc)
    then show ?thesis using 1 m pos by simp
  next
    case False
    then obtain m where m: "n = Suc (2 * m)" by (auto elim: oddE)
    have "n AND (n - 1) = 2 * m"
      unfolding m by (rule bit_eqI) (auto simp: bit_simps bit_Suc gr0_conv_Suc)
    then show ?thesis using m by simp
  qed
qed

lemma CountBytes_loop_ones: "CountBytes_loop v r = r + of_nat (ones v)"
proof (induction v r rule: CountBytes_loop.induct)
  case (1 v r)
  show ?case
  proof (cases "v = 0")
    case True
    then show ?thesis by (subst CountBytes_loop.simps) (simp add: ones_unat)
  next
    case False
    then have "unat (v AND (v - 1)) = unat v AND (unat v - 1)"
      by (simp add: unsigned_and_eq unat_minus_one)
    then have "ones v = Suc (ones (v AND (v - 1)))"
      using nat_ones_clear [of "unat v"] False by (simp add: ones_unat unat_gt_0)
    then show ?thesis using 1 False by (subst CountBytes_loop.simps) simp
  qed
qed

lemma CountBytes_ones: "CountBytes v = of_nat (ones v)"
  by (simp add: CountBytes_def CountBytes_loop_ones)

lemma bit_byteswap:
  assumes "8 dvd LENGTH('a)"
  shows "bit (byteswap v :: 'a::len word) n \<longleftrightarrow> n < LENGTH('a) \<and> bit v (8 * (LENGTH('a) div 8 - 1 - n div 8) + n mod 8)"
proof (cases "n < LENGTH('a)")
  case True
  then have d: "n div 8 < LENGTH('a) div 8" using assms by (auto simp: less_mult_imp_div_less)
  let ?k = "LENGTH('a) div 8 - Suc (n div 8)"
  have k: "?k < LENGTH('a) div 8" using d by simp
  have "bit (byteswap v) n \<longleftrightarrow> bit (rev (le_bytes v) ! (n div 8)) (n mod 8)"
    using True d by (simp add: byteswap_def bit_of_le_bytes)
  also have "rev (le_bytes v) ! (n div 8) = ucast (drop_bit (8 * ?k) v)"
    using d k by (simp add: rev_nth le_bytes_def)
  also have "bit (ucast (drop_bit (8 * ?k) v) :: byte) (n mod 8) \<longleftrightarrow> bit v (8 * ?k + n mod 8)"
    by (simp add: bit_ucast_iff bit_drop_bit_eq)
  finally show ?thesis using True by simp
next
  case False
  then show ?thesis using bit_imp_le_length [of "byteswap v" n] by auto
qed

lemma byteswap_or: "8 dvd LENGTH('a) \<Longrightarrow> byteswap (v OR w) = byteswap v OR byteswap (w :: 'a::len word)"
  by (rule bit_word_eqI) (auto simp: bit_byteswap bit_or_iff)

lemma byteswap_and: "8 dvd LENGTH('a) \<Longrightarrow> byteswap (v AND w) = byteswap v AND byteswap (w :: 'a::len word)"
  by (rule bit_word_eqI) (auto simp: bit_byteswap bit_and_iff)

text \<open>The address of an IPv4 structure in the byte order of the machine.\<close>

definition host4 :: "sockaddr_in \<Rightarrow> u32" where
  "host4 a = byteswapOnLittleEndian (sin_addr a)"

lemma CreateMask32: "2 \<le> p \<Longrightarrow> p \<le> 32 \<Longrightarrow> CreateMask 32 (of_nat p) = Inr (2 ^ (32 - p) - 1)"
  by (auto simp: CreateMask_def unat_of_nat_less)

lemma mask_of_nat: "(of_nat (2 ^ n - Suc 0) :: 'a::len word) = mask n"
  by (simp add: mask_eq_exp_minus_1)

lemma broadcast4:
  assumes "2 \<le> p" "p \<le> 32"
  shows "\<exists>b. broadcastAddress4 (of_nat p) a = Inr (Some b) \<and> host4 b = host4 a OR mask (32 - p) \<and> sin_port b = sin_port a"
proof -
  have "\<not> (of_nat p :: u32) > 32" using assms by (simp add: word_less_nat_alt unat_of_nat_less)
  then show ?thesis using assms
    by (simp add: broadcastAddress4_def CreateMask32 mask_of_nat host4_def byteswapOnLittleEndian_def byteswap_or del: of_nat_diff)
qed

lemma network4:
  assumes "2 \<le> p" "p \<le> 32"
  shows "\<exists>b. networkAddress4 (of_nat p) a = Inr (Some b) \<and> host4 b = host4 a AND mask (32 - p)"
proof -
  have "\<not> (of_nat p :: u32) > 32" using assms by (simp add: word_less_nat_alt unat_of_nat_less)
  then show ?thesis using assms
    by (simp add: networkAddress4_def CreateMask32 mask_of_nat host4_def byteswapOnLittleEndian_def byteswap_and del: of_nat_diff)
qed

lemma byteswap_not: "8 dvd LENGTH('a) \<Longrightarrow> byteswap (NOT v) = NOT (byteswap (v :: 'a::len word))"
  by (rule bit_word_eqI) (auto simp: bit_byteswap bit_not_iff)

lemma subnet4:
  assumes "2 \<le> p" "p \<le> 32"
  shows "\<exists>b. subnetMask4 (of_nat p) = Inr b \<and> host4 b = NOT (mask (32 - p))"
  using assms by (simp add: subnetMask4_def CreateMask32 mask_of_nat host4_def byteswapOnLittleEndian_def byteswap_not del: of_nat_diff)

text \<open>Swapping the bytes does not change the number of ones.\<close>

lemma ones_byteswap:
  assumes "8 dvd LENGTH('a)"
  shows "ones (byteswap v) = ones (v :: 'a::len word)"
proof -
  let ?L = "LENGTH('a)"
  define f where "f n = 8 * (?L div 8 - 1 - n div 8) + n mod 8" for n
  have ones: "ones w = card {n. n < ?L \<and> bit w n}" for w :: "'a word"
  proof -
    have "set (filter (bit w) [0..<?L]) = {n. n < ?L \<and> bit w n}" by auto
    then show ?thesis unfolding ones_def using distinct_card [of "filter (bit w) [0..<?L]"] by simp
  qed
  have f: "f n < ?L \<and> f (f n) = n" if "n < ?L" for n
  proof -
    obtain m where m: "?L = 8 * m" using assms by blast
    then have "n div 8 < m" using that by auto
    moreover have "(8 * a + n mod 8) div 8 = a" "(8 * a + n mod 8) mod 8 = n mod 8" for a by simp_all
    ultimately show ?thesis using m mult_div_mod_eq [of 8 n] unfolding f_def by simp
  qed
  have b: "bit (byteswap v) n \<longleftrightarrow> n < ?L \<and> bit v (f n)" for n
    unfolding f_def by (rule bit_byteswap [OF assms])
  have "bij_betw f {n. n < ?L \<and> bit (byteswap v) n} {n. n < ?L \<and> bit v n}"
    by (rule bij_betw_byWitness [where f' = f]) (auto simp: b f)
  then show ?thesis unfolding ones by (rule bij_betw_same_card)
qed

lemma ones_not_mask: "n \<le> LENGTH('a) \<Longrightarrow> ones (NOT (mask n) :: 'a::len word) = LENGTH('a) - n"
proof -
  assume n: "n \<le> LENGTH('a)"
  then have "[0..<LENGTH('a)] = [0..<n] @ [n..<LENGTH('a)]" by (metis le_add_diff_inverse upt_add_eq_append zero_le)
  then show ?thesis using n by (simp add: ones_def bit_not_iff bit_mask_iff del: upt_conv_Nil)
qed

text \<open>Bit \<open>i\<close> of an IPv6 address, counted from its most significant bit.\<close>

definition bit6 :: "byte list \<Rightarrow> nat \<Rightarrow> bool" where
  "bit6 bs i = bit (bs ! (i div 8)) (7 - i mod 8)"

lemma CreateMask8: "CreateMask 8 (p mod 8) = Inr (2 ^ (8 - unat p mod 8) - 1)"
proof -
  have "unat (p mod 8) = unat p mod 8" by (simp add: unat_mod)
  moreover have "unat p mod 8 < 8" by simp
  ultimately show ?thesis by (simp add: CreateMask_def)
qed

lemma broadcast6:
  assumes "p < 128" and "length (sin6_addr a) = 16"
  shows "\<exists>b. broadcastAddress6 p a = Inr b \<and> length (sin6_addr b) = 16 \<and> (\<forall>i<128. bit6 (sin6_addr b) i = (bit6 (sin6_addr a) i \<or> unat p \<le> i))"
proof -
  have p: "unat p div 8 < 16" using assms(1) by (simp add: word_less_nat_alt)
  let ?k = "unat p div 8"
  let ?bs = "(sin6_addr a)[?k := sin6_addr a ! ?k OR mask (8 - unat p mod 8)]"
  let ?b = "take (?k + 1) ?bs @ map (\<lambda>_. 0xff) (drop (?k + 1) ?bs)"
  have r: "broadcastAddress6 p a = Inr (a\<lparr>sin6_addr := ?b\<rparr>)"
    using p assms(2) by (simp add: broadcastAddress6_def CreateMask8 mask_of_nat Let_def)
  have ff: "bit (0xff :: byte) m = (m < 8)" for m
    using bit_mask_iff [of 8 m, where 'a = byte] by (simp add: mask_eq_exp_minus_1)
  have "bit6 ?b i = (bit6 (sin6_addr a) i \<or> unat p \<le> i)" if "i < 128" for i
  proof (cases "i div 8" ?k rule: linorder_cases)
    case less
    then have "?b ! (i div 8) = sin6_addr a ! (i div 8)" using assms(2) p by (simp add: nth_append)
    moreover have "\<not> unat p \<le> i" using less by (metis div_le_mono not_less)
    ultimately show ?thesis by (simp add: bit6_def)
  next
    case equal
    then have "?b ! (i div 8) = sin6_addr a ! (i div 8) OR mask (8 - unat p mod 8)" using assms(2) p by (simp add: nth_append)
    moreover have "7 - i mod 8 < 8 - unat p mod 8 \<longleftrightarrow> unat p mod 8 \<le> i mod 8" by linarith
    moreover have "unat p mod 8 \<le> i mod 8 \<longleftrightarrow> unat p \<le> i"
      using equal mult_div_mod_eq [of 8 i] mult_div_mod_eq [of 8 "unat p"] by linarith
    moreover have "7 - i mod 8 < (8 :: nat)" by simp
    ultimately show ?thesis by (simp add: bit6_def bit_or_iff bit_mask_iff)
  next
    case greater
    then have "?b ! (i div 8) = 0xff" using assms(2) p that by (simp add: nth_append)
    moreover have "unat p \<le> i" using greater by (metis div_le_mono nat_le_linear not_less)
    ultimately show ?thesis using ff [of "7 - i mod 8"] by (simp add: bit6_def)
  qed
  then show ?thesis using r assms(2) p by simp
qed

lemma subnet6:
  assumes "p < 128"
  shows "\<exists>b. subnetMask6 p = Inr b \<and> length (sin6_addr b) = 16 \<and> (\<forall>i<128. bit6 (sin6_addr b) i = (i < unat p)) \<and>
    sum_list (map CountBytes (sin6_addr b)) = p"
proof -
  let ?k = "unat p div 8" and ?r = "unat p mod 8"
  have p: "?k < 16" using assms by (simp add: word_less_nat_alt)
  let ?b = "replicate ?k 0xff @ [NOT (mask (8 - ?r))] @ replicate (15 - ?k) (0 :: byte)"
  have r: "subnetMask6 p = Inr \<lparr>sin6_family = AF_INET6, sin6_port = 0, sin6_flowinfo = 0, sin6_addr = ?b, sin6_scope_id = 0\<rparr>"
    using p by (simp add: subnetMask6_def CreateMask8 mask_of_nat Let_def)
  have ff: "(0xff :: byte) = NOT (mask 0)" by simp
  have z: "(0 :: byte) = NOT (mask 8)" by (simp add: mask_eq_exp_minus_1)
  have bits: "bit6 ?b i = (i < unat p)" if "i < 128" for i
  proof (cases "i div 8" ?k rule: linorder_cases)
    case less
    then have "?b ! (i div 8) = NOT (mask 0)" by (simp add: nth_append)
    moreover have "i < unat p" using less by (metis div_le_mono not_less)
    ultimately show ?thesis by (simp add: bit6_def bit_not_iff)
  next
    case equal
    then have "?b ! (i div 8) = NOT (mask (8 - ?r))" by (simp add: nth_append)
    moreover have "7 - i mod 8 < 8 - ?r \<longleftrightarrow> ?r \<le> i mod 8" by linarith
    moreover have "?r \<le> i mod 8 \<longleftrightarrow> unat p \<le> i"
      using equal mult_div_mod_eq [of 8 i] mult_div_mod_eq [of 8 "unat p"] by linarith
    ultimately show ?thesis by (auto simp: bit6_def bit_not_iff bit_mask_iff)
  next
    case greater
    then have "?b ! (i div 8) = 0" using that p by (simp add: nth_append)
    moreover have "unat p \<le> i" using greater by (metis div_le_mono nat_le_linear not_less)
    ultimately show ?thesis by (simp add: bit6_def)
  qed
  have "sum_list (map CountBytes ?b) = 8 * of_nat ?k + of_nat ?r"
    unfolding ff z by (simp add: CountBytes_ones ones_not_mask sum_list_replicate mult.commute del: mask_0 bit.compl_zero)
  also have "\<dots> = of_nat (8 * ?k + ?r)" by (simp only: of_nat_add of_nat_mult of_nat_numeral)
  also have "\<dots> = of_nat (unat p)" by (simp only: mult_div_mod_eq)
  also have "\<dots> = p" by simp
  finally have "sum_list (map CountBytes ?b) = p" .
  then show ?thesis using r bits p by simp
qed

section \<open>Ordering\<close>

text \<open>The bytes an address reports, and structures of the sizes the system gives them.\<close>

definition addr_key :: "address \<Rightarrow> byte list" where
  "addr_key a = take (unat (addrlen a)) (addr_bytes a)"

fun addr_ok :: "address \<Rightarrow> bool" where
  "addr_ok (IPv4Address a) = (length (sin_zero a) = 8)"
| "addr_ok (IPv6Address a) = (length (sin6_addr a) = 16)"
| "addr_ok (UnixAddress a n) = (length (sun_path a) = SUN_PATH \<and> unat n \<le> SUN_PATH + 2)"
| "addr_ok (UnknowAddress a) = (length (sa_data a) = 14)"

lemma addr_ok_len: "addr_ok a \<Longrightarrow> unat (addrlen a) \<le> length (addr_bytes a)"
  by (cases a) simp_all

lemma memcmp_take:
  "n \<le> length xs \<Longrightarrow> n \<le> length ys \<Longrightarrow>
     memcmp xs ys n = Inr (if take n xs < take n ys then - 1 else if take n ys < take n xs then 1 else 0)"
proof (induction xs ys n rule: memcmp.induct)
  case (2 x xs y ys n)
  then show ?case by auto
qed auto

lemma lex_prefix:
  fixes xs ys :: "byte list"
  defines "n \<equiv> min (length xs) (length ys)"
  shows "xs < ys \<longleftrightarrow> take n xs < take n ys \<or> take n xs = take n ys \<and> length xs < length ys"
  unfolding n_def
proof (induction xs ys rule: list_induct2')
  case (4 x xs y ys)
  then show ?case by auto
qed auto

lemma addr_less_key:
  assumes "addr_ok a" "addr_ok b"
  shows "addr_less a b = Inr (addr_key a < addr_key b)"
proof -
  let ?n = "unat (min (addrlen a) (addrlen b))"
  have n: "?n = min (unat (addrlen a)) (unat (addrlen b))" by (simp add: min_def word_le_nat_alt)
  have l: "length (addr_key a) = unat (addrlen a)" "length (addr_key b) = unat (addrlen b)"
    using addr_ok_len assms by (auto simp: addr_key_def)
  have t: "take ?n (addr_bytes a) = take ?n (addr_key a)" "take ?n (addr_bytes b) = take ?n (addr_key b)"
    by (simp_all add: addr_key_def n)
  have m: "memcmp (addr_bytes a) (addr_bytes b) ?n =
      Inr (if take ?n (addr_key a) < take ?n (addr_key b) then - 1 else if take ?n (addr_key b) < take ?n (addr_key a) then 1 else 0)"
    using memcmp_take [of ?n "addr_bytes a" "addr_bytes b"] addr_ok_len [OF assms(1)] addr_ok_len [OF assms(2)] unfolding t by (simp add: n)
  show ?thesis
    using lex_prefix [of "addr_key a" "addr_key b"] less_linear [of "take ?n (addr_key a)" "take ?n (addr_key b)"]
    unfolding addr_less_def Let_def m l n [symmetric] by (auto simp: word_less_nat_alt)
qed

lemma addr_eq_key:
  assumes "addr_ok a" "addr_ok b"
  shows "addr_eq a b = Inr (addr_key a = addr_key b)"
proof (cases "addrlen a = addrlen b")
  case True
  then show ?thesis
    using memcmp_take [of "unat (addrlen a)" "addr_bytes a" "addr_bytes b"] addr_ok_len [OF assms(1)] addr_ok_len [OF assms(2)]
    by (auto simp: addr_eq_def addr_key_def)
next
  case False
  then have "unat (addrlen a) \<noteq> unat (addrlen b)" by (simp add: word_eq_iff_unsigned [where 'a = nat])
  then have "length (addr_key a) \<noteq> length (addr_key b)" using addr_ok_len assms by (simp add: addr_key_def)
  then show ?thesis using False by (auto simp: addr_eq_def)
qed

text \<open>The order sorts addresses as an ordered container of the library needs it.\<close>

definition addr_lt :: "address \<Rightarrow> address \<Rightarrow> bool" where
  "addr_lt a b = (addr_key a < addr_key b)"

interpretation addr_order: weak_order addr_lt
proof unfold_locales
  show "\<not> addr_lt a a" for a by (simp add: addr_lt_def)
  show "addr_lt a b \<Longrightarrow> addr_lt b c \<Longrightarrow> addr_lt a c" for a b c by (simp add: addr_lt_def)
  show "addr_lt a c \<Longrightarrow> addr_lt a b \<or> addr_lt b c" for a b c by (auto simp: addr_lt_def)
qed

section \<open>Printing of IPv6 addresses\<close>

text \<open>The text form: the first run of zero groups replaced by a double colon.\<close>

definition compress6 :: "nat list \<Rightarrow> string" where
  "compress6 gs = (case dropWhile (\<lambda>g. g \<noteq> 0) gs of
      [] \<Rightarrow> join '':'' (map hex gs)
    | rest \<Rightarrow> join '':'' (map hex (takeWhile (\<lambda>g. g \<noteq> 0) gs)) @ ''::'' @ join '':'' (map hex (dropWhile (\<lambda>g. g = 0) rest)))"

definition group6 :: "u16 \<Rightarrow> nat" where
  "group6 w = unat (byteswapOnLittleEndian w)"

lemma byteswap_zero: "byteswap (0 :: 'a::len word) = 0"
  by (rule bit_word_eqI) (auto simp: byteswap_def bit_of_le_bytes le_bytes_def rev_map rev_nth)

lemma group6_zero [simp]: "group6 w = 0 \<longleftrightarrow> w = 0"
proof -
  have "byteswap w = 0 \<longleftrightarrow> w = 0" using byteswap_byteswap [of w] byteswap_zero by fastforce
  then show ?thesis by (simp add: group6_def byteswapOnLittleEndian_def unsigned_eq_0_iff)
qed

definition colons :: "u16 list \<Rightarrow> string" where
  "colons ws = concat (map (\<lambda>w. '':'' @ hex (group6 w)) ws)"

lemma join_colons: "join '':'' (map (hex \<circ> group6) (w # ws)) = hex (group6 w) @ colons ws"
  by (induction ws arbitrary: w) (simp_all add: colons_def)

lemma insert6_used: "prev \<noteq> None \<Longrightarrow> insert6_loop True prev ws = (colons ws, True)"
  by (induction ws arbitrary: prev) (simp_all add: colons_def group6_def)

lemma insert6_zeros:
  "insert6_loop False (Some 0) ws =
     (case dropWhile (\<lambda>w. w = 0) ws of [] \<Rightarrow> ('''', False) | w # vs \<Rightarrow> ('':'' @ colons (w # vs), True))"
  by (induction ws) (simp_all add: insert6_used colons_def group6_def)

declare dropWhile_eq_Nil_conv [simp del]

text \<open>Before the first zero: a leading colon unless it is the first word.\<close>

lemma insert6_start:
  "prev \<noteq> Some 0 \<Longrightarrow> insert6_loop False prev ws =
     (let pre = takeWhile (\<lambda>w. w \<noteq> 0) ws; rest = dropWhile (\<lambda>w. w = 0) (dropWhile (\<lambda>w. w \<noteq> 0) ws);
          lead = (if prev = None then join '':'' (map (hex \<circ> group6) pre) else colons pre)
      in if rest = [] then (lead, False) else (lead @ '':'' @ colons rest, True))"
proof (induction ws arbitrary: prev)
  case (Cons w ws)
  show ?case
  proof (cases "w = 0")
    case True
    then show ?thesis
      by (cases "dropWhile (\<lambda>w. w = 0) ws") (simp_all add: insert6_zeros colons_def)
  next
    case False
    let ?pre = "takeWhile (\<lambda>w. w \<noteq> 0) ws" and ?rest = "dropWhile (\<lambda>w. w = 0) (dropWhile (\<lambda>w. w \<noteq> 0) ws)"
    have j: "join '':'' (hex (group6 w) # map (hex \<circ> group6) ?pre) = hex (group6 w) @ colons ?pre"
      using join_colons [of w ?pre] by simp
    have c: "colons (w # ?pre) = '':'' @ hex (group6 w) @ colons ?pre" by (simp add: colons_def)
    have h: "hex (unat (byteswapOnLittleEndian w)) = hex (group6 w)" by (simp add: group6_def)
    have ih: "insert6_loop False (Some w) ws = (if ?rest = [] then (colons ?pre, False) else (colons ?pre @ '':'' @ colons ?rest, True))"
      using Cons.IH [of "Some w"] False by (simp)
    show ?thesis
      using False Cons.prems by (cases "?rest = []") (simp_all add: ih h j c Let_def)
  qed
qed (simp add: colons_def)

lemma last_zero_rest:
  assumes "ws \<noteq> []"
  shows "dropWhile (\<lambda>w. w = 0) (dropWhile (\<lambda>w. w \<noteq> 0) ws) = [] \<and> last ws = 0 \<longleftrightarrow>
    dropWhile (\<lambda>w. w \<noteq> 0) ws \<noteq> [] \<and> dropWhile (\<lambda>w. w = 0) (dropWhile (\<lambda>w. w \<noteq> (0 :: u16)) ws) = []"
proof -
  let ?r = "dropWhile (\<lambda>w. w \<noteq> 0) ws"
  show ?thesis
  proof (cases "?r = []")
    case True
    then have "\<forall>w\<in>set ws. w \<noteq> 0" by (simp add: dropWhile_eq_Nil_conv)
    then show ?thesis using True assms last_in_set by auto
  next
    case False
    have "last ws = last ?r"
      using last_appendR [OF False, of "takeWhile (\<lambda>w. w \<noteq> 0) ws"] by (simp only: takeWhile_dropWhile_id)
    moreover have "dropWhile (\<lambda>w. w = 0) ?r = [] \<Longrightarrow> last ?r = 0"
      using last_in_set [OF False] unfolding dropWhile_eq_Nil_conv by blast
    ultimately show ?thesis using False by metis
  qed
qed

lemma takeWhile_map_group6: "takeWhile (\<lambda>g. g \<noteq> 0) (map group6 ws) = map group6 (takeWhile (\<lambda>w. w \<noteq> 0) ws)"
  and dropWhile_map_group6: "dropWhile (\<lambda>g. g \<noteq> 0) (map group6 ws) = map group6 (dropWhile (\<lambda>w. w \<noteq> 0) ws)"
  and dropWhile0_map_group6: "dropWhile (\<lambda>g. g = 0) (map group6 ws) = map group6 (dropWhile (\<lambda>w. w = 0) ws)"
  by (induction ws) (simp_all del: neq0_conv)

lemma compress6_words:
  "compress6 (map group6 ws) =
     (if dropWhile (\<lambda>w. w \<noteq> 0) ws = [] then join '':'' (map (hex \<circ> group6) ws)
      else join '':'' (map (hex \<circ> group6) (takeWhile (\<lambda>w. w \<noteq> 0) ws)) @ ''::'' @
           join '':'' (map (hex \<circ> group6) (dropWhile (\<lambda>w. w = 0) (dropWhile (\<lambda>w. w \<noteq> 0) ws))))"
proof (cases "dropWhile (\<lambda>w. w \<noteq> 0) ws")
  case (Cons z zs)
  then show ?thesis
    using dropWhile0_map_group6 [of "z # zs"]
    by (simp add: compress6_def dropWhile_map_group6 takeWhile_map_group6 del: neq0_conv dropWhile.simps)
qed (simp add: compress6_def dropWhile_map_group6 del: neq0_conv)

lemma insert6_compress:
  "insert6 a = ''['' @ compress6 (map group6 (words6 (sin6_addr a))) @ '']:'' @ dec (unat (byteswapOnLittleEndian (sin6_port a)))"
proof -
  let ?ws = "words6 (sin6_addr a)"
  let ?pre = "takeWhile (\<lambda>w. w \<noteq> 0) ?ws" and ?z = "dropWhile (\<lambda>w. w \<noteq> 0) ?ws"
  let ?rest = "dropWhile (\<lambda>w. w = 0) ?z"
  have l: "length ?ws = 8" by (simp add: words6_def)
  then have ne: "?ws \<noteq> []" by (metis list.size(3) zero_neq_numeral)
  then have last: "?ws ! 7 = last ?ws" "?ws \<noteq> []" using l by (simp_all add: last_conv_nth)
  show ?thesis
  proof (cases "?rest = []")
    case True
    have loop: "insert6_loop False None ?ws = (join '':'' (map (hex \<circ> group6) ?pre), False)"
      using insert6_start [of None ?ws] True by simp
    show ?thesis
    proof (cases "?z = []")
      case True
      then have pre: "?pre = ?ws" using takeWhile_dropWhile_id [of "\<lambda>w. w \<noteq> 0" ?ws] by simp
      have "last ?ws \<noteq> 0" using True last(2) last_zero_rest [OF last(2)] \<open>?rest = []\<close> by metis
      then show ?thesis using loop last True unfolding pre by (simp add: insert6_def compress6_words Let_def)
    next
      case False
      then have "last ?ws = 0" using last_zero_rest [OF last(2)] True by auto
      then show ?thesis using loop last True False by (simp add: insert6_def compress6_words Let_def)
    qed
  next
    case False
    then obtain r rs where r: "?rest = r # rs" by (auto simp: neq_Nil_conv)
    then have z: "?z \<noteq> []" by auto
    have loop: "insert6_loop False None ?ws = (join '':'' (map (hex \<circ> group6) ?pre) @ '':'' @ colons ?rest, True)"
      using insert6_start [of None ?ws] False by simp
    have "'':'' @ colons ?rest = ''::'' @ join '':'' (map (hex \<circ> group6) ?rest)"
      unfolding r join_colons by (simp add: colons_def)
    then show ?thesis using loop z by (simp add: insert6_def compress6_words Let_def)
  qed
qed

section \<open>Unix paths\<close>

lemma char_of_byte_nul: "char_of_byte b = CHR 0x00 \<longleftrightarrow> b = 0"
proof
  assume "char_of_byte b = CHR 0x00"
  then have "of_char (char_of_byte b) = (0 :: nat)" by simp
  moreover have "unat b < 256" using unat_less_exp [of b] by simp
  ultimately show "b = 0" by (simp add: char_of_byte_def unsigned_eq_0_iff)
qed (simp add: char_of_byte_def char_of_def)

lemma unix_path_len:
  assumes "length path < SUN_PATH"
  shows "unat (of_nat (length path + 1) :: u32) = length path + 1"
  by (rule unat_of_nat_less) (use assms in \<open>simp add: SUN_PATH_def\<close>)

text \<open>A path without null characters prints as itself; one in the abstract name space after \<open>\\0\<close>.\<close>

lemma unix_print_path:
  assumes "length path < SUN_PATH" and "0 \<notin> set path" and ne: "path \<noteq> []" and "UnixAddress_new path = Inr a"
  shows "address_insert a = map char_of_byte path"
proof -
  have n: "unat (of_nat (length path + 1) :: u32) = length path + 1" by (rule unix_path_len [OF assms(1)])
  have "\<not> (path \<noteq> [] \<and> path ! 0 = 0)" using assms(2) by (cases path) auto
  then have a: "a = UnixAddress \<lparr>sun_family = AF_UNIX, sun_path = path @ 0 # replicate (SUN_PATH - Suc (length path)) 0\<rparr> (of_nat (length path + 1) + 2)"
    using assms(1,4) n by (auto simp: UnixAddress_new_def Let_def overwrite_def SUN_PATH_def split: if_splits)
  have z: "CHR 0x00 \<notin> set (map char_of_byte path)" using assms(2) char_of_byte_nul by (metis imageE list.set_map)
  show ?thesis
  proof (cases path)
    case Nil
    then show ?thesis using ne by simp
  next
    case (Cons x xs)
    then have "x \<noteq> 0" using assms(2) by auto
    moreover have "char_of_byte 0 = CHR 0x00" by (simp add: char_of_byte_nul)
    ultimately show ?thesis using c_str_app_nul [OF z] Cons by (simp add: a)
  qed
qed

section \<open>Host names\<close>

lemma split_host_bracketed:
  assumes "CHR '']'' \<notin> set n" and "n \<noteq> []"
  shows "split_host (''['' @ n @ '']:'' @ p) = (n, Some p)" "split_host (''['' @ n @ '']'') = (n, None)"
  using assms find_char_app [OF assms(1)] by (simp_all add: split_host_def bracketed_def nth_append eval_nat_numeral)

lemma split_host_plain:
  assumes "CHR '':'' \<notin> set n" and "n \<noteq> []" and "hd n \<noteq> CHR ''[''"
  shows "CHR '':'' \<notin> set p \<Longrightarrow> split_host (n @ '':'' @ p) = (n, Some p)" "split_host n = (n, None)"
proof -
  obtain c cs where n: "n = c # cs" using assms(2) by (cases n) auto
  then have "c \<noteq> CHR ''[''" using assms(3) by simp
  then show "CHR '':'' \<notin> set p \<Longrightarrow> split_host (n @ '':'' @ p) = (n, Some p)" "split_host n = (n, None)"
    using find_char_app [OF assms(1), of p] find_char_None [of "CHR '':''" n] find_char_None [of "CHR '':''" p] assms(1)
    by (simp_all add: split_host_def bracketed_def n)
qed

text \<open>A bare IPv6 address: the resolver gets the text from the first colon on as the service.\<close>

lemma split_host_bare6:
  assumes "CHR '':'' \<notin> set n" and "hd (n @ '':'') \<noteq> CHR ''[''" and "CHR '':'' \<in> set p"
  shows "split_host (n @ '':'' @ p) = (n @ '':'' @ p, Some ('':'' @ p))"
proof -
  have "\<not> (n @ '':'' @ p \<noteq> [] \<and> (n @ '':'' @ p) ! 0 = CHR ''['')" using assms(2) by (cases n) auto
  then show ?thesis
    using find_char_app [OF assms(1), of p] find_char_None [of "CHR '':''" p] assms(3)
    by (auto simp: split_host_def bracketed_def split: option.splits)
qed

section \<open>Interface tables\<close>

lemma above_key: "sorted (map fst xs) \<Longrightarrow> e \<in> set (dropWhile (\<lambda>e. fst e \<le> k) xs) \<Longrightarrow> (k :: string) < fst e"
proof (induction xs)
  case (Cons x xs)
  then show ?case by (cases "fst x \<le> k") (auto simp: not_le intro: less_le_trans)
qed simp

lemma mm_insert_sorted:
  assumes "sorted (map fst xs)"
  shows "sorted (map fst (mm_insert k v xs))"
proof -
  obtain T D where TD: "T = takeWhile (\<lambda>e. fst e \<le> k) xs" "D = dropWhile (\<lambda>e. fst e \<le> k) xs" by simp
  then have "xs = T @ D" by simp
  then have "sorted (map fst (T @ D))" using assms by simp
  moreover have "\<forall>e\<in>set D. k \<le> fst e" using above_key [OF assms, of _ k] TD(2) by (auto simp: less_imp_le)
  moreover have "\<forall>e\<in>set T. fst e \<le> k" using set_takeWhileD TD(1) by fastforce
  ultimately show ?thesis unfolding mm_insert_def TD [symmetric] by (auto simp: sorted_append)
qed

lemma equal_range_filter: "sorted (map fst xs) \<Longrightarrow> equal_range k xs = map snd (filter (\<lambda>e. fst e = k) xs)"
proof (induction xs)
  case (Cons x xs)
  then have le: "\<forall>e\<in>set xs. fst x \<le> fst e" by simp
  consider "fst x < k" | "fst x = k" | "k < fst x" using less_linear by blast
  then show ?case
  proof cases
    case 1
    then show ?thesis using Cons by (simp add: equal_range_def)
  next
    case 2
    have "dropWhile (\<lambda>e. fst e < k) xs = xs" using le 2 by (cases xs) auto
    then show ?thesis using Cons 2 by (simp add: equal_range_def)
  next
    case 3
    then have "\<forall>e\<in>set xs. fst e \<noteq> k" "\<not> fst x < k" "\<not> fst x \<le> k" "fst x \<noteq> k" using le by auto
    then show ?thesis by (simp add: equal_range_def)
  qed
qed (simp add: equal_range_def)

lemma mm_insert_filter:
  assumes "sorted (map fst xs)"
  shows "filter (\<lambda>e. fst e = i) (mm_insert k v xs) = filter (\<lambda>e. fst e = i) xs @ (if k = i then [(k, v)] else [])"
proof -
  have s: "filter P xs = filter P (takeWhile (\<lambda>e. fst e \<le> k) xs) @ filter P (dropWhile (\<lambda>e. fst e \<le> k) xs)" for P
    using filter_append [of P "takeWhile (\<lambda>e. fst e \<le> k) xs" "dropWhile (\<lambda>e. fst e \<le> k) xs"] by simp
  have "\<forall>e\<in>set (dropWhile (\<lambda>e. fst e \<le> k) xs). k < fst e" using above_key [OF assms] by blast
  then have "k = i \<Longrightarrow> filter (\<lambda>e. fst e = i) (dropWhile (\<lambda>e. fst e \<le> k) xs) = []"
    by (auto simp: filter_empty_conv)
  then show ?thesis using s [of "\<lambda>e. fst e = i"] by (simp add: mm_insert_def)
qed

text \<open>The entries of one interface come back in the order the system lists them.\<close>

lemma interface_loop_filter:
  assumes "interface_loop family xs res = Inr res'" and "sorted (map fst res)"
  shows "sorted (map fst res') \<and> filter (\<lambda>e. fst e = i) res' = filter (\<lambda>e. fst e = i) res @
    concat (map (\<lambda>x. case interface_entry family x of Inr (Some v) \<Rightarrow> if ifa_name x = i then [(i, v)] else [] | _ \<Rightarrow> []) xs)"
  using assms
proof (induction xs arbitrary: res)
  case (Cons x xs)
  then obtain e where e: "interface_entry family x = Inr e"
    and l: "interface_loop family xs (case e of None \<Rightarrow> res | Some v \<Rightarrow> mm_insert (ifa_name x) v res) = Inr res'"
    by (auto simp: bindE_eq_Inr_iff)
  have "sorted (map fst (case e of None \<Rightarrow> res | Some v \<Rightarrow> mm_insert (ifa_name x) v res))"
    using Cons.prems(2) by (simp add: mm_insert_sorted split: option.split)
  from Cons.IH [OF l this] show ?case
    using e mm_insert_filter [OF Cons.prems(2)] by (auto split: option.splits)
qed simp

section \<open>Properties\<close>

text \<open>
  C33. Prefix lengths survive the masks: for every prefix length that the shift in \<open>CreateMask\<close> allows (2 to 32
  for IPv4, below 128 for IPv6), the subnet mask has exactly the leading bits set and counting its ones, as the interface scan does, gives the prefix
  length back; and the broadcast address keeps the network part and sets every host bit.
\<close>

theorem prefix_masks:
  assumes p: "2 \<le> p" "p \<le> 32" and q: "q < 128" "length (sin6_addr c) = 16"
  shows "(\<exists>s b. subnetMask4 (of_nat p) = Inr s \<and> host4 s = NOT (mask (32 - p)) \<and> CountBytes (sin_addr s) = of_nat p \<and>
        broadcastAddress4 (of_nat p) a = Inr (Some b) \<and> host4 b = host4 a OR mask (32 - p)) \<and>
     (\<exists>s b. subnetMask6 q = Inr s \<and> (\<forall>i<128. bit6 (sin6_addr s) i = (i < unat q)) \<and> sum_list (map CountBytes (sin6_addr s)) = q \<and>
        broadcastAddress6 q c = Inr b \<and> (\<forall>i<128. bit6 (sin6_addr b) i = (bit6 (sin6_addr c) i \<or> unat q \<le> i)))"
proof -
  from subnet4 [OF p] obtain s where s: "subnetMask4 (of_nat p) = Inr s" "host4 s = NOT (mask (32 - p))" by blast
  have "ones (sin_addr s) = ones (host4 s)" by (simp add: host4_def byteswapOnLittleEndian_def ones_byteswap)
  then have "CountBytes (sin_addr s) = of_nat p" using p s(2) by (simp add: CountBytes_ones ones_not_mask)
  then show ?thesis using s broadcast4 [OF p, of a] subnet6 [OF q(1)] broadcast6 [OF q] by blast
qed

theorem prefix_masks_witness:
  "(\<exists>s. subnetMask4 24 = Inr s \<and> CountBytes (sin_addr s) = 24) \<and>
   (\<exists>b. broadcastAddress4 24 (IPv4Address_new 0xC0A80107 80) = Inr (Some b) \<and> host4 b = 0xC0A801FF) \<and>
   (\<exists>s. subnetMask6 64 = Inr s \<and> sum_list (map CountBytes (sin6_addr s)) = 64)"
proof -
  have "host4 (IPv4Address_new 0xC0A80107 80) OR mask 8 = 0xC0A801FF"
    by (simp add: host4_def IPv4Address_new_def mask_eq_exp_minus_1)
  then show ?thesis
    using prefix_masks [of 24 64 IPv6Address_any "IPv4Address_new 0xC0A80107 80"]
    by (auto simp: IPv6Address_any_def)
qed

text \<open>
  \<open>networkAddress\<close> returns the host part: it masks the address with the host bits instead of with their
  complement, so the network part is cleared and the result is the network address only for an address whose network part is its
  host part.
\<close>

theorem networkAddress_host_part:
  assumes "2 \<le> p" and "p \<le> 32"
  shows "\<exists>b. networkAddress4 (of_nat p) a = Inr (Some b) \<and> host4 b = host4 a AND mask (32 - p) \<and> host4 b AND NOT (mask (32 - p)) = 0"
  using network4 [OF assms, of a] by (auto simp: and.assoc)

theorem networkAddress_host_part_witness:
  "\<exists>b. networkAddress4 24 (IPv4Address_new 0xC0A80107 80) = Inr (Some b) \<and> host4 b = 7"
proof -
  have "host4 (IPv4Address_new 0xC0A80107 80) AND mask 8 = 7"
    by (simp add: host4_def IPv4Address_new_def mask_eq_exp_minus_1)
  then show ?thesis using networkAddress_host_part [of 24 "IPv4Address_new 0xC0A80107 80"] by auto
qed

text \<open>
  C34. IPv6 addresses are printed in the compressed text form: the loop with its \<open>used_zeros\<close> flag writes the groups in
  hexadecimal, separated by colons, with the first run of zero groups replaced by a double colon wherever it stands.
\<close>

theorem ipv6_text_form:
  "insert6 a = ''['' @ compress6 (map group6 (words6 (sin6_addr a))) @ '']:'' @ dec (unat (byteswapOnLittleEndian (sin6_port a)))"
  by (rule insert6_compress)

text \<open>
  \<open>Address::operator<\<close> and \<open>operator==\<close> never read outside the structures and order addresses by their bytes
  lexicographically, shorter before longer: exactly one of less, equal and greater holds, and equality is equality of the bytes.
\<close>

theorem address_order:
  assumes "addr_ok a" and "addr_ok b"
  shows "\<exists>lt eq gt. addr_less a b = Inr lt \<and> addr_eq a b = Inr eq \<and> addr_less b a = Inr gt \<and>
    (lt \<longleftrightarrow> addr_lt a b) \<and> (eq \<longleftrightarrow> addr_key a = addr_key b) \<and> length (filter id [lt, eq, gt]) = 1"
  using addr_less_key [OF assms] addr_eq_key [OF assms] addr_less_key [OF assms(2,1)]
    less_linear [of "addr_key a" "addr_key b"] by (auto simp: addr_lt_def)

theorem address_order_witness:
  "\<exists>lt. addr_less (IPv4Address (IPv4Address_new 0x7F000001 80)) UnixAddress_any = Inr lt \<and>
     (lt \<longleftrightarrow> addr_lt (IPv4Address (IPv4Address_new 0x7F000001 80)) UnixAddress_any)"
  using address_order [of "IPv4Address (IPv4Address_new 0x7F000001 80)" UnixAddress_any]
  by (auto simp: IPv4Address_new_def UnixAddress_any_def SUN_PATH_def)

text \<open>
  A host text is split into node and service as its forms demand: \<open>[node]:service\<close>, \<open>[node]\<close>, \<open>node:service\<close> and
  \<open>node\<close>; only a bare IPv6 address, with more than one colon, hands its tail to the resolver as a service.
\<close>

theorem host_forms:
  assumes "CHR '':'' \<notin> set n" and "n \<noteq> []" and "hd n \<noteq> CHR ''[''" and "CHR '':'' \<notin> set p"
    and "CHR '']'' \<notin> set n6" and "n6 \<noteq> []" and "CHR '':'' \<in> set t"
  shows "split_host (''['' @ n6 @ '']:'' @ p) = (n6, Some p) \<and> split_host (''['' @ n6 @ '']'') = (n6, None) \<and>
    split_host (n @ '':'' @ p) = (n, Some p) \<and> split_host n = (n, None) \<and>
    split_host (n @ '':'' @ t) = (n @ '':'' @ t, Some ('':'' @ t))"
proof -
  have "hd (n @ '':'') \<noteq> CHR ''[''" using assms(2,3) by simp
  then show ?thesis
    using split_host_bracketed [OF assms(5,6)] split_host_plain [OF assms(1-3)] split_host_bare6 [OF assms(1) _ assms(7)] assms(4) by simp
qed

theorem host_forms_witness:
  "split_host ''[::1]:80'' = (''::1'', Some ''80'') \<and> split_host ''localhost:8080'' = (''localhost'', Some ''8080'')"
  using host_forms [of "''localhost''" "''80''" "''::1''" "'':1''"] host_forms [of "''localhost''" "''8080''" "''::1''" "'':1''"] by simp

end
