(* ===== verification/Cool_FdManager.thy ===== *)
theory Cool_FdManager
  imports Cool_Prelude
begin

text \<open>
  File descriptor contexts (src/fd_manager.h, src/fd_manager.cpp). The kernel side of a
  descriptor is a parameter: whether \<open>fstat\<close> knows it and says it is a socket, and its status flags. Contexts are shared
  pointers into a heap; the address of a new context is an argument.
\<close>

text \<open>The kernel's view: \<^const>\<open>None\<close> where \<open>fstat\<close> fails, else whether the descriptor is a socket.\<close>

record kernel_fds =
  kf_stat :: "int \<Rightarrow> bool option"
  kf_flags :: "int \<Rightarrow> u32"

definition O_NONBLOCK :: u32 where
  "O_NONBLOCK = 0x800"

definition SO_RCVTIMEO :: int where
  "SO_RCVTIMEO = 20"

definition SO_SNDTIMEO :: int where
  "SO_SNDTIMEO = 21"

section \<open>Contexts\<close>

record fd_ctx =
  fc_isInit :: bool
  fc_isSocket :: bool
  fc_isClosed :: bool
  fc_sysNonblock :: bool
  fc_userNonblock :: bool
  fc_fd :: int
  fc_recvTimeout :: u64
  fc_sendTimeout :: u64

definition FdCtx_init :: "fd_ctx \<Rightarrow> kernel_fds \<Rightarrow> bool \<times> fd_ctx \<times> kernel_fds" where
  "FdCtx_init c k =
     (if fc_isInit c then (True, c, k)
      else let c = c\<lparr>fc_recvTimeout := - 1, fc_sendTimeout := - 1\<rparr>;
               c = (case kf_stat k (fc_fd c) of
                      None \<Rightarrow> c\<lparr>fc_isInit := False, fc_isSocket := False\<rparr>
                    | Some sock \<Rightarrow> c\<lparr>fc_isInit := True, fc_isSocket := sock\<rparr>);
               flags = kf_flags k (fc_fd c);
               k = (if fc_isSocket c \<and> (flags AND O_NONBLOCK) = 0
                    then k\<lparr>kf_flags := (kf_flags k)(fc_fd c := flags OR O_NONBLOCK)\<rparr> else k);
               c = c\<lparr>fc_sysNonblock := fc_isSocket c, fc_userNonblock := False, fc_isClosed := False\<rparr>
           in (fc_isInit c, c, k))"

definition FdCtx_new :: "int \<Rightarrow> kernel_fds \<Rightarrow> fd_ctx \<times> kernel_fds" where
  "FdCtx_new fd k =
     snd (FdCtx_init \<lparr>fc_isInit = False, fc_isSocket = False, fc_isClosed = False, fc_sysNonblock = False,
       fc_userNonblock = False, fc_fd = fd, fc_recvTimeout = - 1, fc_sendTimeout = - 1\<rparr> k)"

definition setTimeout :: "int \<Rightarrow> u64 \<Rightarrow> fd_ctx \<Rightarrow> fd_ctx" where
  "setTimeout type v c = (if type = SO_RCVTIMEO then c\<lparr>fc_recvTimeout := v\<rparr> else c\<lparr>fc_sendTimeout := v\<rparr>)"

definition getTimeout :: "int \<Rightarrow> fd_ctx \<Rightarrow> u64" where
  "getTimeout type c = (if type = SO_RCVTIMEO then fc_recvTimeout c else fc_sendTimeout c)"

section \<open>The table\<close>

record fd_manager =
  fm_datas :: "nat option list"
  fm_heap :: "nat \<Rightarrow> fd_ctx"

definition FdManager_new :: "(nat \<Rightarrow> fd_ctx) \<Rightarrow> fd_manager" where
  "FdManager_new h = \<lparr>fm_datas = replicate 64 None, fm_heap = h\<rparr>"

text \<open>Indexing the vector; a negative or too large index is outside of it.\<close>

definition fm_at :: "int \<Rightarrow> fd_manager \<Rightarrow> nat option outcome" where
  "fm_at fd m = (if 0 \<le> fd \<and> fd < int (length (fm_datas m)) then Inr (fm_datas m ! nat fd) else Inl Out_of_bounds)"

definition fm_store :: "int \<Rightarrow> nat option \<Rightarrow> fd_manager \<Rightarrow> fd_manager outcome" where
  "fm_store fd p m = (if 0 \<le> fd \<and> fd < int (length (fm_datas m))
     then Inr (m\<lparr>fm_datas := (fm_datas m)[nat fd := p]\<rparr>) else Inl Out_of_bounds)"

text \<open>The creating part of \<open>get\<close>, under the exclusive lock.\<close>

definition FdManager_create :: "int \<Rightarrow> nat \<Rightarrow> fd_manager \<Rightarrow> kernel_fds \<Rightarrow> (nat option \<times> fd_manager \<times> kernel_fds) outcome" where
  "FdManager_create fd a m k =
     (let (c, k) = FdCtx_new fd k
      in bindE (fm_store fd (Some a) (m\<lparr>fm_heap := (fm_heap m)(a := c)\<rparr>)) (\<lambda>m. Inr (Some a, m, k)))"

definition FdManager_get ::
  "int \<Rightarrow> bool \<Rightarrow> nat \<Rightarrow> fd_manager \<Rightarrow> kernel_fds \<Rightarrow> (nat option \<times> fd_manager \<times> kernel_fds) outcome" where
  "FdManager_get fd auto_create a m k =
     (if int (length (fm_datas m)) \<le> fd
      then if \<not> auto_create then Inr (None, m, k) else FdManager_create fd a m k
      else bindE (fm_at fd m) (\<lambda>p.
        if p \<noteq> None \<or> \<not> auto_create then Inr (p, m, k) else FdManager_create fd a m k))"

definition FdManager_del :: "int \<Rightarrow> fd_manager \<Rightarrow> fd_manager outcome" where
  "FdManager_del fd m = (if int (length (fm_datas m)) \<le> fd then Inr m else fm_store fd None m)"

section \<open>Properties\<close>

lemma FdCtx_new_fd: "fc_fd (fst (FdCtx_new fd k)) = fd"
  by (simp add: FdCtx_new_def FdCtx_init_def Let_def split: option.split)

lemma fm_size: "FdManager_get fd ac a m k = Inr (p, m', k') \<Longrightarrow> length (fm_datas m') = length (fm_datas m)"
  by (auto simp: FdManager_get_def FdManager_create_def fm_store_def fm_at_def Let_def bindE_eq_Inr_iff
      split: if_splits prod.splits)

text \<open>
  A new context mirrors the kernel: it is initialised exactly when \<open>fstat\<close> knows the descriptor; a
  socket is put into non-blocking mode in the kernel, recorded as such, and no other descriptor's flags change;
  the timeouts start as infinite.
\<close>

theorem FdCtx_new_spec:
  "let (c, k') = FdCtx_new fd k in
     fc_isInit c = (kf_stat k fd \<noteq> None) \<and> fc_isSocket c = (kf_stat k fd = Some True) \<and>
     fc_sysNonblock c = fc_isSocket c \<and> \<not> fc_userNonblock c \<and> \<not> fc_isClosed c \<and>
     getTimeout SO_RCVTIMEO c = - 1 \<and> getTimeout SO_SNDTIMEO c = - 1 \<and>
     kf_stat k' = kf_stat k \<and>
     kf_flags k' = (if fc_isSocket c then (kf_flags k)(fd := kf_flags k fd OR O_NONBLOCK) else kf_flags k)"
proof -
  have set: "flags OR O_NONBLOCK = flags" if "flags AND O_NONBLOCK \<noteq> 0" for flags
  proof -
    have b: "bit O_NONBLOCK n \<longleftrightarrow> n = 11" for n
      using bit_exp_iff [where 'a = u32, of 11 n] by (auto simp: O_NONBLOCK_def)
    have "\<exists>n. bit (flags AND O_NONBLOCK) n"
      using that bit_eqI [of "flags AND O_NONBLOCK" 0] by auto
    then have "bit flags 11" using b by (auto simp: bit_and_iff)
    then show ?thesis by (intro bit_eqI) (auto simp: bit_or_iff b)
  qed
  show ?thesis
    by (auto simp: FdCtx_new_def FdCtx_init_def Let_def getTimeout_def SO_SNDTIMEO_def SO_RCVTIMEO_def set fun_upd_idem
        split: option.split)
qed

text \<open>
  Inside its table of 64 entries the descriptor manager creates each context once: asking with
  \<open>auto_create\<close> stores a context of that descriptor, asking again returns the same pointer and
  changes nothing, other descriptors are unaffected, and after \<open>del\<close> the entry is gone.
\<close>

theorem FdManager_get_spec:
  assumes "0 \<le> fd" and "fd < int (length (fm_datas m))"
  shows "\<exists>p m' k'. FdManager_get fd True a m k = Inr (Some p, m', k') \<and>
     (fm_datas m ! nat fd = None \<longrightarrow> fc_fd (fm_heap m' p) = fd) \<and>
     (\<forall>b k2. FdManager_get fd True b m' k2 = Inr (Some p, m', k2)) \<and>
     (\<forall>i. i \<noteq> nat fd \<longrightarrow> fm_datas m' ! i = fm_datas m ! i) \<and>
     (\<exists>m2. FdManager_del fd m' = Inr m2 \<and> (\<forall>b k2. FdManager_get fd False b m2 k2 = Inr (None, m2, k2)))"
proof -
  have i: "nat fd < length (fm_datas m)" using assms by linarith
  show ?thesis
  proof (cases "fm_datas m ! nat fd")
    case None
    obtain c k' where c: "FdCtx_new fd k = (c, k')" by force
    then have "fc_fd c = fd" using FdCtx_new_fd [of fd k] by simp
    then show ?thesis
      using assms i None c
      by (simp add: FdManager_get_def FdManager_create_def FdManager_del_def fm_at_def fm_store_def)
  next
    case (Some p)
    then show ?thesis
      using assms i by (simp add: FdManager_get_def FdManager_del_def fm_at_def fm_store_def)
  qed
qed

theorem FdManager_get_spec_witness:
  "\<exists>p m' k'. FdManager_get 5 True 9 (FdManager_new (\<lambda>_. undefined)) \<lparr>kf_stat = \<lambda>_. Some True, kf_flags = \<lambda>_. 2\<rparr> =
     Inr (Some p, m', k') \<and> fc_fd (fm_heap m' p) = 5"
  using FdManager_get_spec [of 5 "FdManager_new (\<lambda>_. undefined)" 9 "\<lparr>kf_stat = \<lambda>_. Some True, kf_flags = \<lambda>_. 2\<rparr>"]
  by (auto simp: FdManager_new_def)

text \<open>
  The table never grows: asking for the context of a descriptor beyond it with \<open>auto_create\<close>
  writes outside the vector, and so does any use of a negative descriptor.
\<close>

theorem FdManager_out_of_bounds:
  assumes "fd < 0 \<or> int (length (fm_datas m)) \<le> fd"
  shows "FdManager_get fd True a m k = Inl Out_of_bounds \<and> (fd < 0 \<longrightarrow> FdManager_del fd m = Inl Out_of_bounds)"
  using assms
  by (auto simp: FdManager_get_def FdManager_create_def FdManager_del_def fm_at_def fm_store_def split: prod.split)

theorem FdManager_out_of_bounds_witness:
  "FdManager_get 64 True 9 (FdManager_new (\<lambda>_. undefined)) \<lparr>kf_stat = \<lambda>_. Some True, kf_flags = \<lambda>_. 2\<rparr> = Inl Out_of_bounds"
  using FdManager_out_of_bounds [of 64 "FdManager_new (\<lambda>_. undefined)"] by (simp add: FdManager_new_def)

end
