(* ===== verification/Cool_Socket.thy ===== *)
theory Cool_Socket
  imports Cool_Address Cool_FdManager Cool_ByteArray
begin

text \<open>
  Sockets and socket streams (src/socket.h, src/socket.cpp, src/stream.h, src/stream.cpp,
  src/socket_stream.h, src/socket_stream.cpp). The calls of the operating system, hooked or not, are a parameter acting on a
  world that holds the descriptor table and the state of the system; the descriptor table is the one of \<open>Cool_FdManager\<close>.
\<close>

section \<open>The world and its calls\<close>

record 'k world =
  wd_fds :: fd_manager
  wd_kern :: kernel_fds
  wd_os :: 'k

text \<open>
  Results are those of the C functions; \<open>getsockname\<close> and \<open>getpeername\<close> fill the address they
  are given and report a length; a receive returns its result, the bytes stored, and for \<open>recvfrom\<close> the sender.
\<close>

record 'k calls =
  c_socket :: "int \<Rightarrow> int \<Rightarrow> int \<Rightarrow> 'k world \<Rightarrow> int \<times> 'k world"
  c_close :: "int \<Rightarrow> 'k world \<Rightarrow> 'k world"
  c_bind :: "int \<Rightarrow> address \<Rightarrow> 'k world \<Rightarrow> int \<times> 'k world"
  c_listen :: "int \<Rightarrow> int \<Rightarrow> 'k world \<Rightarrow> int \<times> 'k world"
  c_accept :: "int \<Rightarrow> 'k world \<Rightarrow> int \<times> 'k world"
  c_connect :: "int \<Rightarrow> address \<Rightarrow> 'k world \<Rightarrow> int \<times> 'k world"
  c_connect_with_timeout :: "int \<Rightarrow> address \<Rightarrow> u64 \<Rightarrow> 'k world \<Rightarrow> int \<times> 'k world"
  c_setsockopt :: "int \<Rightarrow> int \<Rightarrow> int \<Rightarrow> int list \<Rightarrow> 'k world \<Rightarrow> int \<times> 'k world"
  c_getsockopt :: "int \<Rightarrow> int \<Rightarrow> int \<Rightarrow> 'k world \<Rightarrow> int \<times> int"
  c_getpeername :: "int \<Rightarrow> address \<Rightarrow> 'k world \<Rightarrow> int \<times> address \<times> u32"
  c_getsockname :: "int \<Rightarrow> address \<Rightarrow> 'k world \<Rightarrow> int \<times> address \<times> u32"
  c_send :: "int \<Rightarrow> byte list \<Rightarrow> int \<Rightarrow> address option \<Rightarrow> 'k world \<Rightarrow> int \<times> 'k world"
  c_recv :: "int \<Rightarrow> nat \<Rightarrow> int \<Rightarrow> 'k world \<Rightarrow> (int \<times> byte list) \<times> 'k world"
  c_recvfrom :: "int \<Rightarrow> nat \<Rightarrow> int \<Rightarrow> address \<Rightarrow> 'k world \<Rightarrow> (int \<times> byte list \<times> address) \<times> 'k world"

section \<open>Sockets\<close>

record sock =
  m_sock :: int
  m_family :: int
  m_type :: int
  m_protocol :: int
  m_isConnected :: bool
  m_localAddress :: "address option"
  m_remoteAddress :: "address option"

definition SOCK_STREAM :: int where "SOCK_STREAM = 1"
definition SOCK_DGRAM :: int where "SOCK_DGRAM = 2"
definition SOL_SOCKET :: int where "SOL_SOCKET = 1"
definition SO_REUSEADDR :: int where "SO_REUSEADDR = 2"
definition SO_ERROR :: int where "SO_ERROR = 4"
definition IPPROTO_TCP :: int where "IPPROTO_TCP = 6"
definition TCP_NODELAY :: int where "TCP_NODELAY = 1"

definition Socket_new :: "int \<Rightarrow> int \<Rightarrow> int \<Rightarrow> sock" where
  "Socket_new family type protocol =
     \<lparr>m_sock = - 1, m_family = family, m_type = type, m_protocol = protocol, m_isConnected = False,
      m_localAddress = None, m_remoteAddress = None\<rparr>"

definition CreateTCP :: "address \<Rightarrow> sock" where
  "CreateTCP a = Socket_new (int (unat (addr_family a))) SOCK_STREAM 0"

definition CreateUDP :: "address \<Rightarrow> sock" where
  "CreateUDP a = Socket_new (int (unat (addr_family a))) SOCK_DGRAM 0"

definition CreateTCPSocket :: sock where "CreateTCPSocket = Socket_new 2 SOCK_STREAM 0"
definition CreateUDPSocket :: sock where "CreateUDPSocket = Socket_new 2 SOCK_DGRAM 0"
definition CreateTCPSocket6 :: sock where "CreateTCPSocket6 = Socket_new 10 SOCK_STREAM 0"
definition CreateUDPSocket6 :: sock where "CreateUDPSocket6 = Socket_new 10 SOCK_DGRAM 0"
definition CreateUnixTCPSocket :: sock where "CreateUnixTCPSocket = Socket_new 1 SOCK_STREAM 0"
definition CreateUnixUDPSocket :: sock where "CreateUnixUDPSocket = Socket_new 1 SOCK_DGRAM 0"

definition isValid :: "sock \<Rightarrow> bool" where
  "isValid s = (m_sock s \<noteq> - 1)"

definition getOption :: "'k calls \<Rightarrow> int \<Rightarrow> int \<Rightarrow> sock \<times> 'k world \<Rightarrow> bool \<times> int" where
  "getOption c level option sw = (let (rt, v) = c_getsockopt c (m_sock (fst sw)) level option (snd sw) in (rt = 0, v))"

definition setOption :: "'k calls \<Rightarrow> int \<Rightarrow> int \<Rightarrow> int list \<Rightarrow> sock \<times> 'k world \<Rightarrow> bool \<times> sock \<times> 'k world" where
  "setOption c level option val sw =
     (let (rt, w) = c_setsockopt c (m_sock (fst sw)) level option val (snd sw) in (rt = 0, fst sw, w))"

text \<open>\<open>FdMgr::instance ()->get (m_sock)\<close> and the timeout found there.\<close>

definition fd_lookup :: "int \<Rightarrow> 'k world \<Rightarrow> fd_ctx option outcome" where
  "fd_lookup fd w =
     bindE (FdManager_get fd False 0 (wd_fds w) (wd_kern w)) (\<lambda>(p, m, _). Inr (map_option (fm_heap m) p))"

definition get_timeout :: "int \<Rightarrow> sock \<times> 'k world \<Rightarrow> int outcome" where
  "get_timeout type sw =
     bindE (fd_lookup (m_sock (fst sw)) (snd sw)) (\<lambda>ctx.
       Inr (case ctx of Some x \<Rightarrow> sint (getTimeout type x) | None \<Rightarrow> - 1))"

definition sendTimeout :: "sock \<times> 'k world \<Rightarrow> int outcome" where
  "sendTimeout sw = get_timeout SO_SNDTIMEO sw"

definition recvTimeout :: "sock \<times> 'k world \<Rightarrow> int outcome" where
  "recvTimeout sw = get_timeout SO_RCVTIMEO sw"

text \<open>\<open>v / 1000\<close> and \<open>v % 1000 * 1000\<close> of C, which round towards zero, cut down to an \<open>int\<close>.\<close>

definition timeval_of :: "int \<Rightarrow> int list" where
  "timeval_of v = [sint (word_of_int (sgn v * (abs v div 1000)) :: u32), sint (word_of_int (sgn v * (abs v mod 1000) * 1000) :: u32)]"

definition set_sendTimeout :: "'k calls \<Rightarrow> int \<Rightarrow> sock \<times> 'k world \<Rightarrow> sock \<times> 'k world" where
  "set_sendTimeout c v sw = snd (setOption c SOL_SOCKET SO_SNDTIMEO (timeval_of v) sw)"

definition set_recvTimeout :: "'k calls \<Rightarrow> int \<Rightarrow> sock \<times> 'k world \<Rightarrow> sock \<times> 'k world" where
  "set_recvTimeout c v sw = snd (setOption c SOL_SOCKET SO_RCVTIMEO (timeval_of v) sw)"

definition initSock :: "'k calls \<Rightarrow> sock \<times> 'k world \<Rightarrow> sock \<times> 'k world" where
  "initSock c sw =
     (let sw = snd (setOption c SOL_SOCKET SO_REUSEADDR [1] sw)
      in if m_type (fst sw) = SOCK_STREAM then snd (setOption c IPPROTO_TCP TCP_NODELAY [1] sw) else sw)"

definition newSock :: "'k calls \<Rightarrow> sock \<times> 'k world \<Rightarrow> sock \<times> 'k world" where
  "newSock c sw =
     (let (s, w) = sw; (fd, w) = c_socket c (m_family s) (m_type s) (m_protocol s) w; s = s\<lparr>m_sock := fd\<rparr>
      in if m_sock s \<noteq> - 1 then initSock c (s, w) else (s, w))"

text \<open>The empty address of a family, and the caching of the addresses of the two ends.\<close>

definition blank_address :: "int \<Rightarrow> address" where
  "blank_address family =
     (if family = 2 then IPv4Address (IPv4Address_new 0 0)
      else if family = 10 then IPv6Address IPv6Address_any
      else if family = 1 then UnixAddress_any
      else UnknowAddress_new (word_of_int family))"

definition remoteAddress :: "'k calls \<Rightarrow> sock \<times> 'k world \<Rightarrow> address \<times> sock \<times> 'k world" where
  "remoteAddress c sw = (case m_remoteAddress (fst sw) of
      Some a \<Rightarrow> (a, sw)
    | None \<Rightarrow>
        let (s, w) = sw; (rt, result, len) = c_getpeername c (m_sock s) (blank_address (m_family s)) w
        in if rt \<noteq> 0 then (UnknowAddress_new (word_of_int (m_family s)), sw)
           else let result = (if m_family s = 1 then set_addrlen len result else result)
                in (result, s\<lparr>m_remoteAddress := Some result\<rparr>, w))"

definition localAddress :: "'k calls \<Rightarrow> sock \<times> 'k world \<Rightarrow> address \<times> sock \<times> 'k world" where
  "localAddress c sw = (case m_localAddress (fst sw) of
      Some a \<Rightarrow> (a, sw)
    | None \<Rightarrow>
        let (s, w) = sw; (rt, result, len) = c_getsockname c (m_sock s) (blank_address (m_family s)) w
        in if rt \<noteq> 0 then (UnknowAddress_new (word_of_int (m_family s)), sw)
           else let result = (if m_family s = 1 then set_addrlen len result else result)
                in (result, s\<lparr>m_localAddress := Some result\<rparr>, w))"

definition socket_close :: "'k calls \<Rightarrow> sock \<times> 'k world \<Rightarrow> bool \<times> sock \<times> 'k world" where
  "socket_close c sw =
     (let (s, w) = sw
      in if \<not> m_isConnected s \<and> m_sock s = - 1 then (True, sw)
         else let s = s\<lparr>m_isConnected := True\<rparr>
              in if m_sock s \<noteq> - 1 then (False, s\<lparr>m_sock := - 1\<rparr>, c_close c (m_sock s) w) else (False, s, w))"

definition socket_init :: "'k calls \<Rightarrow> int \<Rightarrow> sock \<times> 'k world \<Rightarrow> (bool \<times> sock \<times> 'k world) outcome" where
  "socket_init c fd sw =
     bindE (fd_lookup fd (snd sw)) (\<lambda>ctx. case ctx of
       Some x \<Rightarrow>
         if fc_isSocket x \<and> \<not> fc_isClosed x then
           let sw = ((fst sw)\<lparr>m_sock := fd, m_isConnected := True\<rparr>, snd sw);
               sw = snd (remoteAddress c (snd (localAddress c (initSock c sw))))
           in Inr (True, sw)
         else Inr (False, sw)
     | None \<Rightarrow> Inr (False, sw))"

text \<open>The new object of a failed \<open>init\<close> is destroyed, which closes nothing: its descriptor is still -1.\<close>

definition socket_accept :: "'k calls \<Rightarrow> sock \<times> 'k world \<Rightarrow> (sock option \<times> 'k world) outcome" where
  "socket_accept c sw =
     (let (s, w) = sw; sock = Socket_new (m_family s) (m_type s) (m_protocol s); (newsock, w) = c_accept c (m_sock s) w
      in if newsock = - 1 then Inr (None, w)
         else bindE (socket_init c newsock (sock, w)) (\<lambda>(ok, sock, w). Inr (if ok then Some sock else None, w)))"

definition ensure_valid :: "'k calls \<Rightarrow> sock \<times> 'k world \<Rightarrow> sock \<times> 'k world" where
  "ensure_valid c sw = (if \<not> isValid (fst sw) then newSock c sw else sw)"

definition socket_bind :: "'k calls \<Rightarrow> address \<Rightarrow> sock \<times> 'k world \<Rightarrow> bool \<times> sock \<times> 'k world" where
  "socket_bind c addr sw =
     (let sw = ensure_valid c sw
      in if \<not> isValid (fst sw) then (False, sw)
         else if int (unat (addr_family addr)) \<noteq> m_family (fst sw) then (False, sw)
         else let (rt, w) = c_bind c (m_sock (fst sw)) addr (snd sw); sw = (fst sw, w)
              in if rt \<noteq> 0 then (False, sw) else (True, snd (localAddress c sw)))"

definition socket_connect :: "'k calls \<Rightarrow> address \<Rightarrow> u64 \<Rightarrow> sock \<times> 'k world \<Rightarrow> bool \<times> sock \<times> 'k world" where
  "socket_connect c addr timeout_ms sw =
     (let sw = ensure_valid c sw
      in if \<not> isValid (fst sw) then (False, sw)
         else if int (unat (addr_family addr)) \<noteq> m_family (fst sw) then (False, sw)
         else let (rt, w) = (if timeout_ms = - 1 then c_connect c (m_sock (fst sw)) addr (snd sw)
                             else c_connect_with_timeout c (m_sock (fst sw)) addr timeout_ms (snd sw));
                  sw = (fst sw, w)
              in if rt \<noteq> 0 then (False, snd (socket_close c sw))
                 else let sw = ((fst sw)\<lparr>m_isConnected := True\<rparr>, snd sw)
                      in (True, snd (localAddress c (snd (remoteAddress c sw)))))"

definition socket_listen :: "'k calls \<Rightarrow> int \<Rightarrow> sock \<times> 'k world \<Rightarrow> bool \<times> sock \<times> 'k world" where
  "socket_listen c backlog sw = (let (rt, w) = c_listen c (m_sock (fst sw)) backlog (snd sw) in (rt = 0, fst sw, w))"

text \<open>Sending; the vectors of the second form are given by the bytes they denote.\<close>

definition socket_send :: "'k calls \<Rightarrow> byte list \<Rightarrow> int \<Rightarrow> sock \<times> 'k world \<Rightarrow> int \<times> 'k world" where
  "socket_send c buf flags sw =
     (if m_isConnected (fst sw) then c_send c (m_sock (fst sw)) buf flags None (snd sw) else (- 1, snd sw))"

definition socket_send_iov :: "'k calls \<Rightarrow> byte list list \<Rightarrow> int \<Rightarrow> sock \<times> 'k world \<Rightarrow> int \<times> 'k world" where
  "socket_send_iov c bufs flags sw =
     (if m_isConnected (fst sw) then c_send c (m_sock (fst sw)) (concat bufs) flags None (snd sw) else (- 1, snd sw))"

definition socket_sendTo :: "'k calls \<Rightarrow> byte list \<Rightarrow> address \<Rightarrow> int \<Rightarrow> sock \<times> 'k world \<Rightarrow> int \<times> 'k world" where
  "socket_sendTo c buf to flags sw =
     (if m_isConnected (fst sw) then c_send c (m_sock (fst sw)) buf flags (Some to) (snd sw) else (- 1, snd sw))"

definition socket_sendTo_iov :: "'k calls \<Rightarrow> byte list list \<Rightarrow> address \<Rightarrow> int \<Rightarrow> sock \<times> 'k world \<Rightarrow> int \<times> 'k world" where
  "socket_sendTo_iov c bufs to flags sw =
     (if m_isConnected (fst sw) then c_send c (m_sock (fst sw)) (concat bufs) flags (Some to) (snd sw) else (- 1, snd sw))"

definition socket_recv :: "'k calls \<Rightarrow> nat \<Rightarrow> int \<Rightarrow> sock \<times> 'k world \<Rightarrow> (int \<times> byte list) \<times> 'k world" where
  "socket_recv c len flags sw =
     (if m_isConnected (fst sw) then c_recv c (m_sock (fst sw)) len flags (snd sw) else ((- 1, []), snd sw))"

definition socket_recv_iov :: "'k calls \<Rightarrow> nat list \<Rightarrow> int \<Rightarrow> sock \<times> 'k world \<Rightarrow> (int \<times> byte list) \<times> 'k world" where
  "socket_recv_iov c lens flags sw =
     (if m_isConnected (fst sw) then c_recv c (m_sock (fst sw)) (sum_list lens) flags (snd sw) else ((- 1, []), snd sw))"

text \<open>
  In \<open>recvFrom\<close> the local \<open>len\<close>, the length of the address, hides the parameter: it is what
  \<open>recvfrom\<close> gets as the size of the buffer.
\<close>

definition socket_recvFrom :: "'k calls \<Rightarrow> nat \<Rightarrow> address \<Rightarrow> int \<Rightarrow> sock \<times> 'k world \<Rightarrow> (int \<times> byte list \<times> address) \<times> 'k world" where
  "socket_recvFrom c len from flags sw =
     (if m_isConnected (fst sw)
      then let len = unat (addrlen from) in c_recvfrom c (m_sock (fst sw)) len flags from (snd sw)
      else ((- 1, [], from), snd sw))"

definition socket_recvFrom_iov :: "'k calls \<Rightarrow> nat list \<Rightarrow> address \<Rightarrow> int \<Rightarrow> sock \<times> 'k world \<Rightarrow> (int \<times> byte list \<times> address) \<times> 'k world" where
  "socket_recvFrom_iov c lens from flags sw =
     (if m_isConnected (fst sw) then c_recvfrom c (m_sock (fst sw)) (sum_list lens) flags from (snd sw) else ((- 1, [], from), snd sw))"

definition socket_error :: "'k calls \<Rightarrow> sock \<times> 'k world \<Rightarrow> int" where
  "socket_error c sw = (let (ok, v) = getOption c SOL_SOCKET SO_ERROR sw in if ok then v else - 1)"

definition dec_bool :: "bool \<Rightarrow> string" where
  "dec_bool b = (if b then ''1'' else ''0'')"

definition socket_dump :: "sock \<Rightarrow> string" where
  "socket_dump s =
     ''[Socket sock: '' @ dec_int (m_sock s) @ '', isConnected: '' @ dec_bool (m_isConnected s) @ '', family: '' @ dec_int (m_family s) @
     '', type: '' @ dec_int (m_type s) @ '', protocol: '' @ dec_int (m_protocol s) @
     (case m_localAddress s of Some a \<Rightarrow> '', localAddress: '' @ address_insert a | None \<Rightarrow> '''') @
     (case m_remoteAddress s of Some a \<Rightarrow> '', remoteAddress '' @ address_insert a | None \<Rightarrow> '''') @ '']''"

section \<open>Streams\<close>

text \<open>
  The loops of \<open>readFixSize\<close> and \<open>writeFixSize\<close> with the 64-bit arithmetic of \<open>size_t\<close>, in which the \<open>int\<close> result of a
  call is also stored. A run that does not return is \<^const>\<open>None\<close>; the result is a value returned from inside the loop, or nothing when the loop ends by itself.
\<close>

type_synonym 's reader = "nat \<Rightarrow> 's \<Rightarrow> (int \<times> byte list) \<times> 's"
type_synonym 's writer = "byte list \<Rightarrow> 's \<Rightarrow> int \<times> 's"

text \<open>Storing received bytes at an offset of the caller's buffer.\<close>

definition store_at :: "u64 \<Rightarrow> byte list \<Rightarrow> byte list \<Rightarrow> byte list outcome" where
  "store_at offset data buf =
     (if data = [] then Inr buf
      else if unat offset + length data \<le> length buf then Inr (overwrite (unat offset) data buf)
      else Inl Out_of_bounds)"

partial_function (option) readFix_loop ::
  "'s reader \<Rightarrow> u64 \<Rightarrow> u64 \<Rightarrow> byte list \<Rightarrow> 's \<Rightarrow> (int option \<times> byte list \<times> 's) outcome option" where
  "readFix_loop rd offset left buf s =
     (if left > 0
      then (case rd (unat left) s of ((rt, data), s') \<Rightarrow>
              (case store_at offset data buf of
                 Inl e \<Rightarrow> Some (Inl e)
               | Inr buf' \<Rightarrow>
                   if (word_of_int rt :: u64) \<le> 0 then Some (Inr (Some 0, buf', s'))
                   else readFix_loop rd (offset + word_of_int rt) (left - word_of_int rt) buf' s'))
      else Some (Inr (None, buf, s)))"

definition int_of_size :: "u64 \<Rightarrow> int" where
  "int_of_size v = sint (ucast v :: u32)"

definition readFixSize :: "'s reader \<Rightarrow> u64 \<Rightarrow> byte list \<Rightarrow> 's \<Rightarrow> (int \<times> byte list \<times> 's) outcome option" where
  "readFixSize rd n buf s =
     map_option (\<lambda>r. bindE r (\<lambda>(v, buf, s). Inr (case v of Some i \<Rightarrow> i | None \<Rightarrow> int_of_size n, buf, s))) (readFix_loop rd 0 n buf s)"

partial_function (option) writeFix_loop ::
  "'s writer \<Rightarrow> u64 \<Rightarrow> u64 \<Rightarrow> byte list \<Rightarrow> 's \<Rightarrow> (int option \<times> 's) outcome option" where
  "writeFix_loop wr offset left buf s =
     (if left > 0
      then if unat offset + unat left \<le> length buf
           then (case wr (take (unat left) (drop (unat offset) buf)) s of (rt, s') \<Rightarrow>
                   if (word_of_int rt :: u64) \<le> 0 then Some (Inr (Some 0, s'))
                   else writeFix_loop wr (offset + word_of_int rt) (left - word_of_int rt) buf s')
           else Some (Inl Out_of_bounds)
      else Some (Inr (None, s)))"

definition writeFixSize :: "'s writer \<Rightarrow> u64 \<Rightarrow> byte list \<Rightarrow> 's \<Rightarrow> (int \<times> 's) outcome option" where
  "writeFixSize wr n buf s =
     map_option (\<lambda>r. bindE r (\<lambda>(v, s). Inr (case v of Some i \<Rightarrow> i | None \<Rightarrow> int_of_size n, s))) (writeFix_loop wr 0 n buf s)"

text \<open>
  The two forms on byte arrays, which differ only in the call: it moves the position of the array itself, so that no offset is
  kept; \<open>call n\<close> transfers at most \<open>n\<close> bytes.
\<close>

partial_function (option) fix_ba_loop :: "(nat \<Rightarrow> 's \<Rightarrow> (int \<times> 's) outcome) \<Rightarrow> u64 \<Rightarrow> 's \<Rightarrow> (int option \<times> 's) outcome option" where
  "fix_ba_loop call left s =
     (if left > 0
      then (case call (unat left) s of
              Inl e \<Rightarrow> Some (Inl e)
            | Inr (rt, s') \<Rightarrow>
                if (word_of_int rt :: u64) \<le> 0 then Some (Inr (Some 0, s'))
                else fix_ba_loop call (left - word_of_int rt) s')
      else Some (Inr (None, s)))"

definition readFixSize_ba :: "(nat \<Rightarrow> 's \<Rightarrow> (int \<times> 's) outcome) \<Rightarrow> u64 \<Rightarrow> 's \<Rightarrow> (int \<times> 's) outcome option" where
  "readFixSize_ba rd n s =
     map_option (\<lambda>r. bindE r (\<lambda>(v, s). Inr (case v of Some i \<Rightarrow> i | None \<Rightarrow> int_of_size n, s))) (fix_ba_loop rd n s)"

definition writeFixSize_ba :: "(nat \<Rightarrow> 's \<Rightarrow> (int \<times> 's) outcome) \<Rightarrow> u64 \<Rightarrow> 's \<Rightarrow> (int \<times> 's) outcome option" where
  "writeFixSize_ba wr n s =
     map_option (\<lambda>r. bindE r (\<lambda>(v, s). Inr (case v of Some i \<Rightarrow> i | None \<Rightarrow> int_of_size n, s))) (fix_ba_loop wr n s)"

section \<open>Socket streams\<close>

text \<open>The stream is its socket, if it has one; \<open>m_owner\<close> is stored and never read.\<close>

type_synonym 'k stream_st = "sock option \<times> 'k world"

definition stream_isConnected :: "'k stream_st \<Rightarrow> bool" where
  "stream_isConnected st = (case fst st of Some s \<Rightarrow> m_isConnected s | None \<Rightarrow> False)"

definition stream_read :: "'k calls \<Rightarrow> 'k stream_st reader" where
  "stream_read c n st =
     (if \<not> stream_isConnected st then ((- 1, []), st)
      else let (r, w) = socket_recv c n 0 (the (fst st), snd st) in (r, (fst st, w)))"

definition stream_write :: "'k calls \<Rightarrow> 'k stream_st writer" where
  "stream_write c buf st =
     (if \<not> stream_isConnected st then (- 1, st)
      else let (r, w) = socket_send c buf 0 (the (fst st), snd st) in (r, (fst st, w)))"

text \<open>
  Reading into a byte array: the received bytes go to the vectors of \<open>getWriteBuffers\<close>, then the
  position moves. \<open>&iovs[0]\<close> of an empty vector is outside of it.
\<close>

definition stream_read_ba :: "'k calls \<Rightarrow> nat \<Rightarrow> byte_array \<times> 'k stream_st \<Rightarrow> (int \<times> byte_array \<times> 'k stream_st) outcome" where
  "stream_read_ba c n bst =
     (let (ba, st) = bst
      in if \<not> stream_isConnected st then Inr (- 1, ba, st)
         else bindE (getWriteBuffers [] n ba) (\<lambda>(_, iovs, ba).
           if iovs = [] then Inl Out_of_bounds
           else let ((rt, data), w) = socket_recv_iov c (map (\<lambda>(_, _, k). k) iovs) 0 (the (fst st), snd st);
                    ba = ba\<lparr>m_root := scatter (m_root ba) iovs data\<rparr>;
                    st = (fst st, w)
                in if rt > 0 then bindE (ba_set_position (m_pos ba + nat rt) ba) (\<lambda>ba. Inr (rt, ba, st)) else Inr (rt, ba, st)))"

definition stream_write_ba :: "'k calls \<Rightarrow> nat \<Rightarrow> byte_array \<times> 'k stream_st \<Rightarrow> (int \<times> byte_array \<times> 'k stream_st) outcome" where
  "stream_write_ba c n bst =
     (let (ba, st) = bst
      in if \<not> stream_isConnected st then Inr (- 1, ba, st)
         else bindE (getReadBuffers [] n ba) (\<lambda>(_, iovs).
           if iovs = [] then Inl Out_of_bounds
           else let (rt, w) = socket_send_iov c (map (\<lambda>v. gather (m_root ba) [v]) iovs) 0 (the (fst st), snd st);
                    st = (fst st, w)
                in if rt > 0 then bindE (ba_set_position (m_pos ba + nat rt) ba) (\<lambda>ba. Inr (rt, ba, st)) else Inr (rt, ba, st)))"

text \<open>\<open>close\<close>, and the destructor, which closes the socket whether or not the stream owns it.\<close>

definition stream_close :: "'k calls \<Rightarrow> 'k stream_st \<Rightarrow> 'k stream_st" where
  "stream_close c st = (case fst st of
      Some s \<Rightarrow> let (_, s, w) = socket_close c (s, snd st) in (Some s, w)
    | None \<Rightarrow> st)"

definition SocketStream_delete :: "'k calls \<Rightarrow> bool \<Rightarrow> 'k stream_st \<Rightarrow> 'k stream_st" where
  "SocketStream_delete c owner st = stream_close c st"

section \<open>Reading and writing exactly\<close>

text \<open>
  A reader over a state that stands for the bytes still to come: it never fails, delivers
  a prefix of them of at most the requested length, and says how long it is.
\<close>

definition source_ok :: "('s \<Rightarrow> byte list) \<Rightarrow> 's reader \<Rightarrow> bool" where
  "source_ok pending rd \<longleftrightarrow> (\<forall>n s. case rd n s of ((rt, data), s') \<Rightarrow>
     rt = int (length data) \<and> length data \<le> n \<and> pending s = data @ pending s')"

lemma source_okD:
  assumes "source_ok pending rd"
  obtains data s' where "rd n s = ((int (length data), data), s')" "length data \<le> n" "pending s = data @ pending s'"
proof -
  obtain rt data s' where r: "rd n s = ((rt, data), s')" by (metis prod.exhaust)
  have "case rd n s of ((rt, data), s') \<Rightarrow> rt = int (length data) \<and> length data \<le> n \<and> pending s = data @ pending s'"
    using assms by (auto simp: source_ok_def)
  then show ?thesis using that r by simp
qed

lemma size_add_sub:
  fixes o' l :: u64
  assumes "k \<le> unat l" and "unat o' + unat l < 2 ^ 64"
  shows "unat (l - word_of_int (int k)) = unat l - k" "unat (o' + word_of_int (int k)) = unat o' + k"
    "(word_of_int (int k) :: u64) = 0 \<longleftrightarrow> k = 0"
proof -
  have k: "unat (of_nat k :: u64) = k" using assms by (intro unat_of_nat_less) simp
  show "unat (l - word_of_int (int k)) = unat l - k"
    using k assms(1) by (subst unat_sub) (simp_all add: word_le_nat_alt)
  show "unat (o' + word_of_int (int k)) = unat o' + k"
    using k assms by (subst unat_plus_simple [THEN iffD1]) (simp_all add: no_olen_add_nat)
  show "(word_of_int (int k) :: u64) = 0 \<longleftrightarrow> k = 0" using k unsigned_eq_0_iff [of "of_nat k :: u64"] by (metis of_int_of_nat_eq of_nat_0 unsigned_0)
qed

lemma overwrite_step:
  "i + length xs + length ys \<le> length zs \<Longrightarrow> overwrite (i + length xs) ys (overwrite i xs zs) = overwrite i (xs @ ys) zs"
  by (simp add: overwrite_overwrite)

lemma readFix_loop_ok:
  assumes src: "source_ok pending rd"
  shows "unat o' + unat l \<le> length buf \<Longrightarrow> length buf < 2 ^ 64 \<Longrightarrow>
    \<exists>v buf' s' k. readFix_loop rd o' l buf s = Some (Inr (v, buf', s')) \<and> k \<le> unat l \<and> k \<le> length (pending s) \<and>
      buf' = overwrite (unat o') (take k (pending s)) buf \<and> pending s' = drop k (pending s) \<and>
      (v = None \<and> k = unat l \<or> v = Some 0 \<and> k < unat l)"
proof (induction "unat l" arbitrary: o' l buf s rule: less_induct)
  case less
  show ?case
  proof (cases "l = 0")
    case True
    then show ?thesis by (subst readFix_loop.simps) simp
  next
    case False
    obtain data s1 where r: "rd (unat l) s = ((int (length data), data), s1)" "length data \<le> unat l" "pending s = data @ pending s1"
      using source_okD [OF src] by metis
    note arith = size_add_sub [OF r(2), of o']
    have lt: "unat o' + unat l < 2 ^ 64" using less.prems by simp
    show ?thesis
    proof (cases "data = []")
      case True
      then have "readFix_loop rd o' l buf s = Some (Inr (Some 0, buf, s1))"
        using False r(1) by (subst readFix_loop.simps) (simp add: store_at_def word_gt_0)
      then show ?thesis using True r(3) False by (intro exI [of _ "Some 0"] exI [of _ buf] exI [of _ s1] exI [of _ 0]) (simp add: unat_gt_0)
    next
      case data: False
      let ?o = "o' + word_of_int (int (length data)) :: u64" and ?l = "l - word_of_int (int (length data)) :: u64"
      let ?buf = "overwrite (unat o') data buf"
      have st: "store_at o' data buf = Inr ?buf" using less.prems r(2) data by (simp add: store_at_def)
      have step: "readFix_loop rd o' l buf s = readFix_loop rd ?o ?l ?buf s1"
        using False r(1) st arith(3) [OF lt] data by (subst readFix_loop.simps) (simp add: word_gt_0)
      have "0 < length data" using data by simp
      then have "unat ?l < unat l" using arith(1) [OF lt] r(2) by linarith
      moreover have "unat ?o + unat ?l \<le> length ?buf" "length ?buf < 2 ^ 64"
        using arith(1,2) [OF lt] less.prems r(2) by simp_all
      ultimately obtain v buf' s' k where ih: "readFix_loop rd ?o ?l ?buf s1 = Some (Inr (v, buf', s'))" "k \<le> unat ?l" "k \<le> length (pending s1)"
        "buf' = overwrite (unat ?o) (take k (pending s1)) ?buf" "pending s' = drop k (pending s1)" "v = None \<and> k = unat ?l \<or> v = Some 0 \<and> k < unat ?l"
        using less.hyps by blast
      have "buf' = overwrite (unat o') (take (length data + k) (pending s)) buf"
        using ih(2-4) arith(1,2) [OF lt] less.prems r(2,3) by (simp add: overwrite_step)
      then show ?thesis
        using step ih arith(1) [OF lt] r(2,3) by (intro exI [of _ v] exI [of _ buf'] exI [of _ s'] exI [of _ "length data + k"]) auto
    qed
  qed
qed

definition sink_ok :: "('s \<Rightarrow> byte list) \<Rightarrow> 's writer \<Rightarrow> bool" where
  "sink_ok accepted wr \<longleftrightarrow> (\<forall>buf s. case wr buf s of (rt, s') \<Rightarrow>
     \<exists>k\<le>length buf. rt = int k \<and> accepted s' = accepted s @ take k buf)"

lemma sink_okD:
  assumes "sink_ok accepted wr"
  obtains k s' where "wr buf s = (int k, s')" "k \<le> length buf" "accepted s' = accepted s @ take k buf"
proof -
  obtain rt s' where r: "wr buf s = (rt, s')" by (metis prod.exhaust)
  have "case wr buf s of (rt, s') \<Rightarrow> \<exists>k\<le>length buf. rt = int k \<and> accepted s' = accepted s @ take k buf"
    using assms by (auto simp: sink_ok_def)
  then show ?thesis using that r by auto
qed

lemma writeFix_loop_ok:
  assumes snk: "sink_ok accepted wr"
  shows "unat o' + unat l \<le> length buf \<Longrightarrow> length buf < 2 ^ 64 \<Longrightarrow>
    \<exists>v s' k. writeFix_loop wr o' l buf s = Some (Inr (v, s')) \<and> k \<le> unat l \<and>
      accepted s' = accepted s @ take k (drop (unat o') buf) \<and> (v = None \<and> k = unat l \<or> v = Some 0 \<and> k < unat l)"
proof (induction "unat l" arbitrary: o' l s rule: less_induct)
  case less
  show ?case
  proof (cases "l = 0")
    case True
    then show ?thesis by (subst writeFix_loop.simps) simp
  next
    case False
    let ?chunk = "take (unat l) (drop (unat o') buf)"
    obtain j s1 where r: "wr ?chunk s = (int j, s1)" "j \<le> length ?chunk" "accepted s1 = accepted s @ take j ?chunk"
      using sink_okD [OF snk] by metis
    have j: "j \<le> unat l" and lt: "unat o' + unat l < 2 ^ 64" using r(2) less.prems by simp_all
    note arith = size_add_sub [OF j lt]
    let ?o = "o' + word_of_int (int j) :: u64" and ?l = "l - word_of_int (int j) :: u64"
    show ?thesis
    proof (cases "j = 0")
      case True
      then have "writeFix_loop wr o' l buf s = Some (Inr (Some 0, s1))"
        using False r(1) less.prems by (subst writeFix_loop.simps) (simp add: word_gt_0)
      then show ?thesis using True r(3) False by (intro exI [of _ "Some 0"] exI [of _ s1] exI [of _ 0]) (simp add: unat_gt_0)
    next
      case pos: False
      have step: "writeFix_loop wr o' l buf s = writeFix_loop wr ?o ?l buf s1"
        using False r(1) less.prems arith(3) pos by (subst writeFix_loop.simps) (simp add: word_gt_0)
      have "unat ?l < unat l" using arith(1) pos j by linarith
      moreover have "unat ?o + unat ?l \<le> length buf" using arith(1,2) less.prems j by simp
      ultimately obtain v s' k where ih: "writeFix_loop wr ?o ?l buf s1 = Some (Inr (v, s'))" "k \<le> unat ?l"
        "accepted s' = accepted s1 @ take k (drop (unat ?o) buf)" "v = None \<and> k = unat ?l \<or> v = Some 0 \<and> k < unat ?l"
        using less.hyps less.prems(2) by blast
      have "take j (drop (unat o') buf) @ take k (drop (unat o' + j) buf) = take (j + k) (drop (unat o') buf)"
        by (simp add: take_add add.commute)
      then have "accepted s' = accepted s @ take (j + k) (drop (unat o') buf)"
        using ih(3) r(3) arith(2) j by (simp add: min_def)
      then show ?thesis
        using step ih(1,2,4) arith(1) j by (intro exI [of _ v] exI [of _ s'] exI [of _ "j + k"]) auto
    qed
  qed
qed

text \<open>Received bytes land in the byte array as a write would put them there.\<close>

lemma stream_read_ba_ok:
  assumes wf: "ba_wf ba" and fit: "fits n ba" and n: "0 < n" and conn: "stream_isConnected st"
    and rcv: "c_recv c (m_sock (the (fst st))) n 0 (snd st) = ((int (length data), data), w)" and len: "length data \<le> n"
  shows "\<exists>ba'. stream_read_ba c n (ba, st) = Inr (int (length data), ba', (fst st, w)) \<and>
    (data \<noteq> [] \<longrightarrow> written data ba ba') \<and> (data = [] \<longrightarrow> content ba' = content ba \<and> m_pos ba' = m_pos ba \<and> ba_wf ba')"
proof -
  let ?ba = "addCapacity n ba"
  obtain v where v: "getWriteBuffers [] n ba = Inr (n, v, ?ba)" "iov_valid (m_root ?ba) v"
    and sc: "uniform (m_base_size ba) (scatter (m_root ?ba) v data)" "length (scatter (m_root ?ba) v data) = length (m_root ?ba)"
      "concat (scatter (m_root ?ba) v data) = overwrite (m_pos ba) data (concat (m_root ?ba))"
    and sum: "sum_list (map (\<lambda>(_, _, k). k) v) = n"
    using getWriteBuffers_ok [OF wf fit n, of "[]"] len by auto
  then have ln: "sum_list (map (\<lambda>(_, _, k). k) v) = n" "v \<noteq> []" using n by auto
  let ?ba1 = "?ba\<lparr>m_root := scatter (m_root ?ba) v data\<rparr>"
  have wf0: "ba_wf ?ba" using wf by simp
  have "scatter (m_root ?ba) v data \<noteq> []" using wf0 sc(2) by (auto simp: ba_wf_def)
  then have wf1: "ba_wf ?ba1" using wf0 sc(1,2) by (simp add: ba_wf_def)
  have cap: "m_pos ba + n \<le> m_capacity ?ba" using addCapacity_fits [OF wf n] fit by simp
  have sock: "m_isConnected (the (fst st))" using conn by (auto simp: stream_isConnected_def split: option.splits)
  have r: "stream_read_ba c n (ba, st) =
      (if 0 < length data then bindE (ba_set_position (m_pos ba + length data) ?ba1) (\<lambda>b. Inr (int (length data), b, (fst st, w)))
       else Inr (int (length data), ?ba1, (fst st, w)))"
    using conn v(1) ln rcv sock by (simp add: stream_read_ba_def socket_recv_iov_def)
  show ?thesis
  proof (cases "data = []")
    case True
    have "content ?ba1 = content ba"
      using sc(3) True addCapacity_content [OF wf, of n] by (simp add: content_def)
    then show ?thesis using r True wf1 by simp
  next
    case False
    have set: "ba_set_position (m_pos ba + length data) ?ba1 = Inr (?ba1\<lparr>m_pos := m_pos ba + length data,
        m_size := max (m_pos ba + length data) (m_size ba), m_cur := ptr_at (length (m_root ?ba)) (m_base_size ba) (m_pos ba + length data)\<rparr>)"
      using ba_set_position_ok [OF wf1, of "m_pos ba + length data"] cap len sc(2) by simp
    have "content ?ba = content ba" by (rule addCapacity_content [OF wf])
    then have "take (max (m_pos ba + length data) (m_size ba)) (overwrite (m_pos ba) data (concat (m_root ?ba))) = overwrite (m_pos ba) data (content ba)"
      using take_max_overwrite [of "m_pos ba" "m_size ba" "concat (m_root ?ba)" data] wf wf0 cap len length_concat_root [OF wf0]
      by (auto simp: ba_wf_def content_def max.commute)
    then show ?thesis
      using r False set wf1 cap len wf sc by (auto simp: written_def ba_wf_def content_def max.commute)
  qed
qed

section \<open>Properties\<close>

text \<open>A system in memory to evaluate on: one connection whose incoming bytes are the state; what is sent is dropped.\<close>

definition mem_calls :: "byte list calls" where
  "mem_calls = \<lparr>c_socket = (\<lambda>_ _ _ w. (3, w)), c_close = (\<lambda>_ w. w), c_bind = (\<lambda>_ _ w. (0, w)), c_listen = (\<lambda>_ _ w. (0, w)),
     c_accept = (\<lambda>_ w. (- 1, w)), c_connect = (\<lambda>_ _ w. (0, w)), c_connect_with_timeout = (\<lambda>_ _ _ w. (0, w)),
     c_setsockopt = (\<lambda>_ _ _ _ w. (0, w)), c_getsockopt = (\<lambda>_ _ _ _. (0, 0)), c_getpeername = (\<lambda>_ a _. (0, a, 16)),
     c_getsockname = (\<lambda>_ a _. (0, a, 16)), c_send = (\<lambda>_ buf _ _ w. (int (length buf), w)),
     c_recv = (\<lambda>_ n _ w. ((int (length (take n (wd_os w))), take n (wd_os w)), w\<lparr>wd_os := drop n (wd_os w)\<rparr>)),
     c_recvfrom = (\<lambda>_ n _ a w. ((int (length (take n (wd_os w))), take n (wd_os w), a), w\<lparr>wd_os := drop n (wd_os w)\<rparr>))\<rparr>"

definition mem_world :: "byte list \<Rightarrow> byte list world" where
  "mem_world bs = \<lparr>wd_fds = FdManager_new (\<lambda>_. fst (FdCtx_new 0 \<lparr>kf_stat = (\<lambda>_. None), kf_flags = (\<lambda>_. 0)\<rparr>)),
     wd_kern = \<lparr>kf_stat = (\<lambda>_. None), kf_flags = (\<lambda>_. 0)\<rparr>, wd_os = bs\<rparr>"

definition open_sock :: sock where
  "open_sock = (Socket_new 2 SOCK_STREAM 0)\<lparr>m_sock := 3, m_isConnected := True\<rparr>"

lemma mem_read: "stream_read mem_calls n (Some open_sock, w) =
    ((int (length (take n (wd_os w))), take n (wd_os w)), (Some open_sock, w\<lparr>wd_os := drop n (wd_os w)\<rparr>))"
  by (simp add: stream_read_def socket_recv_def mem_calls_def stream_isConnected_def open_sock_def)



text \<open>
  A failing call is not noticed: \<open>readFixSize\<close> stores the result -1 in a \<open>size_t\<close>, takes it for a long transfer, moves its
  offset one byte before the buffer and asks again, so that the bytes of the next successful read are stored outside the buffer.
\<close>

theorem read_error_unnoticed:
  assumes "0 < n" and "n < 2 ^ 63" and "rd (unat n) s = ((- 1, []), s1)"
    and "rd (unat n + 1) s1 = ((int (length data), data), s2)" and "data \<noteq> []" and "length buf < 2 ^ 63"
  shows "readFixSize rd n buf s = Some (Inl Out_of_bounds)"
proof -
  have n: "unat (n + 1) = unat n + 1" using assms(2) size_add_sub(2) [of 1 1 n] by (simp add: word_less_nat_alt)
  have pos: "0 < n + 1" using n by (simp add: word_less_nat_alt)
  have "unat (- 1 :: u64) = 2 ^ 64 - 1" by (simp add: unsigned_minus_1_eq_mask mask_eq_exp_minus_1)
  then have st: "store_at (- 1) data buf = Inl Out_of_bounds" using assms(5,6) by (simp add: store_at_def)
  have "readFix_loop rd (- 1) (n + 1) buf s1 = Some (Inl Out_of_bounds)"
    using pos assms(4) n st by (subst readFix_loop.simps) simp
  moreover have "readFix_loop rd 0 n buf s = readFix_loop rd (- 1) (n + 1) buf s1"
    using assms(1,3) by (subst readFix_loop.simps) (simp add: store_at_def)
  ultimately show ?thesis by (simp add: readFixSize_def)
qed

theorem read_error_unnoticed_witness:
  "readFixSize (\<lambda>n s. if s = 0 then ((- 1, []), 1) else ((1, [7]), s)) 4 [0, 0, 0, 0] (0 :: nat) = Some (Inl Out_of_bounds)"
  by (rule read_error_unnoticed [of 4 _ 0 1 "[7]" 1]) simp_all

text \<open>
  Reading from a connected socket into a byte array is a write of the received bytes: the vectors handed to the kernel ask for
  exactly the requested length, and afterwards the array is well-formed and holds the received bytes at the old position, the position behind them,
  and everything else unchanged.
\<close>

theorem stream_fills_byte_array:
  assumes "ba_wf ba" and "fits n ba" and "0 < n" and "stream_isConnected st"
    and "c_recv c (m_sock (the (fst st))) n 0 (snd st) = ((int (length data), data), w)" and "length data \<le> n"
  shows "\<exists>ba'. stream_read_ba c n (ba, st) = Inr (int (length data), ba', (fst st, w)) \<and>
    (data \<noteq> [] \<longrightarrow> written data ba ba') \<and> (data = [] \<longrightarrow> content ba' = content ba \<and> m_pos ba' = m_pos ba \<and> ba_wf ba')"
  by (rule stream_read_ba_ok [OF assms])

theorem stream_fills_byte_array_witness:
  "\<exists>ba'. stream_read_ba mem_calls 3 (ByteArray_new (\<lambda>_. 0) 4, (Some open_sock, mem_world [1, 2])) =
     Inr (2, ba', (Some open_sock, mem_world [])) \<and> content ba' = [1, 2]"
proof -
  have w: "mem_world [] = (mem_world [1, 2])\<lparr>wd_os := []\<rparr>" by (simp add: mem_world_def)
  have c: "content (ByteArray_new (\<lambda>_. 0) 4) = []" "m_pos (ByteArray_new (\<lambda>_. 0) 4) = 0"
    by (simp_all add: content_def ByteArray_new_def)
  show ?thesis
    using stream_fills_byte_array [of "ByteArray_new (\<lambda>_. 0) 4" 3 "(Some open_sock, mem_world [1, 2])" mem_calls "[1, 2]" "mem_world []"]
      ByteArray_new_wf [of 4] c
    by (auto simp: fits_def getCapacity_def ByteArray_new_def stream_isConnected_def open_sock_def mem_calls_def mem_world_def written_def overwrite_def)
qed

text \<open>
  Closing a socket hands its descriptor to the system exactly once, however often \<open>close\<close> is called; but it leaves the
  socket marked as connected, so sending and receiving afterwards go to the system with descriptor -1 instead of being refused.
\<close>

theorem closed_socket_connected:
  assumes "m_sock s \<noteq> - 1"
  shows "\<exists>s'. socket_close c (s, w) = (False, s', c_close c (m_sock s) w) \<and> m_sock s' = - 1 \<and> m_isConnected s' \<and>
    (\<forall>w'. socket_close c (s', w') = (False, s', w')) \<and>
    (\<forall>w' buf. socket_send c buf 0 (s', w') = c_send c (- 1) buf 0 None w')"
  using assms by (simp add: socket_close_def socket_send_def)

theorem closed_socket_connected_witness:
  "\<exists>s'. socket_close mem_calls (open_sock, mem_world []) = (False, s', mem_world []) \<and> m_isConnected s'"
  using closed_socket_connected [of open_sock mem_calls "mem_world []"] by (auto simp: open_sock_def mem_calls_def)

end
