(* ===== verification/Cool_Fiber.thy ===== *)
theory Cool_Fiber
  imports Cool_Prelude
begin

text \<open>
  Fibers (src/fiber.h, src/fiber.cpp): cooperative contexts on top of \<open>ucontext\<close>. The user function of
  a fiber is not modelled; what matters to the code is how it gives control back. A saved machine
  context is described by where it will continue, and a thread has, besides the thread-local
  pointers of the code, the fiber whose code its processor is executing.
\<close>

section \<open>State\<close>

datatype fiber_state = State_INIT | State_HOLD | State_EXEC | State_TERM | State_READY | State_ERROR

text \<open>
  What resuming the stored context of a fiber does: start the entry function (\<open>MainFunc\<close>, or \<open>CallMainFunc\<close>
  for a \<open>use_caller\<close> fiber), continue where it was suspended, or continue behind the last
  switch of the entry function. \<open>Unsaved\<close>: the fiber is executing and the stored
  image is stale.
\<close>

datatype fiber_ctx = Entry bool | Saved | Finished | Unsaved

record fiber =
  fb_id :: u64
  fb_stacksize :: u32
  fb_state :: fiber_state
  fb_ctx :: fiber_ctx
  fb_stack :: bool
  fb_cb :: "nat option"

record fibers =
  fs_heap :: "nat \<Rightarrow> fiber"
  s_fiber_id :: u64
  s_fiber_count :: u64

text \<open>
  Thread-local state: \<open>t_fiber\<close> and \<open>t_thread_fiber\<close> of fiber.cpp, the pointer behind
  \<open>Scheduler::GetMainFiber\<close> (\<open>t_fiber\<close> of scheduler.cpp), and the executing fiber.
\<close>

record thread_vars =
  t_fiber :: "nat option"
  t_thread_fiber :: "nat option"
  t_main_fiber :: "nat option"
  t_cpu :: "nat option"

type_synonym fiber_st = "fibers \<times> thread_vars"

definition upd_fiber :: "nat \<Rightarrow> (fiber \<Rightarrow> fiber) \<Rightarrow> fiber_st \<Rightarrow> fiber_st" where
  "upd_fiber f g st = ((fst st)\<lparr>fs_heap := (fs_heap (fst st))(f := g (fs_heap (fst st) f))\<rparr>, snd st)"

definition the_fiber :: "fiber_st \<Rightarrow> nat \<Rightarrow> fiber" where
  "the_fiber st f = fs_heap (fst st) f"

definition SetThis :: "nat option \<Rightarrow> fiber_st \<Rightarrow> fiber_st" where
  "SetThis f st = (fst st, (snd st)\<lparr>t_fiber := f\<rparr>)"

section \<open>Construction\<close>

text \<open>The default constructor: the fiber of a thread's own stack, at address \<open>a\<close>.\<close>

definition Fiber_main :: "nat \<Rightarrow> fiber_st \<Rightarrow> fiber_st" where
  "Fiber_main a st =
     (let st = upd_fiber a (\<lambda>_. \<lparr>fb_id = 0, fb_stacksize = 0, fb_state = State_EXEC, fb_ctx = Unsaved, fb_stack = False, fb_cb = None\<rparr>) st;
          (w, t) = SetThis (Some a) st
      in (w\<lparr>s_fiber_count := s_fiber_count w + 1\<rparr>, t\<lparr>t_cpu := Some a\<rparr>))"

text \<open>\<open>cfg\<close> is the value of the configuration variable \<open>fiber.stack_size\<close>.\<close>

definition Fiber_new :: "u32 \<Rightarrow> nat \<Rightarrow> nat option \<Rightarrow> u64 \<Rightarrow> bool \<Rightarrow> fiber_st \<Rightarrow> fiber_st" where
  "Fiber_new cfg a cb stacksize use_caller st =
     (let (w, t) = st;
          i = s_fiber_id w + 1;
          x = \<lparr>fb_id = i, fb_stacksize = (if stacksize \<noteq> 0 then ucast stacksize else cfg), fb_state = State_INIT,
               fb_ctx = Entry use_caller, fb_stack = True, fb_cb = cb\<rparr>
      in (w\<lparr>fs_heap := (fs_heap w)(a := x), s_fiber_id := i, s_fiber_count := s_fiber_count w + 1\<rparr>, t))"

definition Fiber_delete :: "nat \<Rightarrow> fiber_st \<Rightarrow> fiber_st outcome" where
  "Fiber_delete f st =
     (let x = the_fiber st f; st = ((fst st)\<lparr>s_fiber_count := s_fiber_count (fst st) - 1\<rparr>, snd st) in
      if fb_stack x
      then bindE (assertE ''state'' (fb_state x \<in> {State_TERM, State_INIT, State_ERROR})) (\<lambda>_. Inr st)
      else bindE (assertE ''!m_cb'' (fb_cb x = None)) (\<lambda>_.
           bindE (assertE ''EXEC'' (fb_state x = State_EXEC)) (\<lambda>_.
             Inr (if t_fiber (snd st) = Some f then SetThis None st else st))))"

definition Fiber_reset :: "nat \<Rightarrow> nat option \<Rightarrow> fiber_st \<Rightarrow> fiber_st outcome" where
  "Fiber_reset f cb st =
     bindE (assertE ''m_stack'' (fb_stack (the_fiber st f))) (\<lambda>_.
     bindE (assertE ''state'' (fb_state (the_fiber st f) \<in> {State_TERM, State_INIT, State_ERROR})) (\<lambda>_.
       Inr (upd_fiber f (\<lambda>x. x\<lparr>fb_cb := cb, fb_ctx := Entry False, fb_state := State_INIT\<rparr>) st)))"

definition GetThis :: "nat \<Rightarrow> fiber_st \<Rightarrow> (nat \<times> fiber_st) outcome" where
  "GetThis a st = (case t_fiber (snd st) of
      Some f \<Rightarrow> Inr (f, st)
    | None \<Rightarrow>
        let st = Fiber_main a st
        in bindE (assertE ''t_fiber'' (t_fiber (snd st) = Some a)) (\<lambda>_.
             Inr (a, (fst st, (snd st)\<lparr>t_thread_fiber := Some a\<rparr>))))"

section \<open>Switching\<close>

text \<open>
  \<open>swapcontext (from, to)\<close>: the executing code is stored in \<open>from\<close>, to continue as \<open>sv\<close> says, and the
  context of \<open>to\<close> is loaded. A context that continues behind the last switch of the entry function runs into
  its final assertion.
\<close>

definition swapcontext :: "fiber_ctx \<Rightarrow> nat \<Rightarrow> nat \<Rightarrow> fiber_st \<Rightarrow> fiber_st outcome" where
  "swapcontext sv from to st =
     (let st = upd_fiber from (\<lambda>x. x\<lparr>fb_ctx := sv\<rparr>) st in
      case fb_ctx (the_fiber st to) of
        Unsaved \<Rightarrow> Inl Stale_context
      | Finished \<Rightarrow> Inl (Assert_failed ''never reach here'')
      | _ \<Rightarrow> let st = upd_fiber to (\<lambda>x. x\<lparr>fb_ctx := Unsaved\<rparr>) st
             in Inr (fst st, (snd st)\<lparr>t_cpu := Some to\<rparr>))"

definition fiber_call :: "nat \<Rightarrow> fiber_st \<Rightarrow> fiber_st outcome" where
  "fiber_call f st =
     (let st = upd_fiber f (\<lambda>x. x\<lparr>fb_state := State_EXEC\<rparr>) (SetThis (Some f) st) in
      case t_thread_fiber (snd st) of None \<Rightarrow> Inl Null_deref | Some m \<Rightarrow> swapcontext Saved m f st)"

definition back_as :: "fiber_ctx \<Rightarrow> nat \<Rightarrow> fiber_st \<Rightarrow> fiber_st outcome" where
  "back_as sv f st =
     (let st = SetThis (t_thread_fiber (snd st)) st in
      case t_thread_fiber (snd st) of None \<Rightarrow> Inl Null_deref | Some m \<Rightarrow> swapcontext sv f m st)"

definition fiber_back :: "nat \<Rightarrow> fiber_st \<Rightarrow> fiber_st outcome" where
  "fiber_back f st = back_as Saved f st"

definition swapIn :: "nat \<Rightarrow> fiber_st \<Rightarrow> fiber_st outcome" where
  "swapIn f st =
     (let st = SetThis (Some f) st in
      bindE (assertE ''m_state != EXEC'' (fb_state (the_fiber st f) \<noteq> State_EXEC)) (\<lambda>_.
        let st = upd_fiber f (\<lambda>x. x\<lparr>fb_state := State_EXEC\<rparr>) st in
        case t_main_fiber (snd st) of None \<Rightarrow> Inl Null_deref | Some m \<Rightarrow> swapcontext Saved m f st))"

definition swapOut_as :: "fiber_ctx \<Rightarrow> nat \<Rightarrow> fiber_st \<Rightarrow> fiber_st outcome" where
  "swapOut_as sv f st =
     (let st = SetThis (t_main_fiber (snd st)) st in
      case t_main_fiber (snd st) of None \<Rightarrow> Inl Null_deref | Some m \<Rightarrow> swapcontext sv f m st)"

definition swapOut :: "nat \<Rightarrow> fiber_st \<Rightarrow> fiber_st outcome" where
  "swapOut f st = swapOut_as Saved f st"

definition YieldToReady :: "nat \<Rightarrow> fiber_st \<Rightarrow> fiber_st outcome" where
  "YieldToReady a st = bindE (GetThis a st) (\<lambda>(cur, st). swapOut cur (upd_fiber cur (\<lambda>x. x\<lparr>fb_state := State_READY\<rparr>) st))"

definition YieldToHold :: "nat \<Rightarrow> fiber_st \<Rightarrow> fiber_st outcome" where
  "YieldToHold a st = bindE (GetThis a st) (\<lambda>(cur, st). swapOut cur (upd_fiber cur (\<lambda>x. x\<lparr>fb_state := State_HOLD\<rparr>) st))"

text \<open>
  The entry functions from the moment the user function is left: normally or by an exception
  (calling an empty function throws).
\<close>

datatype fiber_exit = Returned | Threw

definition finish :: "fiber_exit \<Rightarrow> nat \<Rightarrow> fiber_st \<Rightarrow> fiber_st" where
  "finish r cur st =
     (if r = Returned \<and> fb_cb (the_fiber st cur) \<noteq> None
      then upd_fiber cur (\<lambda>x. x\<lparr>fb_cb := None, fb_state := State_TERM\<rparr>) st
      else upd_fiber cur (\<lambda>x. x\<lparr>fb_state := State_ERROR\<rparr>) st)"

definition MainFunc :: "fiber_exit \<Rightarrow> nat \<Rightarrow> fiber_st \<Rightarrow> fiber_st outcome" where
  "MainFunc r a st = bindE (GetThis a st) (\<lambda>(cur, st). swapOut_as Finished cur (finish r cur st))"

definition CallMainFunc :: "fiber_exit \<Rightarrow> nat \<Rightarrow> fiber_st \<Rightarrow> fiber_st outcome" where
  "CallMainFunc r a st = bindE (GetThis a st) (\<lambda>(cur, st). back_as Finished cur (finish r cur st))"

definition TotalFibers :: "fiber_st \<Rightarrow> u64" where
  "TotalFibers st = s_fiber_count (fst st)"

definition GetFiberId :: "fiber_st \<Rightarrow> u64" where
  "GetFiberId st = (case t_fiber (snd st) of Some f \<Rightarrow> fb_id (the_fiber st f) | None \<Rightarrow> 0)"

section \<open>One slice of a fiber\<close>

text \<open>The ways a fiber hands control back to the fiber that switched to it.\<close>

datatype slice = Finish | Throw | Yield_ready | Yield_hold | Swap_out

definition end_slice :: "slice \<Rightarrow> nat \<Rightarrow> fiber_st \<Rightarrow> fiber_st outcome" where
  "end_slice s a st = (case s of
      Finish \<Rightarrow> MainFunc Returned a st
    | Throw \<Rightarrow> MainFunc Threw a st
    | Yield_ready \<Rightarrow> YieldToReady a st
    | Yield_hold \<Rightarrow> YieldToHold a st
    | Swap_out \<Rightarrow> bindE (GetThis a st) (\<lambda>(cur, st). swapOut cur st))"

definition slice_state :: "slice \<Rightarrow> nat option \<Rightarrow> fiber_state" where
  "slice_state s cb = (case s of
      Finish \<Rightarrow> if cb = None then State_ERROR else State_TERM
    | Throw \<Rightarrow> State_ERROR | Yield_ready \<Rightarrow> State_READY | Yield_hold \<Rightarrow> State_HOLD | Swap_out \<Rightarrow> State_EXEC)"

definition slice_ctx :: "slice \<Rightarrow> fiber_ctx" where
  "slice_ctx s = (case s of Finish \<Rightarrow> Finished | Throw \<Rightarrow> Finished | _ \<Rightarrow> Saved)"

text \<open>
  A thread in order: the pointer \<open>t_fiber\<close> names the executing fiber, whose stored context
  alone is stale.
\<close>

definition runs :: "nat \<Rightarrow> fiber_st \<Rightarrow> bool" where
  "runs f st \<longleftrightarrow> t_cpu (snd st) = Some f \<and> t_fiber (snd st) = Some f \<and> fb_ctx (the_fiber st f) = Unsaved"

definition resumable :: "fiber \<Rightarrow> bool" where
  "resumable x \<longleftrightarrow> fb_state x \<in> {State_INIT, State_HOLD, State_READY} \<and> (fb_ctx x = Saved \<or> (\<exists>b. fb_ctx x = Entry b))"

lemma the_upd_fiber [simp]: "the_fiber (upd_fiber f g st) x = (if x = f then g (the_fiber st f) else the_fiber st x)"
  by (simp add: the_fiber_def upd_fiber_def)

lemma snd_upd_fiber [simp]: "snd (upd_fiber f g st) = snd st"
  by (simp add: upd_fiber_def)

lemma the_SetThis [simp]: "the_fiber (SetThis p st) x = the_fiber st x"
  by (simp add: the_fiber_def SetThis_def)

lemma snd_SetThis [simp]: "snd (SetThis p st) = (snd st)\<lparr>t_fiber := p\<rparr>"
  by (simp add: SetThis_def)

lemma the_fiber_pair [simp]: "the_fiber (fst st, t) x = the_fiber st x"
  by (simp add: the_fiber_def)

lemmas switch_defs = swapcontext_def Let_def runs_def

lemma swapIn_ok:
  assumes "runs m st" and "t_main_fiber (snd st) = Some m" and "f \<noteq> m" and "resumable (the_fiber st f)"
  shows "\<exists>st1. swapIn f st = Inr st1 \<and> runs f st1 \<and>
     snd st1 = (snd st)\<lparr>t_fiber := Some f, t_cpu := Some f\<rparr> \<and>
     the_fiber st1 f = (the_fiber st f)\<lparr>fb_state := State_EXEC, fb_ctx := Unsaved\<rparr> \<and>
     the_fiber st1 m = (the_fiber st m)\<lparr>fb_ctx := Saved\<rparr> \<and>
     (\<forall>g. g \<noteq> f \<longrightarrow> g \<noteq> m \<longrightarrow> the_fiber st1 g = the_fiber st g)"
proof -
  have s: "fb_state (the_fiber st f) \<noteq> State_EXEC" using assms(4) by (auto simp: resumable_def)
  have "fb_ctx (the_fiber st f) = Saved \<or> (\<exists>b. fb_ctx (the_fiber st f) = Entry b)"
    using assms(4) by (simp add: resumable_def)
  then show ?thesis
    using assms(1-3) s by (auto simp: swapIn_def switch_defs)
qed

lemma swapOut_as_ok:
  assumes "runs f st" and "t_main_fiber (snd st) = Some m" and "f \<noteq> m" and "fb_ctx (the_fiber st m) = Saved"
  shows "\<exists>st1. swapOut_as sv f st = Inr st1 \<and> runs m st1 \<and>
     snd st1 = (snd st)\<lparr>t_fiber := Some m, t_cpu := Some m\<rparr> \<and>
     the_fiber st1 f = (the_fiber st f)\<lparr>fb_ctx := sv\<rparr> \<and>
     the_fiber st1 m = (the_fiber st m)\<lparr>fb_ctx := Unsaved\<rparr> \<and>
     (\<forall>g. g \<noteq> f \<longrightarrow> g \<noteq> m \<longrightarrow> the_fiber st1 g = the_fiber st g)"
  using assms by (auto simp: swapOut_as_def switch_defs)

lemma GetThis_running: "t_fiber (snd st) = Some f \<Longrightarrow> GetThis a st = Inr (f, st)"
  by (simp add: GetThis_def)

lemma runs_upd: "g \<noteq> f \<or> (\<forall>x. fb_ctx (h x) = fb_ctx x) \<Longrightarrow> runs f st \<Longrightarrow> runs f (upd_fiber g h st)"
  by (auto simp: runs_def)

lemma end_slice_ok:
  assumes r: "runs f st" and m: "t_main_fiber (snd st) = Some m" and ne: "f \<noteq> m"
    and sv: "fb_ctx (the_fiber st m) = Saved" and ex: "fb_state (the_fiber st f) = State_EXEC"
  shows "\<exists>st1. end_slice s a st = Inr st1 \<and> runs m st1 \<and>
     snd st1 = (snd st)\<lparr>t_fiber := Some m, t_cpu := Some m\<rparr> \<and>
     fb_state (the_fiber st1 f) = slice_state s (fb_cb (the_fiber st f)) \<and>
     fb_ctx (the_fiber st1 f) = slice_ctx s \<and>
     fb_stack (the_fiber st1 f) = fb_stack (the_fiber st f) \<and>
     (s \<noteq> Finish \<longrightarrow> fb_cb (the_fiber st1 f) = fb_cb (the_fiber st f)) \<and>
     the_fiber st1 m = (the_fiber st m)\<lparr>fb_ctx := Unsaved\<rparr> \<and>
     (\<forall>g. g \<noteq> f \<longrightarrow> g \<noteq> m \<longrightarrow> the_fiber st1 g = the_fiber st g)"
proof -
  have cur: "t_fiber (snd st) = Some f" using r by (simp add: runs_def)
  have main: "\<exists>st1. swapOut_as sv' f (upd_fiber f h st) = Inr st1 \<and> runs m st1 \<and>
     snd st1 = (snd st)\<lparr>t_fiber := Some m, t_cpu := Some m\<rparr> \<and>
     the_fiber st1 f = (h (the_fiber st f))\<lparr>fb_ctx := sv'\<rparr> \<and>
     the_fiber st1 m = (the_fiber st m)\<lparr>fb_ctx := Unsaved\<rparr> \<and>
     (\<forall>g. g \<noteq> f \<longrightarrow> g \<noteq> m \<longrightarrow> the_fiber st1 g = the_fiber st g)"
    if "\<And>x. fb_ctx (h x) = fb_ctx x" for h sv'
    using swapOut_as_ok [of f "upd_fiber f h st" m sv'] runs_upd [of f f h st] that r m ne sv by simp
  show ?thesis
  proof (cases s)
    case Finish
    show ?thesis
    proof (cases "fb_cb (the_fiber st f) = None")
      case True
      then show ?thesis
        using main [of "\<lambda>x. x\<lparr>fb_state := State_ERROR\<rparr>" Finished] Finish cur
        by (auto simp: end_slice_def MainFunc_def GetThis_running finish_def slice_state_def slice_ctx_def)
    next
      case False
      then show ?thesis
        using main [of "\<lambda>x. x\<lparr>fb_cb := None, fb_state := State_TERM\<rparr>" Finished] Finish cur
        by (auto simp: end_slice_def MainFunc_def GetThis_running finish_def slice_state_def slice_ctx_def)
    qed
  next
    case Throw
    then show ?thesis
      using main [of "\<lambda>x. x\<lparr>fb_state := State_ERROR\<rparr>" Finished] cur
      by (auto simp: end_slice_def MainFunc_def GetThis_running finish_def slice_state_def slice_ctx_def)
  next
    case Yield_ready
    then show ?thesis
      using main [of "\<lambda>x. x\<lparr>fb_state := State_READY\<rparr>" Saved] cur
      by (auto simp: end_slice_def YieldToReady_def swapOut_def GetThis_running slice_state_def slice_ctx_def)
  next
    case Yield_hold
    then show ?thesis
      using main [of "\<lambda>x. x\<lparr>fb_state := State_HOLD\<rparr>" Saved] cur
      by (auto simp: end_slice_def YieldToHold_def swapOut_def GetThis_running slice_state_def slice_ctx_def)
  next
    case Swap_out
    then show ?thesis
      using swapOut_as_ok [OF r m ne sv, of Saved] cur ex
      by (auto simp: end_slice_def swapOut_def GetThis_running slice_state_def slice_ctx_def)
  qed
qed

text \<open>A whole slice, from the switch into the fiber to the switch back.\<close>

definition run_slice :: "slice \<Rightarrow> nat \<Rightarrow> nat \<Rightarrow> fiber_st \<Rightarrow> fiber_st outcome" where
  "run_slice s a f st = bindE (swapIn f st) (end_slice s a)"

lemma run_slice_ok:
  assumes "runs m st" and "t_main_fiber (snd st) = Some m" and "f \<noteq> m" and "resumable (the_fiber st f)"
  shows "\<exists>st1. run_slice s a f st = Inr st1 \<and> runs m st1 \<and> snd st1 = snd st \<and>
     fb_state (the_fiber st1 f) = slice_state s (fb_cb (the_fiber st f)) \<and>
     fb_ctx (the_fiber st1 f) = slice_ctx s \<and>
     fb_stack (the_fiber st1 f) = fb_stack (the_fiber st f) \<and>
     (s \<noteq> Finish \<longrightarrow> fb_cb (the_fiber st1 f) = fb_cb (the_fiber st f)) \<and>
     (\<forall>g. g \<noteq> f \<longrightarrow> the_fiber st1 g = the_fiber st g)"
proof -
  obtain st1 where st1: "swapIn f st = Inr st1" "runs f st1"
    "snd st1 = (snd st)\<lparr>t_fiber := Some f, t_cpu := Some f\<rparr>"
    "the_fiber st1 f = (the_fiber st f)\<lparr>fb_state := State_EXEC, fb_ctx := Unsaved\<rparr>"
    "the_fiber st1 m = (the_fiber st m)\<lparr>fb_ctx := Saved\<rparr>"
    "\<forall>g. g \<noteq> f \<longrightarrow> g \<noteq> m \<longrightarrow> the_fiber st1 g = the_fiber st g"
    using swapIn_ok [OF assms] by blast
  obtain st2 where st2: "end_slice s a st1 = Inr st2" "runs m st2"
     "snd st2 = (snd st1)\<lparr>t_fiber := Some m, t_cpu := Some m\<rparr>"
     "fb_state (the_fiber st2 f) = slice_state s (fb_cb (the_fiber st1 f))"
     "fb_ctx (the_fiber st2 f) = slice_ctx s"
     "fb_stack (the_fiber st2 f) = fb_stack (the_fiber st1 f)"
     "s \<noteq> Finish \<longrightarrow> fb_cb (the_fiber st2 f) = fb_cb (the_fiber st1 f)"
     "the_fiber st2 m = (the_fiber st1 m)\<lparr>fb_ctx := Unsaved\<rparr>"
     "\<forall>g. g \<noteq> f \<longrightarrow> g \<noteq> m \<longrightarrow> the_fiber st2 g = the_fiber st1 g"
    using end_slice_ok [OF st1(2), of m s a] st1(3-5) assms(2,3) by auto
  have u: "fb_ctx (the_fiber st m) = Unsaved" and t: "t_fiber (snd st) = Some m" "t_cpu (snd st) = Some m"
    using assms(1) by (simp_all add: runs_def)
  have "the_fiber st2 m = the_fiber st m" using st2(8) st1(5) u by simp
  moreover have "snd st2 = snd st" using st2(3) st1(3) t by simp
  ultimately show ?thesis
    using st1 st2 by (intro exI [of _ st2]) (auto simp: run_slice_def)
qed

section \<open>Properties\<close>


definition fiber_demo :: fiber_st where
  "fiber_demo =
     (\<lparr>fs_heap = \<lambda>f. \<lparr>fb_id = of_nat f, fb_stacksize = 1024, fb_state = (if f = 0 then State_EXEC else State_INIT),
         fb_ctx = (if f = 0 then Unsaved else Entry False), fb_stack = (f \<noteq> 0), fb_cb = (if f = 0 then None else Some f)\<rparr>,
       s_fiber_id = 1, s_fiber_count = 2\<rparr>,
      \<lparr>t_fiber = Some 0, t_thread_fiber = Some 0, t_main_fiber = Some 0, t_cpu = Some 0\<rparr>)"

lemma fiber_demo_facts:
  "runs 0 fiber_demo" "t_main_fiber (snd fiber_demo) = Some 0" "resumable (the_fiber fiber_demo 1)"
  "fb_cb (the_fiber fiber_demo 1) = Some 1" "fb_stack (the_fiber fiber_demo 1)" "(1 :: nat) \<noteq> 0"
  by (auto simp: fiber_demo_def runs_def resumable_def the_fiber_def)


text \<open>
  A fiber that has ended cannot be entered again without \<open>reset\<close>: switching into it runs behind the last
  switch of \<open>MainFunc\<close>, into its final assertion; after \<open>reset\<close> with a new function it is resumable.
\<close>

theorem ended_fiber:
  assumes "runs m st" and "t_main_fiber (snd st) = Some m" and "f \<noteq> m" and "fb_stack (the_fiber st f)"
    and "fb_state (the_fiber st f) \<in> {State_TERM, State_ERROR}" and "fb_ctx (the_fiber st f) = Finished"
  shows "swapIn f st = Inl (Assert_failed ''never reach here'') \<and>
    (\<exists>st1. Fiber_reset f cb st = Inr st1 \<and> runs m st1 \<and> resumable (the_fiber st1 f) \<and> fb_cb (the_fiber st1 f) = cb)"
proof
  have "fb_state (the_fiber st f) \<noteq> State_EXEC" using assms(5) by auto
  then show "swapIn f st = Inl (Assert_failed ''never reach here'')"
    using assms(2,3,6) by (simp add: swapIn_def switch_defs)
  show "\<exists>st1. Fiber_reset f cb st = Inr st1 \<and> runs m st1 \<and> resumable (the_fiber st1 f) \<and> fb_cb (the_fiber st1 f) = cb"
    using assms
    by (intro exI [of _ "upd_fiber f (\<lambda>x. x\<lparr>fb_cb := cb, fb_ctx := Entry False, fb_state := State_INIT\<rparr>) st"])
      (auto simp: Fiber_reset_def resumable_def runs_def)
qed

theorem ended_fiber_witness:
  "\<exists>st. bindE (swapIn 1 fiber_demo) (end_slice Finish 9) = Inr st \<and>
     swapIn 1 st = Inl (Assert_failed ''never reach here'')"
proof -
  obtain st where st: "bindE (swapIn 1 fiber_demo) (end_slice Finish 9) = Inr st" "runs 0 st"
    "snd st = snd fiber_demo" "fb_state (the_fiber st 1) = State_TERM" "fb_ctx (the_fiber st 1) = Finished"
    "fb_stack (the_fiber st 1)"
    using run_slice_ok [OF fiber_demo_facts(1,2,6,3), of Finish 9] fiber_demo_facts(5)
    unfolding fiber_demo_facts(4) run_slice_def
    by (auto simp: slice_state_def slice_ctx_def)
  then show ?thesis using ended_fiber [of 0 st 1] fiber_demo_facts(2) by auto
qed

text \<open>
  \<open>YieldToHold\<close> is not atomic: it marks the fiber as suspended before its context is saved, so another thread
  that is handed the fiber in between (by the event it is about to wait for) resumes a stale context.
\<close>

theorem yield_race:
  assumes "runs f (w, t1)" and "t_main_fiber t2 = Some m2" and "m2 \<noteq> f"
  shows "swapIn f (fst (upd_fiber f (\<lambda>x. x\<lparr>fb_state := State_HOLD\<rparr>) (w, t1)), t2) = Inl Stale_context"
  using assms by (simp add: swapIn_def switch_defs the_fiber_def upd_fiber_def SetThis_def)

theorem yield_race_witness:
  "\<exists>w1. swapIn 0 (w1, \<lparr>t_fiber = Some 5, t_thread_fiber = Some 5, t_main_fiber = Some 5, t_cpu = Some 5\<rparr>) = Inl Stale_context"
  using yield_race [of 0 "fst fiber_demo" "snd fiber_demo" "\<lparr>t_fiber = Some 5, t_thread_fiber = Some 5, t_main_fiber = Some 5, t_cpu = Some 5\<rparr>" 5]
  by (auto simp: fiber_demo_def runs_def the_fiber_def)

end
