(* ===== verification/Cool_Scheduler.thy ===== *)
theory Cool_Scheduler
  imports Cool_Fiber
begin

text \<open>
  The fiber scheduler (src/scheduler.h, src/scheduler.cpp): the task queue, picking a task for a thread, the
  scheduling loop, and starting and stopping. What a task does while it runs is an argument: how it
  gives up the processor and which tasks it schedules meanwhile.
\<close>

section \<open>State\<close>

text \<open>\<open>FiberAndThread\<close>: a fiber or a function, and the thread it is bound to (-1: any).\<close>

record task =
  tk_fiber :: "nat option"
  tk_cb :: "nat option"
  tk_thread :: int

text \<open>
  \<open>sc_tickles\<close> counts the calls of the virtual function \<open>tickle\<close>, \<open>sc_ran\<close> lists the
  functions that were started on callback fibers.
\<close>

record sched =
  sc_fibers :: "task list"
  sc_thread_count :: nat
  sc_active :: u64
  sc_idle :: u64
  sc_stop :: bool
  sc_autostop :: bool
  sc_root_thread :: int
  sc_root_fiber :: "nat option"
  sc_threads :: "int list"
  sc_thread_ids :: "int list"
  sc_tickles :: nat
  sc_ran :: "nat list"

definition fiber_task :: "nat \<Rightarrow> task" where
  "fiber_task f = \<lparr>tk_fiber = Some f, tk_cb = None, tk_thread = - 1\<rparr>"

definition cb_task :: "nat \<Rightarrow> task" where
  "cb_task c = \<lparr>tk_fiber = None, tk_cb = Some c, tk_thread = - 1\<rparr>"

definition task_reset :: "task \<Rightarrow> task" where
  "task_reset t = t\<lparr>tk_fiber := None, tk_cb := None, tk_thread := - 1\<rparr>"

definition sched_tickle :: "sched \<Rightarrow> sched" where
  "sched_tickle s = s\<lparr>sc_tickles := Suc (sc_tickles s)\<rparr>"

definition hasIdleThreads :: "sched \<Rightarrow> bool" where
  "hasIdleThreads s = (sc_idle s > 0)"

section \<open>The queue\<close>

definition scheduleNoLock :: "task \<Rightarrow> sched \<Rightarrow> bool \<times> sched" where
  "scheduleNoLock ft s =
     (sc_fibers s = [],
      if tk_fiber ft \<noteq> None \<or> tk_cb ft \<noteq> None then s\<lparr>sc_fibers := sc_fibers s @ [ft]\<rparr> else s)"

definition schedule :: "task \<Rightarrow> sched \<Rightarrow> sched" where
  "schedule ft s = (let (need_tickle, s) = scheduleNoLock ft s in if need_tickle then sched_tickle s else s)"

text \<open>The overload for a range locks once and tickles at most once.\<close>

fun schedule_loop :: "task list \<Rightarrow> bool \<Rightarrow> sched \<Rightarrow> bool \<times> sched" where
  "schedule_loop [] need_tickle s = (need_tickle, s)"
| "schedule_loop (ft # fts) need_tickle s =
     (let (n, s) = scheduleNoLock ft s in schedule_loop fts (n \<or> need_tickle) s)"

definition schedule_range :: "task list \<Rightarrow> sched \<Rightarrow> sched" where
  "schedule_range fts s = (let (need_tickle, s) = schedule_loop fts False s in if need_tickle then sched_tickle s else s)"

text \<open>The search for a task of thread \<open>tid\<close>: \<open>seen\<close> are the tasks the iterator has passed.\<close>

fun pick_loop :: "int \<Rightarrow> (nat \<Rightarrow> fiber) \<Rightarrow> task list \<Rightarrow> task list \<Rightarrow> bool \<Rightarrow> (bool \<times> task option \<times> task list) outcome" where
  "pick_loop tid h seen [] tickle_me = Inr (tickle_me, None, seen)"
| "pick_loop tid h seen (t # ts) tickle_me =
     (if tk_thread t \<noteq> - 1 \<and> tk_thread t \<noteq> tid then pick_loop tid h (seen @ [t]) ts True
      else bindE (assertE ''it->fiber || it->cb'' (tk_fiber t \<noteq> None \<or> tk_cb t \<noteq> None)) (\<lambda>_.
        if (case tk_fiber t of Some f \<Rightarrow> fb_state (h f) = State_EXEC | None \<Rightarrow> False)
        then pick_loop tid h (seen @ [t]) ts tickle_me
        else Inr (tickle_me, Some t, seen @ ts)))"

definition stopping :: "sched \<Rightarrow> bool" where
  "stopping s = (sc_autostop s \<and> sc_stop s \<and> sc_fibers s = [] \<and> sc_active s = 0)"

section \<open>Construction, start and stop\<close>

text \<open>
  \<open>me\<close> is the scheduler's address, \<open>ts\<close> the thread's \<open>t_scheduler\<close>, \<open>a\<close> and \<open>b\<close> are addresses for the
  thread's main fiber and the root fiber, \<open>run_cb\<close> the bound \<open>Scheduler::run\<close>.
\<close>

definition Scheduler_new ::
  "u32 \<Rightarrow> nat \<Rightarrow> nat \<Rightarrow> nat \<Rightarrow> nat \<Rightarrow> int \<Rightarrow> nat \<Rightarrow> bool \<Rightarrow> fiber_st \<Rightarrow> nat option \<Rightarrow>
     (sched \<times> fiber_st \<times> nat option) outcome" where
  "Scheduler_new cfg me run_cb a b tid thread_size use_caller st ts =
     bindE (assertE ''thread_size > 0'' (thread_size > 0)) (\<lambda>_.
       let s = \<lparr>sc_fibers = [], sc_thread_count = thread_size, sc_active = 0, sc_idle = 0, sc_stop = True,
                sc_autostop = False, sc_root_thread = - 1, sc_root_fiber = None, sc_threads = [],
                sc_thread_ids = [], sc_tickles = 0, sc_ran = []\<rparr>
       in if \<not> use_caller then Inr (s, st, ts)
          else bindE (GetThis a st) (\<lambda>(_, st).
               bindE (assertE ''GetThis() == nullptr'' (ts = None)) (\<lambda>_.
               let (w, t) = Fiber_new cfg b (Some run_cb) 0 True st
               in Inr (s\<lparr>sc_thread_count := thread_size - 1, sc_root_fiber := Some b, sc_root_thread := tid,
                         sc_thread_ids := [tid]\<rparr>, (w, t\<lparr>t_main_fiber := Some b\<rparr>), Some me))))"

definition Scheduler_delete :: "nat \<Rightarrow> sched \<Rightarrow> nat option \<Rightarrow> nat option outcome" where
  "Scheduler_delete me s ts =
     bindE (assertE ''m_stop'' (sc_stop s)) (\<lambda>_. Inr (if ts = Some me then None else ts))"

text \<open>\<open>ids\<close> are the thread ids of the threads the operating system creates.\<close>

definition sched_start :: "int list \<Rightarrow> sched \<Rightarrow> sched outcome" where
  "sched_start ids s =
     (if \<not> sc_stop s then Inr s
      else let s = s\<lparr>sc_stop := False\<rparr> in
        bindE (assertE ''m_threads.empty()'' (sc_threads s = [])) (\<lambda>_.
          let new = take (sc_thread_count s) ids
          in Inr (s\<lparr>sc_threads := new, sc_thread_ids := sc_thread_ids s @ new\<rparr>)))"

text \<open>
  \<open>runner\<close> is the effect of calling the root fiber, that is, of running the scheduling loop on
  the calling thread until it returns; joining the worker threads is left to them.
\<close>

definition sched_stop ::
  "(sched \<times> fiber_st \<Rightarrow> (sched \<times> fiber_st) outcome) \<Rightarrow> nat \<Rightarrow> nat option \<Rightarrow> sched \<times> fiber_st \<Rightarrow> (sched \<times> fiber_st) outcome" where
  "sched_stop runner me ts ss =
     (let (s, st) = ss;
          s = s\<lparr>sc_autostop := True\<rparr>;
          early = (case sc_root_fiber s of
                     Some r \<Rightarrow> sc_thread_count s = 0 \<and> fb_state (the_fiber st r) \<in> {State_TERM, State_INIT}
                   | None \<Rightarrow> False);
          s = (if early then s\<lparr>sc_stop := True\<rparr> else s)
      in if early \<and> stopping s then Inr (s, st)
         else bindE (assertE ''GetThis()'' (if sc_root_thread s \<noteq> - 1 then ts = Some me else ts \<noteq> Some me)) (\<lambda>_.
           let s = s\<lparr>sc_stop := True, sc_tickles := sc_tickles s + sc_thread_count s + (if sc_root_fiber s \<noteq> None then 1 else 0)\<rparr>
           in bindE (if sc_root_fiber s \<noteq> None \<and> \<not> stopping s then runner (s, st) else Inr (s, st)) (\<lambda>(s, st).
                Inr (s\<lparr>sc_threads := []\<rparr>, st))))"

section \<open>The loop\<close>

record loop_st =
  ls_sched :: sched
  ls_fib :: fiber_st
  ls_cb_fiber :: "nat option"
  ls_idle :: nat

text \<open>
  What the running task does: the way it ends its slice and the tasks it schedules; and the address of
  the fiber the loop may allocate.
\<close>

record task_run =
  tr_slice :: slice
  tr_tasks :: "task list"
  tr_addr :: nat

definition set_state :: "nat \<Rightarrow> fiber_state \<Rightarrow> loop_st \<Rightarrow> loop_st" where
  "set_state f x l = l\<lparr>ls_fib := upd_fiber f (\<lambda>y. y\<lparr>fb_state := x\<rparr>) (ls_fib l)\<rparr>"

definition upd_sched :: "(sched \<Rightarrow> sched) \<Rightarrow> loop_st \<Rightarrow> loop_st" where
  "upd_sched g l = l\<lparr>ls_sched := g (ls_sched l)\<rparr>"

definition state_of :: "loop_st \<Rightarrow> nat \<Rightarrow> fiber_state" where
  "state_of l f = fb_state (the_fiber (ls_fib l) f)"

text \<open>\<open>swapIn\<close> until the fiber gives up the processor; meanwhile it schedules its tasks.\<close>

definition swap_in :: "task_run \<Rightarrow> nat \<Rightarrow> loop_st \<Rightarrow> loop_st outcome" where
  "swap_in r f l =
     bindE (run_slice (tr_slice r) (tr_addr r) f (ls_fib l)) (\<lambda>st.
       Inr (upd_sched (\<lambda>s. fold schedule (tr_tasks r) s) (l\<lparr>ls_fib := st\<rparr>)))"

definition dec_active :: "loop_st \<Rightarrow> loop_st" where
  "dec_active l = upd_sched (\<lambda>s. s\<lparr>sc_active := sc_active s - 1\<rparr>) l"

definition run_fiber :: "task_run \<Rightarrow> nat \<Rightarrow> loop_st \<Rightarrow> loop_st outcome" where
  "run_fiber r f l =
     bindE (swap_in r f l) (\<lambda>l.
       let l = dec_active l in
       Inr (if state_of l f = State_READY
            then (upd_sched (schedule (fiber_task f)) l)\<lparr>ls_cb_fiber := None\<rparr>
            else if state_of l f \<noteq> State_TERM \<and> state_of l f \<noteq> State_ERROR then set_state f State_HOLD l
            else l))"

definition run_cb :: "u32 \<Rightarrow> task_run \<Rightarrow> nat \<Rightarrow> loop_st \<Rightarrow> loop_st outcome" where
  "run_cb cfg r cb l =
     bindE (case ls_cb_fiber l of
              Some g \<Rightarrow> bindE (Fiber_reset g (Some cb) (ls_fib l)) (\<lambda>st. Inr (g, l\<lparr>ls_fib := st\<rparr>))
            | None \<Rightarrow> Inr (tr_addr r, l\<lparr>ls_fib := Fiber_new cfg (tr_addr r) (Some cb) 0 False (ls_fib l),
                                          ls_cb_fiber := Some (tr_addr r)\<rparr>)) (\<lambda>(g, l).
     bindE (swap_in r g (upd_sched (\<lambda>s. s\<lparr>sc_ran := sc_ran s @ [cb]\<rparr>) l)) (\<lambda>l.
       let l = dec_active l in
       if state_of l g = State_READY then Inr ((upd_sched (schedule (fiber_task g)) l)\<lparr>ls_cb_fiber := None\<rparr>)
       else if state_of l g = State_ERROR \<or> state_of l g = State_TERM
       then bindE (Fiber_reset g None (ls_fib l)) (\<lambda>st. Inr (l\<lparr>ls_fib := st\<rparr>))
       else Inr ((set_state g State_HOLD l)\<lparr>ls_cb_fiber := None\<rparr>)))"

text \<open>The base-class \<open>idle\<close>: yields on hold until the scheduler is stopping, then returns.\<close>

definition idle_slice :: "sched \<Rightarrow> slice" where
  "idle_slice s = (if stopping s then Finish else Yield_hold)"

definition run_idle :: "nat \<Rightarrow> loop_st \<Rightarrow> loop_st outcome" where
  "run_idle a l =
     (let l = upd_sched (\<lambda>s. s\<lparr>sc_idle := sc_idle s + 1\<rparr>) l;
          r = \<lparr>tr_slice = idle_slice (ls_sched l), tr_tasks = [], tr_addr = a\<rparr>
      in bindE (swap_in r (ls_idle l) l) (\<lambda>l.
           let l = upd_sched (\<lambda>s. s\<lparr>sc_idle := sc_idle s - 1\<rparr>) l
           in Inr (if state_of l (ls_idle l) \<noteq> State_TERM \<and> state_of l (ls_idle l) \<noteq> State_ERROR
                   then set_state (ls_idle l) State_HOLD l else l)))"

text \<open>One round of the loop of \<open>run\<close>; the flag says that the loop was left by \<open>break\<close>.\<close>

definition run_round :: "u32 \<Rightarrow> int \<Rightarrow> task_run \<Rightarrow> loop_st \<Rightarrow> (bool \<times> loop_st) outcome" where
  "run_round cfg tid r l =
     bindE (pick_loop tid (fs_heap (fst (ls_fib l))) [] (sc_fibers (ls_sched l)) False) (\<lambda>(tickle_me, ft, rest).
       let is_active = (ft \<noteq> None);
           l = (if is_active then upd_sched (\<lambda>s. s\<lparr>sc_fibers := rest, sc_active := sc_active s + 1\<rparr>) l else l);
           l = (if tickle_me then upd_sched sched_tickle l else l)
       in case ft of
            None \<Rightarrow>
              if state_of l (ls_idle l) = State_TERM then Inr (True, l)
              else bindE (run_idle (tr_addr r) l) (\<lambda>l. Inr (False, l))
          | Some t \<Rightarrow>
              (case (case tk_fiber t of
                       Some f \<Rightarrow> if state_of l f \<noteq> State_TERM \<or> state_of l f \<noteq> State_ERROR then Some f else None
                     | None \<Rightarrow> None) of
                 Some f \<Rightarrow> bindE (run_fiber r f l) (\<lambda>l. Inr (False, l))
               | None \<Rightarrow> (case tk_cb t of
                            Some cb \<Rightarrow> bindE (run_cb cfg r cb l) (\<lambda>l. Inr (False, l))
                          | None \<Rightarrow> Inr (False, dec_active l))))"

text \<open>The loop, for at most \<open>n\<close> rounds; \<open>env\<close> gives what the task of each round does.\<close>

fun run_loop :: "u32 \<Rightarrow> int \<Rightarrow> nat \<Rightarrow> (nat \<Rightarrow> task_run) \<Rightarrow> loop_st \<Rightarrow> (bool \<times> loop_st) outcome" where
  "run_loop cfg tid 0 env l = Inr (False, l)"
| "run_loop cfg tid (Suc n) env l =
     bindE (run_round cfg tid (env 0) l) (\<lambda>(done, l).
       if done then Inr (True, l) else run_loop cfg tid n (\<lambda>i. env (Suc i)) l)"

section \<open>The queue keeps every task\<close>

definition task_wf :: "task \<Rightarrow> bool" where
  "task_wf t \<longleftrightarrow> tk_fiber t \<noteq> None \<or> tk_cb t \<noteq> None"

definition eligible :: "int \<Rightarrow> (nat \<Rightarrow> fiber) \<Rightarrow> task \<Rightarrow> bool" where
  "eligible tid h t \<longleftrightarrow> (tk_thread t = - 1 \<or> tk_thread t = tid) \<and>
     (case tk_fiber t of Some f \<Rightarrow> fb_state (h f) \<noteq> State_EXEC | None \<Rightarrow> True)"

lemma pick_loop_split:
  assumes "\<forall>t\<in>set q. task_wf t"
  shows "\<exists>b'. (\<forall>t\<in>set q. \<not> eligible tid h t) \<and> pick_loop tid h seen q b = Inr (b', None, seen @ q) \<or>
    (\<exists>xs t ys. q = xs @ t # ys \<and> eligible tid h t \<and> (\<forall>x\<in>set xs. \<not> eligible tid h x) \<and>
       pick_loop tid h seen q b = Inr (b', Some t, seen @ xs @ ys))"
  using assms
proof (induction q arbitrary: seen b)
  case Nil
  then show ?case by simp
next
  case (Cons t q)
  have wf: "tk_fiber t \<noteq> None \<or> tk_cb t \<noteq> None" using Cons.prems by (simp add: task_wf_def)
  show ?case
  proof (cases "eligible tid h t")
    case True
    then have "pick_loop tid h seen (t # q) b = Inr (b, Some t, seen @ q)"
      using wf by (auto simp: eligible_def split: option.splits)
    then show ?thesis using True by (intro exI [of _ b] disjI2 exI [of _ "[]"]) auto
  next
    case False
    then obtain b1 where b1: "pick_loop tid h seen (t # q) b = pick_loop tid h (seen @ [t]) q b1"
      using wf by (cases "tk_thread t \<noteq> - 1 \<and> tk_thread t \<noteq> tid") (auto simp: eligible_def split: option.splits)
    obtain b' where "(\<forall>t\<in>set q. \<not> eligible tid h t) \<and> pick_loop tid h (seen @ [t]) q b1 = Inr (b', None, (seen @ [t]) @ q) \<or>
      (\<exists>xs u ys. q = xs @ u # ys \<and> eligible tid h u \<and> (\<forall>x\<in>set xs. \<not> eligible tid h x) \<and>
         pick_loop tid h (seen @ [t]) q b1 = Inr (b', Some u, (seen @ [t]) @ xs @ ys))"
      using Cons.IH [of "seen @ [t]" b1] Cons.prems by auto
    then show ?thesis
    proof (elim disjE exE conjE)
      fix xs u ys
      assume "q = xs @ u # ys" "eligible tid h u" "\<forall>x\<in>set xs. \<not> eligible tid h x"
        "pick_loop tid h (seen @ [t]) q b1 = Inr (b', Some u, (seen @ [t]) @ xs @ ys)"
      then show ?thesis
        using False b1 by (intro exI [of _ b'] disjI2 exI [of _ "t # xs"] exI [of _ u] exI [of _ ys]) simp
    qed (use False b1 in auto)
  qed
qed

lemma schedule_fields [simp]:
  "sc_active (schedule t s) = sc_active s" "sc_idle (schedule t s) = sc_idle s" "sc_stop (schedule t s) = sc_stop s"
  "sc_autostop (schedule t s) = sc_autostop s" "sc_ran (schedule t s) = sc_ran s"
  by (simp_all add: schedule_def scheduleNoLock_def sched_tickle_def Let_def)

lemma schedule_queue: "sc_fibers (schedule t s) = (if task_wf t then sc_fibers s @ [t] else sc_fibers s)"
  by (auto simp: schedule_def scheduleNoLock_def sched_tickle_def task_wf_def)

lemma fold_schedule_fields [simp]:
  "sc_active (fold schedule ts s) = sc_active s" "sc_idle (fold schedule ts s) = sc_idle s"
  "sc_stop (fold schedule ts s) = sc_stop s" "sc_autostop (fold schedule ts s) = sc_autostop s"
  "sc_ran (fold schedule ts s) = sc_ran s"
  by (induction ts arbitrary: s) simp_all

lemma fold_schedule_queue: "\<forall>t\<in>set ts. task_wf t \<Longrightarrow> sc_fibers (fold schedule ts s) = sc_fibers s @ ts"
  by (induction ts arbitrary: s) (simp_all add: schedule_queue)

section \<open>The invariant of the loop\<close>

fun q_fibers :: "task list \<Rightarrow> nat list" where
  "q_fibers [] = []"
| "q_fibers (t # ts) = (case tk_fiber t of Some f \<Rightarrow> f # q_fibers ts | None \<Rightarrow> q_fibers ts)"

lemma q_fibers_append [simp]: "q_fibers (xs @ ys) = q_fibers xs @ q_fibers ys"
  by (induction xs) (auto split: option.split)

text \<open>
  A queued fiber is neither the scheduler fiber, the idle fiber nor the cached callback fiber, can be
  resumed, and is queued once.
\<close>

definition fib_ok :: "nat \<Rightarrow> loop_st \<Rightarrow> nat \<Rightarrow> bool" where
  "fib_ok m l f \<longleftrightarrow> f \<noteq> m \<and> f \<noteq> ls_idle l \<and> ls_cb_fiber l \<noteq> Some f \<and> resumable (the_fiber (ls_fib l) f)"

definition queue_ok :: "nat \<Rightarrow> loop_st \<Rightarrow> task list \<Rightarrow> bool" where
  "queue_ok m l q \<longleftrightarrow> (\<forall>t\<in>set q. task_wf t) \<and> distinct (q_fibers q) \<and> (\<forall>f\<in>set (q_fibers q). fib_ok m l f)"

definition base_ok :: "nat \<Rightarrow> loop_st \<Rightarrow> bool" where
  "base_ok m l \<longleftrightarrow>
     runs m (ls_fib l) \<and> t_main_fiber (snd (ls_fib l)) = Some m \<and> ls_idle l \<noteq> m \<and>
     (state_of l (ls_idle l) = State_TERM \<or>
      resumable (the_fiber (ls_fib l) (ls_idle l)) \<and> fb_cb (the_fiber (ls_fib l) (ls_idle l)) \<noteq> None) \<and>
     (\<forall>g. ls_cb_fiber l = Some g \<longrightarrow> g \<noteq> m \<and> g \<noteq> ls_idle l \<and>
        fb_stack (the_fiber (ls_fib l) g) \<and> state_of l g = State_INIT)"

definition loop_inv :: "nat \<Rightarrow> loop_st \<Rightarrow> bool" where
  "loop_inv m l \<longleftrightarrow> base_ok m l \<and> queue_ok m l (sc_fibers (ls_sched l)) \<and> sc_active (ls_sched l) = 0"

text \<open>
  What the environment has to respect: scheduled tasks are not empty, a fiber is scheduled
  only when it is suspended or new and not already queued, and allocated fibers are new.
\<close>

definition env_ok :: "nat \<Rightarrow> task_run \<Rightarrow> loop_st \<Rightarrow> bool" where
  "env_ok m r l \<longleftrightarrow>
     queue_ok m l (sc_fibers (ls_sched l) @ tr_tasks r) \<and>
     tr_addr r \<noteq> m \<and> tr_addr r \<noteq> ls_idle l \<and> tr_addr r \<notin> set (q_fibers (sc_fibers (ls_sched l) @ tr_tasks r))"

lemma swap_in_ok:
  assumes "runs m (ls_fib l)" and "t_main_fiber (snd (ls_fib l)) = Some m" and "f \<noteq> m" and "resumable (the_fiber (ls_fib l) f)"
  shows "\<exists>st. swap_in r f l = Inr (upd_sched (fold schedule (tr_tasks r)) (l\<lparr>ls_fib := st\<rparr>)) \<and>
     runs m st \<and> snd st = snd (ls_fib l) \<and>
     fb_state (the_fiber st f) = slice_state (tr_slice r) (fb_cb (the_fiber (ls_fib l) f)) \<and>
     fb_ctx (the_fiber st f) = slice_ctx (tr_slice r) \<and> fb_stack (the_fiber st f) = fb_stack (the_fiber (ls_fib l) f) \<and>
     (tr_slice r \<noteq> Finish \<longrightarrow> fb_cb (the_fiber st f) = fb_cb (the_fiber (ls_fib l) f)) \<and>
     (\<forall>g. g \<noteq> f \<longrightarrow> the_fiber st g = the_fiber (ls_fib l) g)"
  using run_slice_ok [OF assms, of "tr_slice r" "tr_addr r"] by (auto simp: swap_in_def)

lemma slice_ctx_saved: "slice_state s cb \<notin> {State_TERM, State_ERROR} \<Longrightarrow> slice_ctx s = Saved"
  by (auto simp: slice_state_def slice_ctx_def split: slice.splits if_splits)

text \<open>Changing one fiber that is not the scheduler fiber, the idle fiber or the cached one.\<close>

definition agree_off :: "nat \<Rightarrow> nat \<Rightarrow> fiber_st \<Rightarrow> fiber_st \<Rightarrow> bool" where
  "agree_off m f st st' \<longleftrightarrow> runs m st' \<and> snd st' = snd st \<and> (\<forall>g. g \<noteq> f \<longrightarrow> the_fiber st' g = the_fiber st g)"

lemma agree_off_upd: "agree_off m f st st' \<Longrightarrow> f \<noteq> m \<Longrightarrow> agree_off m f st (upd_fiber f h st')"
  by (auto simp: agree_off_def intro: runs_upd)

lemma base_ok_agree:
  assumes "base_ok m l" and "agree_off m f (ls_fib l) st'" and "f \<noteq> ls_idle l" and "ls_cb_fiber l \<noteq> Some f"
  shows "base_ok m (l\<lparr>ls_fib := st'\<rparr>)"
  using assms by (auto simp: base_ok_def agree_off_def state_of_def)

lemma base_ok_fields [simp]:
  "base_ok m (upd_sched g l) = base_ok m l" "queue_ok m (upd_sched g l) q = queue_ok m l q"
  "fib_ok m (upd_sched g l) f = fib_ok m l f"
  by (simp_all add: base_ok_def state_of_def upd_sched_def queue_ok_def fib_ok_def)

lemma base_ok_no_cb: "base_ok m l \<Longrightarrow> base_ok m (l\<lparr>ls_cb_fiber := None\<rparr>)"
  by (simp add: base_ok_def state_of_def)

lemma queue_ok_no_cb: "queue_ok m l q \<Longrightarrow> queue_ok m (l\<lparr>ls_cb_fiber := None\<rparr>) q"
  by (auto simp: queue_ok_def fib_ok_def)

lemma queue_ok_agree:
  assumes "queue_ok m l q" and "agree_off m f (ls_fib l) st'" and "f \<notin> set (q_fibers q)"
  shows "queue_ok m (l\<lparr>ls_fib := st'\<rparr>) q"
proof -
  have "fib_ok m (l\<lparr>ls_fib := st'\<rparr>) g" if "g \<in> set (q_fibers q)" for g
  proof -
    have "g \<noteq> f" using that assms(3) by auto
    then have "the_fiber st' g = the_fiber (ls_fib l) g" using assms(2) by (simp add: agree_off_def)
    moreover have "fib_ok m l g" using that assms(1) by (simp add: queue_ok_def)
    ultimately show ?thesis by (simp add: fib_ok_def)
  qed
  then show ?thesis using assms(1) by (auto simp: queue_ok_def)
qed

lemma queue_ok_snoc:
  assumes "queue_ok m l q" and "fib_ok m l f" and "f \<notin> set (q_fibers q)"
  shows "queue_ok m l (q @ [fiber_task f])"
  using assms by (auto simp: queue_ok_def fiber_task_def task_wf_def)

lemma sched_frame [simp]:
  "ls_sched (upd_sched g l) = g (ls_sched l)" "ls_fib (upd_sched g l) = ls_fib l"
  "ls_cb_fiber (upd_sched g l) = ls_cb_fiber l" "ls_idle (upd_sched g l) = ls_idle l"
  "upd_sched g (l\<lparr>ls_fib := st\<rparr>) = (upd_sched g l)\<lparr>ls_fib := st\<rparr>"
  "state_of (upd_sched g l) f = state_of l f"
  by (simp_all add: upd_sched_def state_of_def)

lemma run_fiber_ok:
  assumes base: "base_ok m l" and q: "queue_ok m l (sc_fibers (ls_sched l) @ tr_tasks r)"
    and f: "fib_ok m l f" "f \<notin> set (q_fibers (sc_fibers (ls_sched l) @ tr_tasks r))"
  shows "\<exists>l'. run_fiber r f l = Inr l' \<and> base_ok m l' \<and> queue_ok m l' (sc_fibers (ls_sched l')) \<and>
     sc_active (ls_sched l') = sc_active (ls_sched l) - 1"
proof -
  let ?g = "fold schedule (tr_tasks r)" and ?q = "sc_fibers (ls_sched l) @ tr_tasks r"
  have fn: "f \<noteq> m" "f \<noteq> ls_idle l" "ls_cb_fiber l \<noteq> Some f" "resumable (the_fiber (ls_fib l) f)"
    using f(1) by (simp_all add: fib_ok_def)
  obtain st where st: "swap_in r f l = Inr (upd_sched ?g (l\<lparr>ls_fib := st\<rparr>))" "agree_off m f (ls_fib l) st"
    "fb_state (the_fiber st f) = slice_state (tr_slice r) (fb_cb (the_fiber (ls_fib l) f))"
    "fb_ctx (the_fiber st f) = slice_ctx (tr_slice r)"
  proof -
    have "runs m (ls_fib l)" "t_main_fiber (snd (ls_fib l)) = Some m" using base by (simp_all add: base_ok_def)
    from swap_in_ok [OF this fn(1,4), of r] show ?thesis using that unfolding agree_off_def by blast
  qed
  define l1 where "l1 = dec_active (upd_sched ?g (l\<lparr>ls_fib := st\<rparr>))"
  have queue: "sc_fibers (ls_sched l1) = ?q"
    using q fold_schedule_queue [of "tr_tasks r"] by (simp add: l1_def dec_active_def queue_ok_def)
  have act: "sc_active (ls_sched l1) = sc_active (ls_sched l) - 1" by (simp add: l1_def dec_active_def)
  have fib: "ls_fib l1 = st" "ls_idle l1 = ls_idle l" "ls_cb_fiber l1 = ls_cb_fiber l"
    by (simp_all add: l1_def dec_active_def)
  have b1: "base_ok m l1" and q1: "queue_ok m l1 ?q"
    using base_ok_agree [OF base st(2) fn(2,3)] queue_ok_agree [OF q st(2) f(2)]
    by (simp_all add: l1_def dec_active_def del: sched_frame(5))
  have st1: "state_of l1 f = slice_state (tr_slice r) (fb_cb (the_fiber (ls_fib l) f))"
    using st(3) fib by (simp add: state_of_def)
  have run: "run_fiber r f l = Inr (if state_of l1 f = State_READY
            then (upd_sched (schedule (fiber_task f)) l1)\<lparr>ls_cb_fiber := None\<rparr>
            else if state_of l1 f \<noteq> State_TERM \<and> state_of l1 f \<noteq> State_ERROR then set_state f State_HOLD l1 else l1)"
    using st(1) by (simp only: run_fiber_def bindE_Inr Let_def l1_def)
  show ?thesis
  proof (cases "state_of l1 f = State_READY")
    case True
    then have "slice_ctx (tr_slice r) = Saved" using slice_ctx_saved [of "tr_slice r" "fb_cb (the_fiber (ls_fib l) f)"] st1 by simp
    then have "fib_ok m (l1\<lparr>ls_cb_fiber := None\<rparr>) f"
      using True st(4) fn fib by (simp add: fib_ok_def resumable_def state_of_def)
    then have "queue_ok m (l1\<lparr>ls_cb_fiber := None\<rparr>) (?q @ [fiber_task f])"
      by (intro queue_ok_snoc queue_ok_no_cb q1 f(2))
    then show ?thesis
      using True run queue act base_ok_no_cb [OF b1]
      by (simp add: upd_sched_def schedule_queue task_wf_def fiber_task_def base_ok_def state_of_def queue_ok_def fib_ok_def)
  next
    case False
    have a: "agree_off m f (ls_fib l1) (upd_fiber f (\<lambda>y. y\<lparr>fb_state := State_HOLD\<rparr>) (ls_fib l1))"
      using st(2) fn(1) fib agree_off_upd by (auto simp: agree_off_def intro: runs_upd)
    have "base_ok m (set_state f State_HOLD l1)" "queue_ok m (set_state f State_HOLD l1) ?q"
      using base_ok_agree [OF b1 a] queue_ok_agree [OF q1 a f(2)] fn fib by (simp_all add: set_state_def)
    moreover have "ls_sched (set_state f State_HOLD l1) = ls_sched l1" by (simp add: set_state_def)
    ultimately show ?thesis using False run queue act b1 q1 by simp
  qed
qed

text \<open>The fiber a callback runs on: the cached one, reset, or a new one.\<close>

lemma cb_fiber_ready:
  assumes base: "base_ok m l" and a: "tr_addr r \<noteq> m" "tr_addr r \<noteq> ls_idle l"
  shows "\<exists>g st. (case ls_cb_fiber l of
              Some g \<Rightarrow> bindE (Fiber_reset g (Some cb) (ls_fib l)) (\<lambda>st. Inr (g, l\<lparr>ls_fib := st\<rparr>))
            | None \<Rightarrow> Inr (tr_addr r, l\<lparr>ls_fib := Fiber_new cfg (tr_addr r) (Some cb) 0 False (ls_fib l),
                                          ls_cb_fiber := Some (tr_addr r)\<rparr>)) =
           Inr (g, l\<lparr>ls_fib := st, ls_cb_fiber := Some g\<rparr>) \<and>
         (ls_cb_fiber l = Some g \<or> ls_cb_fiber l = None \<and> g = tr_addr r) \<and>
         agree_off m g (ls_fib l) st \<and> g \<noteq> m \<and> g \<noteq> ls_idle l \<and>
         resumable (the_fiber st g) \<and> fb_stack (the_fiber st g) \<and> fb_cb (the_fiber st g) = Some cb"
proof (cases "ls_cb_fiber l")
  case None
  have "agree_off m (tr_addr r) (ls_fib l) (Fiber_new cfg (tr_addr r) (Some cb) 0 False (ls_fib l))"
    using base a by (auto simp: agree_off_def Fiber_new_def Let_def base_ok_def runs_def the_fiber_def split: prod.splits)
  then show ?thesis
    using None a
    by (intro exI [of _ "tr_addr r"] exI [of _ "Fiber_new cfg (tr_addr r) (Some cb) 0 False (ls_fib l)"])
      (auto simp: Fiber_new_def Let_def resumable_def the_fiber_def split: prod.splits)
next
  case (Some g)
  let ?st = "upd_fiber g (\<lambda>x. x\<lparr>fb_cb := Some cb, fb_ctx := Entry False, fb_state := State_INIT\<rparr>) (ls_fib l)"
  have g: "g \<noteq> m" "g \<noteq> ls_idle l" "fb_stack (the_fiber (ls_fib l) g)" "state_of l g = State_INIT"
    using base Some by (simp_all add: base_ok_def)
  have "agree_off m g (ls_fib l) ?st"
    using base g(1) by (auto simp: agree_off_def base_ok_def intro: runs_upd)
  then show ?thesis
    using Some g by (intro exI [of _ g] exI [of _ ?st]) (auto simp: Fiber_reset_def state_of_def resumable_def)
qed

lemma base_ok_drop:
  assumes "base_ok m l" and "agree_off m g (ls_fib l) st'" and "g \<noteq> ls_idle l"
    and "ls_cb_fiber l = Some g \<or> ls_cb_fiber l = None"
  shows "base_ok m (l\<lparr>ls_fib := st', ls_cb_fiber := None\<rparr>)"
  using assms by (auto simp: base_ok_def agree_off_def state_of_def)

lemma base_ok_keep:
  assumes "base_ok m l" and "agree_off m g (ls_fib l) st'" and "g \<noteq> ls_idle l" and "g \<noteq> m"
    and "fb_stack (the_fiber st' g)" and "fb_state (the_fiber st' g) = State_INIT"
  shows "base_ok m (l\<lparr>ls_fib := st', ls_cb_fiber := Some g\<rparr>)"
  using assms by (auto simp: base_ok_def agree_off_def state_of_def)

lemma queue_ok_cb:
  assumes "queue_ok m l q" and "agree_off m g (ls_fib l) st'" and "g \<notin> set (q_fibers q)" and "c = None \<or> c = Some g"
  shows "queue_ok m (l\<lparr>ls_fib := st', ls_cb_fiber := c\<rparr>) q"
proof -
  have "queue_ok m (l\<lparr>ls_fib := st'\<rparr>) q" by (rule queue_ok_agree [OF assms(1-3)])
  then show ?thesis using assms(3,4) by (auto simp: queue_ok_def fib_ok_def)
qed

lemma agree_off_trans: "agree_off m f a b \<Longrightarrow> agree_off m f b c \<Longrightarrow> agree_off m f a c"
  by (simp add: agree_off_def)

lemma run_cb_ok:
  assumes base: "base_ok m l" and q: "queue_ok m l (sc_fibers (ls_sched l) @ tr_tasks r)"
    and a: "tr_addr r \<noteq> m" "tr_addr r \<noteq> ls_idle l" "tr_addr r \<notin> set (q_fibers (sc_fibers (ls_sched l) @ tr_tasks r))"
  shows "\<exists>l'. run_cb cfg r cb l = Inr l' \<and> base_ok m l' \<and> queue_ok m l' (sc_fibers (ls_sched l')) \<and>
     sc_active (ls_sched l') = sc_active (ls_sched l) - 1 \<and> sc_ran (ls_sched l') = sc_ran (ls_sched l) @ [cb]"
proof -
  let ?q = "sc_fibers (ls_sched l) @ tr_tasks r" and ?f = "fold schedule (tr_tasks r)"
  let ?h = "\<lambda>s. s\<lparr>sc_ran := sc_ran s @ [cb]\<rparr>"
  obtain g st0 where g: "(case ls_cb_fiber l of
              Some g \<Rightarrow> bindE (Fiber_reset g (Some cb) (ls_fib l)) (\<lambda>st. Inr (g, l\<lparr>ls_fib := st\<rparr>))
            | None \<Rightarrow> Inr (tr_addr r, l\<lparr>ls_fib := Fiber_new cfg (tr_addr r) (Some cb) 0 False (ls_fib l),
                                          ls_cb_fiber := Some (tr_addr r)\<rparr>)) =
           Inr (g, l\<lparr>ls_fib := st0, ls_cb_fiber := Some g\<rparr>)"
    "ls_cb_fiber l = Some g \<or> ls_cb_fiber l = None \<and> g = tr_addr r"
    "agree_off m g (ls_fib l) st0" "g \<noteq> m" "g \<noteq> ls_idle l"
    "resumable (the_fiber st0 g)" "fb_stack (the_fiber st0 g)" "fb_cb (the_fiber st0 g) = Some cb"
    using cb_fiber_ready [OF base a(1,2), where cb = cb and cfg = cfg] by blast
  have gq: "g \<notin> set (q_fibers ?q)" using g(2) a(3) q by (auto simp: queue_ok_def fib_ok_def)
  define l0 where "l0 = upd_sched ?h (l\<lparr>ls_fib := st0, ls_cb_fiber := Some g\<rparr>)"
  have l0: "ls_fib l0 = st0" by (simp add: l0_def)
  have "runs m st0" "t_main_fiber (snd st0) = Some m"
    using g(3) base by (simp_all add: agree_off_def base_ok_def)
  from swap_in_ok [of m l0 g r, unfolded l0 g(8), OF this g(4,6)]
  obtain st where st: "swap_in r g l0 = Inr (upd_sched ?f (l0\<lparr>ls_fib := st\<rparr>))"
    "runs m st" "snd st = snd st0" "fb_state (the_fiber st g) = slice_state (tr_slice r) (Some cb)"
    "fb_ctx (the_fiber st g) = slice_ctx (tr_slice r)" "fb_stack (the_fiber st g) = fb_stack (the_fiber st0 g)"
    "\<forall>f. f \<noteq> g \<longrightarrow> the_fiber st f = the_fiber st0 f" by blast
  have "agree_off m g st0 st" using st(2,3,7) by (simp add: agree_off_def)
  note st = st(1) this st(4,5) st(6) [unfolded eq_True [THEN iffD2, OF g(7)], simplified]
  have ag: "agree_off m g (ls_fib l) st" by (rule agree_off_trans [OF g(3) st(2)])
  define s1 where "s1 = (?f (?h (ls_sched l)))\<lparr>sc_active := sc_active (ls_sched l) - 1\<rparr>"
  define l1 where "l1 = l\<lparr>ls_sched := s1, ls_fib := st, ls_cb_fiber := Some g\<rparr>"
  have l1: "dec_active (upd_sched ?f (l0\<lparr>ls_fib := st\<rparr>)) = l1"
    by (simp add: l1_def l0_def dec_active_def upd_sched_def s1_def)
  have s1: "sc_fibers s1 = ?q" "sc_active s1 = sc_active (ls_sched l) - 1" "sc_ran s1 = sc_ran (ls_sched l) @ [cb]"
    using q fold_schedule_queue [of "tr_tasks r" "?h (ls_sched l)"] by (simp_all add: s1_def queue_ok_def)
  have run: "run_cb cfg r cb l =
     (if state_of l1 g = State_READY then Inr ((upd_sched (schedule (fiber_task g)) l1)\<lparr>ls_cb_fiber := None\<rparr>)
      else if state_of l1 g = State_ERROR \<or> state_of l1 g = State_TERM
      then bindE (Fiber_reset g None (ls_fib l1)) (\<lambda>st. Inr (l1\<lparr>ls_fib := st\<rparr>))
      else Inr ((set_state g State_HOLD l1)\<lparr>ls_cb_fiber := None\<rparr>))"
    unfolding run_cb_def g(1) using st(1) by (simp only: bindE_Inr Let_def prod.case l0_def [symmetric] l1)
  have sg: "state_of l1 g = fb_state (the_fiber st g)" by (simp add: state_of_def l1_def)
  have sch: "base_ok m (l\<lparr>ls_sched := s, ls_fib := x, ls_cb_fiber := c\<rparr>) = base_ok m (l\<lparr>ls_fib := x, ls_cb_fiber := c\<rparr>)"
    "queue_ok m (l\<lparr>ls_sched := s, ls_fib := x, ls_cb_fiber := c\<rparr>) y = queue_ok m (l\<lparr>ls_fib := x, ls_cb_fiber := c\<rparr>) y"
    for s x c y by (simp_all add: base_ok_def state_of_def queue_ok_def fib_ok_def)
  have cbg: "ls_cb_fiber l = Some g \<or> ls_cb_fiber l = None" using g(2) by auto
  consider (ready) "state_of l1 g = State_READY" | (ended) "state_of l1 g = State_ERROR \<or> state_of l1 g = State_TERM"
    | (held) "state_of l1 g \<noteq> State_READY" "state_of l1 g \<noteq> State_ERROR" "state_of l1 g \<noteq> State_TERM" by blast
  then show ?thesis
  proof cases
    case ready
    then have "slice_ctx (tr_slice r) = Saved" using slice_ctx_saved [of "tr_slice r" "Some cb"] sg st(3) by simp
    then have "fib_ok m (l\<lparr>ls_fib := st, ls_cb_fiber := None\<rparr>) g"
      using ready st(4) g(4,5) sg by (simp add: fib_ok_def resumable_def)
    then have "queue_ok m (l\<lparr>ls_fib := st, ls_cb_fiber := None\<rparr>) (?q @ [fiber_task g])"
      using queue_ok_snoc [OF queue_ok_cb [OF q ag gq]] gq by blast
    moreover have "base_ok m (l\<lparr>ls_fib := st, ls_cb_fiber := None\<rparr>)" by (rule base_ok_drop [OF base ag g(5) cbg])
    moreover have "run_cb cfg r cb l = Inr (l\<lparr>ls_sched := schedule (fiber_task g) s1, ls_fib := st, ls_cb_fiber := None\<rparr>)"
      using run ready by (simp add: l1_def upd_sched_def)
    moreover have "task_wf (fiber_task g)" by (simp add: task_wf_def fiber_task_def)
    ultimately show ?thesis using s1 by (auto simp: sch schedule_queue)
  next
    case ended
    let ?st = "upd_fiber g (\<lambda>x. x\<lparr>fb_cb := None, fb_ctx := Entry False, fb_state := State_INIT\<rparr>) st"
    have a2: "agree_off m g (ls_fib l) ?st" by (rule agree_off_upd [OF ag g(4)])
    have "Fiber_reset g None st = Inr ?st" using ended st(5) sg by (auto simp: Fiber_reset_def)
    then have "run_cb cfg r cb l = Inr (l\<lparr>ls_sched := s1, ls_fib := ?st, ls_cb_fiber := Some g\<rparr>)"
      using run ended by (auto simp: l1_def)
    moreover have "base_ok m (l\<lparr>ls_fib := ?st, ls_cb_fiber := Some g\<rparr>)"
      by (rule base_ok_keep [OF base a2 g(5,4)]) (use st(5) in simp_all)
    moreover have "queue_ok m (l\<lparr>ls_fib := ?st, ls_cb_fiber := Some g\<rparr>) ?q" by (rule queue_ok_cb [OF q a2 gq]) simp
    ultimately show ?thesis using s1 by (auto simp: sch)
  next
    case held
    let ?st = "upd_fiber g (\<lambda>y. y\<lparr>fb_state := State_HOLD\<rparr>) st"
    have a2: "agree_off m g (ls_fib l) ?st" by (rule agree_off_upd [OF ag g(4)])
    have "run_cb cfg r cb l = Inr (l\<lparr>ls_sched := s1, ls_fib := ?st, ls_cb_fiber := None\<rparr>)"
      using run held by (simp add: l1_def set_state_def)
    moreover have "base_ok m (l\<lparr>ls_fib := ?st, ls_cb_fiber := None\<rparr>)" by (rule base_ok_drop [OF base a2 g(5) cbg])
    moreover have "queue_ok m (l\<lparr>ls_fib := ?st, ls_cb_fiber := None\<rparr>) ?q" by (rule queue_ok_cb [OF q a2 gq]) simp
    ultimately show ?thesis using s1 by (auto simp: sch)
  qed
qed

lemma base_ok_idle:
  assumes "base_ok m l" and "agree_off m (ls_idle l) (ls_fib l) st'"
    and "fb_state (the_fiber st' (ls_idle l)) = State_TERM \<or>
         resumable (the_fiber st' (ls_idle l)) \<and> fb_cb (the_fiber st' (ls_idle l)) \<noteq> None"
  shows "base_ok m (l\<lparr>ls_fib := st'\<rparr>)"
  using assms by (auto simp: base_ok_def agree_off_def state_of_def)

lemma run_idle_ok:
  assumes base: "base_ok m l" and q: "queue_ok m l q" and nt: "state_of l (ls_idle l) \<noteq> State_TERM"
  shows "\<exists>st'. run_idle a l = Inr (l\<lparr>ls_fib := st'\<rparr>) \<and> base_ok m (l\<lparr>ls_fib := st'\<rparr>) \<and> queue_ok m (l\<lparr>ls_fib := st'\<rparr>) q \<and>
     fb_state (the_fiber st' (ls_idle l)) = (if stopping (ls_sched l) then State_TERM else State_HOLD)"
proof -
  let ?i = "ls_idle l" and ?s = "idle_slice (ls_sched l)"
  let ?r = "\<lparr>tr_slice = ?s, tr_tasks = [], tr_addr = a\<rparr>"
  let ?l = "upd_sched (\<lambda>s. s\<lparr>sc_idle := sc_idle s + 1\<rparr>) l"
  have i: "?i \<noteq> m" "resumable (the_fiber (ls_fib l) ?i)" "fb_cb (the_fiber (ls_fib l) ?i) \<noteq> None"
    using base nt by (auto simp: base_ok_def)
  have stop: "idle_slice (ls_sched ?l) = ?s" by (simp add: idle_slice_def stopping_def)
  have "runs m (ls_fib ?l)" "t_main_fiber (snd (ls_fib ?l)) = Some m" "resumable (the_fiber (ls_fib ?l) ?i)"
    using base i(2) by (simp_all add: base_ok_def)
  from swap_in_ok [OF this(1,2) i(1) this(3), of ?r]
  obtain st where s: "swap_in ?r ?i ?l = Inr (upd_sched (fold schedule (tr_tasks ?r)) (?l\<lparr>ls_fib := st\<rparr>))"
    "runs m st" "snd st = snd (ls_fib ?l)"
    "fb_state (the_fiber st ?i) = slice_state (tr_slice ?r) (fb_cb (the_fiber (ls_fib ?l) ?i))"
    "fb_ctx (the_fiber st ?i) = slice_ctx (tr_slice ?r)"
    "tr_slice ?r \<noteq> Finish \<longrightarrow> fb_cb (the_fiber st ?i) = fb_cb (the_fiber (ls_fib ?l) ?i)"
    "\<forall>g. g \<noteq> ?i \<longrightarrow> the_fiber st g = the_fiber (ls_fib ?l) g" by blast
  have st: "swap_in ?r ?i ?l = Inr (?l\<lparr>ls_fib := st\<rparr>)" "agree_off m ?i (ls_fib l) st"
    "fb_state (the_fiber st ?i) = slice_state ?s (fb_cb (the_fiber (ls_fib l) ?i))" "fb_ctx (the_fiber st ?i) = slice_ctx ?s"
    "?s \<noteq> Finish \<longrightarrow> fb_cb (the_fiber st ?i) = fb_cb (the_fiber (ls_fib l) ?i)"
    using s by (simp_all add: agree_off_def upd_sched_def)
  have fs: "fb_state (the_fiber st ?i) = (if stopping (ls_sched l) then State_TERM else State_HOLD)"
    using st(3) i(3) by (cases "stopping (ls_sched l)") (auto simp: idle_slice_def slice_state_def)
  have iq: "?i \<notin> set (q_fibers q)" using q by (auto simp: queue_ok_def fib_ok_def)
  have dec: "upd_sched (\<lambda>s. s\<lparr>sc_idle := sc_idle s - 1\<rparr>) (?l\<lparr>ls_fib := st\<rparr>) = l\<lparr>ls_fib := st\<rparr>"
    by (simp add: upd_sched_def)
  let ?st = "if stopping (ls_sched l) then st else upd_fiber ?i (\<lambda>y. y\<lparr>fb_state := State_HOLD\<rparr>) st"
  have run: "run_idle a l = Inr (l\<lparr>ls_fib := ?st\<rparr>)"
    unfolding run_idle_def Let_def stop using st(1) fs
    by (simp add: dec [simplified] state_of_def set_state_def del: sched_frame(5))
  have a2: "agree_off m ?i (ls_fib l) ?st" using st(2) agree_off_upd [OF st(2) i(1)] by simp
  have "base_ok m (l\<lparr>ls_fib := ?st\<rparr>)"
    by (rule base_ok_idle [OF base a2]) (use fs st(4,5) i(3) in \<open>auto simp: resumable_def idle_slice_def slice_ctx_def\<close>)
  moreover have "queue_ok m (l\<lparr>ls_fib := ?st\<rparr>) q" by (rule queue_ok_agree [OF q a2 iq])
  ultimately show ?thesis using run fs by (intro exI [of _ ?st]) auto
qed

lemma run_round_ok:
  assumes inv: "loop_inv m l" and env: "env_ok m r l"
  shows "\<exists>b l'. run_round cfg tid r l = Inr (b, l') \<and> loop_inv m l'"
proof -
  let ?q = "sc_fibers (ls_sched l)" and ?h = "fs_heap (fst (ls_fib l))"
  have base: "base_ok m l" and q: "queue_ok m l ?q" and act: "sc_active (ls_sched l) = 0"
    using inv by (simp_all add: loop_inv_def)
  have wf: "\<forall>t\<in>set ?q. task_wf t" using q by (simp add: queue_ok_def)
  obtain b' where "(\<forall>t\<in>set ?q. \<not> eligible tid ?h t) \<and> pick_loop tid ?h [] ?q False = Inr (b', None, ?q) \<or>
    (\<exists>xs t ys. ?q = xs @ t # ys \<and> eligible tid ?h t \<and> (\<forall>x\<in>set xs. \<not> eligible tid ?h x) \<and>
       pick_loop tid ?h [] ?q False = Inr (b', Some t, xs @ ys))"
    using pick_loop_split [OF wf, of tid ?h "[]" False] by auto
  then show ?thesis
  proof (elim disjE exE conjE)
    assume p: "pick_loop tid ?h [] ?q False = Inr (b', None, ?q)"
    define l1 where "l1 = (if b' then upd_sched sched_tickle l else l)"
    have l1: "base_ok m l1" "queue_ok m l1 ?q" "sc_fibers (ls_sched l1) = ?q" "sc_active (ls_sched l1) = 0"
      using base q act by (simp_all add: l1_def sched_tickle_def)
    have run: "run_round cfg tid r l = (if state_of l1 (ls_idle l1) = State_TERM then Inr (True, l1)
        else bindE (run_idle (tr_addr r) l1) (\<lambda>l. Inr (False, l)))"
      using p by (simp add: run_round_def Let_def l1_def)
    show ?thesis
    proof (cases "state_of l1 (ls_idle l1) = State_TERM")
      case True
      then show ?thesis using run l1 by (auto simp: loop_inv_def)
    next
      case False
      then show ?thesis using run l1 run_idle_ok [OF l1(1,2) False, of "tr_addr r"] by (auto simp: loop_inv_def)
    qed
  next
    fix xs t ys
    assume t: "?q = xs @ t # ys" "eligible tid ?h t" "pick_loop tid ?h [] ?q False = Inr (b', Some t, xs @ ys)"
    define l1 where "l1 = (if b' then upd_sched sched_tickle else id) (upd_sched (\<lambda>s. s\<lparr>sc_fibers := xs @ ys, sc_active := sc_active s + 1\<rparr>) l)"
    have l1: "base_ok m l1" "sc_fibers (ls_sched l1) = xs @ ys" "sc_active (ls_sched l1) = 1" "ls_idle l1 = ls_idle l"
      using base act by (simp_all add: l1_def sched_tickle_def)
    have same: "queue_ok m l1 z = queue_ok m l z" "fib_ok m l1 f = fib_ok m l f" for z f by (simp_all add: l1_def)
    have qa: "queue_ok m l (xs @ t # ys @ tr_tasks r)" using env t(1) by (simp add: env_ok_def)
    then have q1: "queue_ok m l1 (sc_fibers (ls_sched l1) @ tr_tasks r)"
      by (auto simp: same l1(2) queue_ok_def split: option.splits)
    have wft: "task_wf t" using wf t(1) by simp
    show ?thesis
    proof (cases "tk_fiber t")
      case (Some f)
      have f: "fib_ok m l1 f" "f \<notin> set (q_fibers (sc_fibers (ls_sched l1) @ tr_tasks r))"
        using qa Some by (auto simp: same l1(2) queue_ok_def)
      have "run_round cfg tid r l = bindE (run_fiber r f l1) (\<lambda>l. Inr (False, l))"
        using t(3) Some by (auto simp: run_round_def Let_def l1_def)
      then show ?thesis
        using run_fiber_ok [OF l1(1) q1 f] l1(3) by (auto simp: loop_inv_def)
    next
      case None
      then obtain cb where cb: "tk_cb t = Some cb" using wft by (auto simp: task_wf_def)
      have a: "tr_addr r \<noteq> m" "tr_addr r \<noteq> ls_idle l1" "tr_addr r \<notin> set (q_fibers (sc_fibers (ls_sched l1) @ tr_tasks r))"
        using env t(1) None by (simp_all add: env_ok_def l1(2,4))
      have "run_round cfg tid r l = bindE (run_cb cfg r cb l1) (\<lambda>l. Inr (False, l))"
        using t(3) None cb by (auto simp: run_round_def Let_def l1_def)
      then show ?thesis
        using run_cb_ok [OF l1(1) q1 a, of cfg cb] l1(3) by (auto simp: loop_inv_def)
    qed
  qed
qed

section \<open>Draining the queue\<close>

text \<open>An environment in which every task runs to completion and schedules nothing.\<close>

definition finishing :: "nat \<Rightarrow> task_run" where
  "finishing a = \<lparr>tr_slice = Finish, tr_tasks = [], tr_addr = a\<rparr>"

lemma q_fibers_cb_tasks [simp]: "q_fibers (map cb_task cs) = []"
  by (induction cs) (simp_all add: cb_task_def)

lemma queue_ok_cb_tasks [simp]: "queue_ok m l (map cb_task cs)"
  by (auto simp: queue_ok_def task_wf_def cb_task_def)

lemma run_cb_finish:
  assumes base: "base_ok m l" and q: "sc_fibers (ls_sched l) = map cb_task cs"
    and a: "tr_addr r \<noteq> m" "tr_addr r \<noteq> ls_idle l" and r: "tr_slice r = Finish" "tr_tasks r = []"
  shows "\<exists>st g. run_cb cfg r cb l =
     Inr (l\<lparr>ls_sched := (ls_sched l)\<lparr>sc_active := sc_active (ls_sched l) - 1, sc_ran := sc_ran (ls_sched l) @ [cb]\<rparr>,
            ls_fib := st, ls_cb_fiber := Some g\<rparr>) \<and>
     base_ok m (l\<lparr>ls_fib := st, ls_cb_fiber := Some g\<rparr>) \<and>
     the_fiber st (ls_idle l) = the_fiber (ls_fib l) (ls_idle l)"
proof -
  let ?h = "\<lambda>s. s\<lparr>sc_ran := sc_ran s @ [cb]\<rparr>"
  obtain g st0 where g: "(case ls_cb_fiber l of
              Some g \<Rightarrow> bindE (Fiber_reset g (Some cb) (ls_fib l)) (\<lambda>st. Inr (g, l\<lparr>ls_fib := st\<rparr>))
            | None \<Rightarrow> Inr (tr_addr r, l\<lparr>ls_fib := Fiber_new cfg (tr_addr r) (Some cb) 0 False (ls_fib l),
                                          ls_cb_fiber := Some (tr_addr r)\<rparr>)) =
           Inr (g, l\<lparr>ls_fib := st0, ls_cb_fiber := Some g\<rparr>)"
    "agree_off m g (ls_fib l) st0" "g \<noteq> m" "g \<noteq> ls_idle l"
    "resumable (the_fiber st0 g)" "fb_stack (the_fiber st0 g)" "fb_cb (the_fiber st0 g) = Some cb"
    using cb_fiber_ready [OF base a, where cb = cb and cfg = cfg] by blast
  define l0 where "l0 = upd_sched ?h (l\<lparr>ls_fib := st0, ls_cb_fiber := Some g\<rparr>)"
  have l0: "ls_fib l0 = st0" by (simp add: l0_def)
  have "runs m st0" "t_main_fiber (snd st0) = Some m"
    using g(2) base by (simp_all add: agree_off_def base_ok_def)
  from swap_in_ok [of m l0 g r, unfolded l0 g(7) r, OF this g(3,5)]
  obtain st where st: "swap_in r g l0 = Inr (upd_sched (fold schedule []) (l0\<lparr>ls_fib := st\<rparr>))"
    "runs m st" "snd st = snd st0" "fb_state (the_fiber st g) = slice_state Finish (Some cb)"
    "fb_stack (the_fiber st g) = fb_stack (the_fiber st0 g)"
    "\<forall>f. f \<noteq> g \<longrightarrow> the_fiber st f = the_fiber st0 f" by blast
  let ?st = "upd_fiber g (\<lambda>x. x\<lparr>fb_cb := None, fb_ctx := Entry False, fb_state := State_INIT\<rparr>) st"
  have ag: "agree_off m g (ls_fib l) ?st"
    using g(2,3) st(2,3,6) by (auto simp: agree_off_def intro: runs_upd)
  have t: "fb_state (the_fiber st g) = State_TERM" using st(4) by (simp add: slice_state_def)
  then have res: "Fiber_reset g None st = Inr ?st" using st(5) g(6) by (simp add: Fiber_reset_def)
  define l1 where "l1 = dec_active (l0\<lparr>ls_fib := st\<rparr>)"
  have s1: "state_of l1 g = State_TERM" "ls_fib l1 = st" by (simp_all add: l1_def dec_active_def state_of_def t)
  have sw: "swap_in r g l0 = Inr (l0\<lparr>ls_fib := st\<rparr>)" using st(1) by (simp add: upd_sched_def)
  have "run_cb cfg r cb l = Inr (l1\<lparr>ls_fib := ?st\<rparr>)"
    unfolding run_cb_def g(1)
    by (simp only: bindE_Inr Let_def prod.case l0_def [symmetric] sw l1_def [symmetric] s1 res) simp
  moreover have "base_ok m (l\<lparr>ls_fib := ?st, ls_cb_fiber := Some g\<rparr>)"
    by (rule base_ok_keep [OF base ag g(4,3)]) (use st(5) g(6) in simp_all)
  ultimately show ?thesis
    using ag g(4) by (intro exI [of _ ?st] exI [of _ g]) (simp add: l1_def l0_def dec_active_def upd_sched_def agree_off_def)
qed

lemma run_round_cb:
  assumes base: "base_ok m l" and q: "sc_fibers (ls_sched l) = cb_task c # map cb_task cs"
    and a: "a \<noteq> m" "a \<noteq> ls_idle l" and act: "sc_active (ls_sched l) = 0"
  shows "\<exists>st g. run_round cfg tid (finishing a) l =
     Inr (False, l\<lparr>ls_sched := (ls_sched l)\<lparr>sc_fibers := map cb_task cs, sc_ran := sc_ran (ls_sched l) @ [c]\<rparr>,
            ls_fib := st, ls_cb_fiber := Some g\<rparr>) \<and>
     base_ok m (l\<lparr>ls_fib := st, ls_cb_fiber := Some g\<rparr>) \<and>
     the_fiber st (ls_idle l) = the_fiber (ls_fib l) (ls_idle l)"
proof -
  let ?l = "upd_sched (\<lambda>s. s\<lparr>sc_fibers := map cb_task cs, sc_active := sc_active s + 1\<rparr>) l"
  have "run_round cfg tid (finishing a) l = bindE (run_cb cfg (finishing a) c ?l) (\<lambda>l. Inr (False, l))"
    using q by (simp add: run_round_def cb_task_def Let_def)
  moreover obtain st g where "run_cb cfg (finishing a) c ?l =
     Inr (?l\<lparr>ls_sched := (ls_sched ?l)\<lparr>sc_active := sc_active (ls_sched ?l) - 1, sc_ran := sc_ran (ls_sched ?l) @ [c]\<rparr>,
            ls_fib := st, ls_cb_fiber := Some g\<rparr>)" "base_ok m (?l\<lparr>ls_fib := st, ls_cb_fiber := Some g\<rparr>)"
    "the_fiber st (ls_idle l) = the_fiber (ls_fib l) (ls_idle l)"
    using run_cb_finish [of m ?l cs "finishing a" cfg c] base a by (auto simp: finishing_def)
  moreover have "base_ok m (?l\<lparr>ls_fib := st, ls_cb_fiber := Some g\<rparr>) = base_ok m (l\<lparr>ls_fib := st, ls_cb_fiber := Some g\<rparr>)"
    by (simp add: base_ok_def state_of_def upd_sched_def)
  ultimately show ?thesis
    using act by (intro exI [of _ st] exI [of _ g]) (simp add: upd_sched_def)
qed

lemma run_loop_drains:
  assumes "base_ok m l" and "sc_fibers (ls_sched l) = map cb_task cs" and "a \<noteq> m" "a \<noteq> ls_idle l"
    and "sc_active (ls_sched l) = 0" and "sc_autostop (ls_sched l)" and "sc_stop (ls_sched l)"
    and "state_of l (ls_idle l) \<noteq> State_TERM"
  shows "\<exists>l'. run_loop cfg tid (length cs + 2) (\<lambda>_. finishing a) l = Inr (True, l') \<and>
     sc_ran (ls_sched l') = sc_ran (ls_sched l) @ cs \<and> sc_fibers (ls_sched l') = [] \<and> base_ok m l'"
  using assms
proof (induction cs arbitrary: l)
  case Nil
  obtain st where st: "run_idle a l = Inr (l\<lparr>ls_fib := st\<rparr>)" "base_ok m (l\<lparr>ls_fib := st\<rparr>)"
    "fb_state (the_fiber st (ls_idle l)) = State_TERM"
    using run_idle_ok [OF Nil.prems(1), of "[]" a] Nil.prems by (auto simp: queue_ok_def stopping_def)
  have "run_round cfg tid (finishing a) l = Inr (False, l\<lparr>ls_fib := st\<rparr>)"
    using Nil.prems st(1) by (simp add: run_round_def finishing_def)
  moreover have "run_round cfg tid (finishing a) (l\<lparr>ls_fib := st\<rparr>) = Inr (True, l\<lparr>ls_fib := st\<rparr>)"
    using Nil.prems st(3) by (simp add: run_round_def state_of_def)
  ultimately show ?case using Nil.prems(2) st(2) by (simp add: numeral_2_eq_2)
next
  case (Cons c cs)
  obtain st g where r: "run_round cfg tid (finishing a) l =
     Inr (False, l\<lparr>ls_sched := (ls_sched l)\<lparr>sc_fibers := map cb_task cs, sc_ran := sc_ran (ls_sched l) @ [c]\<rparr>,
            ls_fib := st, ls_cb_fiber := Some g\<rparr>)"
     "base_ok m (l\<lparr>ls_fib := st, ls_cb_fiber := Some g\<rparr>)" 
     "the_fiber st (ls_idle l) = the_fiber (ls_fib l) (ls_idle l)"
    using run_round_cb [of m l c cs a cfg tid] Cons.prems by auto
  let ?l = "l\<lparr>ls_sched := (ls_sched l)\<lparr>sc_fibers := map cb_task cs, sc_ran := sc_ran (ls_sched l) @ [c]\<rparr>,
            ls_fib := st, ls_cb_fiber := Some g\<rparr>"
  have "base_ok m ?l" using r(2) by (simp add: base_ok_def state_of_def)
  moreover have "state_of ?l (ls_idle ?l) \<noteq> State_TERM" using r(3) Cons.prems(8) by (simp add: state_of_def)
  ultimately obtain l' where "run_loop cfg tid (length cs + 2) (\<lambda>_. finishing a) ?l = Inr (True, l')"
    "sc_ran (ls_sched l') = sc_ran (ls_sched ?l) @ cs" "sc_fibers (ls_sched l') = []" "base_ok m l'"
    using Cons.IH [of ?l] Cons.prems by auto
  then show ?case using r(1) by simp
qed

section \<open>Properties\<close>

definition sched_demo :: "task list \<Rightarrow> sched" where
  "sched_demo q = \<lparr>sc_fibers = q, sc_thread_count = 0, sc_active = 0, sc_idle = 0, sc_stop = True, sc_autostop = True,
     sc_root_thread = 1, sc_root_fiber = Some 0, sc_threads = [], sc_thread_ids = [1], sc_tickles = 0, sc_ran = []\<rparr>"

definition loop_demo :: "task list \<Rightarrow> loop_st" where
  "loop_demo q = \<lparr>ls_sched = sched_demo q, ls_fib = fiber_demo, ls_cb_fiber = None, ls_idle = 1\<rparr>"

lemma loop_demo_base: "base_ok 0 (loop_demo q)"
  using fiber_demo_facts by (simp add: base_ok_def loop_demo_def)

lemma loop_demo_idle: "state_of (loop_demo q) (ls_idle (loop_demo q)) = State_INIT"
  by (simp add: loop_demo_def state_of_def fiber_demo_def the_fiber_def)

text \<open>
  The queue is served in order and loses nothing: for a queue of non-empty tasks, the search of a thread takes the
  first task that is not bound to another thread and whose fiber is not executing, and
  leaves all other tasks in their order; if it takes none, every task is bound elsewhere or executing.
\<close>

theorem pick_first:
  assumes "\<forall>t\<in>set q. tk_fiber t \<noteq> None \<or> tk_cb t \<noteq> None"
  shows "\<exists>b. (\<forall>t\<in>set q. \<not> eligible tid h t) \<and> pick_loop tid h [] q False = Inr (b, None, q) \<or>
    (\<exists>xs t ys. q = xs @ t # ys \<and> eligible tid h t \<and> (\<forall>x\<in>set xs. \<not> eligible tid h x) \<and>
       pick_loop tid h [] q False = Inr (b, Some t, xs @ ys))"
  using pick_loop_split [of q tid h "[]" False] assms by (auto simp: task_wf_def)

theorem pick_first_witness:
  "\<exists>b. pick_loop 1 (\<lambda>_. the_fiber fiber_demo 1) [] [cb_task 3, cb_task 4] False = Inr (b, Some (cb_task 3), [cb_task 4])"
proof -
  have "\<forall>t\<in>set [cb_task 3, cb_task 4]. tk_fiber t \<noteq> None \<or> tk_cb t \<noteq> None" by (simp add: cb_task_def)
  from pick_first [OF this, of 1 "\<lambda>_. the_fiber fiber_demo 1"] show ?thesis
    by (auto simp: eligible_def cb_task_def Cons_eq_append_conv)
qed



text \<open>
  C12. Stopping drains the queue: with \<open>stop\<close> requested and callbacks that run to completion, the loop
  runs every queued callback, in the order of the queue, then lets the idle fiber end and returns, after
  exactly two more rounds than there are callbacks.
\<close>

theorem scheduler_drains:
  assumes "base_ok m l" and "sc_fibers (ls_sched l) = map cb_task cs" and "a \<noteq> m" and "a \<noteq> ls_idle l"
    and "sc_active (ls_sched l) = 0" and "sc_autostop (ls_sched l)" and "sc_stop (ls_sched l)"
    and "state_of l (ls_idle l) \<noteq> State_TERM"
  shows "\<exists>l'. run_loop cfg tid (length cs + 2) (\<lambda>_. finishing a) l = Inr (True, l') \<and>
     sc_ran (ls_sched l') = sc_ran (ls_sched l) @ cs \<and> sc_fibers (ls_sched l') = []"
  using run_loop_drains [OF assms, of cfg tid] by blast

theorem scheduler_drains_witness:
  "\<exists>l'. run_loop 1024 1 5 (\<lambda>_. finishing 5) (loop_demo (map cb_task [7, 8, 9])) = Inr (True, l') \<and> sc_ran (ls_sched l') = [7, 8, 9]"
proof -
  have "sc_fibers (ls_sched (loop_demo q)) = q" "sc_active (ls_sched (loop_demo q)) = 0" "ls_idle (loop_demo q) = 1"
    "sc_autostop (ls_sched (loop_demo q))" "sc_stop (ls_sched (loop_demo q))" "sc_ran (ls_sched (loop_demo q)) = []" for q
    by (simp_all add: loop_demo_def sched_demo_def)
  note f = this
  have "\<exists>l'. run_loop 1024 1 (length [7, 8, 9 :: nat] + 2) (\<lambda>_. finishing 5) (loop_demo (map cb_task [7, 8, 9])) = Inr (True, l') \<and>
      sc_ran (ls_sched l') = sc_ran (ls_sched (loop_demo (map cb_task [7, 8, 9]))) @ [7, 8, 9] \<and> sc_fibers (ls_sched l') = []"
    by (rule scheduler_drains [OF loop_demo_base f(1) _ _ f(2,4,5)]) (simp_all add: f loop_demo_idle [unfolded f One_nat_def])
  then show ?thesis by (auto simp: f(6) eval_nat_numeral simp del: run_loop.simps)
qed

text \<open>
  The guard in front of switching into a queued fiber never holds anything back (a state always
  differs from \<open>TERM\<close> or from \<open>ERROR\<close>): a fiber that has ended and is scheduled again is entered, and
  the final assertion of its entry function fails.
\<close>

theorem ended_fiber_rescheduled:
  assumes "base_ok m l" and "sc_fibers (ls_sched l) = fiber_task f # q" and "f \<noteq> m"
    and "state_of l f \<in> {State_TERM, State_ERROR}" and "fb_ctx (the_fiber (ls_fib l) f) = Finished"
  shows "run_round cfg tid r l = Inl (Assert_failed ''never reach here'')"
proof -
  let ?l = "upd_sched (\<lambda>s. s\<lparr>sc_fibers := q, sc_active := sc_active s + 1\<rparr>) l"
  have ne: "fb_state (fs_heap (fst (ls_fib l)) f) \<noteq> State_EXEC" using assms(4) by (auto simp: state_of_def the_fiber_def)
  have "t_main_fiber (snd (ls_fib l)) = Some m" using assms(1) by (simp add: base_ok_def)
  then have "swapIn f (ls_fib l) = Inl (Assert_failed ''never reach here'')"
    using assms(3,5) ne by (simp add: swapIn_def switch_defs the_fiber_def [symmetric])
  then have "run_fiber r f ?l = Inl (Assert_failed ''never reach here'')"
    by (simp add: run_fiber_def swap_in_def run_slice_def)
  moreover have "run_round cfg tid r l = bindE (run_fiber r f ?l) (\<lambda>l. Inr (False, l))"
    using assms(2) ne by (auto simp: run_round_def fiber_task_def Let_def)
  ultimately show ?thesis by simp
qed

theorem ended_fiber_rescheduled_witness:
  "\<exists>l. state_of l 1 = State_TERM \<and> run_round 1024 1 (finishing 5) l = Inl (Assert_failed ''never reach here'')"
proof -
  let ?st = "upd_fiber 2 (\<lambda>x. x\<lparr>fb_state := State_TERM, fb_ctx := Finished\<rparr>) (upd_fiber 1 (\<lambda>x. x\<lparr>fb_state := State_TERM, fb_ctx := Finished\<rparr>) fiber_demo)"
  let ?l = "(loop_demo [fiber_task 1])\<lparr>ls_fib := ?st, ls_idle := 2\<rparr>"
  have "base_ok 0 ?l"
    using fiber_demo_facts by (auto simp: base_ok_def loop_demo_def state_of_def intro!: runs_upd)
  moreover have "sc_fibers (ls_sched ?l) = [fiber_task 1]" by (simp add: loop_demo_def sched_demo_def)
  ultimately show ?thesis
    using ended_fiber_rescheduled [of 0 ?l 1 "[]" 1024 1 "finishing 5"] by (intro exI [of _ ?l]) (auto simp: state_of_def)
qed

end
