(* ===== verification/Cool_Timer.thy ===== *)
theory Cool_Timer
  imports Cool_Containers
begin

text \<open>
  Timers (src/timer.h, src/timer.cpp): the ordered set of pending timers, cancelling, refreshing and
  resetting a timer, and the collection of the callbacks that are due. Timers live in a heap
  addressed by numbers (the pointers the comparator falls back on); the clock reading and the
  address the allocator returns are arguments of the operations that ask for them.
\<close>

section \<open>State\<close>

text \<open>
  A callback is a user function or, from \<open>addConditionTimer\<close>, \<open>OnTimer\<close> bound to a weak pointer
  and a function; an empty \<open>std::function\<close> is \<^const>\<open>None\<close>.
\<close>

datatype callback = Fn nat | Bound_OnTimer nat "callback option"

record timer =
  m_recurring :: bool
  m_ms :: u64
  m_next :: u64
  m_cb :: "callback option"

record timer_manager =
  tm_heap :: "nat \<Rightarrow> timer"
  tm_live :: "nat list"
  m_timers :: "nat list"
  m_tickled :: bool
  m_previous_time :: u64

definition Comparator :: "(nat \<Rightarrow> timer) \<Rightarrow> nat option \<Rightarrow> nat option \<Rightarrow> bool" where
  "Comparator h lhs rhs = (case (lhs, rhs) of
      (None, None) \<Rightarrow> False
    | (None, Some _) \<Rightarrow> True
    | (Some _, None) \<Rightarrow> False
    | (Some l, Some r) \<Rightarrow>
        if m_next (h l) < m_next (h r) then True
        else if m_next (h r) < m_next (h l) then False
        else l < r)"

definition timer_less :: "(nat \<Rightarrow> timer) \<Rightarrow> nat \<Rightarrow> nat \<Rightarrow> bool" where
  "timer_less h a b = Comparator h (Some a) (Some b)"

definition Timer_new :: "u64 \<Rightarrow> u64 \<Rightarrow> callback option \<Rightarrow> bool \<Rightarrow> timer" where
  "Timer_new now ms cb recurring = \<lparr>m_recurring = recurring, m_ms = ms, m_next = now + ms, m_cb = cb\<rparr>"

definition Timer_at :: "u64 \<Rightarrow> timer" where
  "Timer_at nxt = \<lparr>m_recurring = False, m_ms = 0, m_next = nxt, m_cb = None\<rparr>"

definition TimerManager_new :: "(nat \<Rightarrow> timer) \<Rightarrow> u64 \<Rightarrow> timer_manager" where
  "TimerManager_new h now =
     \<lparr>tm_heap = h, tm_live = [], m_timers = [], m_tickled = False, m_previous_time = now\<rparr>"

section \<open>The ordered set\<close>

definition timers_find :: "nat \<Rightarrow> timer_manager \<Rightarrow> nat option" where
  "timers_find t tm = ord_find (timer_less (tm_heap tm)) id t (m_timers tm)"

definition timers_insert :: "nat \<Rightarrow> timer_manager \<Rightarrow> timer_manager" where
  "timers_insert t tm = tm\<lparr>m_timers := ord_insert (timer_less (tm_heap tm)) id t (m_timers tm)\<rparr>"

text \<open>Erasing through an iterator; the end iterator must not be erased.\<close>

definition timers_erase :: "nat option \<Rightarrow> timer_manager \<Rightarrow> timer_manager outcome" where
  "timers_erase it tm = (case it of None \<Rightarrow> Inl Bad_iterator
     | Some t \<Rightarrow> Inr (tm\<lparr>m_timers := ord_erase (timer_less (tm_heap tm)) id t (m_timers tm)\<rparr>))"

definition upd_timer :: "nat \<Rightarrow> (timer \<Rightarrow> timer) \<Rightarrow> timer_manager \<Rightarrow> timer_manager" where
  "upd_timer t f tm = tm\<lparr>tm_heap := (tm_heap tm)(t := f (tm_heap tm t))\<rparr>"

section \<open>Operations\<close>

definition cancel :: "nat \<Rightarrow> timer_manager \<Rightarrow> (bool \<times> timer_manager) outcome" where
  "cancel t tm =
     (if m_cb (tm_heap tm t) \<noteq> None
      then let tm = upd_timer t (\<lambda>x. x\<lparr>m_cb := None\<rparr>) tm
           in bindE (timers_erase (timers_find t tm) tm) (\<lambda>tm. Inr (True, tm))
      else Inr (False, tm))"

definition refresh :: "u64 \<Rightarrow> nat \<Rightarrow> timer_manager \<Rightarrow> (bool \<times> timer_manager) outcome" where
  "refresh now t tm =
     (if m_cb (tm_heap tm t) = None then Inr (False, tm)
      else if timers_find t tm = None then Inr (False, tm)
      else bindE (timers_erase (timers_find t tm) tm) (\<lambda>tm.
        Inr (True, timers_insert t (upd_timer t (\<lambda>x. x\<lparr>m_next := now + m_ms x\<rparr>) tm))))"

text \<open>
  The locked overload of \<open>addTimer\<close>; the returned flag says that \<open>onTimerInsertAtFront\<close> is
  called once the lock is released.
\<close>

definition addTimer_locked :: "nat \<Rightarrow> timer_manager \<Rightarrow> bool \<times> timer_manager" where
  "addTimer_locked val tm =
     (let tm = timers_insert val tm;
          at_front = (take 1 (m_timers tm) = [val] \<and> \<not> m_tickled tm)
      in (at_front, if at_front then tm\<lparr>m_tickled := True\<rparr> else tm))"

definition reset :: "u64 \<Rightarrow> nat \<Rightarrow> u64 \<Rightarrow> bool \<Rightarrow> timer_manager \<Rightarrow> ((bool \<times> bool) \<times> timer_manager) outcome" where
  "reset now t ms from_now tm =
     (if ms = m_ms (tm_heap tm t) \<and> \<not> from_now then Inr ((True, False), tm)
      else if m_cb (tm_heap tm t) = None then Inr ((False, False), tm)
      else if timers_find t tm = None then Inr ((False, False), tm)
      else bindE (timers_erase (timers_find t tm) tm) (\<lambda>tm.
        let x = tm_heap tm t;
            start = (if from_now then now else m_next x - m_ms x);
            (front, tm) = addTimer_locked t (upd_timer t (\<lambda>x. x\<lparr>m_ms := ms, m_next := start + ms\<rparr>) tm)
        in Inr ((True, front), tm)))"

definition addTimer :: "u64 \<Rightarrow> nat \<Rightarrow> u64 \<Rightarrow> callback option \<Rightarrow> bool \<Rightarrow> timer_manager \<Rightarrow> bool \<times> timer_manager" where
  "addTimer now a ms cb recurring tm =
     addTimer_locked a (tm\<lparr>tm_heap := (tm_heap tm)(a := Timer_new now ms cb recurring), tm_live := a # tm_live tm\<rparr>)"

definition hasTimer :: "timer_manager \<Rightarrow> bool" where
  "hasTimer tm = (m_timers tm \<noteq> [])"

text \<open>
  What invoking a callback runs: a condition timer runs its function only while the
  condition object is alive; an empty function throws.
\<close>

fun invoke :: "(nat \<Rightarrow> bool) \<Rightarrow> callback option \<Rightarrow> nat list outcome" where
  "invoke alive None = Inl (Exception ''bad_function_call'')"
| "invoke alive (Some (Fn f)) = Inr [f]"
| "invoke alive (Some (Bound_OnTimer w cb)) = (if alive w then invoke alive cb else Inr [])"

definition addConditionTimer ::
  "u64 \<Rightarrow> nat \<Rightarrow> u64 \<Rightarrow> callback option \<Rightarrow> nat \<Rightarrow> bool \<Rightarrow> timer_manager \<Rightarrow> bool \<times> timer_manager" where
  "addConditionTimer now a ms cb weak_cond recurring tm =
     addTimer now a ms (Some (Bound_OnTimer weak_cond cb)) recurring tm"

definition getNextTimer :: "u64 \<Rightarrow> timer_manager \<Rightarrow> u64 \<times> timer_manager" where
  "getNextTimer now tm =
     (let tm = tm\<lparr>m_tickled := False\<rparr> in
      case m_timers tm of
        [] \<Rightarrow> (- 1, tm)
      | t # _ \<Rightarrow> if now \<ge> m_next (tm_heap tm t) then (0, tm) else (m_next (tm_heap tm t) - now, tm))"

definition detectClockRollover :: "u64 \<Rightarrow> timer_manager \<Rightarrow> bool \<times> timer_manager" where
  "detectClockRollover now tm =
     (now < m_previous_time tm \<and> now < m_previous_time tm - 60 * 60 * 1000, tm\<lparr>m_previous_time := now\<rparr>)"

text \<open>The last loop of \<open>listExpiredCb\<close>: collect the callbacks, re-arm or retire the timers.\<close>

fun expire :: "u64 \<Rightarrow> nat list \<Rightarrow> callback option list \<Rightarrow> timer_manager \<Rightarrow> callback option list \<times> timer_manager" where
  "expire now [] cbs tm = (cbs, tm)"
| "expire now (t # ts) cbs tm =
     (let cbs = cbs @ [m_cb (tm_heap tm t)];
          tm = (if m_recurring (tm_heap tm t)
                then timers_insert t (upd_timer t (\<lambda>x. x\<lparr>m_next := now + m_ms x\<rparr>) tm)
                else upd_timer t (\<lambda>x. x\<lparr>m_cb := None\<rparr>) tm)
      in expire now ts cbs tm)"

text \<open>
  \<open>listExpiredCb\<close> holds the lock twice: once (shared) to look whether there are timers at all,
  once (exclusive) to take the due ones out. \<open>a\<close> is the address of the temporary \<open>now_timer\<close>.
\<close>

definition listExpired_check :: "timer_manager \<Rightarrow> bool" where
  "listExpired_check tm = (m_timers tm = [])"

definition listExpired_take ::
  "u64 \<Rightarrow> nat \<Rightarrow> callback option list \<Rightarrow> timer_manager \<Rightarrow> (callback option list \<times> timer_manager) outcome" where
  "listExpired_take now a cbs tm0 =
     (let (rollover, tm) = detectClockRollover now tm0;
          h = (tm_heap tm)(a := Timer_at now);
          it = (if rollover then []
                else dropWhile (\<lambda>t. m_next (h t) = now) (lower_bound (timer_less h) id a (m_timers tm)));
          expireds = take (length (m_timers tm) - length it) (m_timers tm)
      in if \<not> rollover \<and> m_timers tm = [] then Inl Bad_iterator
         else if \<not> rollover \<and> m_next (tm_heap tm (hd (m_timers tm))) > now then Inr (cbs, tm)
         else Inr (expire now expireds cbs (tm\<lparr>m_timers := it\<rparr>)))"

definition listExpiredCb ::
  "u64 \<Rightarrow> nat \<Rightarrow> callback option list \<Rightarrow> timer_manager \<Rightarrow> (callback option list \<times> timer_manager) outcome" where
  "listExpiredCb now a cbs tm =
     (if listExpired_check tm then Inr (cbs, tm) else listExpired_take now a cbs tm)"

section \<open>The comparator orders the set\<close>

lemma timer_less_iff:
  "timer_less h a b \<longleftrightarrow> m_next (h a) < m_next (h b) \<or> m_next (h a) = m_next (h b) \<and> a < b"
  by (auto simp: timer_less_def Comparator_def)

interpretation timer_order: weak_order "timer_less h" for h
  by unfold_locales (auto simp: timer_less_iff)

lemma equiv_by_timer_less [simp]: "equiv_by (timer_less h) a b \<longleftrightarrow> a = b"
  by (auto simp: equiv_by_def timer_less_iff)

abbreviation sorted_timers :: "(nat \<Rightarrow> timer) \<Rightarrow> nat list \<Rightarrow> bool" where
  "sorted_timers h ts \<equiv> ord_sorted (timer_less h) id ts"

lemma sorted_timers_cong:
  assumes "\<And>t. t \<in> set ts \<Longrightarrow> m_next (h' t) = m_next (h t)"
  shows "sorted_timers h' ts \<longleftrightarrow> sorted_timers h ts"
  using assms unfolding ord_sorted_def
  by (auto simp: timer_less_iff elim!: sorted_wrt_mono_rel [rotated])

lemma sorted_timers_distinct: "sorted_timers h ts \<Longrightarrow> distinct ts"
  by (induction ts) (auto simp: ord_sorted_def timer_less_iff)

lemma timers_find_iff:
  "sorted_timers (tm_heap tm) (m_timers tm) \<Longrightarrow>
     timers_find t tm = (if t \<in> set (m_timers tm) then Some t else None)"
  using timer_order.find_Some [of "tm_heap tm" id "m_timers tm" t t] timer_order.find_None [of "tm_heap tm" id "m_timers tm" t]
  by (auto simp: timers_find_def)

text \<open>
  The representation invariant: the set is sorted by the current firing times, holds live
  timers only, and holds every live timer that still has a callback.
\<close>

definition tm_wf :: "timer_manager \<Rightarrow> bool" where
  "tm_wf tm \<longleftrightarrow>
     sorted_timers (tm_heap tm) (m_timers tm) \<and> set (m_timers tm) \<subseteq> set (tm_live tm) \<and>
     (\<forall>t\<in>set (tm_live tm). m_cb (tm_heap tm t) \<noteq> None \<longrightarrow> t \<in> set (m_timers tm))"

lemma tm_wf_sorted: "tm_wf tm \<Longrightarrow> sorted_timers (tm_heap tm) (m_timers tm)"
  by (simp add: tm_wf_def)

lemma timers_erase_ok:
  assumes "tm_wf tm" and "t \<in> set (m_timers tm)"
  shows "timers_erase (timers_find t tm) tm = Inr (tm\<lparr>m_timers := filter (\<lambda>x. x \<noteq> t) (m_timers tm)\<rparr>)"
  using assms by (simp add: timers_find_iff tm_wf_def timers_erase_def ord_erase_def)

lemma sorted_timers_filter: "sorted_timers h ts \<Longrightarrow> sorted_timers h (filter P ts)"
  by (simp add: ord_sorted_def sorted_wrt_filter)

text \<open>Putting a timer back under a new firing time.\<close>

lemma timers_insert_ok:
  assumes "sorted_timers (tm_heap tm) (m_timers tm)" and "t \<notin> set (m_timers tm)"
  shows "sorted_timers (tm_heap tm) (m_timers (timers_insert t tm)) \<and>
         set (m_timers (timers_insert t tm)) = insert t (set (m_timers tm)) \<and>
         tm_heap (timers_insert t tm) = tm_heap tm \<and> tm_live (timers_insert t tm) = tm_live tm \<and>
         m_tickled (timers_insert t tm) = m_tickled tm \<and> m_previous_time (timers_insert t tm) = m_previous_time tm"
proof -
  have n: "ord_find (timer_less (tm_heap tm)) id (id t) (m_timers tm) = None"
    using timers_find_iff [OF assms(1), of t] assms(2) by (simp add: timers_find_def)
  show ?thesis
    using timer_order.insert_sorted [OF assms(1), of t] timer_order.set_insert [OF assms(1) n]
    by (simp add: timers_insert_def)
qed

lemma upd_timer_sorted:
  assumes "sorted_timers (tm_heap tm) ts" and "t \<notin> set ts"
  shows "sorted_timers (tm_heap (upd_timer t f tm)) ts"
proof -
  have "sorted_timers ((tm_heap tm)(t := f (tm_heap tm t))) ts \<longleftrightarrow> sorted_timers (tm_heap tm) ts"
    by (rule sorted_timers_cong) (use assms(2) in auto)
  then show ?thesis using assms(1) by (simp add: upd_timer_def)
qed

lemma addTimer_locked_frame:
  "m_timers (snd (addTimer_locked t tm)) = m_timers (timers_insert t tm)"
  "tm_heap (snd (addTimer_locked t tm)) = tm_heap tm"
  "tm_live (snd (addTimer_locked t tm)) = tm_live tm"
  by (simp_all add: addTimer_locked_def Let_def timers_insert_def)

section \<open>Every operation keeps the invariant\<close>

lemma TimerManager_new_wf: "tm_wf (TimerManager_new h now)"
  by (simp add: TimerManager_new_def tm_wf_def)

lemma cancel_ok:
  assumes wf: "tm_wf tm" and t: "t \<in> set (tm_live tm)"
  shows "\<exists>tm'. cancel t tm = Inr (m_cb (tm_heap tm t) \<noteq> None, tm') \<and> tm_wf tm' \<and>
     m_cb (tm_heap tm' t) = None \<and> tm_live tm' = tm_live tm \<and>
     (m_cb (tm_heap tm t) \<noteq> None \<longrightarrow> m_timers tm' = filter (\<lambda>x. x \<noteq> t) (m_timers tm)) \<and>
     (\<forall>u. u \<noteq> t \<longrightarrow> tm_heap tm' u = tm_heap tm u)"
proof (cases "m_cb (tm_heap tm t) = None")
  case True
  then show ?thesis using wf by (simp add: cancel_def)
next
  case False
  then have m: "t \<in> set (m_timers tm)" using wf t by (simp add: tm_wf_def)
  let ?tm = "upd_timer t (\<lambda>x. x\<lparr>m_cb := None\<rparr>) tm"
  have s: "sorted_timers (tm_heap ?tm) (m_timers tm)"
    using wf sorted_timers_cong [of "m_timers tm" "tm_heap ?tm" "tm_heap tm"] by (simp add: tm_wf_def upd_timer_def)
  then have wf1: "tm_wf ?tm" using wf by (auto simp: tm_wf_def upd_timer_def)
  have "cancel t tm = Inr (True, ?tm\<lparr>m_timers := filter (\<lambda>x. x \<noteq> t) (m_timers tm)\<rparr>)"
    using False m timers_erase_ok [OF wf1, of t] by (simp add: cancel_def Let_def) (simp add: upd_timer_def)
  then show ?thesis
    using False wf wf1 sorted_timers_filter [OF s] by (auto simp: tm_wf_def upd_timer_def)
qed

lemma reinsert_wf:
  assumes wf: "tm_wf tm" and t: "t \<in> set (m_timers tm)"
    and f: "\<And>x. m_cb (f x) = m_cb x"
  shows "tm_wf (timers_insert t (upd_timer t f (tm\<lparr>m_timers := filter (\<lambda>x. x \<noteq> t) (m_timers tm)\<rparr>)))"
proof -
  let ?tm = "upd_timer t f (tm\<lparr>m_timers := filter (\<lambda>x. x \<noteq> t) (m_timers tm)\<rparr>)"
  have "sorted_timers (tm_heap tm) (filter (\<lambda>x. x \<noteq> t) (m_timers tm))"
    using wf by (simp add: tm_wf_def sorted_timers_filter)
  then have "sorted_timers (tm_heap ?tm) (m_timers ?tm)"
    using upd_timer_sorted [of "tm\<lparr>m_timers := filter (\<lambda>x. x \<noteq> t) (m_timers tm)\<rparr>" "m_timers ?tm" t f]
    by (simp add: upd_timer_def)
  from timers_insert_ok [OF this, of t] show ?thesis
    using wf t f unfolding tm_wf_def by (auto simp: upd_timer_def)
qed

lemma refresh_ok:
  assumes wf: "tm_wf tm" and t: "t \<in> set (tm_live tm)"
  shows "\<exists>tm'. refresh now t tm = Inr (m_cb (tm_heap tm t) \<noteq> None, tm') \<and> tm_wf tm' \<and>
     tm_live tm' = tm_live tm \<and> set (m_timers tm') = set (m_timers tm) \<and>
     tm_heap tm' = (if m_cb (tm_heap tm t) = None then tm_heap tm
                    else (tm_heap tm)(t := tm_heap tm t\<lparr>m_next := now + m_ms (tm_heap tm t)\<rparr>))"
proof (cases "m_cb (tm_heap tm t) = None")
  case True
  then show ?thesis using wf by (simp add: refresh_def)
next
  case False
  then have m: "t \<in> set (m_timers tm)" using wf t by (simp add: tm_wf_def)
  let ?f = "\<lambda>x. x\<lparr>m_next := now + m_ms x\<rparr>" and ?tm = "tm\<lparr>m_timers := filter (\<lambda>x. x \<noteq> t) (m_timers tm)\<rparr>"
  have "refresh now t tm = Inr (True, timers_insert t (upd_timer t ?f ?tm))"
    using False m timers_erase_ok [OF wf m] timers_find_iff [of tm t] wf
    by (simp add: refresh_def tm_wf_def)
  moreover have "set (m_timers (timers_insert t (upd_timer t ?f ?tm))) = set (m_timers tm)"
    using timers_insert_ok [of "upd_timer t ?f ?tm" t] upd_timer_sorted [of ?tm "m_timers ?tm" t ?f] wf m
    by (auto simp: tm_wf_def sorted_timers_filter upd_timer_def)
  ultimately show ?thesis
    using reinsert_wf [OF wf m, of ?f] False by (auto simp: timers_insert_def upd_timer_def)
qed

lemma tm_wf_tickled [simp]: "tm_wf (tm\<lparr>m_tickled := b\<rparr>) = tm_wf tm" "tm_wf (tm\<lparr>m_previous_time := n\<rparr>) = tm_wf tm"
  by (simp_all add: tm_wf_def)

lemma addTimer_locked_wf: "tm_wf (timers_insert t tm) \<Longrightarrow> tm_wf (snd (addTimer_locked t tm))"
  by (simp add: addTimer_locked_def Let_def)

lemma reset_ok:
  assumes wf: "tm_wf tm" and t: "t \<in> set (tm_live tm)"
  shows "\<exists>r tm'. reset now t ms from_now tm = Inr (r, tm') \<and> tm_wf tm' \<and> tm_live tm' = tm_live tm"
proof (cases "ms = m_ms (tm_heap tm t) \<and> \<not> from_now \<or> m_cb (tm_heap tm t) = None")
  case True
  then show ?thesis using wf by (auto simp: reset_def)
next
  case False
  then have m: "t \<in> set (m_timers tm)" using wf t by (simp add: tm_wf_def)
  let ?st = "if from_now then now else m_next (tm_heap tm t) - m_ms (tm_heap tm t)"
  let ?f = "\<lambda>x. x\<lparr>m_ms := ms, m_next := ?st + ms\<rparr>" and ?tm = "tm\<lparr>m_timers := filter (\<lambda>x. x \<noteq> t) (m_timers tm)\<rparr>"
  have "reset now t ms from_now tm =
      Inr ((True, fst (addTimer_locked t (upd_timer t ?f ?tm))), snd (addTimer_locked t (upd_timer t ?f ?tm)))"
    using False m timers_erase_ok [OF wf m] timers_find_iff [of tm t] wf
    by (auto simp: reset_def tm_wf_def Let_def split: prod.splits)
  moreover have "tm_wf (snd (addTimer_locked t (upd_timer t ?f ?tm)))"
    using reinsert_wf [OF wf m, of ?f] by (simp add: addTimer_locked_wf)
  moreover have "tm_live (snd (addTimer_locked t (upd_timer t ?f ?tm))) = tm_live tm"
    by (simp add: addTimer_locked_frame upd_timer_def)
  ultimately show ?thesis by blast
qed

lemma addTimer_ok:
  assumes wf: "tm_wf tm" and a: "a \<notin> set (tm_live tm)"
  shows "tm_wf (snd (addTimer now a ms cb recurring tm)) \<and>
    set (m_timers (snd (addTimer now a ms cb recurring tm))) = insert a (set (m_timers tm)) \<and>
    tm_heap (snd (addTimer now a ms cb recurring tm)) = (tm_heap tm)(a := Timer_new now ms cb recurring) \<and>
    tm_live (snd (addTimer now a ms cb recurring tm)) = a # tm_live tm"
proof -
  let ?tm = "tm\<lparr>tm_heap := (tm_heap tm)(a := Timer_new now ms cb recurring), tm_live := a # tm_live tm\<rparr>"
  have n: "a \<notin> set (m_timers tm)" using wf a by (auto simp: tm_wf_def)
  have "sorted_timers (tm_heap ?tm) (m_timers tm)"
    using upd_timer_sorted [OF tm_wf_sorted [OF wf] n, of "\<lambda>_. Timer_new now ms cb recurring"]
    by (simp add: upd_timer_def)
  then have i: "sorted_timers (tm_heap ?tm) (m_timers (timers_insert a ?tm))"
    "set (m_timers (timers_insert a ?tm)) = insert a (set (m_timers tm))"
    using timers_insert_ok [of ?tm a] n by simp_all
  have "tm_heap (timers_insert a ?tm) = tm_heap ?tm" "tm_live (timers_insert a ?tm) = a # tm_live tm"
    by (simp_all add: timers_insert_def)
  then have "tm_wf (timers_insert a ?tm)"
    unfolding tm_wf_def using i wf a by (auto simp: tm_wf_def)
  then show ?thesis
    using i by (simp add: addTimer_def addTimer_locked_wf addTimer_locked_frame)
qed

lemma getNextTimer_wf: "tm_wf tm \<Longrightarrow> tm_wf (snd (getNextTimer now tm))"
  by (simp add: getNextTimer_def Let_def split: list.split)

section \<open>Collecting the due timers\<close>

lemma sorted_next_mono:
  assumes "sorted_timers h (x # xs)" and "y \<in> set xs"
  shows "m_next (h x) \<le> m_next (h y)"
  using assms by (auto simp: ord_sorted_def timer_less_iff)

text \<open>
  However the address of the temporary \<open>now_timer\<close> compares with those of the timers, the
  iterator ends up behind exactly the timers that fire at or before \<open>now\<close>.
\<close>

lemma drop_equal:
  assumes "sorted_timers h ts" and "\<And>t. t \<in> set ts \<Longrightarrow> now \<le> m_next (h t)"
  shows "dropWhile (\<lambda>t. m_next (h t) = now) ts = filter (\<lambda>t. m_next (h t) > now) ts"
  using assms
proof (induction ts)
  case (Cons x xs)
  have s: "sorted_timers h xs" using Cons.prems(1) by (simp add: ord_sorted_def)
  show ?case
  proof (cases "m_next (h x) = now")
    case True
    then show ?thesis using Cons.IH [OF s] Cons.prems(2) by simp
  next
    case False
    then have "m_next (h x) > now" using Cons.prems(2) [of x] by simp
    then have "\<forall>y\<in>set xs. m_next (h y) > now"
      using sorted_next_mono [OF Cons.prems(1)] by (meson less_le_trans)
    then show ?thesis using False \<open>m_next (h x) > now\<close> by simp
  qed
qed simp

lemma due_split:
  assumes "sorted_timers h ts" and "m_next (h a) = now"
  shows "dropWhile (\<lambda>t. m_next (h t) = now) (lower_bound (timer_less h) id a ts) =
         filter (\<lambda>t. m_next (h t) > now) ts"
  using assms
proof (induction ts)
  case (Cons x xs)
  have s: "sorted_timers h xs" using Cons.prems by (simp add: ord_sorted_def)
  show ?case
  proof (cases "timer_less h x a")
    case True
    then have "\<not> m_next (h x) > now" using Cons.prems(2) by (auto simp: timer_less_iff)
    then show ?thesis using Cons.IH [OF s] Cons.prems(2) True by (simp add: lower_bound_def)
  next
    case False
    then have "now \<le> m_next (h x)" using Cons.prems(2) by (auto simp: timer_less_iff not_less)
    then have "now \<le> m_next (h t)" if "t \<in> set (x # xs)" for t
      using that sorted_next_mono [OF Cons.prems(1)] by (auto intro: order.trans)
    from drop_equal [OF Cons.prems(1) this] show ?thesis using False by (simp add: lower_bound_def)
  qed
qed (simp add: lower_bound_def)

lemma take_not_filter:
  assumes "sorted_timers h ts"
  shows "take (length ts - length (filter (\<lambda>t. m_next (h t) > now) ts)) ts = filter (\<lambda>t. m_next (h t) \<le> now) ts"
  using assms
proof (induction ts)
  case (Cons x xs)
  have s: "sorted_timers h xs" using Cons.prems by (simp add: ord_sorted_def)
  show ?case
  proof (cases "m_next (h x) > now")
    case True
    then have "\<forall>y\<in>set xs. m_next (h y) > now"
      using sorted_next_mono [OF Cons.prems] by (meson less_le_trans)
    then show ?thesis using True by (simp add: not_le)
  next
    case False
    have "length (filter (\<lambda>t. m_next (h t) > now) xs) \<le> length xs" by simp
    then show ?thesis using False Cons.IH [OF s] by (auto simp: not_less Suc_diff_le)
  qed
qed simp

definition fired :: "u64 \<Rightarrow> timer \<Rightarrow> timer" where
  "fired now x = (if m_recurring x then x\<lparr>m_next := now + m_ms x\<rparr> else x\<lparr>m_cb := None\<rparr>)"

lemma expire_ok:
  assumes "distinct es" and "set es \<inter> set (m_timers tm) = {}" and "sorted_timers (tm_heap tm) (m_timers tm)"
    and "expire now es cbs tm = (cbs', tm')"
  shows "cbs' = cbs @ map (\<lambda>t. m_cb (tm_heap tm t)) es \<and>
    sorted_timers (tm_heap tm') (m_timers tm') \<and>
    set (m_timers tm') = set (m_timers tm) \<union> {t \<in> set es. m_recurring (tm_heap tm t)} \<and>
    tm_heap tm' = (\<lambda>t. if t \<in> set es then fired now (tm_heap tm t) else tm_heap tm t) \<and>
    tm_live tm' = tm_live tm \<and> m_tickled tm' = m_tickled tm \<and> m_previous_time tm' = m_previous_time tm"
  using assms
proof (induction es arbitrary: cbs tm)
  case Nil
  then show ?case by auto
next
  case (Cons e es)
  define tm1 where "tm1 = upd_timer e (fired now) tm"
  define tm2 where "tm2 = (if m_recurring (tm_heap tm e) then timers_insert e tm1 else tm1)"
  have step: "expire now es (cbs @ [m_cb (tm_heap tm e)]) tm2 = (cbs', tm')"
    using Cons.prems(4)
    by (cases "m_recurring (tm_heap tm e)") (simp_all add: tm1_def tm2_def upd_timer_def fired_def Let_def)
  have s1: "sorted_timers (tm_heap tm1) (m_timers tm1)"
    using upd_timer_sorted [OF Cons.prems(3), of e "fired now"] Cons.prems(2) by (simp add: tm1_def upd_timer_def)
  have e: "e \<notin> set (m_timers tm1)" using Cons.prems(2) by (simp add: tm1_def upd_timer_def)
  have t1: "m_timers tm1 = m_timers tm" "tm_heap tm1 = (tm_heap tm)(e := fired now (tm_heap tm e))"
    "tm_live tm1 = tm_live tm" "m_tickled tm1 = m_tickled tm" "m_previous_time tm1 = m_previous_time tm"
    by (simp_all add: tm1_def upd_timer_def)
  have t2: "sorted_timers (tm_heap tm2) (m_timers tm2)"
    "set (m_timers tm2) = set (m_timers tm) \<union> (if m_recurring (tm_heap tm e) then {e} else {})"
    "tm_heap tm2 = (tm_heap tm)(e := fired now (tm_heap tm e))"
    "tm_live tm2 = tm_live tm" "m_tickled tm2 = m_tickled tm" "m_previous_time tm2 = m_previous_time tm"
    using s1 timers_insert_ok [OF s1 e] t1
    by (cases "m_recurring (tm_heap tm e)"; simp add: tm2_def)+
  have d: "distinct es" "set es \<inter> set (m_timers tm2) = {}" "e \<notin> set es"
    using Cons.prems(1,2) t2(2) by auto
  have h: "map (\<lambda>t. m_cb (tm_heap tm2 t)) es = map (\<lambda>t. m_cb (tm_heap tm t)) es"
    "{t \<in> set es. m_recurring (tm_heap tm2 t)} = {t \<in> set es. m_recurring (tm_heap tm t)}"
    using d(3) t2(3) by auto
  have u: "{t \<in> set (e # es). m_recurring (tm_heap tm t)} =
      (if m_recurring (tm_heap tm e) then {e} else {}) \<union> {t \<in> set es. m_recurring (tm_heap tm t)}" by auto
  have v: "(\<lambda>t. if t \<in> set es then fired now (tm_heap tm2 t) else tm_heap tm2 t) =
      (\<lambda>t. if t \<in> set (e # es) then fired now (tm_heap tm t) else tm_heap tm t)"
    unfolding t2(3) using d(3) by (intro ext) simp
  show ?case
    using Cons.IH [OF d(1,2) t2(1) step] unfolding h u v t2(2,4-6)
    by (elim conjE, intro conjI)
      (assumption | simp only: Un_assoc append_assoc append_Cons append_Nil list.map)+
qed

definition due :: "u64 \<Rightarrow> timer_manager \<Rightarrow> nat list" where
  "due now tm = (if fst (detectClockRollover now tm) then m_timers tm
                 else filter (\<lambda>t. m_next (tm_heap tm t) \<le> now) (m_timers tm))"

lemma listExpired_take_eq:
  assumes wf: "tm_wf tm" and a: "a \<notin> set (tm_live tm)" and ne: "m_timers tm \<noteq> []"
  shows "listExpired_take now a cbs tm =
    Inr (expire now (due now tm) cbs (tm\<lparr>m_previous_time := now, m_timers := filter (\<lambda>t. t \<notin> set (due now tm)) (m_timers tm)\<rparr>))"
proof -
  let ?ts = "m_timers tm" and ?h = "tm_heap tm" and ?h' = "(tm_heap tm)(a := Timer_at now)"
  note s = tm_wf_sorted [OF wf]
  have an: "a \<notin> set ?ts" using wf a by (auto simp: tm_wf_def)
  have same: "m_next (?h' t) = m_next (?h t)" if "t \<in> set ?ts" for t using that an by auto
  have s': "sorted_timers ?h' ?ts" using s sorted_timers_cong [of ?ts ?h' ?h] same by blast
  have it: "dropWhile (\<lambda>t. m_next (?h' t) = now) (lower_bound (timer_less ?h') id a ?ts) =
      filter (\<lambda>t. m_next (?h t) > now) ?ts"
  proof -
    have "filter (\<lambda>t. m_next (?h' t) > now) ?ts = filter (\<lambda>t. m_next (?h t) > now) ?ts"
      by (rule filter_cong) (use an in auto)
    moreover have "m_next (?h' a) = now" by (simp add: Timer_at_def)
    ultimately show ?thesis using due_split [OF s', of a now] by simp
  qed
  have rest: "filter (\<lambda>t. m_next (?h t) > now) ?ts = filter (\<lambda>t. t \<notin> set (filter (\<lambda>t. m_next (?h t) \<le> now) ?ts)) ?ts"
    by (rule filter_cong) auto
  show ?thesis
  proof (cases "fst (detectClockRollover now tm)")
    case True
    then show ?thesis
      by (auto simp: listExpired_take_def due_def detectClockRollover_def Let_def)
  next
    case False
    show ?thesis
    proof (cases "m_next (?h (hd ?ts)) > now")
      case True
      obtain x xs where x: "?ts = x # xs" using ne by (cases ?ts) auto
      have "\<forall>t\<in>set ?ts. \<not> m_next (?h t) \<le> now"
        using True sorted_next_mono [of ?h x xs] s x by (auto simp: not_le intro: less_le_trans)
      then have "due now tm = []" using False by (simp add: due_def filter_empty_conv)
      then show ?thesis
        using True False ne by (auto simp: listExpired_take_def detectClockRollover_def Let_def)
    next
      case ndue: False
      then show ?thesis
        using False ne it take_not_filter [OF s, of now] rest
        by (auto simp: listExpired_take_def due_def detectClockRollover_def Let_def)
    qed
  qed
qed

lemma listExpiredCb_ok:
  assumes wf: "tm_wf tm" and a: "a \<notin> set (tm_live tm)"
  shows "\<exists>tm'. listExpiredCb now a cbs tm = Inr (cbs @ map (\<lambda>t. m_cb (tm_heap tm t)) (due now tm), tm') \<and>
    tm_wf tm' \<and> tm_live tm' = tm_live tm \<and>
    set (m_timers tm') = {t \<in> set (m_timers tm). t \<in> set (due now tm) \<longrightarrow> m_recurring (tm_heap tm t)} \<and>
    tm_heap tm' = (\<lambda>t. if t \<in> set (due now tm) then fired now (tm_heap tm t) else tm_heap tm t)"
proof (cases "m_timers tm = []")
  case True
  then show ?thesis
    using wf by (auto simp: listExpiredCb_def listExpired_check_def due_def)
next
  case False
  let ?es = "due now tm"
  let ?tm = "tm\<lparr>m_previous_time := now, m_timers := filter (\<lambda>t. t \<notin> set ?es) (m_timers tm)\<rparr>"
  note s = tm_wf_sorted [OF wf]
  obtain cbs' tm' where e: "expire now ?es cbs ?tm = (cbs', tm')" by force
  have d: "distinct ?es" using sorted_timers_distinct [OF s] by (simp add: due_def)
  have p: "set ?es \<inter> set (m_timers ?tm) = {}" by auto
  have q: "sorted_timers (tm_heap ?tm) (m_timers ?tm)" using sorted_timers_filter [OF s] by simp
  have h: "tm_heap ?tm = tm_heap tm" "tm_live ?tm = tm_live tm"
    "m_timers ?tm = filter (\<lambda>t. t \<notin> set ?es) (m_timers tm)" by simp_all
  have r: "cbs' = cbs @ map (\<lambda>t. m_cb (tm_heap tm t)) ?es"
    "sorted_timers (tm_heap tm') (m_timers tm')"
    "set (m_timers tm') = {t \<in> set (m_timers tm). t \<notin> set ?es} \<union> {t \<in> set ?es. m_recurring (tm_heap tm t)}"
    "tm_heap tm' = (\<lambda>t. if t \<in> set ?es then fired now (tm_heap tm t) else tm_heap tm t)"
    "tm_live tm' = tm_live tm"
    using expire_ok [OF d p q e] unfolding h set_filter by blast+
  have es: "set ?es \<subseteq> set (m_timers tm)" by (auto simp: due_def)
  have w: "tm_wf tm'"
  proof -
    have c: "m_cb (tm_heap tm' t) \<noteq> None \<Longrightarrow> m_cb (tm_heap tm t) \<noteq> None \<and> (t \<in> set ?es \<longrightarrow> m_recurring (tm_heap tm t))" for t
      unfolding r(4) fired_def by (cases "t \<in> set ?es"; cases "m_recurring (tm_heap tm t)") simp_all
    have l: "set (m_timers tm) \<subseteq> set (tm_live tm)"
      "m_cb (tm_heap tm t) \<noteq> None \<Longrightarrow> t \<in> set (tm_live tm) \<Longrightarrow> t \<in> set (m_timers tm)" for t
      using wf by (simp_all add: tm_wf_def)
    have "t \<in> set (m_timers tm')" if "t \<in> set (tm_live tm)" "m_cb (tm_heap tm' t) \<noteq> None" for t
      using c [OF that(2)] l(2) [of t] that(1) unfolding r(3) by blast
    moreover have "set (m_timers tm') \<subseteq> set (tm_live tm')" using l(1) es unfolding r(3,5) by blast
    ultimately show ?thesis using r(2) unfolding tm_wf_def r(5) by blast
  qed
  have l: "listExpiredCb now a cbs tm = Inr (cbs', tm')"
    using listExpired_take_eq [OF wf a False] e False by (simp add: listExpiredCb_def listExpired_check_def)
  have m: "set (m_timers tm') = {t \<in> set (m_timers tm). t \<in> set ?es \<longrightarrow> m_recurring (tm_heap tm t)}"
    using r(3) es by blast
  show ?thesis by (intro exI [of _ tm'] conjI l [unfolded r(1)] w r(5) m r(4))
qed

section \<open>Reachable managers\<close>

text \<open>
  The operations as a client sees them: timers are allocated at unused addresses and only
  timers obtained from the manager are cancelled, refreshed or reset.
\<close>

datatype tm_op =
    Add nat u64 "callback option" bool
  | Cancel nat
  | Refresh nat
  | Reset nat u64 bool
  | Next
  | Expire nat

definition tm_valid :: "tm_op \<Rightarrow> timer_manager \<Rightarrow> bool" where
  "tm_valid p tm = (case p of
      Add a ms cb r \<Rightarrow> a \<notin> set (tm_live tm)
    | Cancel t \<Rightarrow> t \<in> set (tm_live tm)
    | Refresh t \<Rightarrow> t \<in> set (tm_live tm)
    | Reset t ms b \<Rightarrow> t \<in> set (tm_live tm)
    | Next \<Rightarrow> True
    | Expire a \<Rightarrow> a \<notin> set (tm_live tm))"

definition tm_exec :: "u64 \<Rightarrow> tm_op \<Rightarrow> timer_manager \<Rightarrow> timer_manager outcome" where
  "tm_exec now p tm = (case p of
      Add a ms cb r \<Rightarrow> Inr (snd (addTimer now a ms cb r tm))
    | Cancel t \<Rightarrow> bindE (cancel t tm) (\<lambda>(_, tm'). Inr tm')
    | Refresh t \<Rightarrow> bindE (refresh now t tm) (\<lambda>(_, tm'). Inr tm')
    | Reset t ms b \<Rightarrow> bindE (reset now t ms b tm) (\<lambda>(_, tm'). Inr tm')
    | Next \<Rightarrow> Inr (snd (getNextTimer now tm))
    | Expire a \<Rightarrow> bindE (listExpiredCb now a [] tm) (\<lambda>(_, tm'). Inr tm'))"

inductive tm_reach :: "timer_manager \<Rightarrow> bool" where
  start: "tm_reach (TimerManager_new h now)"
| step: "tm_reach tm \<Longrightarrow> tm_valid p tm \<Longrightarrow> tm_exec now p tm = Inr tm' \<Longrightarrow> tm_reach tm'"

lemma tm_exec_wf:
  assumes wf: "tm_wf tm" and v: "tm_valid p tm"
  shows "\<exists>tm'. tm_exec now p tm = Inr tm' \<and> tm_wf tm'"
proof (cases p)
  case (Add a ms cb r)
  then show ?thesis using addTimer_ok [OF wf, of a] v by (simp add: tm_exec_def tm_valid_def)
next
  case (Cancel t)
  then show ?thesis using cancel_ok [OF wf, of t] v by (auto simp: tm_exec_def tm_valid_def)
next
  case (Refresh t)
  then obtain r tm' where "refresh now t tm = Inr (r, tm')" "tm_wf tm'"
    using refresh_ok [OF wf, of t now] v by (auto simp: tm_valid_def)
  then show ?thesis using Refresh by (simp add: tm_exec_def)
next
  case (Reset t ms b)
  then obtain r tm' where "reset now t ms b tm = Inr (r, tm')" "tm_wf tm'"
    using reset_ok [OF wf, of t now ms b] v by (auto simp: tm_valid_def)
  then show ?thesis using Reset by (simp add: tm_exec_def)
next
  case Next
  then show ?thesis using getNextTimer_wf [OF wf] by (simp add: tm_exec_def)
next
  case (Expire a)
  then obtain r tm' where "listExpiredCb now a [] tm = Inr (r, tm')" "tm_wf tm'"
    using listExpiredCb_ok [OF wf, of a now "[]"] v by (auto simp: tm_valid_def)
  then show ?thesis using Expire by (simp add: tm_exec_def)
qed

lemma tm_reach_wf: "tm_reach tm \<Longrightarrow> tm_wf tm"
proof (induction rule: tm_reach.induct)
  case (start h now)
  then show ?case by (rule TimerManager_new_wf)
next
  case (step tm p now tm')
  then show ?case using tm_exec_wf [of tm p now] by auto
qed

section \<open>Properties\<close>



text \<open>
  C19. \<open>listExpiredCb\<close> takes exactly the timers that are due and loses none: it appends, in firing order,
  the callbacks of the timers with a firing time at or before the clock (all timers after a
  clock rollover); recurring ones are re-armed one period after the clock reading, one-shot
  ones leave the set and give up their callback; all other timers are untouched.
\<close>

theorem listExpiredCb_exact:
  assumes "tm_wf tm" and "a \<notin> set (tm_live tm)"
  shows "\<exists>tm'. listExpiredCb now a cbs tm = Inr (cbs @ map (\<lambda>t. m_cb (tm_heap tm t)) (due now tm), tm') \<and>
    tm_wf tm' \<and>
    set (m_timers tm') = {t \<in> set (m_timers tm). t \<in> set (due now tm) \<longrightarrow> m_recurring (tm_heap tm t)} \<and>
    tm_heap tm' = (\<lambda>t. if t \<in> set (due now tm) then fired now (tm_heap tm t) else tm_heap tm t)"
  using listExpiredCb_ok [OF assms, of now cbs] by blast

theorem listExpiredCb_exact_witness:
  "\<exists>tm'. listExpiredCb 20 9 [] (snd (addTimer 10 7 5 (Some (Fn 1)) True (TimerManager_new (\<lambda>_. Timer_at 0) 10))) =
     Inr ([Some (Fn 1)], tm') \<and> set (m_timers tm') = {7} \<and> m_next (tm_heap tm' 7) = 25"
proof -
  let ?tm = "snd (addTimer 10 7 5 (Some (Fn 1)) True (TimerManager_new (\<lambda>_. Timer_at 0) 10))"
  have f: "m_timers ?tm = [7]" "tm_live ?tm = [7]" "m_previous_time ?tm = 10"
    "tm_heap ?tm 7 = Timer_new 10 5 (Some (Fn 1)) True"
    by (simp_all add: addTimer_def addTimer_locked_def Let_def timers_insert_def TimerManager_new_def)
  have wf: "tm_wf ?tm" using addTimer_ok [OF TimerManager_new_wf, of 7] by (simp add: TimerManager_new_def)
  have "due 20 ?tm = [7]" using f by (simp add: due_def detectClockRollover_def Timer_new_def)
  then show ?thesis
    using listExpiredCb_exact [OF wf, of 9 20 "[]"] f by (auto simp: fired_def Timer_new_def)
qed

text \<open>
  The waiting time \<open>getNextTimer\<close> returns is right: all ones when there is no timer, zero
  exactly when some timer is due, and otherwise the time to the earliest firing time, so a sleep of that
  length never oversleeps a timer and ends when one is due.
\<close>

theorem getNextTimer_spec:
  assumes "tm_wf tm"
  shows "let r = fst (getNextTimer now tm); ts = set (m_timers tm); next_of = (\<lambda>t. m_next (tm_heap tm t)) in
    if ts = {} then r = - 1
    else (r = 0 \<longleftrightarrow> (\<exists>t\<in>ts. next_of t \<le> now)) \<and>
         (r \<noteq> 0 \<longrightarrow> (\<forall>t\<in>ts. now + r \<le> next_of t) \<and> (\<exists>t\<in>ts. now + r = next_of t))"
proof (cases "m_timers tm")
  case Nil
  then show ?thesis by (simp add: getNextTimer_def)
next
  case (Cons x xs)
  have le: "\<forall>y\<in>set xs. m_next (tm_heap tm x) \<le> m_next (tm_heap tm y)"
    using sorted_next_mono [of "tm_heap tm" x xs] tm_wf_sorted [OF assms] Cons by simp
  show ?thesis
  proof (cases "m_next (tm_heap tm x) \<le> now")
    case True
    then show ?thesis using Cons by (auto simp: getNextTimer_def Let_def)
  next
    case False
    then have "\<forall>y\<in>set xs. \<not> m_next (tm_heap tm y) \<le> now" using le by (meson order.trans)
    then show ?thesis using False Cons le by (auto simp: getNextTimer_def Let_def)
  qed
qed

theorem getNextTimer_spec_witness:
  "fst (getNextTimer 12 (snd (addTimer 10 7 5 (Some (Fn 1)) True (TimerManager_new (\<lambda>_. Timer_at 0) 10)))) \<noteq> 0"
proof -
  let ?tm = "snd (addTimer 10 7 5 (Some (Fn 1)) True (TimerManager_new (\<lambda>_. Timer_at 0) 10))"
  have f: "m_timers ?tm = [7]" "tm_heap ?tm 7 = Timer_new 10 5 (Some (Fn 1)) True"
    by (simp_all add: addTimer_def addTimer_locked_def Let_def timers_insert_def TimerManager_new_def)
  have wf: "tm_wf ?tm" using addTimer_ok [OF TimerManager_new_wf, of 7] by (simp add: TimerManager_new_def)
  show ?thesis using getNextTimer_spec [OF wf, of 12] f by (simp add: Let_def Timer_new_def)
qed

text \<open>
  A sleeping scheduler is woken for an earlier timer: adding a timer calls \<open>onTimerInsertAtFront\<close>
  exactly when the new timer fires before all others and no wake-up is pending since the last
  \<open>getNextTimer\<close>; and whenever the new timer is the first one, a wake-up is pending afterwards.
\<close>

theorem addTimer_wakes:
  assumes "tm_wf tm" and "a \<notin> set (tm_live tm)"
  shows "let (front, tm') = addTimer now a ms cb recurring tm;
             first = (\<forall>t\<in>set (m_timers tm). timer_less (tm_heap tm') a t)
         in front = (first \<and> \<not> m_tickled tm) \<and> (first \<longrightarrow> m_tickled tm')"
proof -
  let ?tm = "tm\<lparr>tm_heap := (tm_heap tm)(a := Timer_new now ms cb recurring), tm_live := a # tm_live tm\<rparr>"
  have n: "a \<notin> set (m_timers tm)" using assms by (auto simp: tm_wf_def)
  have s: "sorted_timers (tm_heap ?tm) (m_timers ?tm)"
    using upd_timer_sorted [OF tm_wf_sorted [OF assms(1)] n, of "\<lambda>_. Timer_new now ms cb recurring"]
    by (simp add: upd_timer_def)
  note i = timers_insert_ok [OF s]
  obtain x xs where x: "m_timers (timers_insert a ?tm) = x # xs"
    using i [of a] n by (cases "m_timers (timers_insert a ?tm)") auto
  have ds: "sorted_timers (tm_heap ?tm) (x # xs)" "set (x # xs) = insert a (set (m_timers tm))"
    using i [of a] n x by simp_all
  have "x = a \<longleftrightarrow> (\<forall>t\<in>set (m_timers tm). timer_less (tm_heap ?tm) a t)"
  proof
    assume "x = a"
    then have "set xs = set (m_timers tm)" using ds n sorted_timers_distinct [OF ds(1)] by auto
    then show "\<forall>t\<in>set (m_timers tm). timer_less (tm_heap ?tm) a t"
      using ds(1) \<open>x = a\<close> by (auto simp: ord_sorted_def)
  next
    assume all: "\<forall>t\<in>set (m_timers tm). timer_less (tm_heap ?tm) a t"
    show "x = a"
    proof (rule ccontr)
      assume "x \<noteq> a"
      then have "timer_less (tm_heap ?tm) a x" "a \<in> set xs" using all ds(2) by auto
      moreover from this(2) have "timer_less (tm_heap ?tm) x a" using ds(1) by (simp add: ord_sorted_def)
      ultimately show False using timer_order.asym by blast
    qed
  qed
  moreover have "m_tickled (timers_insert a ?tm) = m_tickled tm" by (simp add: timers_insert_def)
  moreover have "tm_heap (snd (addTimer_locked a ?tm)) = tm_heap ?tm" by (rule addTimer_locked_frame)
  ultimately show ?thesis
    using x by (auto simp: addTimer_def addTimer_locked_def Let_def)
qed

theorem addTimer_wakes_witness:
  "fst (addTimer 10 7 5 (Some (Fn 1)) True (TimerManager_new (\<lambda>_. Timer_at 0) 10)) = True"
  using addTimer_wakes [OF TimerManager_new_wf, of 7 "\<lambda>_. Timer_at 0" 10 10 5 "Some (Fn 1)" True]
  by (simp add: TimerManager_new_def split: prod.splits)

text \<open>
  The two critical sections of \<open>listExpiredCb\<close> do not belong together: if another thread
  cancels the last timer between the emptiness test and the exclusive section, the begin
  iterator of an empty set is dereferenced.
\<close>

theorem listExpiredCb_race:
  assumes "tm_wf tm" and "m_timers tm = [t]" and "m_cb (tm_heap tm t) \<noteq> None"
    and "m_previous_time tm \<le> now"
  shows "\<not> listExpired_check tm \<and>
    (\<exists>tm'. cancel t tm = Inr (True, tm') \<and> listExpired_take now a cbs tm' = Inl Bad_iterator)"
proof -
  have "t \<in> set (tm_live tm)" using assms by (simp add: tm_wf_def)
  then obtain tm' where c: "cancel t tm = Inr (True, tm')" "m_timers tm' = []"
    using cancel_ok [OF assms(1), of t] assms(2,3) by auto
  moreover have "m_previous_time tm' = m_previous_time tm"
    using c(1) assms(3) by (auto simp: cancel_def upd_timer_def timers_erase_def Let_def bindE_def split: sum.splits option.splits)
  ultimately show ?thesis
    using assms(2,4) by (auto simp: listExpired_check_def listExpired_take_def detectClockRollover_def Let_def)
qed

theorem listExpiredCb_race_witness:
  "\<exists>tm tm'. listExpired_check tm = False \<and> cancel 7 tm = Inr (True, tm') \<and>
     listExpired_take 20 9 [] tm' = Inl Bad_iterator"
proof -
  let ?tm = "snd (addTimer 10 7 5 (Some (Fn 1)) True (TimerManager_new (\<lambda>_. Timer_at 0) 10))"
  have f: "m_timers ?tm = [7]" "m_previous_time ?tm = 10" "m_cb (tm_heap ?tm 7) \<noteq> None"
    by (simp_all add: addTimer_def addTimer_locked_def Let_def timers_insert_def TimerManager_new_def Timer_new_def)
  have wf: "tm_wf ?tm" using addTimer_ok [OF TimerManager_new_wf, of 7] by (simp add: TimerManager_new_def)
  show ?thesis using listExpiredCb_race [OF wf f(1,3), of 20 9 "[]"] f(2) by auto
qed

end
