(* ===== verification/Cool_IOManager.thy ===== *)
theory Cool_IOManager
  imports Cool_Scheduler Cool_Timer
begin

text \<open>
  The I/O manager (src/iomanager.h, src/iomanager.cpp): registration of read and write events with epoll, waking the
  fiber or function that waits for an event, and the idle loop that collects timers and
  events. The kernel's \<open>epoll_ctl\<close> is a parameter acting on the interest table.
\<close>

section \<open>Events\<close>

definition EV_NONE :: u32 where "EV_NONE = 0"
definition EV_READ :: u32 where "EV_READ = 1"
definition EV_WRITE :: u32 where "EV_WRITE = 4"

definition EPOLLIN :: u32 where "EPOLLIN = 1"
definition EPOLLOUT :: u32 where "EPOLLOUT = 4"
definition EPOLLERR :: u32 where "EPOLLERR = 8"
definition EPOLLHUP :: u32 where "EPOLLHUP = 0x10"
definition EPOLLET :: u32 where "EPOLLET = 0x80000000"

lemmas event_defs = EV_NONE_def EV_READ_def EV_WRITE_def EPOLLIN_def EPOLLOUT_def EPOLLERR_def EPOLLHUP_def

datatype epoll_op = CTL_ADD | CTL_MOD | CTL_DEL

text \<open>The interest table of the epoll instance, and a system call that changes it.\<close>

type_synonym interest = "int \<Rightarrow> u32 option"
type_synonym epoll_call = "epoll_op \<Rightarrow> int \<Rightarrow> u32 \<Rightarrow> interest \<Rightarrow> int \<times> interest"

text \<open>Documented behaviour: zero and the change made, or an error and no change.\<close>

definition epoll_spec :: "epoll_call \<Rightarrow> bool" where
  "epoll_spec ctl \<longleftrightarrow> (\<forall>p fd ev ep. case ctl p fd ev ep of (rt, ep') \<Rightarrow>
     ep' = (if rt = 0 then ep(fd := (if p = CTL_DEL then None else Some ev)) else ep))"

section \<open>State\<close>

record event_ctx =
  ec_scheduler :: "nat option"
  ec_fiber :: "nat option"
  ec_cb :: "nat option"

record fd_context =
  fx_fd :: int
  fx_read :: event_ctx
  fx_write :: event_ctx
  fx_events :: u32

text \<open>
  \<open>io_posted\<close> lists the calls of \<open>schedule\<close> on scheduler objects, oldest first.
\<close>

record iomgr =
  io_ctxs :: "fd_context list"
  io_pending :: u64
  io_epoll :: interest
  io_timers :: timer_manager
  io_sched :: sched
  io_posted :: "(nat \<times> task) list"
  io_wakes :: nat

text \<open>A new context leaves the scheduler pointers uninitialised; \<open>junk\<close> is what they hold.\<close>

definition FdContext_new :: "nat option \<Rightarrow> nat \<Rightarrow> fd_context" where
  "FdContext_new junk i =
     \<lparr>fx_fd = int i, fx_read = \<lparr>ec_scheduler = junk, ec_fiber = None, ec_cb = None\<rparr>,
      fx_write = \<lparr>ec_scheduler = junk, ec_fiber = None, ec_cb = None\<rparr>, fx_events = EV_NONE\<rparr>"

definition getContext :: "u32 \<Rightarrow> fd_context \<Rightarrow> event_ctx outcome" where
  "getContext ev c =
     (if ev = EV_READ then Inr (fx_read c) else if ev = EV_WRITE then Inr (fx_write c)
      else Inl (Assert_failed ''getContext''))"

text \<open>Writing through the reference \<open>getContext\<close> returns.\<close>

definition putContext :: "u32 \<Rightarrow> event_ctx \<Rightarrow> fd_context \<Rightarrow> fd_context" where
  "putContext ev x c = (if ev = EV_READ then c\<lparr>fx_read := x\<rparr> else c\<lparr>fx_write := x\<rparr>)"

definition resetContext :: "event_ctx \<Rightarrow> event_ctx" where
  "resetContext x = x\<lparr>ec_scheduler := None, ec_fiber := None, ec_cb := None\<rparr>"

text \<open>
  Waking the waiter of an event. \<open>schedule (&ctx.cb)\<close> and \<open>schedule (&ctx.fiber)\<close> swap the
  function or the fiber out of the context.
\<close>

definition triggerEvent :: "u32 \<Rightarrow> fd_context \<Rightarrow> ((nat \<times> task) list \<times> fd_context) outcome" where
  "triggerEvent ev c =
     bindE (assertE ''events & event'' (fx_events c AND ev \<noteq> 0)) (\<lambda>_.
       let c = c\<lparr>fx_events := fx_events c AND NOT ev\<rparr> in
       bindE (getContext ev c) (\<lambda>x.
         case ec_scheduler x of
           None \<Rightarrow> Inl Null_deref
         | Some s \<Rightarrow>
             let (t, x) = (case ec_cb x of
                   Some cb \<Rightarrow> (\<lparr>tk_fiber = None, tk_cb = Some cb, tk_thread = - 1\<rparr>, x\<lparr>ec_cb := None\<rparr>)
                 | None \<Rightarrow> (\<lparr>tk_fiber = ec_fiber x, tk_cb = None, tk_thread = - 1\<rparr>, x\<lparr>ec_fiber := None\<rparr>))
             in Inr ([(s, t)], putContext ev (x\<lparr>ec_scheduler := None\<rparr>) c)))"

section \<open>Registration\<close>

text \<open>\<open>resize\<close> truncates, or appends null pointers which are then filled with new contexts.\<close>

definition resizeContext :: "nat option \<Rightarrow> nat \<Rightarrow> iomgr \<Rightarrow> iomgr" where
  "resizeContext junk sz io =
     io\<lparr>io_ctxs := take sz (io_ctxs io) @ map (FdContext_new junk) [length (io_ctxs io)..<sz]\<rparr>"

definition IOManager_new :: "nat option \<Rightarrow> timer_manager \<Rightarrow> sched \<Rightarrow> iomgr" where
  "IOManager_new junk tm s =
     resizeContext junk 32
       \<lparr>io_ctxs = [], io_pending = 0, io_epoll = (\<lambda>_. None), io_timers = tm, io_sched = s, io_posted = [], io_wakes = 0\<rparr>"

text \<open>
  The whole constructor: what \<open>epoll_create\<close>, \<open>pipe\<close>, \<open>fcntl\<close> and \<open>epoll_ctl\<close> return is checked, the table gets its
  first 32 contexts, and the scheduler is started; the entry of the tickle pipe itself is left out of the interest table.
\<close>

definition IOManager_start ::
  "int \<Rightarrow> int \<Rightarrow> int \<Rightarrow> int \<Rightarrow> nat option \<Rightarrow> (nat \<Rightarrow> timer) \<Rightarrow> u64 \<Rightarrow> int list \<Rightarrow> sched \<Rightarrow> iomgr outcome" where
  "IOManager_start epfd rt_pipe rt_fcntl rt_ctl junk h now ids s =
     bindE (assertE ''m_epfd > 0'' (epfd > 0)) (\<lambda>_.
     bindE (assertE ''!rt'' (rt_pipe = 0)) (\<lambda>_.
     bindE (assertE ''!rt'' (rt_fcntl = 0)) (\<lambda>_.
     bindE (assertE ''!rt'' (rt_ctl = 0)) (\<lambda>_.
       let io = IOManager_new junk (TimerManager_new h now) s
       in bindE (sched_start ids (io_sched io)) (\<lambda>s. Inr (io\<lparr>io_sched := s\<rparr>))))))"

definition ctx_at :: "int \<Rightarrow> iomgr \<Rightarrow> fd_context outcome" where
  "ctx_at fd io = (if 0 \<le> fd \<and> fd < int (length (io_ctxs io)) then Inr (io_ctxs io ! nat fd) else Inl Out_of_bounds)"

definition set_ctx :: "int \<Rightarrow> fd_context \<Rightarrow> iomgr \<Rightarrow> iomgr" where
  "set_ctx fd c io = io\<lparr>io_ctxs := (io_ctxs io)[nat fd := c]\<rparr>"

text \<open>
  \<open>self\<close> is \<open>Scheduler::GetThis ()\<close> of the calling thread, \<open>cur\<close> its current fiber and that
  fiber's state.
\<close>

definition addEvent ::
  "epoll_call \<Rightarrow> nat option \<Rightarrow> nat option \<Rightarrow> nat \<times> fiber_state \<Rightarrow> int \<Rightarrow> u32 \<Rightarrow> nat option \<Rightarrow> iomgr \<Rightarrow>
     (int \<times> iomgr) outcome" where
  "addEvent ctl junk self cur fd ev cb io0 =
     (let io = (if int (length (io_ctxs io0)) > fd then io0 else resizeContext junk (nat (fd * 3 div 2)) io0) in
      bindE (ctx_at fd io) (\<lambda>c.
      bindE (assertE ''!(fd_ctx->events & event)'' (fx_events c AND ev = 0)) (\<lambda>_.
        let p = (if fx_events c \<noteq> 0 then CTL_MOD else CTL_ADD);
            (rt, ep) = ctl p fd (EPOLLET OR fx_events c OR ev) (io_epoll io);
            io = io\<lparr>io_epoll := ep\<rparr>
        in if rt \<noteq> 0 then Inr (- 1, io)
           else let io = io\<lparr>io_pending := io_pending io + 1\<rparr>;
                    c = c\<lparr>fx_events := fx_events c OR ev\<rparr>
                in bindE (getContext ev c) (\<lambda>x.
                     let x = x\<lparr>ec_scheduler := self\<rparr> in
                     if cb \<noteq> None
                     then Inr (0, set_ctx fd (putContext ev (x\<lparr>ec_cb := cb\<rparr>) c) io)
                     else bindE (assertE ''EXEC'' (snd cur = State_EXEC)) (\<lambda>_.
                       Inr (0, set_ctx fd (putContext ev (x\<lparr>ec_fiber := Some (fst cur)\<rparr>) c) io))))))"

definition delEvent :: "epoll_call \<Rightarrow> int \<Rightarrow> u32 \<Rightarrow> iomgr \<Rightarrow> (bool \<times> iomgr) outcome" where
  "delEvent ctl fd ev io =
     (if int (length (io_ctxs io)) \<le> fd then Inr (False, io)
      else bindE (ctx_at fd io) (\<lambda>c.
        if fx_events c AND ev = 0 then Inr (False, io)
        else let new_events = fx_events c AND NOT ev;
                 p = (if new_events \<noteq> 0 then CTL_MOD else CTL_DEL);
                 (rt, ep) = ctl p fd (EPOLLET OR new_events) (io_epoll io);
                 io = io\<lparr>io_epoll := ep\<rparr>
             in if rt \<noteq> 0 then Inr (False, io)
                else let io = io\<lparr>io_pending := io_pending io - 1\<rparr>; c = c\<lparr>fx_events := new_events\<rparr>
                     in bindE (getContext ev c) (\<lambda>x. Inr (True, set_ctx fd (putContext ev (resetContext x) c) io))))"

definition cancelEvent :: "epoll_call \<Rightarrow> int \<Rightarrow> u32 \<Rightarrow> iomgr \<Rightarrow> (bool \<times> iomgr) outcome" where
  "cancelEvent ctl fd ev io =
     (if int (length (io_ctxs io)) \<le> fd then Inr (False, io)
      else bindE (ctx_at fd io) (\<lambda>c.
        if fx_events c AND ev = 0 then Inr (False, io)
        else let new_events = fx_events c AND NOT ev;
                 p = (if new_events \<noteq> 0 then CTL_MOD else CTL_DEL);
                 (rt, ep) = ctl p fd (EPOLLET OR new_events) (io_epoll io);
                 io = io\<lparr>io_epoll := ep\<rparr>
             in if rt \<noteq> 0 then Inr (False, io)
                else bindE (triggerEvent ev c) (\<lambda>(ts, c).
                  Inr (True, set_ctx fd c (io\<lparr>io_posted := io_posted io @ ts, io_pending := io_pending io - 1\<rparr>)))))"

text \<open>Triggering one event of a context and counting it down, if the mask asks for it.\<close>

definition trigger_if :: "bool \<Rightarrow> u32 \<Rightarrow> fd_context \<times> iomgr \<Rightarrow> (fd_context \<times> iomgr) outcome" where
  "trigger_if b ev ci =
     (if b then bindE (triggerEvent ev (fst ci)) (\<lambda>(ts, c).
        Inr (c, (snd ci)\<lparr>io_posted := io_posted (snd ci) @ ts, io_pending := io_pending (snd ci) - 1\<rparr>))
      else Inr ci)"

definition cancelAll :: "epoll_call \<Rightarrow> int \<Rightarrow> iomgr \<Rightarrow> (bool \<times> iomgr) outcome" where
  "cancelAll ctl fd io =
     (if int (length (io_ctxs io)) \<le> fd then Inr (False, io)
      else bindE (ctx_at fd io) (\<lambda>c.
        if fx_events c = 0 then Inr (False, io)
        else let (rt, ep) = ctl CTL_DEL fd 0 (io_epoll io); io = io\<lparr>io_epoll := ep\<rparr>
             in if rt \<noteq> 0 then Inr (False, io)
                else bindE (trigger_if (fx_events c AND EV_READ \<noteq> 0) EV_READ (c, io)) (\<lambda>(c, io).
                     bindE (trigger_if (fx_events c AND EV_WRITE \<noteq> 0) EV_WRITE (c, io)) (\<lambda>(c, io).
                     bindE (assertE ''fd_ctx->events == 0'' (fx_events c = 0)) (\<lambda>_.
                       Inr (True, set_ctx fd c io))))))"

section \<open>Waking and stopping\<close>

text \<open>\<open>written\<close> is what \<open>write\<close> on the tickle pipe returns.\<close>

definition io_tickle :: "int \<Rightarrow> iomgr \<Rightarrow> iomgr outcome" where
  "io_tickle written io =
     (if \<not> hasIdleThreads (io_sched io) then Inr io
      else bindE (assertE ''rt == 1'' (written = 1)) (\<lambda>_. Inr (io\<lparr>io_wakes := Suc (io_wakes io)\<rparr>)))"

definition onTimerInsertAtFront :: "int \<Rightarrow> iomgr \<Rightarrow> iomgr outcome" where
  "onTimerInsertAtFront written io = io_tickle written io"

text \<open>\<open>timeout\<close> is passed by value: the caller's variable keeps its value.\<close>

definition stopping_timeout :: "u64 \<Rightarrow> u64 \<Rightarrow> iomgr \<Rightarrow> bool \<times> iomgr" where
  "stopping_timeout now timeout io =
     (let (timeout, tm) = getNextTimer now (io_timers io)
      in (timeout = - 1 \<and> io_pending io = 0 \<and> stopping (io_sched io), io\<lparr>io_timers := tm\<rparr>))"

definition io_stopping :: "u64 \<Rightarrow> iomgr \<Rightarrow> bool \<times> iomgr" where
  "io_stopping now io = stopping_timeout now 0 io"

section \<open>The idle loop\<close>

definition epoll_timeout :: "u64 \<Rightarrow> u64" where
  "epoll_timeout next_timeout = (if next_timeout \<noteq> - 1 then min next_timeout 3000 else 3000)"

text \<open>What \<open>epoll_wait\<close> reports: the tickle pipe, or a context and its event mask.\<close>

datatype ready = Tickled | Ready nat u32

text \<open>The body of the loop over the reported events.\<close>

definition handle_event :: "epoll_call \<Rightarrow> nat \<Rightarrow> u32 \<Rightarrow> iomgr \<Rightarrow> iomgr outcome" where
  "handle_event ctl i events io =
     (if \<not> i < length (io_ctxs io) then Inl Out_of_bounds
      else let c = io_ctxs io ! i;
               events = (if events AND (EPOLLERR OR EPOLLHUP) \<noteq> 0 then events OR EPOLLIN OR EPOLLOUT else events);
               real = (if events AND EPOLLIN \<noteq> 0 then EV_READ else 0) OR (if events AND EPOLLOUT \<noteq> 0 then EV_WRITE else 0)
           in if fx_events c AND real = EV_NONE then Inr io
              else let left = fx_events c AND NOT real;
                       p = (if left \<noteq> 0 then CTL_MOD else CTL_DEL);
                       (rt, ep) = ctl p (fx_fd c) (EPOLLET OR left) (io_epoll io);
                       io = io\<lparr>io_epoll := ep\<rparr>
                   in if rt \<noteq> 0 then Inr io
                      else bindE (trigger_if (real AND EV_READ \<noteq> 0) EV_READ (c, io)) (\<lambda>(c, io).
                           bindE (trigger_if (real AND EV_WRITE \<noteq> 0) EV_WRITE (c, io)) (\<lambda>(c, io).
                             Inr (set_ctx (int i) c io))))"

fun handle_events :: "epoll_call \<Rightarrow> ready list \<Rightarrow> iomgr \<Rightarrow> iomgr outcome" where
  "handle_events ctl [] io = Inr io"
| "handle_events ctl (Tickled # es) io = handle_events ctl es io"
| "handle_events ctl (Ready i ev # es) io = bindE (handle_event ctl i ev io) (handle_events ctl es)"

text \<open>
  One round of \<open>idle\<close> up to the point where the fiber swaps out: the timeout handed to
  \<open>epoll_wait\<close> and the state after its events were handled, or \<^const>\<open>None\<close> when the loop ends. \<open>cb_id\<close> names the
  functions of timer callbacks, \<open>a\<close> is the address of the temporary timer, \<open>now'\<close> the clock after the wait.
\<close>

definition idle_round ::
  "epoll_call \<Rightarrow> (callback \<Rightarrow> nat) \<Rightarrow> nat \<Rightarrow> u64 \<Rightarrow> u64 \<Rightarrow> ready list \<Rightarrow> iomgr \<Rightarrow> ((u64 \<times> iomgr) option \<times> iomgr) outcome" where
  "idle_round ctl cb_id a now now' es io =
     (let next_timeout = 0; (stop, io) = stopping_timeout now next_timeout io
      in if stop then Inr (None, io)
         else bindE (listExpiredCb now' a [] (io_timers io)) (\<lambda>(cbs, tm).
           let ts = map (\<lambda>cb. \<lparr>tk_fiber = None, tk_cb = map_option cb_id cb, tk_thread = - 1\<rparr>) cbs;
               io = io\<lparr>io_timers := tm, io_sched := (if cbs = [] then io_sched io else schedule_range ts (io_sched io))\<rparr>
           in bindE (handle_events ctl es io) (\<lambda>io. Inr (Some (epoll_timeout next_timeout, io), io))))"

section \<open>The invariant\<close>

definition reg :: "fd_context \<Rightarrow> u32 \<Rightarrow> bool" where
  "reg c ev \<longleftrightarrow> fx_events c AND ev \<noteq> 0"

definition nreg :: "fd_context \<Rightarrow> nat" where
  "nreg c = (if reg c EV_READ then 1 else 0) + (if reg c EV_WRITE then 1 else 0)"

text \<open>
  A registered event has a scheduler and exactly one waiter, a fiber or a function; an
  unregistered event has no waiter.
\<close>

definition waiter_ok :: "bool \<Rightarrow> event_ctx \<Rightarrow> bool" where
  "waiter_ok b x \<longleftrightarrow> (if b then ec_scheduler x \<noteq> None \<and> (ec_cb x \<noteq> None) = (ec_fiber x = None)
                       else ec_fiber x = None \<and> ec_cb x = None)"

definition ctx_ok :: "fd_context \<Rightarrow> bool" where
  "ctx_ok c \<longleftrightarrow> fx_events c \<in> {0, 1, 4, 5} \<and> waiter_ok (reg c EV_READ) (fx_read c) \<and> waiter_ok (reg c EV_WRITE) (fx_write c)"

definition mirror :: "u32 \<Rightarrow> u32 option" where
  "mirror e = (if e = 0 then None else Some (EPOLLET OR e))"

text \<open>
  The invariant of the manager: contexts in order, the interest table showing exactly the
  registered events, and the pending counter equal to their number.
\<close>

definition io_wf :: "iomgr \<Rightarrow> bool" where
  "io_wf io \<longleftrightarrow>
     (\<forall>i<length (io_ctxs io). fx_fd (io_ctxs io ! i) = int i \<and> ctx_ok (io_ctxs io ! i) \<and>
        io_epoll io (int i) = mirror (fx_events (io_ctxs io ! i))) \<and>
     (\<forall>fd. fd < 0 \<or> int (length (io_ctxs io)) \<le> fd \<longrightarrow> io_epoll io fd = None) \<and>
     io_pending io = of_nat (sum_list (map nreg (io_ctxs io)))"

lemma events_and_not:
  "e \<in> {0, 1, 4, 5} \<Longrightarrow> e AND NOT EV_READ = (if e AND EV_WRITE = 0 then 0 else 4)"
  "e \<in> {0, 1, 4, 5} \<Longrightarrow> e AND NOT EV_WRITE = (if e AND EV_READ = 0 then 0 else 1)"
  "e \<in> {0, 1, 4, 5} \<Longrightarrow> e OR EV_READ = (if e AND EV_WRITE = 0 then 1 else 5)"
  "e \<in> {0, 1, 4, 5} \<Longrightarrow> e OR EV_WRITE = (if e AND EV_READ = 0 then 4 else 5)"
  by (auto simp: event_defs)

lemma io_wf_ctx:
  assumes "io_wf io" and "0 \<le> fd" and "fd < int (length (io_ctxs io))"
  shows "ctx_at fd io = Inr (io_ctxs io ! nat fd)" "ctx_ok (io_ctxs io ! nat fd)" "fx_fd (io_ctxs io ! nat fd) = fd"
    "io_epoll io fd = mirror (fx_events (io_ctxs io ! nat fd))" "nat fd < length (io_ctxs io)"
proof -
  have i: "nat fd < length (io_ctxs io)" "int (nat fd) = fd" using assms(2,3) by linarith+
  show "ctx_at fd io = Inr (io_ctxs io ! nat fd)" using assms by (simp add: ctx_at_def)
  show "ctx_ok (io_ctxs io ! nat fd)" "fx_fd (io_ctxs io ! nat fd) = fd"
    "io_epoll io fd = mirror (fx_events (io_ctxs io ! nat fd))" "nat fd < length (io_ctxs io)"
    using assms(1) i unfolding io_wf_def by auto
qed

text \<open>Replacing one context together with its interest entry and its share of the counter.\<close>

lemma io_wf_set:
  assumes wf: "io_wf io" and i: "i < length (io_ctxs io)" and c: "fx_fd c = int i" "ctx_ok c"
    and ctxs: "io_ctxs io' = io_ctxs io" and ep: "io_epoll io' = (io_epoll io)(int i := mirror (fx_events c))"
    and pend: "io_pending io' = io_pending io + of_nat (nreg c) - of_nat (nreg (io_ctxs io ! i))"
  shows "io_wf (set_ctx (int i) c io')"
proof -
  let ?n = "map nreg (io_ctxs io)"
  have "sum_list (map nreg ((io_ctxs io)[i := c])) = sum_list ?n + nreg c - nreg (io_ctxs io ! i)"
    using i sum_list_update [of i ?n "nreg c"] by (simp add: map_update)
  moreover have "nreg (io_ctxs io ! i) \<le> sum_list ?n"
    using elem_le_sum_list [of i ?n] i by simp
  ultimately have "(of_nat (sum_list (map nreg ((io_ctxs io)[i := c]))) :: u64) =
      of_nat (sum_list ?n) + of_nat (nreg c) - of_nat (nreg (io_ctxs io ! i))"
    by simp
  then show ?thesis
    using wf i c ctxs ep pend by (auto simp: io_wf_def set_ctx_def nth_list_update)
qed

lemma io_wf_mirror_id:
  assumes "io_wf io" and "i < length (io_ctxs io)" and "io_epoll io' = io_epoll io" and "io_ctxs io' = io_ctxs io"
    and "io_pending io' = io_pending io"
  shows "io_wf io'"
  using assms by (simp add: io_wf_def)

lemma resize_wf:
  assumes wf: "io_wf io" and n: "length (io_ctxs io) \<le> n"
  shows "io_wf (resizeContext junk n io)"
proof -
  let ?k = "length (io_ctxs io)"
  have new: "ctx_ok (FdContext_new junk i)" "nreg (FdContext_new junk i) = 0" "fx_fd (FdContext_new junk i) = int i"
    "fx_events (FdContext_new junk i) = 0" for i
    by (simp_all add: FdContext_new_def ctx_ok_def nreg_def reg_def waiter_ok_def EV_NONE_def)
  have l: "io_ctxs (resizeContext junk n io) = io_ctxs io @ map (FdContext_new junk) [?k..<n]"
    using n by (simp add: resizeContext_def)
  have "sum_list (map (\<lambda>i. nreg (FdContext_new junk i)) [?k..<n]) = 0" by (simp add: new)
  then have s: "sum_list (map nreg (io_ctxs (resizeContext junk n io))) = sum_list (map nreg (io_ctxs io))"
    by (simp add: l o_def)
  have len: "length (io_ctxs (resizeContext junk n io)) = n" using n by (simp add: l)
  have ep: "io_epoll (resizeContext junk n io) = io_epoll io" "io_pending (resizeContext junk n io) = io_pending io"
    by (simp_all add: resizeContext_def)
  have "fx_fd (io_ctxs (resizeContext junk n io) ! i) = int i \<and> ctx_ok (io_ctxs (resizeContext junk n io) ! i) \<and>
      io_epoll io (int i) = mirror (fx_events (io_ctxs (resizeContext junk n io) ! i))" if "i < n" for i
  proof (cases "i < ?k")
    case True
    then show ?thesis using wf by (simp add: l io_wf_def nth_append)
  next
    case False
    then have "io_epoll io (int i) = None" using wf by (simp add: io_wf_def)
    then show ?thesis using False that by (simp add: l nth_append new mirror_def)
  qed
  then show ?thesis using wf n by (simp add: io_wf_def len ep s)
qed

lemma IOManager_new_wf: "io_wf (IOManager_new junk tm s)"
  unfolding IOManager_new_def by (rule resize_wf) (simp_all add: io_wf_def)

section \<open>Every operation keeps the invariant\<close>

lemma epoll_specD:
  assumes "epoll_spec ctl" and "ctl p fd ev ep = (rt, ep')"
  shows "ep' = (if rt = 0 then ep(fd := (if p = CTL_DEL then None else Some ev)) else ep)"
  using assms(1) [unfolded epoll_spec_def, THEN spec [of _ p], THEN spec [of _ fd], THEN spec [of _ ev], THEN spec [of _ ep]]
  by (simp only: assms(2) case_prod_conv)

lemma mirror_call:
  assumes "epoll_spec ctl" and "ctl (if e \<noteq> 0 then CTL_MOD else CTL_DEL) fd (EPOLLET OR e) ep = (0, ep')"
  shows "ep' = ep(fd := mirror e)"
  using epoll_specD [OF assms] by (simp add: mirror_def)

lemma getContext_ok:
  "ev = EV_READ \<or> ev = EV_WRITE \<Longrightarrow> ctx_ok c \<Longrightarrow> \<exists>x. getContext ev c = Inr x \<and> waiter_ok (reg c ev) x"
  by (auto simp: getContext_def ctx_ok_def EV_READ_def EV_WRITE_def)

lemma getContext_upd [simp]: "getContext ev (c\<lparr>fx_events := e\<rparr>) = getContext ev c"
  by (simp add: getContext_def)

text \<open>Entering a waiter for an event that is not registered, and removing one that is.\<close>

lemma register_ctx:
  assumes ok: "ctx_ok c" and ev: "ev = EV_READ \<or> ev = EV_WRITE" and free: "\<not> reg c ev" and x: "waiter_ok True x"
    and d: "d = putContext ev x (c\<lparr>fx_events := fx_events c OR ev\<rparr>)"
  shows "ctx_ok d" "nreg d = Suc (nreg c)" "fx_fd d = fx_fd c" "reg d ev" "fx_events d = fx_events c OR ev"
    "getContext ev d = Inr x"
proof -
  have e: "fx_events c \<in> {0, 1, 4, 5}" using ok by (simp add: ctx_ok_def)
  show "fx_fd d = fx_fd c" "fx_events d = fx_events c OR ev" "getContext ev d = Inr x"
    using ev by (auto simp: d putContext_def getContext_def)
  have "ctx_ok d \<and> nreg d = Suc (nreg c) \<and> reg d ev"
    using ev
  proof
    assume "ev = EV_READ"
    then show ?thesis
      using ok free x events_and_not(3) [OF e]
      by (cases "fx_events c AND 4 = 0") (simp_all add: d ctx_ok_def putContext_def waiter_ok_def nreg_def reg_def event_defs)
  next
    assume "ev = EV_WRITE"
    then show ?thesis
      using ok free x events_and_not(4) [OF e]
      by (cases "fx_events c AND 1 = 0") (simp_all add: d ctx_ok_def putContext_def waiter_ok_def nreg_def reg_def event_defs)
  qed
  then show "ctx_ok d" "nreg d = Suc (nreg c)" "reg d ev" by simp_all
qed

lemma unregister_ctx:
  assumes ok: "ctx_ok c" and ev: "ev = EV_READ \<or> ev = EV_WRITE" and r: "reg c ev" and x: "waiter_ok False x"
    and d: "d = putContext ev x (c\<lparr>fx_events := fx_events c AND NOT ev\<rparr>)"
  shows "ctx_ok d" "nreg c = Suc (nreg d)" "fx_fd d = fx_fd c" "\<not> reg d ev" "fx_events d = fx_events c AND NOT ev"
    "getContext ev d = Inr x"
proof -
  have e: "fx_events c \<in> {0, 1, 4, 5}" using ok by (simp add: ctx_ok_def)
  show "fx_fd d = fx_fd c" "fx_events d = fx_events c AND NOT ev" "getContext ev d = Inr x"
    using ev by (auto simp: d putContext_def getContext_def)
  have "ctx_ok d \<and> nreg c = Suc (nreg d) \<and> \<not> reg d ev"
    using ev
  proof
    assume "ev = EV_READ"
    then show ?thesis
      using ok r x events_and_not(1) [OF e]
      by (cases "fx_events c AND 4 = 0") (simp_all add: d ctx_ok_def putContext_def waiter_ok_def nreg_def reg_def event_defs)
  next
    assume "ev = EV_WRITE"
    then show ?thesis
      using ok r x events_and_not(2) [OF e]
      by (cases "fx_events c AND 1 = 0") (simp_all add: d ctx_ok_def putContext_def waiter_ok_def nreg_def reg_def event_defs)
  qed
  then show "ctx_ok d" "nreg c = Suc (nreg d)" "\<not> reg d ev" by simp_all
qed

lemma trigger_ok:
  assumes ok: "ctx_ok c" and ev: "ev = EV_READ \<or> ev = EV_WRITE" and r: "reg c ev"
  shows "\<exists>x s c'. getContext ev c = Inr x \<and> ec_scheduler x = Some s \<and>
     triggerEvent ev c = Inr ([(s, \<lparr>tk_fiber = ec_fiber x, tk_cb = ec_cb x, tk_thread = - 1\<rparr>)], c') \<and>
     waiter_ok True x \<and> ctx_ok c' \<and> fx_fd c' = fx_fd c \<and> fx_events c' = fx_events c AND NOT ev \<and> nreg c = Suc (nreg c')"
proof -
  obtain x where x: "getContext ev c = Inr x" "waiter_ok True x" using getContext_ok [OF ev ok] r by auto
  then obtain s where s: "ec_scheduler x = Some s" "(ec_cb x \<noteq> None) = (ec_fiber x = None)"
    by (auto simp: waiter_ok_def)
  let ?x = "x\<lparr>ec_cb := None, ec_fiber := None, ec_scheduler := None\<rparr>"
  obtain d where d: "d = putContext ev ?x (c\<lparr>fx_events := fx_events c AND NOT ev\<rparr>)" by simp
  obtain f b where "x = \<lparr>ec_scheduler = Some s, ec_fiber = f, ec_cb = b\<rparr>" using s(1) by (cases x) auto
  then have "triggerEvent ev c = Inr ([(s, \<lparr>tk_fiber = ec_fiber x, tk_cb = ec_cb x, tk_thread = - 1\<rparr>)], d)"
    using s(2) r x(1) unfolding reg_def d by (cases b) (simp_all add: triggerEvent_def Let_def)
  moreover have "waiter_ok False ?x" by (simp add: waiter_ok_def)
  note unregister_ctx [OF ok ev r this d]
  ultimately show ?thesis using x s(1) by (intro exI [of _ x] exI [of _ s] exI [of _ d] conjI)
qed

text \<open>A failed system call leaves the manager as it was.\<close>

lemma io_wf_failed: "epoll_spec ctl \<Longrightarrow> ctl p fd ev (io_epoll io) = (rt, ep) \<Longrightarrow> rt \<noteq> 0 \<Longrightarrow> io\<lparr>io_epoll := ep\<rparr> = io"
  using epoll_specD by fastforce

text \<open>The context of \<open>fd\<close> after it was replaced.\<close>

lemma ctx_at_set:
  "0 \<le> fd \<Longrightarrow> fd < int (length (io_ctxs io)) \<Longrightarrow> ctx_at fd (set_ctx fd c io) = Inr c"
  "fd' \<noteq> fd \<Longrightarrow> 0 \<le> fd \<Longrightarrow> ctx_at fd' (set_ctx fd c io) = ctx_at fd' io"
  by (auto simp: ctx_at_def set_ctx_def)

lemma io_wf_set_fd:
  assumes "io_wf io" and "0 \<le> fd" "fd < int (length (io_ctxs io))" and "fx_fd c = fd" "ctx_ok c"
    and "io_ctxs io' = io_ctxs io" and "io_epoll io' = (io_epoll io)(fd := mirror (fx_events c))"
    and "io_pending io' = io_pending io + of_nat (nreg c) - of_nat (nreg (io_ctxs io ! nat fd))"
  shows "io_wf (set_ctx fd c io')"
  using io_wf_set [OF assms(1) io_wf_ctx(5) [OF assms(1-3)], of c io'] assms by simp

lemma addEvent_in:
  assumes spec: "epoll_spec ctl" and wf: "io_wf io" and fd: "0 \<le> fd" "fd < int (length (io_ctxs io))"
    and ev: "ev = EV_READ \<or> ev = EV_WRITE" and self: "self \<noteq> None" and cur: "cb = None \<longrightarrow> snd cur = State_EXEC"
    and free: "\<not> reg (io_ctxs io ! nat fd) ev"
  shows "addEvent ctl junk self cur fd ev cb io = Inr (- 1, io) \<or>
     (\<exists>io' c x. addEvent ctl junk self cur fd ev cb io = Inr (0, io') \<and> io_wf io' \<and>
        length (io_ctxs io') = length (io_ctxs io) \<and> io_posted io' = io_posted io \<and>
        ctx_at fd io' = Inr c \<and> reg c ev \<and> getContext ev c = Inr x \<and>
        ec_scheduler x = self \<and> ec_cb x = cb \<and> ec_fiber x = (if cb = None then Some (fst cur) else None))"
proof -
  note c = io_wf_ctx [OF wf fd]
  let ?c = "io_ctxs io ! nat fd"
  obtain rt ep where ctl: "ctl (if fx_events ?c \<noteq> 0 then CTL_MOD else CTL_ADD) fd (EPOLLET OR fx_events ?c OR ev) (io_epoll io) = (rt, ep)"
    by force
  show ?thesis
  proof (cases "rt = 0")
    case False
    then have "addEvent ctl junk self cur fd ev cb io = Inr (- 1, io)"
      using c(1) free ctl fd io_wf_failed [OF spec ctl] by (simp add: addEvent_def reg_def)
    then show ?thesis ..
  next
    case True
    obtain x where x: "getContext ev ?c = Inr x" "waiter_ok False x"
      using getContext_ok [OF ev c(2)] free by auto
    define y where "y = x\<lparr>ec_scheduler := self, ec_cb := cb, ec_fiber := (if cb = None then Some (fst cur) else None)\<rparr>"
    have w: "waiter_ok True y" using self by (simp add: y_def waiter_ok_def)
    obtain d where d: "d = putContext ev y (?c\<lparr>fx_events := fx_events ?c OR ev\<rparr>)" by simp
    note r = register_ctx [OF c(2) ev free w d]
    have "fx_events d \<noteq> 0" using r(4) by (auto simp: reg_def)
    then have ep: "ep = (io_epoll io)(fd := mirror (fx_events d))"
      using epoll_specD [OF spec ctl] True r(5) by (simp add: mirror_def or.assoc)
    let ?io = "set_ctx fd d (io\<lparr>io_epoll := ep, io_pending := io_pending io + 1\<rparr>)"
    have "(if cb \<noteq> None then x\<lparr>ec_scheduler := self, ec_cb := cb\<rparr> else x\<lparr>ec_scheduler := self, ec_fiber := Some (fst cur)\<rparr>) = y"
      using x(2) by (cases x) (auto simp: y_def waiter_ok_def)
    then have "addEvent ctl junk self cur fd ev cb io = Inr (0, ?io)"
      using c(1) free ctl True x(1) cur fd by (auto simp: addEvent_def reg_def d split: if_splits)
    moreover have "io_wf ?io"
      using c(3) r by (intro io_wf_set_fd [OF wf fd]) (simp_all add: ep)
    moreover have "ctx_at fd ?io = Inr d" using fd by (simp add: ctx_at_set)
    ultimately show ?thesis using r(4,6) by (simp add: set_ctx_def y_def)
  qed
qed

text \<open>Beyond the end of the table \<open>addEvent\<close> acts on the enlarged table.\<close>

lemma addEvent_grow:
  assumes "32 \<le> length (io_ctxs io)" and "int (length (io_ctxs io)) \<le> fd"
    and io': "io' = resizeContext junk (nat (fd * 3 div 2)) io"
  shows "addEvent ctl junk self cur fd ev cb io = addEvent ctl junk self cur fd ev cb io'"
    "fd < int (length (io_ctxs io'))" "length (io_ctxs io) \<le> length (io_ctxs io')" "io_ctxs io' ! nat fd = FdContext_new junk (nat fd)"
    "io_posted io' = io_posted io" "io_wf io \<Longrightarrow> io_wf io'"
proof -
  have n: "length (io_ctxs io) \<le> nat (fd * 3 div 2)" "nat fd < nat (fd * 3 div 2)" "length (io_ctxs io) \<le> nat fd"
    using assms(1,2) by linarith+
  then have l: "length (io_ctxs io') = nat (fd * 3 div 2)" by (simp add: io' resizeContext_def)
  then show len: "fd < int (length (io_ctxs io'))" "length (io_ctxs io) \<le> length (io_ctxs io')"
    using n(1,2) by linarith+
  show "io_ctxs io' ! nat fd = FdContext_new junk (nat fd)"
  proof -
    obtain m k where m: "m = nat (fd * 3 div 2)" "k = nat fd" by simp
    then have "length (io_ctxs io) \<le> m" "k < m" "length (io_ctxs io) \<le> k" using n by simp_all
    then show ?thesis unfolding io' m(1) [symmetric] m(2) [symmetric] by (simp add: resizeContext_def nth_append)
  qed
  show "io_posted io' = io_posted io" by (simp add: io' resizeContext_def)
  show "io_wf io \<Longrightarrow> io_wf io'" unfolding io' by (rule resize_wf [OF _ n(1)])
  have "\<not> fd < int (length (io_ctxs io))" using assms(2) by simp
  then show "addEvent ctl junk self cur fd ev cb io = addEvent ctl junk self cur fd ev cb io'"
    using len unfolding addEvent_def io' [symmetric] Let_def by simp
qed

lemma addEvent_ok:
  assumes spec: "epoll_spec ctl" and wf: "io_wf io" and fd: "0 \<le> fd" and len: "32 \<le> length (io_ctxs io)"
    and ev: "ev = EV_READ \<or> ev = EV_WRITE" and self: "self \<noteq> None" and cur: "cb = None \<longrightarrow> snd cur = State_EXEC"
    and free: "fd < int (length (io_ctxs io)) \<Longrightarrow> \<not> reg (io_ctxs io ! nat fd) ev"
  shows "\<exists>rt io'. addEvent ctl junk self cur fd ev cb io = Inr (rt, io') \<and> io_wf io' \<and>
     length (io_ctxs io) \<le> length (io_ctxs io') \<and> io_posted io' = io_posted io \<and> (rt = 0 \<or> rt = - 1) \<and>
     (rt = 0 \<longrightarrow> (\<exists>c x. ctx_at fd io' = Inr c \<and> reg c ev \<and> getContext ev c = Inr x \<and> ec_scheduler x = self \<and>
        ec_cb x = cb \<and> ec_fiber x = (if cb = None then Some (fst cur) else None)))"
proof (cases "fd < int (length (io_ctxs io))")
  case True
  from addEvent_in [OF spec wf fd True ev self cur free [OF True], of junk] wf show ?thesis by auto
next
  case False
  then have f: "int (length (io_ctxs io)) \<le> fd" by simp
  obtain io' where io': "io' = resizeContext junk (nat (fd * 3 div 2)) io" by simp
  note g = addEvent_grow [OF len f io']
  have "\<not> reg (io_ctxs io' ! nat fd) ev" by (simp add: g(4) FdContext_new_def reg_def EV_NONE_def)
  from addEvent_in [OF spec g(6) [OF wf] fd g(2) ev self cur this, of junk] g(3,5,6) wf
  show ?thesis unfolding g(1) [where ctl = ctl and self = self and cur = cur and ev = ev and cb = cb] by auto
qed

lemma delEvent_ok:
  assumes spec: "epoll_spec ctl" and wf: "io_wf io" and fd: "0 \<le> fd" and ev: "ev = EV_READ \<or> ev = EV_WRITE"
  shows "delEvent ctl fd ev io = Inr (False, io) \<or>
     (\<exists>io'. delEvent ctl fd ev io = Inr (True, io') \<and> io_wf io' \<and> length (io_ctxs io') = length (io_ctxs io) \<and>
        io_posted io' = io_posted io \<and> reg (io_ctxs io ! nat fd) ev \<and> \<not> reg (io_ctxs io' ! nat fd) ev)"
proof (cases "fd < int (length (io_ctxs io)) \<and> reg (io_ctxs io ! nat fd) ev")
  case False
  then show ?thesis
    using io_wf_ctx(1) [OF wf fd] by (auto simp: delEvent_def reg_def)
next
  case True
  then have fd': "fd < int (length (io_ctxs io))" and r: "reg (io_ctxs io ! nat fd) ev" by auto
  note c = io_wf_ctx [OF wf fd fd']
  let ?c = "io_ctxs io ! nat fd" and ?e = "fx_events (io_ctxs io ! nat fd) AND NOT ev"
  obtain rt ep where ctl: "ctl (if ?e \<noteq> 0 then CTL_MOD else CTL_DEL) fd (EPOLLET OR ?e) (io_epoll io) = (rt, ep)" by force
  obtain x where x: "getContext ev ?c = Inr x" using getContext_ok [OF ev c(2)] by auto
  obtain d where d: "d = putContext ev (resetContext x) (?c\<lparr>fx_events := ?e\<rparr>)" by simp
  have w: "waiter_ok False (resetContext x)" by (simp add: waiter_ok_def resetContext_def)
  note u = unregister_ctx [OF c(2) ev r w d]
  let ?io = "set_ctx fd d (io\<lparr>io_epoll := ep, io_pending := io_pending io - 1\<rparr>)"
  show ?thesis
  proof (cases "rt = 0")
    case False
    then show ?thesis
      using c(1) r ctl fd' io_wf_failed [OF spec ctl] by (simp add: delEvent_def reg_def)
  next
    case True
    have "delEvent ctl fd ev io = Inr (True, ?io)"
      using c(1) r ctl True x fd' by (simp add: delEvent_def reg_def d)
    moreover have "io_wf ?io"
      using c(3) u mirror_call [OF spec] ctl True by (intro io_wf_set_fd [OF wf fd fd']) simp_all
    ultimately show ?thesis using u(4) r c(5) by (simp add: set_ctx_def)
  qed
qed

lemma cancelEvent_ok:
  assumes spec: "epoll_spec ctl" and wf: "io_wf io" and fd: "0 \<le> fd" and ev: "ev = EV_READ \<or> ev = EV_WRITE"
  shows "cancelEvent ctl fd ev io = Inr (False, io) \<or>
     (\<exists>io' x s. cancelEvent ctl fd ev io = Inr (True, io') \<and> io_wf io' \<and> length (io_ctxs io') = length (io_ctxs io) \<and>
        reg (io_ctxs io ! nat fd) ev \<and> getContext ev (io_ctxs io ! nat fd) = Inr x \<and> ec_scheduler x = Some s \<and> waiter_ok True x \<and>
        io_posted io' = io_posted io @ [(s, \<lparr>tk_fiber = ec_fiber x, tk_cb = ec_cb x, tk_thread = - 1\<rparr>)])"
proof (cases "fd < int (length (io_ctxs io)) \<and> reg (io_ctxs io ! nat fd) ev")
  case False
  then show ?thesis
    using io_wf_ctx(1) [OF wf fd] by (auto simp: cancelEvent_def reg_def)
next
  case True
  then have fd': "fd < int (length (io_ctxs io))" and r: "reg (io_ctxs io ! nat fd) ev" by auto
  note c = io_wf_ctx [OF wf fd fd']
  let ?c = "io_ctxs io ! nat fd" and ?e = "fx_events (io_ctxs io ! nat fd) AND NOT ev"
  obtain rt ep where ctl: "ctl (if ?e \<noteq> 0 then CTL_MOD else CTL_DEL) fd (EPOLLET OR ?e) (io_epoll io) = (rt, ep)" by force
  from trigger_ok [OF c(2) ev r] obtain x s d where x: "getContext ev ?c = Inr x" "ec_scheduler x = Some s" "waiter_ok True x"
    and t: "triggerEvent ev ?c = Inr ([(s, \<lparr>tk_fiber = ec_fiber x, tk_cb = ec_cb x, tk_thread = - 1\<rparr>)], d)"
    and d: "ctx_ok d" "fx_fd d = fx_fd ?c" "fx_events d = ?e" "nreg ?c = Suc (nreg d)"
    by blast
  show ?thesis
  proof (cases "rt = 0")
    case False
    then show ?thesis
      using c(1) r ctl fd' io_wf_failed [OF spec ctl] by (simp add: cancelEvent_def reg_def)
  next
    case True
    let ?io = "set_ctx fd d (io\<lparr>io_epoll := ep, io_posted := io_posted io @ [(s, \<lparr>tk_fiber = ec_fiber x, tk_cb = ec_cb x, tk_thread = - 1\<rparr>)],
      io_pending := io_pending io - 1\<rparr>)"
    have "cancelEvent ctl fd ev io = Inr (True, ?io)"
      using c(1) r ctl True t fd' by (simp add: cancelEvent_def reg_def)
    moreover have "io_wf ?io"
      using c(3) d mirror_call [OF spec] ctl True by (intro io_wf_set_fd [OF wf fd fd']) simp_all
    ultimately show ?thesis using r x by (simp add: set_ctx_def)
  qed
qed

text \<open>Triggering events that are registered: the waiters are posted and counted down.\<close>

definition waiter_task :: "u32 \<Rightarrow> fd_context \<Rightarrow> (nat \<times> task) list" where
  "waiter_task ev c =
     (let x = (if ev = EV_READ then fx_read c else fx_write c)
      in [(the (ec_scheduler x), \<lparr>tk_fiber = ec_fiber x, tk_cb = ec_cb x, tk_thread = - 1\<rparr>)])"

lemma trigger_task:
  assumes ok: "ctx_ok c" and ev: "ev = EV_READ \<or> ev = EV_WRITE" and r: "reg c ev"
  shows "\<exists>d. triggerEvent ev c = Inr (waiter_task ev c, d) \<and> ctx_ok d \<and> fx_fd d = fx_fd c \<and>
     fx_events d = fx_events c AND NOT ev \<and> nreg c = Suc (nreg d) \<and> (ev = EV_READ \<longrightarrow> fx_write d = fx_write c)"
proof -
  from trigger_ok [OF ok ev r] obtain x s d where x: "getContext ev c = Inr x" "ec_scheduler x = Some s"
    and t: "triggerEvent ev c = Inr ([(s, \<lparr>tk_fiber = ec_fiber x, tk_cb = ec_cb x, tk_thread = - 1\<rparr>)], d)"
    and d: "ctx_ok d" "fx_fd d = fx_fd c" "fx_events d = fx_events c AND NOT ev" "nreg c = Suc (nreg d)"
    by blast
  have w: "ev = EV_READ \<longrightarrow> fx_write d = fx_write c"
    using t x r by (auto simp: triggerEvent_def reg_def putContext_def Let_def split: option.splits)
  have "waiter_task ev c = [(s, \<lparr>tk_fiber = ec_fiber x, tk_cb = ec_cb x, tk_thread = - 1\<rparr>)]"
    using x ev by (auto simp: waiter_task_def getContext_def split: if_splits)
  then show ?thesis using t d w by auto
qed

lemma trigger_if_ok:
  assumes ok: "ctx_ok c" and ev: "ev = EV_READ \<or> ev = EV_WRITE" and r: "b \<Longrightarrow> reg c ev"
  shows "\<exists>d. trigger_if b ev (c, io) = Inr (d, io\<lparr>io_posted := io_posted io @ (if b then waiter_task ev c else []),
       io_pending := io_pending io + of_nat (nreg d) - of_nat (nreg c)\<rparr>) \<and>
     ctx_ok d \<and> fx_fd d = fx_fd c \<and> fx_events d = (if b then fx_events c AND NOT ev else fx_events c) \<and>
     (ev = EV_READ \<longrightarrow> fx_write d = fx_write c)"
proof (cases b)
  case True
  from trigger_task [OF ok ev r [OF True]] obtain d where d: "triggerEvent ev c = Inr (waiter_task ev c, d)" "ctx_ok d"
    "fx_fd d = fx_fd c" "fx_events d = fx_events c AND NOT ev" "nreg c = Suc (nreg d)" "ev = EV_READ \<longrightarrow> fx_write d = fx_write c"
    by blast
  show ?thesis by (rule exI [of _ d]) (use d True in \<open>simp add: trigger_if_def\<close>)
next
  case False
  then show ?thesis using ok by (simp add: trigger_if_def)
qed

lemma trigger_both:
  assumes ok: "ctx_ok c" and r: "b1 \<Longrightarrow> reg c EV_READ" and w: "b2 \<Longrightarrow> reg c EV_WRITE"
  shows "\<exists>d e. trigger_if b1 EV_READ (c, io) = Inr (d, io\<lparr>io_posted := io_posted io @ (if b1 then waiter_task EV_READ c else []),
       io_pending := io_pending io + of_nat (nreg d) - of_nat (nreg c)\<rparr>) \<and>
     trigger_if b2 EV_WRITE (d, io\<lparr>io_posted := io_posted io @ (if b1 then waiter_task EV_READ c else []),
       io_pending := io_pending io + of_nat (nreg d) - of_nat (nreg c)\<rparr>) =
       Inr (e, io\<lparr>io_posted := io_posted io @ (if b1 then waiter_task EV_READ c else []) @ (if b2 then waiter_task EV_WRITE c else []),
         io_pending := io_pending io + of_nat (nreg e) - of_nat (nreg c)\<rparr>) \<and>
     reg d EV_WRITE = reg c EV_WRITE \<and> ctx_ok e \<and> fx_fd e = fx_fd c \<and>
     fx_events e = fx_events c AND NOT ((if b1 then EV_READ else 0) OR (if b2 then EV_WRITE else 0))"
proof -
  from trigger_if_ok [OF ok disjI1 [OF refl] r, of b1 io]
  obtain d where t1: "trigger_if b1 EV_READ (c, io) = Inr (d, io\<lparr>io_posted := io_posted io @ (if b1 then waiter_task EV_READ c else []),
       io_pending := io_pending io + of_nat (nreg d) - of_nat (nreg c)\<rparr>)" and d: "ctx_ok d" "fx_fd d = fx_fd c"
    "fx_events d = (if b1 then fx_events c AND NOT EV_READ else fx_events c)" "EV_READ = EV_READ \<longrightarrow> fx_write d = fx_write c"
    by blast
  have "(fx_events c AND NOT EV_READ) AND EV_WRITE = fx_events c AND EV_WRITE"
    by (simp add: and.assoc EV_READ_def EV_WRITE_def)
  then have rw: "reg d EV_WRITE = reg c EV_WRITE" using d(3) by (simp add: reg_def)
  have wt: "waiter_task EV_WRITE d = waiter_task EV_WRITE c" using d(4) by (simp add: waiter_task_def EV_READ_def EV_WRITE_def)
  let ?io = "io\<lparr>io_posted := io_posted io @ (if b1 then waiter_task EV_READ c else []),
       io_pending := io_pending io + of_nat (nreg d) - of_nat (nreg c)\<rparr>"
  have "b2 \<Longrightarrow> reg d EV_WRITE" using rw w by simp
  from trigger_if_ok [OF d(1) disjI2 [OF refl] this, of b2 ?io]
  obtain e where t2: "trigger_if b2 EV_WRITE (d, ?io) = Inr (e, ?io\<lparr>io_posted := io_posted ?io @ (if b2 then waiter_task EV_WRITE d else []),
       io_pending := io_pending ?io + of_nat (nreg e) - of_nat (nreg d)\<rparr>)" and e: "ctx_ok e" "fx_fd e = fx_fd d"
    "fx_events e = (if b2 then fx_events d AND NOT EV_WRITE else fx_events d)"
    by blast
  have "fx_events e = fx_events c AND NOT ((if b1 then EV_READ else 0) OR (if b2 then EV_WRITE else 0))"
    using e(3) d(3) by (simp add: and.assoc)
  then show ?thesis using t1 t2 rw e d(2) by (intro exI [of _ d] exI [of _ e]) (simp add: wt)
qed

definition waiters :: "fd_context \<Rightarrow> (nat \<times> task) list" where
  "waiters c = (if reg c EV_READ then waiter_task EV_READ c else []) @ (if reg c EV_WRITE then waiter_task EV_WRITE c else [])"

lemma cancelAll_ok:
  assumes spec: "epoll_spec ctl" and wf: "io_wf io" and fd: "0 \<le> fd"
  shows "cancelAll ctl fd io = Inr (False, io) \<or>
     (\<exists>io'. cancelAll ctl fd io = Inr (True, io') \<and> io_wf io' \<and> length (io_ctxs io') = length (io_ctxs io) \<and>
        fd < int (length (io_ctxs io)) \<and> fx_events (io_ctxs io' ! nat fd) = 0 \<and>
        io_posted io' = io_posted io @ waiters (io_ctxs io ! nat fd))"
proof (cases "fd < int (length (io_ctxs io)) \<and> fx_events (io_ctxs io ! nat fd) \<noteq> 0")
  case False
  then show ?thesis using io_wf_ctx(1) [OF wf fd] by (auto simp: cancelAll_def)
next
  case True
  then have fd': "fd < int (length (io_ctxs io))" and e0: "fx_events (io_ctxs io ! nat fd) \<noteq> 0" by auto
  note c = io_wf_ctx [OF wf fd fd']
  let ?c = "io_ctxs io ! nat fd"
  obtain rt ep where ctl: "ctl CTL_DEL fd 0 (io_epoll io) = (rt, ep)" by force
  show ?thesis
  proof (cases "rt = 0")
    case False
    then show ?thesis using c(1) e0 ctl fd' io_wf_failed [OF spec ctl] by (simp add: cancelAll_def)
  next
    case True
    from trigger_both [OF c(2), of "reg ?c EV_READ" "reg ?c EV_WRITE" "io\<lparr>io_epoll := ep\<rparr>"]
    obtain d e where t: "trigger_if (reg ?c EV_READ) EV_READ (?c, io\<lparr>io_epoll := ep\<rparr>) = Inr (d, io\<lparr>io_epoll := ep,
          io_posted := io_posted io @ (if reg ?c EV_READ then waiter_task EV_READ ?c else []),
          io_pending := io_pending io + of_nat (nreg d) - of_nat (nreg ?c)\<rparr>)"
        "trigger_if (reg ?c EV_WRITE) EV_WRITE (d, io\<lparr>io_epoll := ep,
          io_posted := io_posted io @ (if reg ?c EV_READ then waiter_task EV_READ ?c else []),
          io_pending := io_pending io + of_nat (nreg d) - of_nat (nreg ?c)\<rparr>) = Inr (e, io\<lparr>io_epoll := ep,
          io_posted := io_posted io @ waiters ?c, io_pending := io_pending io + of_nat (nreg e) - of_nat (nreg ?c)\<rparr>)"
      and d: "reg d EV_WRITE = reg ?c EV_WRITE" and e: "ctx_ok e" "fx_fd e = fx_fd ?c"
        "fx_events e = fx_events ?c AND NOT ((if reg ?c EV_READ then EV_READ else 0) OR (if reg ?c EV_WRITE then EV_WRITE else 0))"
      unfolding waiters_def by auto
    have z: "fx_events e = 0"
      using c(2) e(3) by (auto simp: ctx_ok_def reg_def EV_READ_def EV_WRITE_def)
    let ?io = "set_ctx fd e (io\<lparr>io_epoll := ep, io_posted := io_posted io @ waiters ?c,
      io_pending := io_pending io + of_nat (nreg e) - of_nat (nreg ?c)\<rparr>)"
    have "cancelAll ctl fd io = Inr (True, ?io)"
      using c(1) e0 ctl True fd' t d z unfolding reg_def [symmetric] cancelAll_def by simp
    moreover have "io_wf ?io"
      using c(3) e epoll_specD [OF spec ctl] True z by (intro io_wf_set_fd [OF wf fd fd']) (simp_all add: mirror_def)
    ultimately show ?thesis using z c(5) fd' by (simp add: set_ctx_def)
  qed
qed

text \<open>The mask \<open>idle\<close> computes from the events the kernel reports.\<close>

definition real_events :: "u32 \<Rightarrow> u32" where
  "real_events events =
     (let events = (if events AND (EPOLLERR OR EPOLLHUP) \<noteq> 0 then events OR EPOLLIN OR EPOLLOUT else events)
      in (if events AND EPOLLIN \<noteq> 0 then EV_READ else 0) OR (if events AND EPOLLOUT \<noteq> 0 then EV_WRITE else 0))"

lemma real_events_cases: "real_events events \<in> {0, 1, 4, 5}"
  by (simp add: real_events_def Let_def EV_READ_def EV_WRITE_def)

lemma real_events_split:
  "real_events m = (if real_events m AND EV_READ \<noteq> 0 then EV_READ else 0) OR (if real_events m AND EV_WRITE \<noteq> 0 then EV_WRITE else 0)"
  using real_events_cases [of m] by (auto simp: EV_READ_def EV_WRITE_def)

lemma handle_event_alt:
  "handle_event ctl i events io =
     (if \<not> i < length (io_ctxs io) then Inl Out_of_bounds
      else let c = io_ctxs io ! i; real = real_events events
           in if fx_events c AND real = 0 then Inr io
              else let left = fx_events c AND NOT real;
                       (rt, ep) = ctl (if left \<noteq> 0 then CTL_MOD else CTL_DEL) (fx_fd c) (EPOLLET OR left) (io_epoll io);
                       io = io\<lparr>io_epoll := ep\<rparr>
                   in if rt \<noteq> 0 then Inr io
                      else bindE (trigger_if (real AND EV_READ \<noteq> 0) EV_READ (c, io)) (\<lambda>(c, io).
                           bindE (trigger_if (real AND EV_WRITE \<noteq> 0) EV_WRITE (c, io)) (\<lambda>(c, io).
                             Inr (set_ctx (int i) c io))))"
  unfolding handle_event_def real_events_def EV_NONE_def Let_def by (rule refl)

text \<open>The waiters of the events in a mask.\<close>

definition waiters_of :: "u32 \<Rightarrow> fd_context \<Rightarrow> (nat \<times> task) list" where
  "waiters_of m c = (if m AND EV_READ \<noteq> 0 then waiter_task EV_READ c else []) @ (if m AND EV_WRITE \<noteq> 0 then waiter_task EV_WRITE c else [])"

lemma handle_event_ok:
  assumes spec: "epoll_spec ctl" and wf: "io_wf io" and i: "i < length (io_ctxs io)"
    and sub: "fx_events (io_ctxs io ! i) AND real_events m = 0 \<or>
      (real_events m AND EV_READ \<noteq> 0 \<longrightarrow> reg (io_ctxs io ! i) EV_READ) \<and> (real_events m AND EV_WRITE \<noteq> 0 \<longrightarrow> reg (io_ctxs io ! i) EV_WRITE)"
  shows "handle_event ctl i m io = Inr io \<or>
     (\<exists>io'. handle_event ctl i m io = Inr io' \<and> io_wf io' \<and> length (io_ctxs io') = length (io_ctxs io) \<and>
        fx_events (io_ctxs io ! i) AND real_events m \<noteq> 0 \<and>
        fx_events (io_ctxs io' ! i) = fx_events (io_ctxs io ! i) AND NOT (real_events m) \<and>
        io_posted io' = io_posted io @ waiters_of (real_events m) (io_ctxs io ! i))"
proof (cases "fx_events (io_ctxs io ! i) AND real_events m = 0")
  case True
  then show ?thesis using i by (simp add: handle_event_alt)
next
  case False
  have fd: "0 \<le> int i" "int i < int (length (io_ctxs io))" using i by simp_all
  note c = io_wf_ctx [OF wf fd, unfolded nat_int]
  let ?c = "io_ctxs io ! i" and ?r = "real_events m AND EV_READ \<noteq> 0" and ?w = "real_events m AND EV_WRITE \<noteq> 0"
  let ?e = "fx_events ?c AND NOT (real_events m)"
  obtain rt ep where ctl: "ctl (if ?e \<noteq> 0 then CTL_MOD else CTL_DEL) (int i) (EPOLLET OR ?e) (io_epoll io) = (rt, ep)" by force
  show ?thesis
  proof (cases "rt = 0")
    case fail: False
    then show ?thesis using c(3) i ctl False io_wf_failed [OF spec ctl] by (simp add: handle_event_alt Let_def)
  next
    case True
    have rw: "?r \<longrightarrow> reg ?c EV_READ" "?w \<longrightarrow> reg ?c EV_WRITE" using sub False by auto
    from trigger_both [OF c(2), of ?r ?w "io\<lparr>io_epoll := ep\<rparr>"] rw
    obtain d e where t: "trigger_if ?r EV_READ (?c, io\<lparr>io_epoll := ep\<rparr>) = Inr (d, io\<lparr>io_epoll := ep,
          io_posted := io_posted io @ (if ?r then waiter_task EV_READ ?c else []),
          io_pending := io_pending io + of_nat (nreg d) - of_nat (nreg ?c)\<rparr>)"
        "trigger_if ?w EV_WRITE (d, io\<lparr>io_epoll := ep,
          io_posted := io_posted io @ (if ?r then waiter_task EV_READ ?c else []),
          io_pending := io_pending io + of_nat (nreg d) - of_nat (nreg ?c)\<rparr>) = Inr (e, io\<lparr>io_epoll := ep,
          io_posted := io_posted io @ waiters_of (real_events m) ?c, io_pending := io_pending io + of_nat (nreg e) - of_nat (nreg ?c)\<rparr>)"
      and e: "ctx_ok e" "fx_fd e = fx_fd ?c" "fx_events e = fx_events ?c AND NOT ((if ?r then EV_READ else 0) OR (if ?w then EV_WRITE else 0))"
      unfolding waiters_of_def by auto
    have ee: "fx_events e = ?e" using e(3) unfolding real_events_split [symmetric] .
    let ?io = "set_ctx (int i) e (io\<lparr>io_epoll := ep, io_posted := io_posted io @ waiters_of (real_events m) ?c,
      io_pending := io_pending io + of_nat (nreg e) - of_nat (nreg ?c)\<rparr>)"
    have "handle_event ctl i m io = Inr ?io"
      using c(3) i ctl True False t by (simp add: handle_event_alt Let_def)
    moreover have "io_wf ?io"
      using c(3) e ee mirror_call [OF spec] ctl True by (intro io_wf_set_fd [OF wf fd]) simp_all
    ultimately show ?thesis using ee i False by (simp add: set_ctx_def)
  qed
qed

text \<open>A reported event that is not registered next to one that is: the trigger asserts.\<close>

lemma handle_event_mismatch:
  assumes spec: "epoll_spec ctl" and wf: "io_wf io" and i: "i < length (io_ctxs io)"
    and m: "fx_events (io_ctxs io ! i) AND real_events m \<noteq> 0"
    and bad: "real_events m AND EV_READ \<noteq> 0 \<and> \<not> reg (io_ctxs io ! i) EV_READ \<or> real_events m AND EV_WRITE \<noteq> 0 \<and> \<not> reg (io_ctxs io ! i) EV_WRITE"
    and left: "left = fx_events (io_ctxs io ! i) AND NOT (real_events m)"
    and ctl: "ctl (if left \<noteq> 0 then CTL_MOD else CTL_DEL) (int i) (EPOLLET OR left) (io_epoll io) = (rt, ep)"
  shows "handle_event ctl i m io = (if rt = 0 then Inl (Assert_failed ''events & event'') else Inr io)"
proof -
  have fd: "0 \<le> int i" "int i < int (length (io_ctxs io))" using i by simp_all
  note c = io_wf_ctx [OF wf fd, unfolded nat_int]
  let ?c = "io_ctxs io ! i" and ?r = "real_events m AND EV_READ \<noteq> 0" and ?w = "real_events m AND EV_WRITE \<noteq> 0"
  have fails: "trigger_if b ev (d, jo) = Inl (Assert_failed ''events & event'')" if "b" "\<not> reg d ev" for b ev d jo
    using that by (simp add: trigger_if_def triggerEvent_def reg_def assertE_def)
  have t: "bindE (trigger_if ?r EV_READ (?c, jo)) (\<lambda>(d, jo). bindE (trigger_if ?w EV_WRITE (d, jo)) f) =
      Inl (Assert_failed ''events & event'')" for jo and f :: "fd_context \<times> iomgr \<Rightarrow> iomgr outcome"
  proof (cases "?r \<and> \<not> reg ?c EV_READ")
    case True
    then show ?thesis using fails by simp
  next
    case False
    then have w: "?w" "\<not> reg ?c EV_WRITE" and r: "?r \<Longrightarrow> reg ?c EV_READ" using bad by auto
    from trigger_if_ok [OF c(2) disjI1 [OF refl], of ?r jo] r
    obtain d jo' where "trigger_if ?r EV_READ (?c, jo) = Inr (d, jo')"
      and "fx_events d = (if ?r then fx_events ?c AND NOT EV_READ else fx_events ?c)" by blast
    moreover from this(2) have "\<not> reg d EV_WRITE"
      using w(2) by (auto simp: reg_def and.assoc EV_READ_def EV_WRITE_def)
    ultimately show ?thesis using fails [OF w(1)] by simp
  qed
  show ?thesis
    using c(3) i m ctl io_wf_failed [OF spec ctl] t by (simp add: handle_event_alt Let_def left)
qed

lemma handle_event_inv:
  assumes spec: "epoll_spec ctl" and wf: "io_wf io" and h: "handle_event ctl i m io = Inr io'"
  shows "io_wf io' \<and> length (io_ctxs io') = length (io_ctxs io)"
proof -
  have i: "i < length (io_ctxs io)" using h by (simp add: handle_event_def split: if_splits)
  let ?c = "io_ctxs io ! i"
  show ?thesis
  proof (cases "fx_events ?c AND real_events m = 0 \<or>
      (real_events m AND EV_READ \<noteq> 0 \<longrightarrow> reg ?c EV_READ) \<and> (real_events m AND EV_WRITE \<noteq> 0 \<longrightarrow> reg ?c EV_WRITE)")
    case True
    from handle_event_ok [OF spec wf i True] h wf show ?thesis by auto
  next
    case False
    then have m: "fx_events ?c AND real_events m \<noteq> 0" and bad: "real_events m AND EV_READ \<noteq> 0 \<and> \<not> reg ?c EV_READ \<or>
      real_events m AND EV_WRITE \<noteq> 0 \<and> \<not> reg ?c EV_WRITE" by auto
    obtain rt ep where "ctl (if fx_events ?c AND NOT (real_events m) \<noteq> 0 then CTL_MOD else CTL_DEL) (int i)
      (EPOLLET OR (fx_events ?c AND NOT (real_events m))) (io_epoll io) = (rt, ep)" by force
    from handle_event_mismatch [OF spec wf i m bad refl this] h wf show ?thesis by (simp split: if_splits)
  qed
qed

lemma handle_events_inv:
  assumes spec: "epoll_spec ctl"
  shows "handle_events ctl es io = Inr io' \<Longrightarrow> io_wf io \<Longrightarrow> io_wf io' \<and> length (io_ctxs io') = length (io_ctxs io)"
proof (induction es arbitrary: io)
  case (Cons e es)
  show ?case
  proof (cases e)
    case Tickled
    then show ?thesis using Cons by simp
  next
    case (Ready i m)
    then obtain jo where h: "handle_event ctl i m io = Inr jo" "handle_events ctl es jo = Inr io'"
      using Cons.prems(1) by (auto simp: bindE_eq_Inr_iff)
    note inv = handle_event_inv [OF spec Cons.prems(2) h(1)]
    then show ?thesis using Cons.IH [OF h(2)] by simp
  qed
qed simp

text \<open>Reads of the clock and the timers leave the registrations alone.\<close>

lemma io_wf_frame:
  assumes "io_wf io" and "io_ctxs io' = io_ctxs io" "io_epoll io' = io_epoll io" "io_pending io' = io_pending io"
  shows "io_wf io'"
  using assms by (simp add: io_wf_def)

lemma idle_round_inv:
  assumes spec: "epoll_spec ctl" and wf: "io_wf io" and r: "idle_round ctl cb_id a now now' es io = Inr (res, io')"
  shows "io_wf io' \<and> length (io_ctxs io') = length (io_ctxs io)"
proof -
  obtain stop jo where s: "stopping_timeout now 0 io = (stop, jo)" by force
  then have jo: "io_ctxs jo = io_ctxs io" "io_epoll jo = io_epoll io" "io_pending jo = io_pending io"
    by (auto simp: stopping_timeout_def split: prod.splits)
  show ?thesis
  proof (cases stop)
    case True
    then show ?thesis using r s io_wf_frame [OF wf jo] jo by (simp add: idle_round_def)
  next
    case False
    then obtain tm sc where h: "handle_events ctl es (jo\<lparr>io_timers := tm, io_sched := sc\<rparr>) = Inr io'"
      using r s by (auto simp: idle_round_def bindE_eq_Inr_iff Let_def split: prod.splits)
    show ?thesis using handle_events_inv [OF spec h io_wf_frame [OF wf]] jo by simp
  qed
qed

section \<open>Reachable managers\<close>

text \<open>
  The operations the threads of a program interleave, each under its lock: registration by a
  running fiber or with a function, removal, cancellation, and rounds of the idle loop.
\<close>

inductive io_step :: "epoll_call \<Rightarrow> nat option \<Rightarrow> iomgr \<Rightarrow> iomgr \<Rightarrow> bool" for ctl junk where
  Add: "0 \<le> fd \<Longrightarrow> ev = EV_READ \<or> ev = EV_WRITE \<Longrightarrow> self \<noteq> None \<Longrightarrow> cb = None \<longrightarrow> snd cur = State_EXEC \<Longrightarrow>
     addEvent ctl junk self cur fd ev cb io = Inr (rt, io') \<Longrightarrow> io_step ctl junk io io'"
| Del: "0 \<le> fd \<Longrightarrow> ev = EV_READ \<or> ev = EV_WRITE \<Longrightarrow> delEvent ctl fd ev io = Inr (b, io') \<Longrightarrow> io_step ctl junk io io'"
| Cancel: "0 \<le> fd \<Longrightarrow> ev = EV_READ \<or> ev = EV_WRITE \<Longrightarrow> cancelEvent ctl fd ev io = Inr (b, io') \<Longrightarrow> io_step ctl junk io io'"
| Cancel_all: "0 \<le> fd \<Longrightarrow> cancelAll ctl fd io = Inr (b, io') \<Longrightarrow> io_step ctl junk io io'"
| Stopping: "io' = snd (io_stopping now io) \<Longrightarrow> io_step ctl junk io io'"
| Idle: "idle_round ctl cb_id a now now' es io = Inr (res, io') \<Longrightarrow> io_step ctl junk io io'"

inductive io_reach :: "epoll_call \<Rightarrow> nat option \<Rightarrow> iomgr \<Rightarrow> bool" for ctl junk where
  New: "io_reach ctl junk (IOManager_new junk tm s)"
| Step: "io_reach ctl junk io \<Longrightarrow> io_step ctl junk io io' \<Longrightarrow> io_reach ctl junk io'"

lemma IOManager_start_reach:
  assumes "IOManager_start epfd rt_pipe rt_fcntl rt_ctl junk h now ids s = Inr io"
  shows "io_reach ctl junk io"
proof -
  obtain s' where "io = IOManager_new junk (TimerManager_new h now) s'"
    using assms by (auto simp: IOManager_start_def bindE_eq_Inr_iff Let_def IOManager_new_def resizeContext_def)
  then show ?thesis using io_reach.New by simp
qed

lemma addEvent_free:
  assumes "addEvent ctl junk self cur fd ev cb io = Inr r" and "0 \<le> fd" and "fd < int (length (io_ctxs io))"
  shows "\<not> reg (io_ctxs io ! nat fd) ev"
  using assms by (auto simp: addEvent_def ctx_at_def reg_def assertE_def split: if_splits)

lemma io_step_inv:
  assumes spec: "epoll_spec ctl" and wf: "io_wf io" and len: "32 \<le> length (io_ctxs io)" and step: "io_step ctl junk io io'"
  shows "io_wf io' \<and> 32 \<le> length (io_ctxs io')"
  using step
proof cases
  case (Add fd ev self cb cur rt)
  from addEvent_ok [OF spec wf Add(1) len Add(2,3,4) addEvent_free [OF Add(5,1)], of junk] Add(5) len show ?thesis by auto
next
  case (Del fd ev b)
  from delEvent_ok [OF spec wf Del(1,2)] Del(3) wf len show ?thesis by auto
next
  case (Cancel fd ev b)
  from cancelEvent_ok [OF spec wf Cancel(1,2)] Cancel(3) wf len show ?thesis by auto
next
  case (Cancel_all fd b)
  from cancelAll_ok [OF spec wf Cancel_all(1)] Cancel_all(2) wf len show ?thesis by auto
next
  case (Stopping now)
  then have "io_ctxs io' = io_ctxs io" "io_epoll io' = io_epoll io" "io_pending io' = io_pending io"
    by (simp_all add: io_stopping_def stopping_timeout_def case_prod_unfold Let_def)
  then show ?thesis using io_wf_frame [OF wf] len by simp
next
  case (Idle cb_id a now now' es res)
  from idle_round_inv [OF spec wf Idle] len show ?thesis by simp
qed

lemma io_reach_wf:
  assumes "io_reach ctl junk io" and "epoll_spec ctl"
  shows "io_wf io" "32 \<le> length (io_ctxs io)"
proof -
  have "io_wf io \<and> 32 \<le> length (io_ctxs io)"
    using assms
  proof (induction rule: io_reach.induct)
    case (New tm s)
    then show ?case using IOManager_new_wf by (simp add: IOManager_new_def resizeContext_def)
  next
    case (Step io io')
    then show ?case using io_step_inv by blast
  qed
  then show "io_wf io" "32 \<le> length (io_ctxs io)" by simp_all
qed

lemma sum_nreg_zero:
  assumes "(of_nat (sum_list (map nreg cs)) :: u64) = 0" and "length cs < 2 ^ 63"
  shows "\<forall>c\<in>set cs. nreg c = 0"
proof -
  have "sum_list (map nreg cs) \<le> sum_list (map (\<lambda>_. 2) cs)"
    by (rule sum_list_mono) (simp add: nreg_def)
  also have "\<dots> < 2 ^ 64" using assms(2) by (simp add: sum_list_triv)
  finally have "sum_list (map nreg cs) = 0"
    using assms(1) unat_of_nat_less [where 'a = 64, of "sum_list (map nreg cs)"] by simp
  then show ?thesis by simp
qed

lemma nreg_zero: "ctx_ok c \<Longrightarrow> nreg c = 0 \<Longrightarrow> fx_events c = 0"
  by (auto simp: ctx_ok_def nreg_def reg_def event_defs split: if_splits)

section \<open>Properties\<close>

text \<open>A kernel call that always succeeds, and a manager to evaluate on.\<close>

definition ctl_ok :: epoll_call where
  "ctl_ok p fd ev ep = (0, ep(fd := (if p = CTL_DEL then None else Some ev)))"

lemma ctl_ok_spec: "epoll_spec ctl_ok"
  by (simp add: epoll_spec_def ctl_ok_def)

definition io_demo :: iomgr where
  "io_demo = IOManager_new None (TimerManager_new (\<lambda>_. Timer_at 0) 10)
     \<lparr>sc_fibers = [], sc_thread_count = 1, sc_active = 0, sc_idle = 0, sc_stop = True, sc_autostop = True,
      sc_root_thread = - 1, sc_root_fiber = None, sc_threads = [], sc_thread_ids = [], sc_tickles = 0, sc_ran = []\<rparr>"

text \<open>The manager after fiber 3 has waited for descriptor 5 to become readable.\<close>

definition io_demo_read :: iomgr where
  "io_demo_read = (case addEvent ctl_ok None (Some 9) (3, State_EXEC) 5 EV_READ None io_demo of Inr (_, io) \<Rightarrow> io | _ \<Rightarrow> io_demo)"

lemma io_demo_ctxs:
  "io_ctxs io_demo = map (FdContext_new None) [0..<32]" "io_epoll io_demo = (\<lambda>_. None)" "io_pending io_demo = 0" "io_posted io_demo = []"
  by (simp_all add: io_demo_def IOManager_new_def resizeContext_def)

lemma io_demo_add:
  "addEvent ctl_ok None (Some 9) (3, State_EXEC) 5 EV_READ None io_demo = Inr (0, io_demo_read)"
  "io_ctxs io_demo_read ! 5 = \<lparr>fx_fd = 5, fx_read = \<lparr>ec_scheduler = Some 9, ec_fiber = Some 3, ec_cb = None\<rparr>,
     fx_write = \<lparr>ec_scheduler = None, ec_fiber = None, ec_cb = None\<rparr>, fx_events = 1\<rparr>"
  "length (io_ctxs io_demo_read) = 32" "io_posted io_demo_read = []"
  by (simp_all add: io_demo_read_def addEvent_def ctx_at_def io_demo_ctxs FdContext_new_def event_defs ctl_ok_def Let_def assertE_def
      getContext_def putContext_def set_ctx_def)

lemma io_demo_reach: "io_reach ctl_ok None io_demo" "io_reach ctl_ok None io_demo_read"
proof -
  show 1: "io_reach ctl_ok None io_demo" unfolding io_demo_def by (rule io_reach.New)
  show "io_reach ctl_ok None io_demo_read"
    by (rule io_reach.Step [OF 1 io_step.Add [OF _ _ _ _ io_demo_add(1)]]) (simp_all add: EV_READ_def)
qed

text \<open>The timeout handed to \<open>epoll_wait\<close> is zero in every round, whatever the next timer is.\<close>

lemma idle_round_timeout:
  "idle_round ctl cb_id a now now' es io = Inr (Some (t, io''), io') \<Longrightarrow> t = 0"
  by (auto simp: idle_round_def bindE_eq_Inr_iff epoll_timeout_def Let_def split: prod.splits if_splits)

text \<open>
  C7. In every state that registrations, removals, cancellations and rounds of the idle loop can
  reach, in any order, the kernel's interest table shows exactly the registered events, each registered event has one
  waiter and a scheduler to wake it on, and the pending counter is the number of registered events. So a manager that
  declares itself stopping has no registered event and no waiter, no timer, an empty task queue and an empty interest table.
\<close>

theorem io_registrations:
  assumes spec: "epoll_spec ctl" and reach: "io_reach ctl junk io" and len: "length (io_ctxs io) < 2 ^ 63"
  shows "io_wf io \<and>
    (now \<noteq> 0 \<and> fst (io_stopping now io) \<longrightarrow>
       (\<forall>c\<in>set (io_ctxs io). fx_events c = 0 \<and> waiter_ok False (fx_read c) \<and> waiter_ok False (fx_write c)) \<and>
       (\<forall>fd. io_epoll io fd = None) \<and> m_timers (io_timers io) = [] \<and> sc_fibers (io_sched io) = [])"
proof (intro conjI impI)
  show wf: "io_wf io" by (rule io_reach_wf [OF reach spec])
  assume "now \<noteq> 0 \<and> fst (io_stopping now io)"
  then have now: "now \<noteq> 0" and s: "fst (getNextTimer now (io_timers io)) = - 1" "io_pending io = 0" "stopping (io_sched io)"
    by (auto simp: io_stopping_def stopping_timeout_def Let_def case_prod_unfold)
  show "sc_fibers (io_sched io) = []" using s(3) by (simp add: stopping_def)
  show "m_timers (io_timers io) = []"
  proof (cases "m_timers (io_timers io)")
    case (Cons t ts)
    let ?n = "m_next (tm_heap (io_timers io) t)"
    have "now < ?n" "?n - now = - 1" using s(1) Cons by (auto simp: getNextTimer_def Let_def split: if_splits)
    then have "?n = now - 1" by (simp add: algebra_simps)
    moreover have "now - 1 < now" using now by (simp add: word_less_nat_alt unat_minus_one unat_gt_0)
    ultimately show ?thesis using \<open>now < ?n\<close> by simp
  qed simp
  have "\<forall>c\<in>set (io_ctxs io). nreg c = 0"
    using s(2) wf len by (intro sum_nreg_zero) (simp_all add: io_wf_def)
  moreover have ok: "\<forall>c\<in>set (io_ctxs io). ctx_ok c" using wf by (auto simp: io_wf_def in_set_conv_nth)
  ultimately show e: "\<forall>c\<in>set (io_ctxs io). fx_events c = 0 \<and> waiter_ok False (fx_read c) \<and> waiter_ok False (fx_write c)"
    using nreg_zero by (fastforce simp: ctx_ok_def reg_def)
  show "\<forall>fd. io_epoll io fd = None"
  proof
    fix fd
    show "io_epoll io fd = None"
    proof (cases "0 \<le> fd \<and> fd < int (length (io_ctxs io))")
      case True
      then show ?thesis using io_wf_ctx(4,5) [OF wf, of fd] e by (simp add: mirror_def)
    next
      case False
      then show ?thesis using wf by (auto simp: io_wf_def)
    qed
  qed
qed

theorem io_registrations_witness:
  "io_wf io_demo_read \<and> (\<forall>fd. io_epoll io_demo fd = None) \<and> fst (io_stopping 12 io_demo)"
proof -
  have "length (io_ctxs io_demo) < 2 ^ 63" "length (io_ctxs io_demo_read) < 2 ^ 63" by (simp_all add: io_demo_ctxs io_demo_add)
  moreover have "fst (io_stopping 12 io_demo)"
    by (simp add: io_stopping_def stopping_timeout_def io_demo_def IOManager_new_def resizeContext_def getNextTimer_def
        TimerManager_new_def stopping_def)
  ultimately show ?thesis
    using io_registrations [OF ctl_ok_spec io_demo_reach(1), of 12] io_registrations [OF ctl_ok_spec io_demo_reach(2), of 12] by simp
qed





text \<open>
  C40. A hang-up or an error on a descriptor that only one side waits for aborts the process: the idle
  loop widens the reported events to reading and writing and triggers both without regard to what is registered, so the
  assertion in \<open>triggerEvent\<close> fails whenever the kernel accepts the change of interest.
\<close>

theorem idle_hangup_asserts:
  assumes "epoll_spec ctl" and "io_reach ctl junk io" and "i < length (io_ctxs io)"
    and "fx_events (io_ctxs io ! i) = EV_READ \<or> fx_events (io_ctxs io ! i) = EV_WRITE"
    and m: "m AND (EPOLLERR OR EPOLLHUP) \<noteq> 0"
    and ctl: "fst (ctl CTL_DEL (int i) EPOLLET (io_epoll io)) = 0"
  shows "handle_events ctl (Ready i m # es) io = Inl (Assert_failed ''events & event'')"
proof -
  have "(m OR 1 OR 4) AND 1 = 1" "(m OR 1 OR 4) AND 4 = 4"
    by (simp_all add: bit.conj_disj_distrib2 or.assoc)
  then have r: "real_events m = 5" using m by (simp add: real_events_def event_defs)
  obtain rt ep where c: "ctl CTL_DEL (int i) EPOLLET (io_epoll io) = (rt, ep)" by force
  have "handle_event ctl i m io = (if rt = 0 then Inl (Assert_failed ''events & event'') else Inr io)"
    using assms(4) c by (intro handle_event_mismatch [OF assms(1) io_reach_wf(1) [OF assms(2,1)] assms(3), of m 0])
      (auto simp: r reg_def EV_READ_def EV_WRITE_def)
  then show ?thesis using c ctl by simp
qed

theorem idle_hangup_asserts_witness:
  "handle_events ctl_ok [Ready 5 EPOLLHUP] io_demo_read = Inl (Assert_failed ''events & event'')"
  by (rule idle_hangup_asserts [OF ctl_ok_spec io_demo_reach(2)]) (simp_all add: io_demo_add ctl_ok_def event_defs)

end
