(* ===== verification/Cool_TcpServer.thy ===== *)
theory Cool_TcpServer
  imports Cool_Socket Cool_IOManager
begin

text \<open>
  The TCP server (src/tcp_server.h, src/tcp_server.cpp) and the cancelling operations of sockets that go through
  the I/O manager (src/socket.cpp). Sockets are shared between the server and its tasks, so they live in a heap.
\<close>

section \<open>Cancelling the waits on a socket\<close>

definition cancelRead :: "epoll_call \<Rightarrow> sock \<Rightarrow> iomgr \<Rightarrow> (bool \<times> iomgr) outcome" where
  "cancelRead ctl s io = cancelEvent ctl (m_sock s) EV_READ io"

definition cancelWrite :: "epoll_call \<Rightarrow> sock \<Rightarrow> iomgr \<Rightarrow> (bool \<times> iomgr) outcome" where
  "cancelWrite ctl s io = cancelEvent ctl (m_sock s) EV_WRITE io"

definition cancelAccept :: "epoll_call \<Rightarrow> sock \<Rightarrow> iomgr \<Rightarrow> (bool \<times> iomgr) outcome" where
  "cancelAccept ctl s io = cancelEvent ctl (m_sock s) EV_READ io"

definition socket_cancelAll :: "epoll_call \<Rightarrow> sock \<Rightarrow> iomgr \<Rightarrow> (bool \<times> iomgr) outcome" where
  "socket_cancelAll ctl s io = cancelAll ctl (m_sock s) io"

section \<open>The server\<close>

text \<open>What the server schedules: the accept loop of a socket, the handler of a client, and the closing of the sockets.\<close>

datatype job = Start_accept nat | Handle_client nat | Close_all

record 'k server =
  m_recv_timeout :: int
  m_socks :: "nat list"
  m_is_stop :: bool
  m_is_start :: bool
  sv_heap :: "nat \<Rightarrow> sock"
  sv_world :: "'k world"
  sv_worker :: "job list"
  sv_accept_worker :: "job list"

definition TcpServer_new :: "int \<Rightarrow> (nat \<Rightarrow> sock) \<Rightarrow> 'k world \<Rightarrow> 'k server" where
  "TcpServer_new timeout h w =
     \<lparr>m_recv_timeout = timeout, m_socks = [], m_is_stop = False, m_is_start = False, sv_heap = h, sv_world = w,
      sv_worker = [], sv_accept_worker = []\<rparr>"

text \<open>Closing a socket of the heap, also when its last reference goes.\<close>

definition close_sock :: "'k calls \<Rightarrow> nat \<Rightarrow> 'k server \<Rightarrow> 'k server" where
  "close_sock c p sv =
     (let (_, s, w) = socket_close c (sv_heap sv p, sv_world sv)
      in sv\<lparr>sv_heap := (sv_heap sv)(p := s), sv_world := w\<rparr>)"

definition TcpServer_delete :: "'k calls \<Rightarrow> 'k server \<Rightarrow> 'k server" where
  "TcpServer_delete c sv = (fold (close_sock c) (m_socks sv) sv)\<lparr>m_socks := []\<rparr>"

text \<open>
  One address of \<open>bind\<close>; \<open>p\<close> is the address of the new socket object, \<open>backlog\<close> the default of
  \<open>listen\<close>. A socket that is not kept is destroyed.
\<close>

definition bind_one :: "'k calls \<Rightarrow> int \<Rightarrow> nat \<Rightarrow> address \<Rightarrow> 'k server \<times> address list \<Rightarrow> 'k server \<times> address list" where
  "bind_one c backlog p addr sf =
     (let (sv, fails) = sf;
          (bound, s, w) = socket_bind c addr (CreateTCP addr, sv_world sv);
          sv = sv\<lparr>sv_heap := (sv_heap sv)(p := s), sv_world := w\<rparr>
      in if \<not> bound then (close_sock c p sv, fails @ [addr])
         else let (listening, s, w) = socket_listen c backlog (s, w); sv = sv\<lparr>sv_world := w\<rparr>
              in if \<not> listening then (close_sock c p sv, fails @ [addr])
                 else (sv\<lparr>m_socks := m_socks sv @ [p]\<rparr>, fails))"

fun bind_loop :: "'k calls \<Rightarrow> int \<Rightarrow> (nat \<times> address) list \<Rightarrow> 'k server \<times> address list \<Rightarrow> 'k server \<times> address list" where
  "bind_loop c backlog [] sf = sf"
| "bind_loop c backlog ((p, addr) # as) sf = bind_loop c backlog as (bind_one c backlog p addr sf)"

definition server_bind_all :: "'k calls \<Rightarrow> int \<Rightarrow> (nat \<times> address) list \<Rightarrow> address list \<Rightarrow> 'k server \<Rightarrow> bool \<times> address list \<times> 'k server" where
  "server_bind_all c backlog addrs fails sv =
     (let (sv, fails) = bind_loop c backlog addrs (sv, fails)
      in if fails \<noteq> [] then (False, fails, (fold (close_sock c) (m_socks sv) sv)\<lparr>m_socks := []\<rparr>) else (True, fails, sv))"

definition server_bind :: "'k calls \<Rightarrow> int \<Rightarrow> nat \<Rightarrow> address \<Rightarrow> 'k server \<Rightarrow> bool \<times> 'k server" where
  "server_bind c backlog p addr sv = (let (ok, _, sv) = server_bind_all c backlog [(p, addr)] [] sv in (ok, sv))"

text \<open>One turn of the accept loop; \<open>q\<close> is the address of the client's socket object.\<close>

definition accept_turn :: "'k calls \<Rightarrow> nat \<Rightarrow> nat \<Rightarrow> 'k server \<Rightarrow> 'k server outcome" where
  "accept_turn c p q sv =
     bindE (socket_accept c (sv_heap sv p, sv_world sv)) (\<lambda>(client, w).
       case client of
         Some s \<Rightarrow>
           let (s, w) = set_recvTimeout c (m_recv_timeout sv) (s, w)
           in Inr (sv\<lparr>sv_heap := (sv_heap sv)(q := s), sv_world := w, sv_worker := sv_worker sv @ [Handle_client q]\<rparr>)
       | None \<Rightarrow> Inr (sv\<lparr>sv_world := w\<rparr>))"

text \<open>The loop runs until the server is stopped; \<open>qs\<close> gives the turns it may take before it is looked at again.\<close>

fun start_accept :: "'k calls \<Rightarrow> nat \<Rightarrow> nat list \<Rightarrow> 'k server \<Rightarrow> 'k server outcome" where
  "start_accept c p [] sv = Inr sv"
| "start_accept c p (q # qs) sv = (if m_is_stop sv then Inr sv else bindE (accept_turn c p q sv) (start_accept c p qs))"

definition server_start :: "'k server \<Rightarrow> bool \<times> 'k server" where
  "server_start sv =
     (if m_is_start sv then (True, sv)
      else (True, sv\<lparr>m_is_start := True, sv_accept_worker := sv_accept_worker sv @ map Start_accept (m_socks sv)\<rparr>))"

definition server_stop :: "'k server \<Rightarrow> 'k server" where
  "server_stop sv =
     (if m_is_stop sv then sv else sv\<lparr>m_is_stop := True, sv_accept_worker := sv_accept_worker sv @ [Close_all]\<rparr>)"

text \<open>The scheduled function of \<open>stop\<close>: cancel and close every socket.\<close>

fun close_all_loop :: "'k calls \<Rightarrow> epoll_call \<Rightarrow> nat list \<Rightarrow> 'k server \<times> iomgr \<Rightarrow> ('k server \<times> iomgr) outcome" where
  "close_all_loop c ctl [] si = Inr si"
| "close_all_loop c ctl (p # ps) si =
     (let (sv, io) = si
      in bindE (socket_cancelAll ctl (sv_heap sv p) io) (\<lambda>(_, io). close_all_loop c ctl ps (close_sock c p sv, io)))"

definition close_all :: "'k calls \<Rightarrow> epoll_call \<Rightarrow> 'k server \<times> iomgr \<Rightarrow> ('k server \<times> iomgr) outcome" where
  "close_all c ctl si = bindE (close_all_loop c ctl (m_socks (fst si)) si) (\<lambda>(sv, io). Inr (sv\<lparr>m_socks := []\<rparr>, io))"

definition handle_client :: "sock \<Rightarrow> string" where
  "handle_client client = ''handle client: '' @ socket_dump client"

section \<open>Binding\<close>

lemma close_sock_frame [simp]:
  "m_socks (close_sock c p sv) = m_socks sv" "m_is_stop (close_sock c p sv) = m_is_stop sv"
  "sv_accept_worker (close_sock c p sv) = sv_accept_worker sv" "q \<noteq> p \<Longrightarrow> sv_heap (close_sock c p sv) q = sv_heap sv q"
  by (simp_all add: close_sock_def split: prod.split)

lemma close_sock_sock: "m_sock (sv_heap (close_sock c p sv) p) = - 1"
  by (auto simp: close_sock_def socket_close_def Let_def split: prod.splits if_splits)

text \<open>A socket that was bound is valid and of the family of its address.\<close>

lemma bind_valid:
  assumes "socket_bind c addr (CreateTCP addr, w) = (True, s, w')"
  shows "isValid s \<and> m_family s = int (unat (addr_family addr))"
proof -
  obtain s0 w0 where e: "ensure_valid c (CreateTCP addr, w) = (s0, w0)" by force
  have "isValid s0" "m_family s0 = int (unat (addr_family addr))"
    using assms e by (auto simp: socket_bind_def Let_def split: if_splits prod.splits)
  moreover have "m_sock (fst (snd (localAddress c (s0, v)))) = m_sock s0 \<and> m_family (fst (snd (localAddress c (s0, v)))) = m_family s0" for v
    by (simp add: localAddress_def Let_def split: option.split prod.split)
  moreover obtain v where "snd (localAddress c (s0, v)) = (s, w')"
    using assms e by (auto simp: socket_bind_def Let_def split: if_splits prod.splits)
  ultimately show ?thesis by (metis fst_conv isValid_def)
qed

definition bound_to :: "'k server \<Rightarrow> nat \<Rightarrow> address \<Rightarrow> bool" where
  "bound_to sv p addr \<longleftrightarrow> isValid (sv_heap sv p) \<and> m_family (sv_heap sv p) = int (unat (addr_family addr))"

lemma bind_one_cases:
  obtains sv' where "bind_one c backlog p addr (sv, fails) = (sv', fails @ [addr])" "m_socks sv' = m_socks sv"
      "\<And>q. q \<noteq> p \<Longrightarrow> sv_heap sv' q = sv_heap sv q"
  | sv' where "bind_one c backlog p addr (sv, fails) = (sv', fails)" "m_socks sv' = m_socks sv @ [p]" "bound_to sv' p addr"
      "\<And>q. q \<noteq> p \<Longrightarrow> sv_heap sv' q = sv_heap sv q"
proof -
  obtain b s w where b: "socket_bind c addr (CreateTCP addr, sv_world sv) = (b, s, w)" by (metis prod.exhaust)
  obtain l s2 w2 where l: "socket_listen c backlog (s, w) = (l, s2, w2)" by (metis prod.exhaust)
  show ?thesis
  proof (cases "b \<and> l")
    case True
    let ?sv = "sv\<lparr>sv_heap := (sv_heap sv)(p := s), sv_world := w2, m_socks := m_socks sv @ [p]\<rparr>"
    have "bind_one c backlog p addr (sv, fails) = (?sv, fails)" using b l True by (simp add: bind_one_def)
    moreover have "bound_to ?sv p addr" using bind_valid b True by (simp add: bound_to_def)
    ultimately show ?thesis using that(2) by simp
  next
    case False
    then obtain sv' where "bind_one c backlog p addr (sv, fails) = (close_sock c p sv', fails @ [addr])"
      "m_socks sv' = m_socks sv" "\<And>q. q \<noteq> p \<Longrightarrow> sv_heap sv' q = sv_heap sv q"
      using b l by (cases b) (auto simp: bind_one_def)
    then show ?thesis using that(1) by simp
  qed
qed

lemma bind_loop_ok:
  assumes "distinct (map fst as)" and "set (map fst as) \<inter> set (m_socks sv) = {}"
    and "bind_loop c backlog as (sv, fails) = (sv', fails')"
  shows "\<exists>fs. fails' = fails @ fs \<and> (fs = [] \<longrightarrow> m_socks sv' = m_socks sv @ map fst as \<and> (\<forall>(p, a)\<in>set as. bound_to sv' p a)) \<and>
     (\<forall>q. q \<notin> set (map fst as) \<longrightarrow> sv_heap sv' q = sv_heap sv q)"
  using assms
proof (induction as arbitrary: sv fails)
  case (Cons pa as)
  obtain p a where pa: "pa = (p, a)" by force
  show ?case
  proof (rule bind_one_cases [of c backlog p a sv fails])
    fix sv1
    assume h: "bind_one c backlog p a (sv, fails) = (sv1, fails @ [a])" "m_socks sv1 = m_socks sv" "\<And>q. q \<noteq> p \<Longrightarrow> sv_heap sv1 q = sv_heap sv q"
    have "distinct (map fst as)" "set (map fst as) \<inter> set (m_socks sv1) = {}" "bind_loop c backlog as (sv1, fails @ [a]) = (sv', fails')"
      using Cons.prems h(1,2) pa by auto
    from Cons.IH [OF this] show ?thesis using h(3) pa by auto
  next
    fix sv1
    assume h: "bind_one c backlog p a (sv, fails) = (sv1, fails)" "m_socks sv1 = m_socks sv @ [p]" "bound_to sv1 p a"
      "\<And>q. q \<noteq> p \<Longrightarrow> sv_heap sv1 q = sv_heap sv q"
    have "distinct (map fst as)" "set (map fst as) \<inter> set (m_socks sv1) = {}" "bind_loop c backlog as (sv1, fails) = (sv', fails')"
      using Cons.prems h(1,2) pa by auto
    from Cons.IH [OF this] obtain fs where f: "fails' = fails @ fs" "fs = [] \<longrightarrow> m_socks sv' = m_socks sv1 @ map fst as \<and> (\<forall>(p, a)\<in>set as. bound_to sv' p a)"
      "\<forall>q. q \<notin> set (map fst as) \<longrightarrow> sv_heap sv' q = sv_heap sv1 q" by blast
    have "p \<notin> set (map fst as)" using Cons.prems(1) pa by simp
    then have "sv_heap sv' p = sv_heap sv1 p" using f(3) by blast
    then have "bound_to sv' p a" using h(3) by (simp add: bound_to_def)
    then show ?thesis using f h(2,4) pa by auto
  qed
qed simp

lemma fold_close_frame:
  "m_is_stop (fold (close_sock c) ps sv) = m_is_stop sv \<and> m_socks (fold (close_sock c) ps sv) = m_socks sv"
  by (induction ps arbitrary: sv) simp_all

lemma close_sock_again: "m_sock (sv_heap sv q) = - 1 \<Longrightarrow> m_sock (sv_heap (close_sock c p sv) q) = - 1"
  by (cases "q = p") (simp_all add: close_sock_sock)

lemma fold_close_keeps: "m_sock (sv_heap sv q) = - 1 \<Longrightarrow> m_sock (sv_heap (fold (close_sock c) ps sv) q) = - 1"
  by (induction ps arbitrary: sv) (simp_all add: close_sock_again)

lemma fold_close_all: "q \<in> set ps \<Longrightarrow> m_sock (sv_heap (fold (close_sock c) ps sv) q) = - 1"
  by (induction ps arbitrary: sv) (auto simp: fold_close_keeps close_sock_sock)

section \<open>Stopping\<close>

lemma close_all_loop_ok:
  assumes spec: "epoll_spec ctl"
  shows "io_wf io \<Longrightarrow> \<forall>p\<in>set ps. 0 \<le> m_sock (sv_heap sv p) \<Longrightarrow> distinct ps \<Longrightarrow>
    \<exists>sv' io'. close_all_loop c ctl ps (sv, io) = Inr (sv', io') \<and> io_wf io' \<and> m_is_stop sv' = m_is_stop sv \<and>
      (\<forall>p\<in>set ps. m_sock (sv_heap sv' p) = - 1) \<and> (\<forall>p. p \<notin> set ps \<longrightarrow> sv_heap sv' p = sv_heap sv p)"
proof (induction ps arbitrary: sv io)
  case (Cons p ps)
  obtain b io1 where cc: "cancelAll ctl (m_sock (sv_heap sv p)) io = Inr (b, io1)" "io_wf io1"
    using cancelAll_ok [OF spec Cons.prems(1), of "m_sock (sv_heap sv p)"] Cons.prems(1,2) by auto
  let ?sv = "close_sock c p sv"
  have "\<forall>q\<in>set ps. 0 \<le> m_sock (sv_heap ?sv q)"
  proof
    fix q assume q: "q \<in> set ps"
    then have "q \<noteq> p" using Cons.prems(3) by auto
    then show "0 \<le> m_sock (sv_heap ?sv q)" using Cons.prems(2) q by simp
  qed
  from Cons.IH [OF cc(2) this] Cons.prems(3) obtain sv' io' where ih: "close_all_loop c ctl ps (?sv, io1) = Inr (sv', io')" "io_wf io'"
    "m_is_stop sv' = m_is_stop sv" "\<forall>p\<in>set ps. m_sock (sv_heap sv' p) = - 1" "\<forall>p. p \<notin> set ps \<longrightarrow> sv_heap sv' p = sv_heap ?sv p"
    by auto
  have "p \<notin> set ps" using Cons.prems(3) by simp
  then have "m_sock (sv_heap sv' p) = - 1" using ih(5) close_sock_sock by metis
  then show ?case using ih cc(1) by (auto simp: socket_cancelAll_def)
qed simp

section \<open>Properties\<close>



text \<open>
  Stopping is done once and closes everything: further calls of \<open>stop\<close> change nothing, and the scheduled task, run when the
  server's sockets are open, cancels and closes each of them without a fault and keeps the I/O manager's invariant.
\<close>

theorem server_stop_closes:
  assumes "epoll_spec ctl" and "io_wf io" and "distinct (m_socks sv)" and "\<forall>p\<in>set (m_socks sv). 0 \<le> m_sock (sv_heap sv p)"
  shows "server_stop (server_stop sv) = server_stop sv \<and> m_is_stop (server_stop sv) \<and>
    (\<exists>sv' io'. close_all c ctl (sv, io) = Inr (sv', io') \<and> m_socks sv' = [] \<and> io_wf io' \<and>
       (\<forall>p\<in>set (m_socks sv). m_sock (sv_heap sv' p) = - 1))"
proof -
  from close_all_loop_ok [OF assms(1,2,4,3), of c]
  obtain sv' io' where l: "close_all_loop c ctl (m_socks sv) (sv, io) = Inr (sv', io')" "io_wf io'"
    "\<forall>p\<in>set (m_socks sv). m_sock (sv_heap sv' p) = - 1" by blast
  then have "close_all c ctl (sv, io) = Inr (sv'\<lparr>m_socks := []\<rparr>, io')" by (simp add: close_all_def)
  then show ?thesis using l(2,3) by (simp add: server_stop_def)
qed

theorem server_stop_closes_witness:
  "\<exists>sv' io'. close_all mem_calls ctl_ok ((TcpServer_new 1000 (\<lambda>_. open_sock) (mem_world []))\<lparr>m_socks := [0]\<rparr>, io_demo) = Inr (sv', io') \<and>
     m_socks sv' = [] \<and> m_sock (sv_heap sv' 0) = - 1"
  using server_stop_closes [OF ctl_ok_spec io_reach_wf(1) [OF io_demo_reach(1) ctl_ok_spec],
      of "(TcpServer_new 1000 (\<lambda>_. open_sock) (mem_world []))\<lparr>m_socks := [0]\<rparr>" mem_calls]
  by (auto simp: TcpServer_new_def open_sock_def)

end
