(* ===== verification/Cool_Hook.thy ===== *)
theory Cool_Hook
  imports Cool_Socket Cool_IOManager
begin

text \<open>
  The hooked system functions (src/hook.h, src/hook.cpp): blocking calls on sockets become non-blocking calls that
  register an event with the IO manager, arm a timer for the timeout and give the thread away until one of the two fires.
  The original functions are parameters acting on the world of \<open>Cool_Socket\<close>; the manager is the one of \<open>Cool_IOManager\<close>.
\<close>

definition EINTR :: int where "EINTR = 4"
definition EBADF :: int where "EBADF = 9"
definition EAGAIN :: int where "EAGAIN = 11"
definition ETIMEDOUT :: int where "ETIMEDOUT = 110"
definition EINPROGRESS :: int where "EINPROGRESS = 115"

lemmas errno_defs = EINTR_def EBADF_def EAGAIN_def ETIMEDOUT_def EINPROGRESS_def

section \<open>State of the calling thread\<close>

text \<open>
  What a hooked call sees: the world, \<open>IOManager::GetThis ()\<close>, \<open>errno\<close> and the thread's \<open>t_hook_enable\<close>.
\<close>

record 'k hook_st =
  hk_world :: "'k world"
  hk_io :: "iomgr option"
  hk_errno :: int
  hk_enable :: bool

definition set_hook_enable :: "bool \<Rightarrow> 'k hook_st \<Rightarrow> 'k hook_st" where
  "set_hook_enable flag st = st\<lparr>hk_enable := flag\<rparr>"

definition is_hook_enable :: "'k hook_st \<Rightarrow> bool" where
  "is_hook_enable st = hk_enable st"

text \<open>The table of original functions: a name and the address \<open>dlsym\<close> gives for it; \<open>is_inited\<close> is never assigned.\<close>

definition hook_names :: "string list" where
  "hook_names = [''sleep'', ''usleep'', ''nanosleep'', ''socket'', ''connect'', ''accept'', ''read'', ''readv'', ''recv'',
     ''recvfrom'', ''recvmsg'', ''write'', ''writev'', ''send'', ''sendto'', ''sendmsg'', ''close'', ''fcntl'', ''ioctl'',
     ''getsockopt'', ''setsockopt'']"

definition hook_init :: "(string \<Rightarrow> nat) \<Rightarrow> bool \<times> (string \<Rightarrow> nat option) \<Rightarrow> bool \<times> (string \<Rightarrow> nat option)" where
  "hook_init dlsym s =
     (let (is_inited, f) = s
      in if is_inited then s else (is_inited, fold (\<lambda>name f. f(name := Some (dlsym name))) hook_names f))"

text \<open>The static \<open>s_connect_timeout\<close> gets the configured \<open>int\<close>, at start and whenever it changes.\<close>

definition connect_timeout_of :: "u32 \<Rightarrow> u64" where
  "connect_timeout_of v = scast v"

text \<open>An original function returns its result and the \<open>errno\<close> it sets, which it leaves alone unless it fails.\<close>

type_synonym 'k sysfun = "'k world \<Rightarrow> int \<times> int \<times> 'k world"

definition sys_call :: "'k sysfun \<Rightarrow> 'k hook_st \<Rightarrow> int \<times> 'k hook_st" where
  "sys_call f st =
     (let (n, e, w) = f (hk_world st) in (n, st\<lparr>hk_world := w, hk_errno := if n = - 1 then e else hk_errno st\<rparr>))"

text \<open>The context of a descriptor, as a pointer and by value.\<close>

definition hook_ctx :: "int \<Rightarrow> 'k world \<Rightarrow> (nat \<times> fd_ctx) option outcome" where
  "hook_ctx fd w =
     bindE (FdManager_get fd False 0 (wd_fds w) (wd_kern w)) (\<lambda>(p, m, _). Inr (map_option (\<lambda>p. (p, fm_heap m p)) p))"

definition put_ctx :: "nat \<Rightarrow> fd_ctx \<Rightarrow> 'k world \<Rightarrow> 'k world" where
  "put_ctx p c w = w\<lparr>wd_fds := (wd_fds w)\<lparr>fm_heap := (fm_heap (wd_fds w))(p := c)\<rparr>\<rparr>"

definition make_ctx :: "int \<Rightarrow> nat \<Rightarrow> 'k world \<Rightarrow> 'k world outcome" where
  "make_ctx fd a w = bindE (FdManager_get fd True a (wd_fds w) (wd_kern w)) (\<lambda>(_, m, k). Inr (w\<lparr>wd_fds := m, wd_kern := k\<rparr>))"

section \<open>Waiting\<close>

text \<open>
  \<open>en\<close> gathers what registration needs: \<open>epoll_ctl\<close>, the content of new contexts, the thread's scheduler, the current fiber
  and its state. A \<open>turn\<close> is what the rest of the system contributes to one wait: the clock, the addresses of the timer, of
  its function and of the \<open>timer_info\<close>, the result of writing to the tickle pipe, the \<open>errno\<close> of a refused registration,
  and what happens while the fiber is held, to the \<open>cancelled\<close> field of the \<open>timer_info\<close> and to the state.
\<close>

record env =
  en_ctl :: epoll_call
  en_junk :: "nat option"
  en_self :: "nat option"
  en_cur :: "nat \<times> fiber_state"

record 'k turn =
  tn_now :: u64
  tn_addr :: nat
  tn_cb :: nat
  tn_info :: nat
  tn_written :: int
  tn_errno :: int
  tn_hold :: "int \<times> 'k hook_st \<Rightarrow> int \<times> 'k hook_st"

text \<open>\<open>IOManager::addTimer\<close>: insertion, and waking the idle thread when the timer is the new front.\<close>

definition io_addTimer :: "'k turn \<Rightarrow> u64 \<Rightarrow> callback option \<Rightarrow> iomgr \<Rightarrow> iomgr outcome" where
  "io_addTimer t ms cb io =
     (let (front, tm) = addTimer (tn_now t) (tn_addr t) ms cb False (io_timers io); io = io\<lparr>io_timers := tm\<rparr>
      in if front then onTimerInsertAtFront (tn_written t) io else Inr io)"

definition io_addConditionTimer :: "'k turn \<Rightarrow> u64 \<Rightarrow> iomgr \<Rightarrow> iomgr outcome" where
  "io_addConditionTimer t ms io = io_addTimer t ms (Some (Bound_OnTimer (tn_info t) (Some (Fn (tn_cb t))))) io"

text \<open>The timer is armed, and later cancelled, only when there is a timeout.\<close>

definition arm :: "'k turn \<Rightarrow> u64 \<Rightarrow> iomgr \<Rightarrow> iomgr outcome" where
  "arm t to io = (if to \<noteq> - 1 then io_addConditionTimer t to io else Inr io)"

definition disarm :: "'k turn \<Rightarrow> u64 \<Rightarrow> 'k hook_st \<Rightarrow> 'k hook_st outcome" where
  "disarm t to st =
     (if to = - 1 then Inr st
      else case hk_io st of
          None \<Rightarrow> Inl Null_deref
        | Some io \<Rightarrow> bindE (cancel (tn_addr t) (io_timers io)) (\<lambda>(_, tm). Inr (st\<lparr>hk_io := Some (io\<lparr>io_timers := tm\<rparr>)\<rparr>)))"

text \<open>The function of the timer. \<open>alive\<close>: locking the weak pointer gives the \<open>timer_info\<close>.\<close>

definition on_timeout :: "epoll_call \<Rightarrow> bool \<Rightarrow> int \<Rightarrow> u32 \<Rightarrow> int \<times> iomgr \<Rightarrow> (int \<times> iomgr) outcome" where
  "on_timeout ctl alive fd ev s =
     (let (cancelled, io) = s
      in if \<not> alive \<or> cancelled \<noteq> 0 then Inr (cancelled, io)
         else bindE (cancelEvent ctl fd ev io) (\<lambda>(_, io). Inr (ETIMEDOUT, io)))"

text \<open>
  From arming the timer to the resumption of the fiber: registration refused (\<^const>\<open>None\<close>), or the
  \<open>cancelled\<close> field found afterwards.
\<close>

definition io_wait :: "env \<Rightarrow> 'k turn \<Rightarrow> int \<Rightarrow> u32 \<Rightarrow> u64 \<Rightarrow> int \<times> 'k hook_st \<Rightarrow> (int option \<times> 'k hook_st) outcome" where
  "io_wait en t fd ev to s =
     (let (cancelled, st) = s in
      case hk_io st of
        None \<Rightarrow> Inl Null_deref
      | Some io \<Rightarrow>
          bindE (arm t to io) (\<lambda>io.
          bindE (addEvent (en_ctl en) (en_junk en) (en_self en) (en_cur en) fd ev None io) (\<lambda>(rt, io).
            if rt \<noteq> 0
            then bindE (disarm t to (st\<lparr>hk_io := Some io, hk_errno := tn_errno t\<rparr>)) (\<lambda>st. Inr (None, st))
            else let (cancelled, st) = tn_hold t (cancelled, st\<lparr>hk_io := Some io\<rparr>)
                 in bindE (disarm t to st) (\<lambda>st. Inr (Some cancelled, st)))))"

section \<open>The common shape of the calls\<close>

text \<open>The call repeated while a signal interrupts it; it may be interrupted forever.\<close>

partial_function (option) intr_loop :: "'k sysfun \<Rightarrow> 'k hook_st \<Rightarrow> (int \<times> 'k hook_st) option" where
  "intr_loop f st =
     (let (n, st) = sys_call f st in if n = - 1 \<and> hk_errno st = EINTR then intr_loop f st else Some (n, st))"

text \<open>
  The part after the label \<open>retry\<close>. One turn is used per wait; \<^const>\<open>None\<close> where the call has not returned: it is
  interrupted forever, or still held when the turns are used up.
\<close>

fun do_io_retry ::
  "env \<Rightarrow> int \<Rightarrow> 'k sysfun \<Rightarrow> u32 \<Rightarrow> u64 \<Rightarrow> 'k turn list \<Rightarrow> int \<times> 'k hook_st \<Rightarrow> (int \<times> 'k hook_st) outcome option" where
  "do_io_retry en fd f ev to ts (cancelled, st) =
     (case intr_loop f st of
        None \<Rightarrow> None
      | Some (n, st) \<Rightarrow>
          if n = - 1 \<and> hk_errno st = EAGAIN
          then (case ts of
                  [] \<Rightarrow> None
                | t # ts \<Rightarrow>
                    (case io_wait en t fd ev to (cancelled, st) of
                       Inl e \<Rightarrow> Some (Inl e)
                     | Inr (None, st) \<Rightarrow> Some (Inr (- 1, st))
                     | Inr (Some cancelled, st) \<Rightarrow>
                         if cancelled \<noteq> 0 then Some (Inr (- 1, st\<lparr>hk_errno := cancelled\<rparr>))
                         else do_io_retry en fd f ev to ts (cancelled, st)))
          else Some (Inr (n, st)))"

definition do_io ::
  "env \<Rightarrow> int \<Rightarrow> 'k sysfun \<Rightarrow> u32 \<Rightarrow> int \<Rightarrow> 'k turn list \<Rightarrow> 'k hook_st \<Rightarrow> (int \<times> 'k hook_st) outcome option" where
  "do_io en fd f ev timeout_so ts st =
     (if \<not> hk_enable st then Some (Inr (sys_call f st))
      else case hook_ctx fd (hk_world st) of
          Inl e \<Rightarrow> Some (Inl e)
        | Inr None \<Rightarrow> Some (Inr (sys_call f st))
        | Inr (Some (_, ctx)) \<Rightarrow>
            if fc_isClosed ctx then Some (Inr (- 1, st\<lparr>hk_errno := EBADF\<rparr>))
            else if \<not> fc_isSocket ctx \<or> fc_userNonblock ctx then Some (Inr (sys_call f st))
            else do_io_retry en fd f ev (getTimeout timeout_so ctx) ts (0, st))"

section \<open>Reading and writing\<close>

text \<open>Each function passes its own original with the remaining arguments filled in.\<close>

definition hook_read :: "env \<Rightarrow> (int \<Rightarrow> nat \<Rightarrow> 'k sysfun) \<Rightarrow> int \<Rightarrow> nat \<Rightarrow> 'k turn list \<Rightarrow> 'k hook_st \<Rightarrow> (int \<times> 'k hook_st) outcome option" where
  "hook_read en read_f fd count = do_io en fd (read_f fd count) EV_READ SO_RCVTIMEO"

definition hook_readv :: "env \<Rightarrow> (int \<Rightarrow> nat list \<Rightarrow> 'k sysfun) \<Rightarrow> int \<Rightarrow> nat list \<Rightarrow> 'k turn list \<Rightarrow> 'k hook_st \<Rightarrow> (int \<times> 'k hook_st) outcome option" where
  "hook_readv en readv_f fd iov = do_io en fd (readv_f fd iov) EV_READ SO_RCVTIMEO"

definition hook_recv :: "env \<Rightarrow> (int \<Rightarrow> nat \<Rightarrow> int \<Rightarrow> 'k sysfun) \<Rightarrow> int \<Rightarrow> nat \<Rightarrow> int \<Rightarrow> 'k turn list \<Rightarrow> 'k hook_st \<Rightarrow> (int \<times> 'k hook_st) outcome option" where
  "hook_recv en recv_f sockfd len flags = do_io en sockfd (recv_f sockfd len flags) EV_READ SO_RCVTIMEO"

definition hook_recvfrom :: "env \<Rightarrow> (int \<Rightarrow> nat \<Rightarrow> int \<Rightarrow> address \<Rightarrow> 'k sysfun) \<Rightarrow> int \<Rightarrow> nat \<Rightarrow> int \<Rightarrow> address \<Rightarrow> 'k turn list \<Rightarrow> 'k hook_st \<Rightarrow> (int \<times> 'k hook_st) outcome option" where
  "hook_recvfrom en recvfrom_f sockfd len flags src_addr = do_io en sockfd (recvfrom_f sockfd len flags src_addr) EV_READ SO_RCVTIMEO"

definition hook_recvmsg :: "env \<Rightarrow> (int \<Rightarrow> nat list \<Rightarrow> int \<Rightarrow> 'k sysfun) \<Rightarrow> int \<Rightarrow> nat list \<Rightarrow> int \<Rightarrow> 'k turn list \<Rightarrow> 'k hook_st \<Rightarrow> (int \<times> 'k hook_st) outcome option" where
  "hook_recvmsg en recvmsg_f sockfd msg flags = do_io en sockfd (recvmsg_f sockfd msg flags) EV_READ SO_RCVTIMEO"

definition hook_write :: "env \<Rightarrow> (int \<Rightarrow> byte list \<Rightarrow> 'k sysfun) \<Rightarrow> int \<Rightarrow> byte list \<Rightarrow> 'k turn list \<Rightarrow> 'k hook_st \<Rightarrow> (int \<times> 'k hook_st) outcome option" where
  "hook_write en write_f fd buf = do_io en fd (write_f fd buf) EV_WRITE SO_SNDTIMEO"

definition hook_writev :: "env \<Rightarrow> (int \<Rightarrow> byte list list \<Rightarrow> 'k sysfun) \<Rightarrow> int \<Rightarrow> byte list list \<Rightarrow> 'k turn list \<Rightarrow> 'k hook_st \<Rightarrow> (int \<times> 'k hook_st) outcome option" where
  "hook_writev en writev_f fd iov = do_io en fd (writev_f fd iov) EV_WRITE SO_SNDTIMEO"

definition hook_send :: "env \<Rightarrow> (int \<Rightarrow> byte list \<Rightarrow> int \<Rightarrow> 'k sysfun) \<Rightarrow> int \<Rightarrow> byte list \<Rightarrow> int \<Rightarrow> 'k turn list \<Rightarrow> 'k hook_st \<Rightarrow> (int \<times> 'k hook_st) outcome option" where
  "hook_send en send_f sockfd buf flags = do_io en sockfd (send_f sockfd buf flags) EV_WRITE SO_SNDTIMEO"

definition hook_sendto :: "env \<Rightarrow> (int \<Rightarrow> byte list \<Rightarrow> int \<Rightarrow> address \<Rightarrow> 'k sysfun) \<Rightarrow> int \<Rightarrow> byte list \<Rightarrow> int \<Rightarrow> address \<Rightarrow> 'k turn list \<Rightarrow> 'k hook_st \<Rightarrow> (int \<times> 'k hook_st) outcome option" where
  "hook_sendto en sendto_f sockfd buf flags dest_addr = do_io en sockfd (sendto_f sockfd buf flags dest_addr) EV_WRITE SO_SNDTIMEO"

definition hook_sendmsg :: "env \<Rightarrow> (int \<Rightarrow> byte list list \<Rightarrow> int \<Rightarrow> 'k sysfun) \<Rightarrow> int \<Rightarrow> byte list list \<Rightarrow> int \<Rightarrow> 'k turn list \<Rightarrow> 'k hook_st \<Rightarrow> (int \<times> 'k hook_st) outcome option" where
  "hook_sendmsg en sendmsg_f sockfd msg flags = do_io en sockfd (sendmsg_f sockfd msg flags) EV_WRITE SO_SNDTIMEO"

section \<open>Sleeping\<close>

text \<open>The bound function of the timer: schedule the fiber on any thread.\<close>

definition sleep_wake :: "nat \<Rightarrow> iomgr \<Rightarrow> iomgr" where
  "sleep_wake fiber io = io\<lparr>io_sched := schedule \<lparr>tk_fiber = Some fiber, tk_cb = None, tk_thread = - 1\<rparr> (io_sched io)\<rparr>"

definition sleep_hold :: "'k turn \<Rightarrow> u64 \<Rightarrow> 'k hook_st \<Rightarrow> (int \<times> 'k hook_st) outcome" where
  "sleep_hold t ms st =
     (case hk_io st of
        None \<Rightarrow> Inl Null_deref
      | Some io \<Rightarrow> bindE (io_addTimer t ms (Some (Fn (tn_cb t))) io) (\<lambda>io. Inr (0, snd (tn_hold t (0, st\<lparr>hk_io := Some io\<rparr>)))))"

text \<open>\<open>seconds * 1000\<close> is computed in the 32 bits of \<open>seconds\<close>.\<close>

definition hook_sleep :: "(u32 \<Rightarrow> 'k sysfun) \<Rightarrow> 'k turn \<Rightarrow> u32 \<Rightarrow> 'k hook_st \<Rightarrow> (int \<times> 'k hook_st) outcome" where
  "hook_sleep sleep_f t seconds st =
     (if \<not> hk_enable st then Inr (sys_call (sleep_f seconds) st) else sleep_hold t (ucast (seconds * 1000)) st)"

definition hook_usleep :: "(u32 \<Rightarrow> 'k sysfun) \<Rightarrow> 'k turn \<Rightarrow> u32 \<Rightarrow> 'k hook_st \<Rightarrow> (int \<times> 'k hook_st) outcome" where
  "hook_usleep usleep_f t usec st =
     (if \<not> hk_enable st then Inr (sys_call (usleep_f usec) st) else sleep_hold t (ucast (usec div 1000)) st)"

text \<open>
  \<open>timeout_ms\<close> is an \<open>int\<close>, widened with its sign. With hooking disabled the function calls itself with the same
  arguments and never returns.
\<close>

definition timespec_ms :: "int \<Rightarrow> int \<Rightarrow> u32" where
  "timespec_ms tv_sec tv_nsec = word_of_int (tv_sec * 1000 + sgn tv_nsec * (\<bar>tv_nsec\<bar> div 1000 div 1000))"

definition hook_nanosleep :: "'k turn \<Rightarrow> int \<times> int \<Rightarrow> 'k hook_st \<Rightarrow> (int \<times> 'k hook_st) outcome" where
  "hook_nanosleep t req st =
     (if \<not> hk_enable st then Inl Diverges else sleep_hold t (scast (timespec_ms (fst req) (snd req))) st)"

section \<open>Opening, connecting and closing\<close>

text \<open>\<open>a\<close> is the address of the context created.\<close>

definition hook_socket :: "(int \<Rightarrow> int \<Rightarrow> int \<Rightarrow> 'k sysfun) \<Rightarrow> nat \<Rightarrow> int \<Rightarrow> int \<Rightarrow> int \<Rightarrow> 'k hook_st \<Rightarrow> (int \<times> 'k hook_st) outcome" where
  "hook_socket socket_f a domain type protocol st =
     (let (fd, st') = sys_call (socket_f domain type protocol) st
      in if \<not> hk_enable st \<or> fd = - 1 then Inr (fd, st')
         else bindE (make_ctx fd a (hk_world st')) (\<lambda>w. Inr (fd, st'\<lparr>hk_world := w\<rparr>)))"

definition hook_accept :: "env \<Rightarrow> (int \<Rightarrow> 'k sysfun) \<Rightarrow> nat \<Rightarrow> int \<Rightarrow> 'k turn list \<Rightarrow> 'k hook_st \<Rightarrow> (int \<times> 'k hook_st) outcome option" where
  "hook_accept en accept_f a sockfd ts st =
     (case do_io en sockfd (accept_f sockfd) EV_READ SO_RCVTIMEO ts st of
        None \<Rightarrow> None
      | Some (Inl e) \<Rightarrow> Some (Inl e)
      | Some (Inr (fd, st)) \<Rightarrow>
          Some (if fd \<ge> 0 then bindE (make_ctx fd a (hk_world st)) (\<lambda>w. Inr (fd, st\<lparr>hk_world := w\<rparr>)) else Inr (fd, st)))"

text \<open>After the wait the outcome of the connection is asked for; \<open>getsockopt\<close> gives its result, its \<open>errno\<close> and the pending error.\<close>

definition connect_result :: "(int \<Rightarrow> 'k world \<Rightarrow> int \<times> int \<times> int) \<Rightarrow> int \<Rightarrow> 'k hook_st \<Rightarrow> int \<times> 'k hook_st" where
  "connect_result so_error sockfd st =
     (let (rt, e, error) = so_error sockfd (hk_world st)
      in if rt = - 1 then (- 1, st\<lparr>hk_errno := e\<rparr>)
         else if error = 0 then (0, st) else (- 1, st\<lparr>hk_errno := error\<rparr>))"

definition connect_with_timeout ::
  "env \<Rightarrow> 'k turn \<Rightarrow> (int \<Rightarrow> address \<Rightarrow> 'k sysfun) \<Rightarrow> (int \<Rightarrow> 'k world \<Rightarrow> int \<times> int \<times> int) \<Rightarrow>
     int \<Rightarrow> address \<Rightarrow> u64 \<Rightarrow> 'k hook_st \<Rightarrow> (int \<times> 'k hook_st) outcome" where
  "connect_with_timeout en t connect_f so_error sockfd addr timeout_ms st =
     (if \<not> hk_enable st then Inr (sys_call (connect_f sockfd addr) st)
      else bindE (hook_ctx sockfd (hk_world st)) (\<lambda>c.
        case c of
          None \<Rightarrow> Inr (- 1, st\<lparr>hk_errno := EBADF\<rparr>)
        | Some (_, ctx) \<Rightarrow>
            if fc_isClosed ctx then Inr (- 1, st\<lparr>hk_errno := EBADF\<rparr>)
            else if \<not> fc_isSocket ctx then Inr (sys_call (connect_f sockfd addr) st)
            else let (n, st) = sys_call (connect_f sockfd addr) st
                 in if n = 0 then Inr (0, st)
                    else if n \<noteq> - 1 \<or> hk_errno st \<noteq> EINPROGRESS then Inr (n, st)
                    else bindE (io_wait en t sockfd EV_WRITE timeout_ms (0, st)) (\<lambda>(r, st).
                      case r of
                        None \<Rightarrow> Inr (connect_result so_error sockfd st)
                      | Some cancelled \<Rightarrow>
                          if cancelled \<noteq> 0 then Inr (- 1, st\<lparr>hk_errno := cancelled\<rparr>)
                          else Inr (connect_result so_error sockfd st))))"

definition hook_connect ::
  "u64 \<Rightarrow> env \<Rightarrow> 'k turn \<Rightarrow> (int \<Rightarrow> address \<Rightarrow> 'k sysfun) \<Rightarrow> (int \<Rightarrow> 'k world \<Rightarrow> int \<times> int \<times> int) \<Rightarrow>
     int \<Rightarrow> address \<Rightarrow> 'k hook_st \<Rightarrow> (int \<times> 'k hook_st) outcome" where
  "hook_connect s_connect_timeout en t connect_f so_error sockfd addr st =
     connect_with_timeout en t connect_f so_error sockfd addr s_connect_timeout st"

definition hook_close :: "epoll_call \<Rightarrow> (int \<Rightarrow> 'k sysfun) \<Rightarrow> int \<Rightarrow> 'k hook_st \<Rightarrow> (int \<times> 'k hook_st) outcome" where
  "hook_close ctl close_f fd st =
     (if \<not> hk_enable st then Inr (sys_call (close_f fd) st)
      else bindE (hook_ctx fd (hk_world st)) (\<lambda>c.
        if c = None then Inr (sys_call (close_f fd) st)
        else bindE (case hk_io st of
                 None \<Rightarrow> Inr None
               | Some io \<Rightarrow> bindE (cancelAll ctl fd io) (\<lambda>(_, io). Inr (Some io))) (\<lambda>io.
             bindE (FdManager_del fd (wd_fds (hk_world st))) (\<lambda>m.
               Inr (sys_call (close_f fd) (st\<lparr>hk_io := io, hk_world := (hk_world st)\<lparr>wd_fds := m\<rparr>\<rparr>))))))"

section \<open>Flags and options\<close>

text \<open>The commands of \<open>fcntl\<close> with the argument each takes; structures are given by their address.\<close>

datatype fcntl_cmd =
    F_SETFL u32 | F_GETFL
  | F_DUPFD u32 | F_DUPFD_CLOEXEC u32 | F_SETFD u32 | F_SETOWN u32 | F_SETSIG u32 | F_SETLEASE u32 | F_NOTIFY u32 | F_SETPIPE_SZ u32
  | F_GETFD | F_GETOWN | F_GETSIG | F_GETLEASE | F_GETPIPE_SZ
  | F_SETLK nat | F_SETLKW nat | F_GETLK nat
  | F_GETOWN_EX nat | F_SETOWN_EX nat
  | F_other int "nat option"

text \<open>A command the switch does not list is passed on without its argument.\<close>

definition hook_fcntl ::
  "(int \<Rightarrow> fcntl_cmd \<Rightarrow> 'k world \<Rightarrow> u32 \<times> 'k world) \<Rightarrow> int \<Rightarrow> fcntl_cmd \<Rightarrow> 'k world \<Rightarrow> (u32 \<times> 'k world) outcome" where
  "hook_fcntl fcntl_f fd cmd w =
     (case cmd of
        F_SETFL arg \<Rightarrow>
          bindE (hook_ctx fd w) (\<lambda>c.
            case c of
              None \<Rightarrow> Inr (fcntl_f fd (F_SETFL arg) w)
            | Some (p, ctx) \<Rightarrow>
                if fc_isClosed ctx then Inr (fcntl_f fd (F_SETFL arg) w)
                else let w = put_ctx p (ctx\<lparr>fc_userNonblock := (arg AND O_NONBLOCK) \<noteq> 0\<rparr>) w;
                         arg = (if fc_sysNonblock ctx then arg OR O_NONBLOCK else arg AND NOT O_NONBLOCK)
                     in Inr (fcntl_f fd (F_SETFL arg) w))
      | F_GETFL \<Rightarrow>
          let (arg, w) = fcntl_f fd F_GETFL w in
          bindE (hook_ctx fd w) (\<lambda>c.
            case c of
              None \<Rightarrow> Inr (arg, w)
            | Some (p, ctx) \<Rightarrow>
                if fc_isClosed ctx \<or> \<not> fc_isSocket ctx then Inr (arg, w)
                else Inr (if fc_userNonblock ctx then arg OR O_NONBLOCK else arg AND NOT O_NONBLOCK, w))
      | F_other n arg \<Rightarrow> Inr (fcntl_f fd (F_other n None) w)
      | _ \<Rightarrow> Inr (fcntl_f fd cmd w))"

definition FIONBIO :: u64 where "FIONBIO = 0x5421"

text \<open>\<open>arg\<close> is the value behind the pointer; the original gets the same pointer whatever the context says.\<close>

definition hook_ioctl ::
  "(int \<Rightarrow> u64 \<Rightarrow> int \<Rightarrow> 'k world \<Rightarrow> int \<times> 'k world) \<Rightarrow> int \<Rightarrow> u64 \<Rightarrow> int \<Rightarrow> 'k world \<Rightarrow> (int \<times> 'k world) outcome" where
  "hook_ioctl ioctl_f fd request arg w =
     (if request = FIONBIO
      then bindE (hook_ctx fd w) (\<lambda>c.
             case c of
               None \<Rightarrow> Inr (ioctl_f fd request arg w)
             | Some (p, ctx) \<Rightarrow>
                 if fc_isClosed ctx \<or> \<not> fc_isSocket ctx then Inr (ioctl_f fd request arg w)
                 else Inr (ioctl_f fd request arg (put_ctx p (ctx\<lparr>fc_userNonblock := arg \<noteq> 0\<rparr>) w)))
      else Inr (ioctl_f fd request arg w))"

definition hook_getsockopt :: "(int \<Rightarrow> int \<Rightarrow> int \<Rightarrow> 'k world \<Rightarrow> int \<times> int) \<Rightarrow> int \<Rightarrow> int \<Rightarrow> int \<Rightarrow> 'k world \<Rightarrow> int \<times> int" where
  "hook_getsockopt getsockopt_f sockfd level optname w = getsockopt_f sockfd level optname w"

text \<open>The milliseconds of a \<open>timeval\<close>; an option of another shape is read as one all the same, here a fault.\<close>

definition timeval_ms :: "int list \<Rightarrow> u64 outcome" where
  "timeval_ms optval =
     (case optval of
        [tv_sec, tv_usec] \<Rightarrow> Inr (word_of_int (tv_sec * 1000 + sgn tv_usec * (\<bar>tv_usec\<bar> div 1000)))
      | _ \<Rightarrow> Inl Out_of_bounds)"

definition hook_setsockopt ::
  "bool \<Rightarrow> (int \<Rightarrow> int \<Rightarrow> int \<Rightarrow> int list \<Rightarrow> 'k world \<Rightarrow> int \<times> 'k world) \<Rightarrow>
     int \<Rightarrow> int \<Rightarrow> int \<Rightarrow> int list \<Rightarrow> 'k world \<Rightarrow> (int \<times> 'k world) outcome" where
  "hook_setsockopt enable setsockopt_f sockfd level optname optval w =
     (if enable \<and> level = SOL_SOCKET \<and> (optname = SO_RCVTIMEO \<or> optname = SO_SNDTIMEO)
      then bindE (hook_ctx sockfd w) (\<lambda>c.
             case c of
               None \<Rightarrow> Inr (setsockopt_f sockfd level optname optval w)
             | Some (p, ctx) \<Rightarrow>
                 bindE (timeval_ms optval) (\<lambda>v.
                   Inr (setsockopt_f sockfd level optname optval (put_ctx p (setTimeout optname v ctx) w))))
      else Inr (setsockopt_f sockfd level optname optval w))"

section \<open>Lemmas\<close>

lemma hook_ctx_put [simp]:
  assumes "hook_ctx fd w = Inr (Some (p, c))"
  shows "hook_ctx fd (put_ctx p c' w) = Inr (Some (p, c'))"
  using assms
  by (auto simp: hook_ctx_def put_ctx_def FdManager_get_def FdManager_create_def bindE_eq_Inr_iff fm_at_def fm_store_def
      split: if_splits prod.splits)

lemma hook_ctx_fds:
  assumes "wd_fds w' = wd_fds w"
  shows "hook_ctx fd w' = hook_ctx fd w"
  using assms by (auto simp: hook_ctx_def FdManager_get_def bindE_def fm_at_def split: sum.splits)

lemma fd_lookup_hook_ctx: "fd_lookup fd w = bindE (hook_ctx fd w) (\<lambda>c. Inr (map_option snd c))"
  by (auto simp: fd_lookup_def hook_ctx_def bindE_def option.map_comp comp_def split: sum.splits)

text \<open>What the interruptible call returns is what the function returned last, and that was not an interruption.\<close>

inductive ran :: "'k sysfun \<Rightarrow> 'k hook_st \<Rightarrow> int \<Rightarrow> 'k hook_st \<Rightarrow> bool" for f where
  Once: "sys_call f st = (n, st') \<Longrightarrow> \<not> (n = - 1 \<and> hk_errno st' = EINTR) \<Longrightarrow> ran f st n st'"
| Again: "sys_call f st = (- 1, st') \<Longrightarrow> hk_errno st' = EINTR \<Longrightarrow> ran f st' n st'' \<Longrightarrow> ran f st n st''"

lemma ran_intr_loop:
  assumes "ran f st n st'"
  shows "intr_loop f st = Some (n, st')"
  using assms
proof induction
  case (Once st n st')
  then show ?case by (subst intr_loop.simps) auto
next
  case (Again st st' n st'')
  then show ?case by (subst intr_loop.simps) simp
qed

lemma intr_loop_ran:
  assumes "intr_loop f st = Some r"
  shows "ran f st (fst r) (snd r)"
proof (rule intr_loop.raw_induct [of "\<lambda>f st r. ran f st (fst r) (snd r)", OF _ assms])
  fix g f st r
  assume "\<And>f st r. g f st = Some r \<Longrightarrow> ran f st (fst r) (snd r)"
    and "(let (n, st) = sys_call f st in if n = - 1 \<and> hk_errno st = EINTR then g f st else Some (n, st)) = Some r"
  then show "ran f st (fst r) (snd r)" by (cases r) (auto split: prod.splits if_splits intro: ran.intros)
qed

lemma intr_loop_iff: "intr_loop f st = Some (n, st') \<longleftrightarrow> ran f st n st'"
  using ran_intr_loop intr_loop_ran by force

text \<open>An \<open>epoll_ctl\<close> that accepts every change.\<close>

definition ctl_accepts :: "epoll_call \<Rightarrow> bool" where
  "ctl_accepts ctl \<longleftrightarrow> (\<forall>p fd e m. fst (ctl p fd e m) = 0)"

lemma ctl_acceptsD: "ctl_accepts ctl \<Longrightarrow> ctl p fd e m = (rt, ep) \<Longrightarrow> rt = 0"
  by (metis ctl_accepts_def fst_conv)

lemma addEvent_timers:
  assumes "addEvent ctl junk self cur fd ev cb io = Inr (rt, io')"
  shows "io_timers io' = io_timers io"
proof -
  define io0 where "io0 = (if int (length (io_ctxs io)) > fd then io else resizeContext junk (nat (fd * 3 div 2)) io)"
  have "io_timers io0 = io_timers io" by (simp add: io0_def resizeContext_def)
  moreover have "io_timers io' = io_timers io0"
    using assms unfolding addEvent_def io0_def [symmetric] Let_def case_prod_unfold
    by (auto simp: bindE_eq_Inr_iff set_ctx_def split: if_split_asm)
  ultimately show ?thesis by simp
qed

lemma addEvent_accepted:
  assumes "addEvent ctl junk self cur fd ev cb io = Inr (rt, io')" and "ctl_accepts ctl"
  shows "rt = 0"
proof -
  let ?io = "if int (length (io_ctxs io)) > fd then io else resizeContext junk (nat (fd * 3 div 2)) io"
  have 1: "fst (ctl p fd e (io_epoll ?io)) = 0" for p e
    using assms(2) by (simp add: ctl_accepts_def)
  show ?thesis
    using assms(1) unfolding addEvent_def Let_def case_prod_unfold 1 by (auto simp: bindE_eq_Inr_iff split: if_split_asm)
qed

lemma cancelEvent_timers:
  assumes "cancelEvent ctl fd ev io = Inr (b, io')"
  shows "io_timers io' = io_timers io"
  using assms by (auto simp: cancelEvent_def bindE_eq_Inr_iff Let_def set_ctx_def split: prod.splits if_splits)

lemma cancelEvent_accepted:
  assumes "cancelEvent ctl fd ev io = Inr (b, io')" and "ctl_accepts ctl" and "ctx_at fd io = Inr c" and "reg c ev"
  shows "b"
  using assms
  by (auto simp: cancelEvent_def bindE_eq_Inr_iff Let_def ctx_at_def reg_def dest: ctl_acceptsD split: prod.splits if_splits)

lemma triggerEvent_events:
  assumes "triggerEvent ev c = Inr (ts, c')"
  shows "fx_events c' = fx_events c AND NOT ev"
  using assms
  by (auto simp: triggerEvent_def bindE_eq_Inr_iff Let_def putContext_def split: option.splits prod.splits if_splits)

lemma cancelEvent_unregisters:
  assumes "cancelEvent ctl fd ev io = Inr (True, io')"
  shows "\<not> reg (io_ctxs io' ! nat fd) ev"
proof -
  have m: "(e AND NOT ev) AND ev = 0" for e by (rule bit_eqI) (auto simp: bit_simps)
  show ?thesis
    using assms m
    by (auto simp: cancelEvent_def bindE_eq_Inr_iff Let_def ctx_at_def reg_def set_ctx_def triggerEvent_events
        split: prod.splits if_splits)
qed

lemma io_wf_timers [simp]:
  "io_wf (io\<lparr>io_timers := tm\<rparr>) = io_wf io" "io_wf (io\<lparr>io_wakes := n\<rparr>) = io_wf io"
  by (simp_all add: io_wf_def)

text \<open>Arming leaves everything but the timers and the wake count alone, and the new timer fires after \<open>to\<close> milliseconds.\<close>

lemma arm_ok:
  assumes "tm_wf (io_timers io)" and "tn_addr t \<notin> set (tm_live (io_timers io))" and "tn_written t = 1" and "to \<noteq> - 1"
  obtains tm n where "arm t to io = Inr (io\<lparr>io_timers := tm, io_wakes := n\<rparr>)" and "tm_wf tm"
    and "set (m_timers tm) = insert (tn_addr t) (set (m_timers (io_timers io)))"
    and "tm_heap tm (tn_addr t) = Timer_new (tn_now t) to (Some (Bound_OnTimer (tn_info t) (Some (Fn (tn_cb t))))) False"
    and "tm_live tm = tn_addr t # tm_live (io_timers io)"
proof -
  let ?cb = "Some (Bound_OnTimer (tn_info t) (Some (Fn (tn_cb t))))"
  obtain front tm where a: "addTimer (tn_now t) (tn_addr t) to ?cb False (io_timers io) = (front, tm)" by force
  define n where "n = (if front \<and> hasIdleThreads (io_sched io) then Suc (io_wakes io) else io_wakes io)"
  have "arm t to io = Inr (io\<lparr>io_timers := tm, io_wakes := n\<rparr>)"
    using a assms(3,4) by (simp add: arm_def io_addConditionTimer_def io_addTimer_def onTimerInsertAtFront_def io_tickle_def n_def Let_def)
  with addTimer_ok [OF assms(1,2), of "tn_now t" to ?cb False] a that show ?thesis by simp
qed

text \<open>
  While the fiber is held the manager looks for expired timers at time \<open>now\<close>; the function of the call's timer
  (\<open>cb\<close>, guarded by the \<open>timer_info\<close> at \<open>info\<close>) runs if it is among the collected ones.
\<close>

definition hold_timers :: "epoll_call \<Rightarrow> u64 \<Rightarrow> nat \<Rightarrow> nat \<Rightarrow> nat \<Rightarrow> int \<Rightarrow> u32 \<Rightarrow> int \<times> 'k hook_st \<Rightarrow> int \<times> 'k hook_st" where
  "hold_timers ctl now a cb info fd ev s =
     (case hk_io (snd s) of
        None \<Rightarrow> s
      | Some io \<Rightarrow>
          (case bindE (listExpiredCb now a [] (io_timers io)) (\<lambda>(cbs, tm).
                  if Some (Bound_OnTimer info (Some (Fn cb))) \<in> set cbs
                  then on_timeout ctl True fd ev (fst s, io\<lparr>io_timers := tm\<rparr>) else Inr (fst s, io\<lparr>io_timers := tm\<rparr>)) of
             Inl _ \<Rightarrow> s
           | Inr (cancelled, io) \<Rightarrow> (cancelled, (snd s)\<lparr>hk_io := Some io\<rparr>)))"

text \<open>The registration and the timer of one wait, up to the point where the fiber is held.\<close>

lemma wait_registers:
  assumes spec: "epoll_spec ctl" "ctl_accepts ctl" and wf: "io_wf io" "32 \<le> length (io_ctxs io)" and tm: "tm_wf (io_timers io)"
    and fd: "0 \<le> fd" and ev: "ev = EV_READ \<or> ev = EV_WRITE" and self: "self = Some s" and cur: "snd cur = State_EXEC"
    and free: "fd < int (length (io_ctxs io)) \<longrightarrow> \<not> reg (io_ctxs io ! nat fd) ev"
    and t: "tn_addr t \<notin> set (tm_live (io_timers io))" "tn_written t = 1" and to: "to \<noteq> - 1"
  obtains io1 io2 where "arm t to io = Inr io1" and "addEvent ctl junk self cur fd ev None io1 = Inr (0, io2)" and "io_wf io2"
    and "io_posted io2 = io_posted io" and "fd < int (length (io_ctxs io2))" and "reg (io_ctxs io2 ! nat fd) ev"
    and "getContext ev (io_ctxs io2 ! nat fd) = Inr \<lparr>ec_scheduler = Some s, ec_fiber = Some (fst cur), ec_cb = None\<rparr>"
    and "tm_wf (io_timers io2)" and "tn_addr t \<in> set (m_timers (io_timers io2))"
    and "tm_heap (io_timers io2) (tn_addr t) = Timer_new (tn_now t) to (Some (Bound_OnTimer (tn_info t) (Some (Fn (tn_cb t))))) False"
    and "tm_live (io_timers io2) = tn_addr t # tm_live (io_timers io)"
proof -
  from arm_ok [OF tm t to] obtain tm' n where a: "arm t to io = Inr (io\<lparr>io_timers := tm', io_wakes := n\<rparr>)" "tm_wf tm'"
    "set (m_timers tm') = insert (tn_addr t) (set (m_timers (io_timers io)))"
    "tm_heap tm' (tn_addr t) = Timer_new (tn_now t) to (Some (Bound_OnTimer (tn_info t) (Some (Fn (tn_cb t))))) False"
    "tm_live tm' = tn_addr t # tm_live (io_timers io)" by blast
  let ?io = "io\<lparr>io_timers := tm', io_wakes := n\<rparr>"
  from addEvent_ok [OF spec(1), of ?io fd ev self None cur junk] wf fd ev self cur free
  obtain rt io2 where b: "addEvent ctl junk self cur fd ev None ?io = Inr (rt, io2)" "io_wf io2" "io_posted io2 = io_posted io"
    and c: "rt = 0 \<longrightarrow> (\<exists>c x. ctx_at fd io2 = Inr c \<and> reg c ev \<and> getContext ev c = Inr x \<and> ec_scheduler x = self \<and>
        ec_cb x = None \<and> ec_fiber x = Some (fst cur))" by auto
  have rt: "rt = 0" by (rule addEvent_accepted [OF b(1) spec(2)])
  with c obtain c x where d: "ctx_at fd io2 = Inr c" "reg c ev" "getContext ev c = Inr x" "ec_scheduler x = self" "ec_cb x = None"
    "ec_fiber x = Some (fst cur)" by blast
  have "x = \<lparr>ec_scheduler = Some s, ec_fiber = Some (fst cur), ec_cb = None\<rparr>" using d(4-6) self by simp
  moreover have "fd < int (length (io_ctxs io2))" "io_ctxs io2 ! nat fd = c" using d(1) by (auto simp: ctx_at_def split: if_splits)
  ultimately show ?thesis
    using that [OF a(1)] b rt d(2,3) a(2-5) addEvent_timers [OF b(1)] by simp
qed

lemma hold_fires:
  assumes spec: "epoll_spec ctl" "ctl_accepts ctl" and wf: "io_wf io" and tm: "tm_wf (io_timers io)"
    and fd: "0 \<le> fd" "fd < int (length (io_ctxs io))" and ev: "ev = EV_READ \<or> ev = EV_WRITE"
    and r: "reg (io_ctxs io ! nat fd) ev" and x: "getContext ev (io_ctxs io ! nat fd) = Inr x" "ec_scheduler x = Some s"
    and t: "t \<in> set (m_timers (io_timers io))" "tm_heap (io_timers io) t = Timer_new nw to (Some (Bound_OnTimer info (Some (Fn cb)))) False"
    and now: "nw + to \<le> now" and a: "a \<notin> set (tm_live (io_timers io))" and io: "hk_io st = Some io"
  obtains io' where "hold_timers ctl now a cb info fd ev (0, st) = (ETIMEDOUT, st\<lparr>hk_io := Some io'\<rparr>)"
    and "io_posted io' = io_posted io @ [(s, \<lparr>tk_fiber = ec_fiber x, tk_cb = ec_cb x, tk_thread = - 1\<rparr>)]"
    and "\<not> reg (io_ctxs io' ! nat fd) ev" and "t \<notin> set (m_timers (io_timers io'))" and "m_cb (tm_heap (io_timers io') t) = None"
proof -
  have due: "t \<in> set (due now (io_timers io))" using t now by (simp add: due_def Timer_new_def)
  from listExpiredCb_ok [OF tm a, of now "[]"] obtain tm' where
    e: "listExpiredCb now a [] (io_timers io) = Inr (map (\<lambda>t. m_cb (tm_heap (io_timers io) t)) (due now (io_timers io)), tm')"
    and m: "set (m_timers tm') = {t \<in> set (m_timers (io_timers io)). t \<in> set (due now (io_timers io)) \<longrightarrow> m_recurring (tm_heap (io_timers io) t)}"
    and h: "tm_heap tm' = (\<lambda>t. if t \<in> set (due now (io_timers io)) then fired now (tm_heap (io_timers io) t) else tm_heap (io_timers io) t)"
    by auto
  have cb: "Some (Bound_OnTimer info (Some (Fn cb))) \<in> set (map (\<lambda>t. m_cb (tm_heap (io_timers io) t)) (due now (io_timers io)))"
    using due t(2) by (force simp: Timer_new_def)
  let ?io = "io\<lparr>io_timers := tm'\<rparr>"
  obtain b io' where c: "cancelEvent ctl fd ev ?io = Inr (b, io')" using cancelEvent_ok [OF spec(1), of ?io fd ev] wf fd ev by auto
  have b: "b" using cancelEvent_accepted [OF c spec(2)] fd r by (simp add: ctx_at_def)
  then have "io_posted io' = io_posted io @ [(s, \<lparr>tk_fiber = ec_fiber x, tk_cb = ec_cb x, tk_thread = - 1\<rparr>)]"
    using cancelEvent_ok [OF spec(1), of ?io fd ev] wf fd(1) ev c x by auto
  moreover have "hold_timers ctl now a cb info fd ev (0, st) = (ETIMEDOUT, st\<lparr>hk_io := Some io'\<rparr>)"
    using io e cb c by (simp add: hold_timers_def on_timeout_def)
  moreover have "\<not> reg (io_ctxs io' ! nat fd) ev" using cancelEvent_unregisters c b by simp
  moreover have "io_timers io' = tm'" using cancelEvent_timers [OF c] by simp
  moreover have "t \<notin> set (m_timers tm')" "m_cb (tm_heap tm' t) = None"
    using due t(2) by (auto simp: m h fired_def Timer_new_def)
  ultimately show ?thesis using that by simp
qed

text \<open>A descriptor on which the hooked calls wait: hooking is on, and its context is an open socket the user left blocking.\<close>

definition waits_on :: "int \<Rightarrow> 'k hook_st \<Rightarrow> fd_ctx \<Rightarrow> bool" where
  "waits_on fd st ctx \<longleftrightarrow> hk_enable st \<and> (\<exists>p. hook_ctx fd (hk_world st) = Inr (Some (p, ctx))) \<and>
     \<not> fc_isClosed ctx \<and> fc_isSocket ctx \<and> \<not> fc_userNonblock ctx"

lemma do_io_waits: "waits_on fd st ctx \<Longrightarrow> do_io en fd f ev so ts st = do_io_retry en fd f ev (getTimeout so ctx) ts (0, st)"
  by (auto simp: do_io_def waits_on_def)

text \<open>How a call on such a descriptor can end.\<close>

definition wait_failed :: "env \<Rightarrow> int \<Rightarrow> u32 \<Rightarrow> u64 \<Rightarrow> 'k turn \<Rightarrow> 'k hook_st \<Rightarrow> bool" where
  "wait_failed en fd ev to t st' \<longleftrightarrow>
     (\<exists>st0. io_wait en t fd ev to (0, st0) = Inr (None, st')) \<or>
     (\<exists>st0 c st1. io_wait en t fd ev to (0, st0) = Inr (Some c, st1) \<and> c \<noteq> 0 \<and> st' = st1\<lparr>hk_errno := c\<rparr>)"

declare do_io_retry.simps [simp del]

lemma do_io_retry_done:
  "ran f st n st1 \<Longrightarrow> \<not> (n = - 1 \<and> hk_errno st1 = EAGAIN) \<Longrightarrow> do_io_retry en fd f ev to ts (c, st) = Some (Inr (n, st1))"
  by (auto simp: do_io_retry.simps ran_intr_loop)

lemma do_io_retry_again:
  assumes "ran f st (- 1) st1" and "hk_errno st1 = EAGAIN"
  shows "do_io_retry en fd f ev to [] (c, st) = None"
    and "io_wait en t fd ev to (c, st1) = Inl e \<Longrightarrow> do_io_retry en fd f ev to (t # ts) (c, st) = Some (Inl e)"
    and "io_wait en t fd ev to (c, st1) = Inr (None, st2) \<Longrightarrow> do_io_retry en fd f ev to (t # ts) (c, st) = Some (Inr (- 1, st2))"
    and "io_wait en t fd ev to (c, st1) = Inr (Some k, st2) \<Longrightarrow> do_io_retry en fd f ev to (t # ts) (c, st) =
      (if k \<noteq> 0 then Some (Inr (- 1, st2\<lparr>hk_errno := k\<rparr>)) else do_io_retry en fd f ev to ts (0, st2))"
  using assms(2) by (simp_all add: do_io_retry.simps [of en fd f ev to _ c st] ran_intr_loop [OF assms(1)])

lemma do_io_retry_none: "intr_loop f st = None \<Longrightarrow> do_io_retry en fd f ev to ts (c, st) = None"
  by (simp add: do_io_retry.simps)

lemma do_io_retry_result:
  assumes "do_io_retry en fd f ev to ts (0, st) = Some (Inr (n, st'))"
  shows "(\<exists>st0. ran f st0 n st' \<and> \<not> (n = - 1 \<and> hk_errno st' = EAGAIN)) \<or>
     n = - 1 \<and> (\<exists>t\<in>set ts. wait_failed en fd ev to t st')"
  using assms
proof (induction ts arbitrary: st)
  case (Cons t ts)
  obtain m st1 where i: "ran f st m st1"
    using Cons(2) do_io_retry_none [of f st en fd ev to "t # ts" 0] by (cases "intr_loop f st") (auto simp: intr_loop_iff)
  show ?case
  proof (cases "m = - 1 \<and> hk_errno st1 = EAGAIN")
    case False
    then show ?thesis using Cons(2) i do_io_retry_done [OF i False, of en fd ev to "t # ts" 0] by auto
  next
    case True
    then have r: "ran f st (- 1) st1" "hk_errno st1 = EAGAIN" using i by auto
    note again = do_io_retry_again [OF r]
    show ?thesis
    proof (cases "io_wait en t fd ev to (0, st1)")
      case (Inl e)
      then show ?thesis using again(2) [OF Inl] Cons(2) by simp
    next
      case (Inr p)
      obtain k st2 where p: "p = (k, st2)" by force
      show ?thesis
      proof (cases k)
        case None
        then have "wait_failed en fd ev to t st2" using Inr p by (auto simp: wait_failed_def)
        then show ?thesis using again(3) Inr p None Cons(2) by auto
      next
        case (Some c)
        then have "wait_failed en fd ev to t (st2\<lparr>hk_errno := c\<rparr>)" if "c \<noteq> 0" using Inr p that by (auto simp: wait_failed_def)
        then show ?thesis
          using again(4) [of en t fd ev to 0 c st2 ts] Inr p Some Cons(2) Cons(1) [of st2] by (cases "c = 0") auto
      qed
    qed
  qed
next
  case Nil
  obtain m st1 where i: "ran f st m st1"
    using Nil do_io_retry_none [of f st en fd ev to "[]" 0] by (cases "intr_loop f st") (auto simp: intr_loop_iff)
  then show ?case
    using Nil do_io_retry_done [OF i, of en fd ev to "[]" 0] do_io_retry_again(1) [of f st st1 en fd ev to 0] by auto
qed


text \<open>
  C6. The timeout of a socket is enforced: a call that would block on a socket with a receive or send timeout registers
  its fiber with the manager, and once the clock has passed the deadline the call returns -1 with \<open>ETIMEDOUT\<close>, its event is
  no longer registered, its fiber has been handed to the scheduler exactly once and its timer is gone.
\<close>

theorem do_io_times_out:
  assumes "waits_on fd st ctx" and "getTimeout so ctx = to" and "to \<noteq> - 1" and "ran f st (- 1) st1" and "hk_errno st1 = EAGAIN"
    and "epoll_spec (en_ctl en)" and "ctl_accepts (en_ctl en)" and "hk_io st1 = Some io" and "io_reach (en_ctl en) (en_junk en) io"
    and "tm_reach (io_timers io)" and "0 \<le> fd" and "ev = EV_READ \<or> ev = EV_WRITE"
    and "fd < int (length (io_ctxs io)) \<longrightarrow> \<not> reg (io_ctxs io ! nat fd) ev" and "en_self en = Some s" and "snd (en_cur en) = State_EXEC"
    and "tn_addr t \<notin> set (tm_live (io_timers io))" and "tn_written t = 1" and "a \<notin> set (tm_live (io_timers io))" and "a \<noteq> tn_addr t"
    and "tn_now t + to \<le> now" and "tn_hold t = hold_timers (en_ctl en) now a (tn_cb t) (tn_info t) fd ev"
  shows "\<exists>st' io'. do_io en fd f ev so (t # ts) st = Some (Inr (- 1, st')) \<and> hk_errno st' = ETIMEDOUT \<and> hk_io st' = Some io' \<and>
     io_posted io' = io_posted io @ [(s, \<lparr>tk_fiber = Some (fst (en_cur en)), tk_cb = None, tk_thread = - 1\<rparr>)] \<and>
     \<not> reg (io_ctxs io' ! nat fd) ev \<and> tn_addr t \<notin> set (m_timers (io_timers io'))"
proof -
  note wf = io_reach_wf [OF assms(9,6)] and tm = tm_reach_wf [OF assms(10)]
  from wait_registers [OF assms(6,7) wf tm assms(11,12,14,15,13,16,17,3), of "en_junk en"]
  obtain io1 io2 where arm: "arm t to io = Inr io1"
    and add: "addEvent (en_ctl en) (en_junk en) (en_self en) (en_cur en) fd ev None io1 = Inr (0, io2)"
    and w: "io_wf io2" "io_posted io2 = io_posted io" "fd < int (length (io_ctxs io2))" "reg (io_ctxs io2 ! nat fd) ev"
      "getContext ev (io_ctxs io2 ! nat fd) = Inr \<lparr>ec_scheduler = Some s, ec_fiber = Some (fst (en_cur en)), ec_cb = None\<rparr>"
      "tm_wf (io_timers io2)" "tn_addr t \<in> set (m_timers (io_timers io2))"
      "tm_heap (io_timers io2) (tn_addr t) = Timer_new (tn_now t) to (Some (Bound_OnTimer (tn_info t) (Some (Fn (tn_cb t))))) False"
      "tm_live (io_timers io2) = tn_addr t # tm_live (io_timers io)" by blast
  have a: "a \<notin> set (tm_live (io_timers io2))" using w(9) assms(18,19) by simp
  have io2: "hk_io (st1\<lparr>hk_io := Some io2\<rparr>) = Some io2" and sc: "ec_scheduler \<lparr>ec_scheduler = Some s, ec_fiber = Some (fst (en_cur en)), ec_cb = None\<rparr> = Some s"
    by simp_all
  from hold_fires [OF assms(6,7) w(1,6) assms(11) w(3) assms(12) w(4,5) sc w(7,8) assms(20) a io2]
  obtain io' where h: "hold_timers (en_ctl en) now a (tn_cb t) (tn_info t) fd ev (0, st1\<lparr>hk_io := Some io2\<rparr>) = (ETIMEDOUT, st1\<lparr>hk_io := Some io'\<rparr>)"
    and r: "io_posted io' = io_posted io2 @ [(s, \<lparr>tk_fiber = Some (fst (en_cur en)), tk_cb = None, tk_thread = - 1\<rparr>)]"
      "\<not> reg (io_ctxs io' ! nat fd) ev" "tn_addr t \<notin> set (m_timers (io_timers io'))" "m_cb (tm_heap (io_timers io') (tn_addr t)) = None"
    by auto
  have "io_wait en t fd ev to (0, st1) = Inr (Some ETIMEDOUT, st1\<lparr>hk_io := Some io'\<rparr>)"
    using arm add h r(4) assms(8,21) by (simp add: io_wait_def disarm_def cancel_def)
  then have "do_io en fd f ev so (t # ts) st = Some (Inr (- 1, st1\<lparr>hk_io := Some io', hk_errno := ETIMEDOUT\<rparr>))"
    using do_io_retry_again(4) [OF assms(4,5)] assms(1,2) by (simp add: do_io_waits ETIMEDOUT_def)
  then show ?thesis using r w(2) by simp
qed

text \<open>A socket with a receive timeout of one second at descriptor 5, and a call on it that blocks.\<close>

definition hook_demo_ctx :: fd_ctx where
  "hook_demo_ctx = \<lparr>fc_isInit = True, fc_isSocket = True, fc_isClosed = False, fc_sysNonblock = True, fc_userNonblock = False,
     fc_fd = 5, fc_recvTimeout = 1000, fc_sendTimeout = - 1\<rparr>"

definition hook_demo :: "unit hook_st" where
  "hook_demo = \<lparr>hk_world = \<lparr>wd_fds = \<lparr>fm_datas = (replicate 64 None)[5 := Some 0], fm_heap = \<lambda>_. hook_demo_ctx\<rparr>,
       wd_kern = \<lparr>kf_stat = \<lambda>_. Some True, kf_flags = \<lambda>_. O_NONBLOCK\<rparr>, wd_os = ()\<rparr>,
     hk_io = Some io_demo, hk_errno = 0, hk_enable = True\<rparr>"

definition hook_demo_env :: env where
  "hook_demo_env = \<lparr>en_ctl = ctl_ok, en_junk = None, en_self = Some 9, en_cur = (3, State_EXEC)\<rparr>"

definition hook_demo_turn :: "unit turn" where
  "hook_demo_turn = \<lparr>tn_now = 100, tn_addr = 1, tn_cb = 7, tn_info = 2, tn_written = 1, tn_errno = 0,
     tn_hold = hold_timers ctl_ok 1100 4 7 2 5 EV_READ\<rparr>"

lemma hook_demo_waits: "waits_on 5 hook_demo hook_demo_ctx"
  by (simp add: waits_on_def hook_demo_def hook_ctx_def FdManager_get_def fm_at_def hook_demo_ctx_def)

lemma ctl_ok_accepts: "ctl_accepts ctl_ok"
  by (simp add: ctl_accepts_def ctl_ok_def)


theorem do_io_times_out_witness:
  "\<exists>st' io'. do_io hook_demo_env 5 (\<lambda>w. (- 1, EAGAIN, w)) EV_READ SO_RCVTIMEO [hook_demo_turn] hook_demo = Some (Inr (- 1, st')) \<and>
     hk_errno st' = ETIMEDOUT \<and> hk_io st' = Some io' \<and> io_posted io' = [(9, \<lparr>tk_fiber = Some 3, tk_cb = None, tk_thread = - 1\<rparr>)]"
proof -
  let ?f = "\<lambda>w. (- 1, EAGAIN, w)"
  have r: "ran ?f hook_demo (- 1) (hook_demo\<lparr>hk_errno := EAGAIN\<rparr>)"
    by (rule ran.Once) (simp_all add: sys_call_def errno_defs)
  have tm: "io_timers io_demo = TimerManager_new (\<lambda>_. Timer_at 0) 10" by (simp add: io_demo_def IOManager_new_def resizeContext_def)
  show ?thesis
    using do_io_times_out [OF hook_demo_waits _ _ r, of SO_RCVTIMEO 1000 hook_demo_env io_demo EV_READ 9 hook_demo_turn 4 1100 "[]"]
      ctl_ok_spec ctl_ok_accepts io_demo_reach(1) tm_reach.start [of "\<lambda>_. Timer_at 0" 10]
    by (auto simp: tm hook_demo_env_def hook_demo_turn_def hook_demo_def hook_demo_ctx_def getTimeout_def io_demo_ctxs reg_def
        FdContext_new_def event_defs TimerManager_new_def)
qed

section \<open>Flags and timeouts\<close>

text \<open>
  Of \<open>fcntl\<close>: \<open>F_SETFL\<close> sets the \<open>O_NONBLOCK\<close> flag of the descriptor as its argument says and leaves the table of
  contexts alone, \<open>F_GETFL\<close> returns the flags.
\<close>

definition fcntl_spec :: "(int \<Rightarrow> fcntl_cmd \<Rightarrow> 'k world \<Rightarrow> u32 \<times> 'k world) \<Rightarrow> bool" where
  "fcntl_spec fcntl_f \<longleftrightarrow> (\<forall>fd fl w. fst (fcntl_f fd (F_SETFL fl) w) = 0 \<and> wd_fds (snd (fcntl_f fd (F_SETFL fl) w)) = wd_fds w \<and>
     kf_flags (wd_kern (snd (fcntl_f fd (F_SETFL fl) w))) fd AND O_NONBLOCK = fl AND O_NONBLOCK \<and>
     fcntl_f fd F_GETFL w = (kf_flags (wd_kern w) fd, w))"

lemma nonblock_bits:
  "(x OR O_NONBLOCK) AND O_NONBLOCK = O_NONBLOCK" "(x AND NOT O_NONBLOCK) AND O_NONBLOCK = 0"
  "x AND O_NONBLOCK \<noteq> 0 \<Longrightarrow> x AND O_NONBLOCK = O_NONBLOCK"
proof -
  have b: "bit O_NONBLOCK n \<longleftrightarrow> n = 11" for n
    using bit_exp_iff [where 'a = u32, of 11 n] by (auto simp: O_NONBLOCK_def)
  show "(x OR O_NONBLOCK) AND O_NONBLOCK = O_NONBLOCK" "(x AND NOT O_NONBLOCK) AND O_NONBLOCK = 0"
    by (rule bit_eqI; auto simp: bit_simps)+
  assume "x AND O_NONBLOCK \<noteq> 0"
  then obtain n where "bit (x AND O_NONBLOCK) n" by (auto simp: bit_eq_iff)
  then show "x AND O_NONBLOCK = O_NONBLOCK" by (intro bit_eqI) (auto simp: bit_simps b)
qed

text \<open>
  C32. The user's view of a hooked socket's blocking mode: after \<open>fcntl (fd, F_SETFL, flags)\<close> the kernel keeps the
  descriptor non-blocking whatever the user asked for, \<open>F_GETFL\<close> reports \<open>O_NONBLOCK\<close> exactly if the user had set it, and the context records it,
  which decides whether later calls wait.
\<close>

theorem nonblock_view:
  assumes spec: "fcntl_spec fcntl_f" and ctx: "hook_ctx fd w = Inr (Some (p, ctx))"
    and sock: "\<not> fc_isClosed ctx" "fc_isSocket ctx" "fc_sysNonblock ctx"
  shows "\<exists>w' v ctx'. hook_fcntl fcntl_f fd (F_SETFL fl) w = Inr (0, w') \<and> kf_flags (wd_kern w') fd AND O_NONBLOCK = O_NONBLOCK \<and>
     hook_fcntl fcntl_f fd F_GETFL w' = Inr (v, w') \<and> v AND O_NONBLOCK = fl AND O_NONBLOCK \<and>
     hook_ctx fd w' = Inr (Some (p, ctx')) \<and> fc_userNonblock ctx' = (fl AND O_NONBLOCK \<noteq> 0)"
proof -
  let ?c = "ctx\<lparr>fc_userNonblock := (fl AND O_NONBLOCK) \<noteq> 0\<rparr>"
  let ?w = "put_ctx p ?c w"
  obtain rt w' where f: "fcntl_f fd (F_SETFL (fl OR O_NONBLOCK)) ?w = (rt, w')" by force
  have s: "rt = 0" "wd_fds w' = wd_fds ?w" "kf_flags (wd_kern w') fd AND O_NONBLOCK = O_NONBLOCK"
    "fcntl_f fd F_GETFL w' = (kf_flags (wd_kern w') fd, w')"
    using spec [unfolded fcntl_spec_def, rule_format, of fd "fl OR O_NONBLOCK" ?w] spec [unfolded fcntl_spec_def, rule_format, of fd 0 w'] f
    by (simp_all add: nonblock_bits)
  have c: "hook_ctx fd w' = Inr (Some (p, ?c))" using hook_ctx_fds [OF s(2)] hook_ctx_put [OF ctx] by simp
  have "hook_fcntl fcntl_f fd (F_SETFL fl) w = Inr (0, w')" using ctx sock f s(1) by (simp add: hook_fcntl_def)
  moreover obtain v where "hook_fcntl fcntl_f fd F_GETFL w' = Inr (v, w')" "v AND O_NONBLOCK = fl AND O_NONBLOCK"
    using c s(4) sock nonblock_bits [of "kf_flags (wd_kern w') fd"] nonblock_bits(3) [of fl]
    by (cases "fl AND O_NONBLOCK = 0") (auto simp: hook_fcntl_def)
  ultimately show ?thesis using s(3) c by auto
qed


theorem nonblock_view_witness:
  "\<exists>w' v. hook_fcntl (\<lambda>fd cmd w. case cmd of F_SETFL fl \<Rightarrow> (0, w\<lparr>wd_kern := (wd_kern w)\<lparr>kf_flags := (kf_flags (wd_kern w))(fd := fl)\<rparr>\<rparr>) | _ \<Rightarrow> (kf_flags (wd_kern w) fd, w))
     5 (F_SETFL 2) (hk_world hook_demo) = Inr (0, w') \<and> kf_flags (wd_kern w') 5 AND O_NONBLOCK = O_NONBLOCK \<and>
     hook_fcntl (\<lambda>fd cmd w. case cmd of F_SETFL fl \<Rightarrow> (0, w\<lparr>wd_kern := (wd_kern w)\<lparr>kf_flags := (kf_flags (wd_kern w))(fd := fl)\<rparr>\<rparr>) | _ \<Rightarrow> (kf_flags (wd_kern w) fd, w))
     5 F_GETFL w' = Inr (v, w') \<and> v AND O_NONBLOCK = 0"
proof -
  let ?f = "\<lambda>fd cmd w. case cmd of F_SETFL fl \<Rightarrow> (0, w\<lparr>wd_kern := (wd_kern w)\<lparr>kf_flags := (kf_flags (wd_kern w))(fd := fl)\<rparr>\<rparr>) | _ \<Rightarrow> (kf_flags (wd_kern w) fd, w)"
  have "fcntl_spec ?f" by (simp add: fcntl_spec_def)
  moreover obtain p where "hook_ctx 5 (hk_world hook_demo) = Inr (Some (p, hook_demo_ctx))" using hook_demo_waits by (auto simp: waits_on_def)
  moreover have "(2::u32) AND O_NONBLOCK = 0" by (simp add: O_NONBLOCK_def)
  ultimately show ?thesis
    using nonblock_view [of ?f 5 "hk_world hook_demo" p hook_demo_ctx 2] by (fastforce simp: hook_demo_ctx_def)
qed

text \<open>The milliseconds a hooked \<open>setsockopt\<close> stores for the \<open>timeval\<close> a socket builds.\<close>

lemma timeval_ms_of:
  assumes "0 \<le> v" and "v < 2147483648000"
  shows "timeval_ms (timeval_of v) = Inr (word_of_int v)"
proof -
  have sm: "sint (word_of_int x :: u32) = x" if "0 \<le> x" "x < 2147483648" for x
    using that by (simp add: sint_word_ariths signed_of_int signed_take_bit_int_eq_self)
  have e: "sgn v * (\<bar>v\<bar> div 1000) = v div 1000" "sgn v * (\<bar>v\<bar> mod 1000) * 1000 = v mod 1000 * 1000"
    using assms(1) by (cases "v = 0"; simp)+
  have "v div 1000 < 2147483648" "v mod 1000 * 1000 < 2147483648" using assms by linarith+
  then have t: "timeval_of v = [v div 1000, v mod 1000 * 1000]"
    unfolding timeval_of_def e using assms(1) sm [of "v div 1000"] sm [of "v mod 1000 * 1000"] by simp
  have "sgn (v mod 1000 * 1000) * (\<bar>v mod 1000 * 1000\<bar> div 1000) = v mod 1000"
    by (cases "v mod 1000 = 0") (auto simp: sgn_if abs_if)
  then have "v div 1000 * 1000 + sgn (v mod 1000 * 1000) * (\<bar>v mod 1000 * 1000\<bar> div 1000) = v" by (simp only: div_mult_mod_eq)
  then show ?thesis by (simp only: timeval_ms_def t list.case)
qed

text \<open>Setting a timeout through the hooked \<open>setsockopt\<close> stores it in the context of the socket and nowhere else.\<close>

lemma set_timeout_ctx:
  assumes "\<And>fd l opt v w. c_setsockopt c fd l opt v w = (case hook_setsockopt True f fd l opt v w of Inr r \<Rightarrow> r | Inl _ \<Rightarrow> (- 1, w))"
    and "\<And>fd l opt v w. wd_fds (snd (f fd l opt v w)) = wd_fds w"
    and "hook_ctx (m_sock s) w = Inr (Some (p, ctx))" and "type = SO_RCVTIMEO \<or> type = SO_SNDTIMEO"
    and "0 \<le> v" "v < 2147483648000"
  shows "m_sock (fst (snd (setOption c SOL_SOCKET type (timeval_of v) (s, w)))) = m_sock s \<and>
    hook_ctx (m_sock s) (snd (snd (setOption c SOL_SOCKET type (timeval_of v) (s, w)))) = Inr (Some (p, setTimeout type (word_of_int v) ctx))"
proof -
  let ?w = "put_ctx p (setTimeout type (word_of_int v) ctx) w"
  have "c_setsockopt c (m_sock s) SOL_SOCKET type (timeval_of v) w = f (m_sock s) SOL_SOCKET type (timeval_of v) ?w"
    using assms(1,3,4) by (simp add: hook_setsockopt_def timeval_ms_of [OF assms(5,6)])
  moreover have "hook_ctx (m_sock s) (snd (f (m_sock s) SOL_SOCKET type (timeval_of v) ?w)) = Inr (Some (p, setTimeout type (word_of_int v) ctx))"
    using hook_ctx_fds [OF assms(2)] hook_ctx_put [OF assms(3)] by metis
  ultimately show ?thesis by (simp add: setOption_def case_prod_unfold Let_def)
qed

text \<open>
  Timeouts set on a socket come back: through the hooked \<open>setsockopt\<close> the timeout travels as seconds and
  microseconds into the context of the descriptor, \<open>recvTimeout\<close> and \<open>sendTimeout\<close> read it back in milliseconds, and setting one does not change the other.
\<close>

theorem timeout_round_trip:
  assumes "\<And>fd l opt v w. c_setsockopt c fd l opt v w = (case hook_setsockopt True f fd l opt v w of Inr r \<Rightarrow> r | Inl _ \<Rightarrow> (- 1, w))"
    and "\<And>fd l opt v w. wd_fds (snd (f fd l opt v w)) = wd_fds w"
    and "hook_ctx (m_sock s) w = Inr (Some (p, ctx))" and "0 \<le> v" "v < 2147483648000"
  shows "recvTimeout (set_recvTimeout c v (s, w)) = Inr v \<and> sendTimeout (set_recvTimeout c v (s, w)) = sendTimeout (s, w) \<and>
     sendTimeout (set_sendTimeout c v (s, w)) = Inr v \<and> recvTimeout (set_sendTimeout c v (s, w)) = recvTimeout (s, w)"
proof -
  have sv: "sint (word_of_int v :: u64) = v" using assms(4,5) by (simp add: signed_of_int signed_take_bit_int_eq_self)
  note r = set_timeout_ctx [OF assms(1-3) disjI1 [OF refl] assms(4,5)] and s = set_timeout_ctx [OF assms(1-3) disjI2 [OF refl] assms(4,5)]
  show ?thesis
    using r s assms(3)
    by (simp add: recvTimeout_def sendTimeout_def set_recvTimeout_def set_sendTimeout_def get_timeout_def fd_lookup_hook_ctx
        setTimeout_def getTimeout_def sv SO_RCVTIMEO_def SO_SNDTIMEO_def)
qed

definition hooked_calls :: "byte list calls" where
  "hooked_calls = mem_calls\<lparr>c_setsockopt := (\<lambda>fd l opt v w. case hook_setsockopt True (\<lambda>_ _ _ _ w. (0, w)) fd l opt v w of Inr r \<Rightarrow> r | Inl _ \<Rightarrow> (- 1, w))\<rparr>"

theorem timeout_round_trip_witness:
  "recvTimeout (set_recvTimeout hooked_calls 2500 (open_sock\<lparr>m_sock := 5\<rparr>, (mem_world [])\<lparr>wd_fds := wd_fds (hk_world hook_demo)\<rparr>)) = Inr 2500"
proof -
  obtain p where "hook_ctx 5 (hk_world hook_demo) = Inr (Some (p, hook_demo_ctx))" using hook_demo_waits by (auto simp: waits_on_def)
  then have "hook_ctx 5 ((mem_world [])\<lparr>wd_fds := wd_fds (hk_world hook_demo)\<rparr>) = Inr (Some (p, hook_demo_ctx))"
    by (auto simp: hook_ctx_def FdManager_get_def fm_at_def bindE_eq_Inr_iff FdManager_create_def)
  then show ?thesis
    using timeout_round_trip [of hooked_calls "\<lambda>_ _ _ _ w. (0, w)" "open_sock\<lparr>m_sock := 5\<rparr>"
        "(mem_world [])\<lparr>wd_fds := wd_fds (hk_world hook_demo)\<rparr>" p hook_demo_ctx 2500]
    by (simp add: hooked_calls_def)
qed

section \<open>Sleeping and closing\<close>

text \<open>
  A hooked \<open>sleep\<close> holds the fiber behind a timer; the delay is the number of seconds in milliseconds
  modulo 2 to the 32nd.
\<close>

lemma sleep_timer:
  assumes "hk_enable st" and "hk_io st = Some io" and "tn_written t = 1"
  shows "\<exists>front tm io'. addTimer (tn_now t) (tn_addr t) (of_nat (unat seconds * 1000 mod 2 ^ 32)) (Some (Fn (tn_cb t))) False (io_timers io) = (front, tm) \<and>
     io_timers io' = tm \<and> hook_sleep sleep_f t seconds st = Inr (0, snd (tn_hold t (0, st\<lparr>hk_io := Some io'\<rparr>)))"
proof -
  have "(ucast (seconds * 1000) :: u64) = of_nat (unat (seconds * 1000))"
    by (simp add: unsigned_ucast_eq word_eq_iff_unsigned [where 'a = nat] unsigned_of_nat take_bit_nat_eq_self)
  then have "(ucast (seconds * 1000) :: u64) = of_nat (unat seconds * 1000 mod 2 ^ 32)"
    by (simp only: unat_word_ariths) simp
  moreover obtain front tm where a: "addTimer (tn_now t) (tn_addr t) (of_nat (unat seconds * 1000 mod 2 ^ 32)) (Some (Fn (tn_cb t))) False (io_timers io) = (front, tm)"
    by force
  define io' where "io' = (if front \<and> hasIdleThreads (io_sched io) then io\<lparr>io_timers := tm, io_wakes := Suc (io_wakes io)\<rparr> else io\<lparr>io_timers := tm\<rparr>)"
  have "io_addTimer t (of_nat (unat seconds * 1000 mod 2 ^ 32)) (Some (Fn (tn_cb t))) io = Inr io'"
    using assms(3) a by (simp add: io_addTimer_def onTimerInsertAtFront_def io_tickle_def io'_def Let_def)
  ultimately have "hook_sleep sleep_f t seconds st = Inr (0, snd (tn_hold t (0, st\<lparr>hk_io := Some io'\<rparr>)))"
    using assms(1,2) by (simp add: hook_sleep_def sleep_hold_def)
  moreover have "io_timers io' = tm" by (simp add: io'_def)
  ultimately show ?thesis using a by blast
qed

text \<open>A hooked \<open>close\<close> wakes every fiber waiting on the descriptor and forgets its context, then closes it.\<close>

lemma hook_close_wakes:
  assumes "hk_enable st" and "hook_ctx fd (hk_world st) = Inr (Some (p, ctx))" and "hk_io st = Some io" and "0 \<le> fd"
    and "epoll_spec ctl" "io_wf io"
  shows "\<exists>b io' w'. cancelAll ctl fd io = Inr (b, io') \<and> (b \<longrightarrow> io_posted io' = io_posted io @ waiters (io_ctxs io ! nat fd)) \<and>
     hook_ctx fd w' = Inr None \<and> hook_close ctl close_f fd st = Inr (sys_call (close_f fd) (st\<lparr>hk_io := Some io', hk_world := w'\<rparr>))"
proof -
  obtain b io' where c: "cancelAll ctl fd io = Inr (b, io')" "b \<longrightarrow> io_posted io' = io_posted io @ waiters (io_ctxs io ! nat fd)"
    using cancelAll_ok [OF assms(5,6,4)] by auto
  have l: "fd < int (length (fm_datas (wd_fds (hk_world st))))"
    using assms(2) by (auto simp: hook_ctx_def FdManager_get_def bindE_eq_Inr_iff fm_at_def split: if_splits)
  let ?m = "(wd_fds (hk_world st))\<lparr>fm_datas := (fm_datas (wd_fds (hk_world st)))[nat fd := None]\<rparr>"
  have d: "FdManager_del fd (wd_fds (hk_world st)) = Inr ?m" using l assms(4) by (simp add: FdManager_del_def fm_store_def)
  have "hook_ctx fd ((hk_world st)\<lparr>wd_fds := ?m\<rparr>) = Inr None"
    using l assms(4) by (simp add: hook_ctx_def FdManager_get_def fm_at_def)
  then show ?thesis using assms(1-3) c d by (auto simp: hook_close_def)
qed

end
