(* ===== verification/Cool_Scanner.thy ===== *)
theory Cool_Scanner
  imports Cool_Text
begin

text \<open>
  The shape shared by the two generated scanners (src/http/http11_parser.rl.cpp, src/http/httpclient_parser.rl.cpp):
  a state is a sequence of tests on the current character that ends in a jump, a jump goes to a state or to a
  transition, and a transition performs actions and goes to a state. The states themselves are in
  \<open>Cool_RequestMachine\<close> and \<open>Cool_ResponseMachine\<close>; here is how they run, and what follows for every
  run from properties of the tables.
\<close>

section \<open>Code of a state\<close>

text \<open>\<open>St n\<close> and \<open>Tr n\<close> are the labels \<open>stn\<close> and \<open>trn\<close>; the trailing \<open>goto\<close> of a state is kept apart.\<close>

datatype jump = St int | Tr int

datatype test = Eq int | Lt int | Gt int | Ge int | Within int int

datatype stmt = Goto jump | Cond test "stmt list" "stmt list" | Switch "(int \<times> jump) list"

datatype code = Plain "stmt list" jump | Wide "stmt list" jump

fun holds :: "test \<Rightarrow> int \<Rightarrow> bool" where
  "holds (Eq n) x \<longleftrightarrow> x = n"
| "holds (Lt n) x \<longleftrightarrow> x < n"
| "holds (Gt n) x \<longleftrightarrow> x > n"
| "holds (Ge n) x \<longleftrightarrow> x \<ge> n"
| "holds (Within a b) x \<longleftrightarrow> a \<le> x \<and> x \<le> b"

fun exec_stmts :: "int \<Rightarrow> stmt list \<Rightarrow> jump option" where
  "exec_stmts x [] = None"
| "exec_stmts x (Goto j # ss) = Some j"
| "exec_stmts x (Cond t a b # ss) =
     (case exec_stmts x (if holds t x then a else b) of None \<Rightarrow> exec_stmts x ss | Some j \<Rightarrow> Some j)"
| "exec_stmts x (Switch cs # ss) = (case map_of cs x of None \<Rightarrow> exec_stmts x ss | Some j \<Rightarrow> Some j)"

text \<open>
  A plain \<open>char\<close> is signed. In a wide state the characters \<open>^\<close>, \<open>{\<close> and \<open>}\<close> are renumbered by the condition
  \<open>parser->uri_relaxed\<close>.
\<close>

definition schar :: "char \<Rightarrow> int" where
  "schar c = (let n = of_char c :: int in if n < 128 then n else n - 256)"

definition widec :: "bool \<Rightarrow> int \<Rightarrow> int" where
  "widec relaxed c =
     (if c < 123 then if 94 \<le> c \<and> c \<le> 94 then 128 + (c - (- 128)) + (if relaxed then 256 else 0) else c
      else if c > 123 then if 125 \<le> c \<and> c \<le> 125 then 128 + (c - (- 128)) + (if relaxed then 256 else 0) else c
      else 128 + (c - (- 128)) + (if relaxed then 256 else 0))"

fun run_code :: "bool \<Rightarrow> int \<Rightarrow> code \<Rightarrow> jump" where
  "run_code relaxed c (Plain ss j) = (case exec_stmts c ss of None \<Rightarrow> j | Some k \<Rightarrow> k)"
| "run_code relaxed c (Wide ss j) = (case exec_stmts (widec relaxed c) ss of None \<Rightarrow> j | Some k \<Rightarrow> k)"

section \<open>Running\<close>

text \<open>The actions of both grammars, under the names they have there.\<close>

datatype act =
    Mark | Start_field | Write_field | Start_value | Write_value | Done | Http_version
  | Request_method | Request_uri | Fragment | Start_query | Query_string | Request_path | Xml | Json
  | Write_content_len | Write_connection_close | Reason_phrase | Status_code | Chunk_size | Trans_chunked

text \<open>What stands at a label: a state, or a transition with its actions and the state it goes to.\<close>

datatype item = State code | Trans "act list" int

record machine =
  mc_state :: "int \<Rightarrow> code option"
  mc_trans :: "int \<Rightarrow> act list \<times> int"

definition next_step :: "machine \<Rightarrow> bool \<Rightarrow> code \<Rightarrow> char \<Rightarrow> act list \<times> int" where
  "next_step M relaxed code c =
     (case run_code relaxed (schar c) code of St n \<Rightarrow> ([], n) | Tr n \<Rightarrow> mc_trans M n)"

fun do_acts :: "(act \<Rightarrow> nat \<Rightarrow> 'd \<Rightarrow> 'd outcome) \<Rightarrow> act list \<Rightarrow> nat \<Rightarrow> 'd \<Rightarrow> 'd outcome" where
  "do_acts f [] p d = Inr d"
| "do_acts f (a # as) p d = (case f a p d of Inl e \<Rightarrow> Inl e | Inr d \<Rightarrow> do_acts f as p d)"

text \<open>
  From position \<open>p\<close> in state \<open>cs\<close>, with the rest of the buffer: the position, the state and the data where it stops.
  A state without a case leaves the switch; \<open>st0\<close> stops without advancing; \<open>done\<close> advances and stops.
\<close>

fun scan ::
  "machine \<Rightarrow> bool \<Rightarrow> (act \<Rightarrow> nat \<Rightarrow> 'd \<Rightarrow> 'd outcome) \<Rightarrow> string \<Rightarrow> nat \<Rightarrow> int \<Rightarrow> 'd \<Rightarrow> (nat \<times> int \<times> 'd) outcome" where
  "scan M relaxed f [] p cs d = Inr (p, cs, d)"
| "scan M relaxed f (c # rest) p cs d =
     (case mc_state M cs of
        None \<Rightarrow> Inr (p, cs, d)
      | Some code \<Rightarrow>
          let (as, n) = next_step M relaxed code c in
          if as = [] \<and> n = 0 then Inr (p, 0, d)
          else (case do_acts f as p d of
              Inl e \<Rightarrow> Inl e
            | Inr d \<Rightarrow> if Done \<in> set as then Inr (p + 1, n, d) else scan M relaxed f rest (p + 1) n d))"

section \<open>From the tables to the runs\<close>

text \<open>Every jump a state can take is written in it.\<close>

fun gotos :: "stmt list \<Rightarrow> jump list" where
  "gotos [] = []"
| "gotos (Goto j # ss) = j # gotos ss"
| "gotos (Cond t a b # ss) = gotos a @ gotos b @ gotos ss"
| "gotos (Switch cs # ss) = map snd cs @ gotos ss"

fun code_gotos :: "code \<Rightarrow> jump list" where
  "code_gotos (Plain ss j) = j # gotos ss"
| "code_gotos (Wide ss j) = j # gotos ss"

lemma exec_stmts_in: "exec_stmts x ss = Some j \<Longrightarrow> j \<in> set (gotos ss)"
proof (induction x ss rule: exec_stmts.induct)
  case (3 x t a b ss)
  then show ?case by (cases "holds t x") (auto split: option.splits)
next
  case (4 x cs ss)
  then show ?case by (auto split: option.splits dest!: map_of_SomeD intro: rev_image_eqI)
qed auto

lemma run_code_in: "run_code relaxed c code \<in> set (code_gotos code)"
  by (cases code) (auto split: option.splits dest: exec_stmts_in)

definition steps_of :: "machine \<Rightarrow> code \<Rightarrow> (act list \<times> int) list" where
  "steps_of M code = map (\<lambda>j. case j of St n \<Rightarrow> ([], n) | Tr n \<Rightarrow> mc_trans M n) (remdups (code_gotos code))"

lemma next_step_in: "next_step M relaxed code c \<in> set (steps_of M code)"
proof -
  let ?j = "run_code relaxed (schar c) code"
  have "?j \<in> set (code_gotos code)" by (rule run_code_in)
  then show ?thesis by (auto simp: next_step_def steps_of_def intro!: rev_image_eqI [of ?j])
qed

text \<open>
  A run preserves what every step preserves: \<open>I p cs d\<close> holds where the run stops, if it holds where it starts, every step of
  the tables keeps it, and no action faults under it.
\<close>

lemma scan_invariant:
  assumes step: "\<And>p cs d code as n. I p cs d \<Longrightarrow> mc_state M cs = Some code \<Longrightarrow> (as, n) \<in> set (steps_of M code) \<Longrightarrow> p < N \<Longrightarrow>
        \<exists>d'. do_acts f as p d = Inr d' \<and> I (p + 1) n d'"
    and err: "\<And>p cs d. I p cs d \<Longrightarrow> I p 0 d"
    and start: "I p cs d" and len: "p + length rest \<le> N"
  shows "\<exists>p' cs' d'. scan M relaxed f rest p cs d = Inr (p', cs', d') \<and> p \<le> p' \<and> p' \<le> p + length rest \<and> I p' cs' d'"
  using start len
proof (induction rest arbitrary: p cs d)
  case Nil
  then show ?case by simp
next
  case (Cons c rest)
  show ?case
  proof (cases "mc_state M cs")
    case None
    then show ?thesis using Cons.prems by simp
  next
    case (Some code)
    obtain as n where s: "next_step M relaxed code c = (as, n)" by force
    with next_step_in [of M relaxed code c] have "(as, n) \<in> set (steps_of M code)" by simp
    then obtain d' where d': "do_acts f as p d = Inr d'" "I (p + 1) n d'"
      using step [OF Cons.prems(1) Some] Cons.prems(2) by auto
    show ?thesis
    proof (cases "as = [] \<and> n = 0")
      case True
      then show ?thesis using Some s err [OF Cons.prems(1)] by simp
    next
      case False
      then show ?thesis
        using Some s d' Cons.IH [OF d'(2)] Cons.prems(2) by (cases "Done \<in> set as") auto
    qed
  qed
qed

text \<open>The same with the character of the step at hand.\<close>

lemma scan_invariant_char:
  assumes step: "\<And>p cs d code as n. I p cs d \<Longrightarrow> mc_state M cs = Some code \<Longrightarrow> p < length buf \<Longrightarrow>
        next_step M relaxed code (buf ! p) = (as, n) \<Longrightarrow> \<not> (as = [] \<and> n = 0) \<Longrightarrow> \<exists>d'. do_acts f as p d = Inr d' \<and> I (p + 1) n d'"
    and err: "\<And>p cs d. I p cs d \<Longrightarrow> I p 0 d"
    and start: "I p cs d" and len: "p \<le> length buf"
  shows "\<exists>p' cs' d'. scan M relaxed f (drop p buf) p cs d = Inr (p', cs', d') \<and> p \<le> p' \<and> p' \<le> length buf \<and> I p' cs' d'"
  using start len
proof (induction "length buf - p" arbitrary: p cs d)
  case 0
  then show ?case by simp
next
  case (Suc k)
  then have p: "p < length buf" by simp
  then have buf: "drop p buf = buf ! p # drop (p + 1) buf" by (simp add: Cons_nth_drop_Suc)
  show ?case
  proof (cases "mc_state M cs")
    case None
    then show ?thesis using Suc.prems buf by simp
  next
    case (Some code)
    obtain as n where s: "next_step M relaxed code (buf ! p) = (as, n)" by force
    show ?thesis
    proof (cases "as = [] \<and> n = 0")
      case True
      then show ?thesis using Some s err [OF Suc.prems(1)] buf p by simp
    next
      case False
      then obtain d' where d': "do_acts f as p d = Inr d'" "I (p + 1) n d'"
        using step [OF Suc.prems(1) Some p s] by auto
      moreover obtain p' cs' d2 where "scan M relaxed f (drop (p + 1) buf) (p + 1) n d' = Inr (p', cs', d2)" "p + 1 \<le> p'" "p' \<le> length buf" "I p' cs' d2"
      proof -
        have "k = length buf - (p + 1)" using Suc.hyps(2) by simp
        then show ?thesis using Suc.hyps(1) [of "p + 1" n d'] d'(2) p that by auto
      qed
      ultimately show ?thesis using Some s False buf p by (cases "Done \<in> set as") auto
    qed
  qed
qed

section \<open>Following a run\<close>

definition moves :: "machine \<Rightarrow> bool \<Rightarrow> int \<Rightarrow> char \<Rightarrow> act list \<Rightarrow> int \<Rightarrow> bool" where
  "moves M relaxed s c as n \<longleftrightarrow>
     (case mc_state M s of None \<Rightarrow> False | Some code \<Rightarrow> next_step M relaxed code c = (as, n))"

lemma scan_step:
  assumes "moves M relaxed s c as n" and "n \<noteq> 0" and "Done \<notin> set as" and "do_acts f as p d = Inr d'"
  shows "scan M relaxed f (c # rest) p s d = scan M relaxed f rest (Suc p) n d'"
  using assms by (auto simp: moves_def split: option.splits)

lemma scan_done:
  assumes "moves M relaxed s c as n" and "Done \<in> set as" and "do_acts f as p d = Inr d'"
  shows "scan M relaxed f (c # rest) p s d = Inr (Suc p, n, d')"
  using assms by (auto simp: moves_def split: option.splits)

lemma scan_silent:
  assumes "moves M relaxed s c [] n" and "n \<noteq> 0"
  shows "scan M relaxed f (c # rest) p s d = scan M relaxed f rest (Suc p) n d"
  by (rule scan_step [OF assms]) simp_all

declare scan.simps(2) [simp del]

lemma scan_loop:
  assumes "\<forall>c\<in>set xs. moves M relaxed s c [] s" and "s \<noteq> 0"
  shows "scan M relaxed f (xs @ rest) p s d = scan M relaxed f rest (p + length xs) s d"
  using assms(1)
proof (induction xs arbitrary: p)
  case (Cons x xs)
  then show ?case using scan_silent [of M relaxed s x s f "xs @ rest" p d] assms(2) by simp
qed simp

text \<open>Text with \<open>%\<close> escapes, scanned by a state that leaves for two hexadecimal digits and comes back.\<close>

fun pct_text :: "string \<Rightarrow> string \<Rightarrow> bool" where
  "pct_text P [] \<longleftrightarrow> True"
| "pct_text P (c # cs) \<longleftrightarrow>
     (if c = CHR ''%'' then (case cs of a # b # r \<Rightarrow> a \<in> set ''0123456789abcdefABCDEF'' \<and> b \<in> set ''0123456789abcdefABCDEF'' \<and> pct_text P r | _ \<Rightarrow> False)
      else c \<in> set P \<and> pct_text P cs)"

definition pct_loop :: "machine \<Rightarrow> bool \<Rightarrow> string \<Rightarrow> int \<Rightarrow> int \<Rightarrow> int \<Rightarrow> bool" where
  "pct_loop M relaxed P s s1 s2 \<longleftrightarrow> s \<noteq> 0 \<and> s1 \<noteq> 0 \<and> s2 \<noteq> 0 \<and> (\<forall>c\<in>set P. c \<noteq> CHR ''%'' \<longrightarrow> moves M relaxed s c [] s) \<and>
     moves M relaxed s (CHR ''%'') [] s1 \<and>
     (\<forall>c\<in>set ''0123456789abcdefABCDEF''. moves M relaxed s1 c [] s2 \<and> moves M relaxed s2 c [] s)"

lemma pct_hex:
  assumes "pct_loop M relaxed P s s1 s2" and "a \<in> set ''0123456789abcdefABCDEF''" and "b \<in> set ''0123456789abcdefABCDEF''"
  shows "scan M relaxed f (a # b # rest) p s1 d = scan M relaxed f rest (Suc (Suc p)) s d"
proof -
  have m: "moves M relaxed s1 a [] s2" "s2 \<noteq> 0" "moves M relaxed s2 b [] s" "s \<noteq> 0"
    using assms unfolding pct_loop_def by blast+
  show ?thesis by (simp only: scan_silent [OF m(1,2)] scan_silent [OF m(3,4)])
qed

lemma scan_pct:
  assumes "pct_loop M relaxed P s s1 s2" and "pct_text P xs"
  shows "scan M relaxed f (xs @ rest) p s d = scan M relaxed f rest (p + length xs) s d"
  using assms
proof (induction P xs arbitrary: p rule: pct_text.induct)
  case (2 P c cs)
  show ?case
  proof (cases "c = CHR ''%''")
    case True
    then obtain a b r where r: "cs = a # b # r" "a \<in> set ''0123456789abcdefABCDEF''" "b \<in> set ''0123456789abcdefABCDEF''" "pct_text P r"
      using 2(4) by (auto split: list.splits)
    have m: "moves M relaxed s c [] s1" "s1 \<noteq> 0" using 2(3) True by (simp_all add: pct_loop_def)
    show ?thesis
      using 2(1) [OF True r(1) refl 2(3) r(4)] by (simp add: r(1) scan_silent [OF m] pct_hex [OF 2(3) r(2,3)])
  next
    case False
    then have m: "moves M relaxed s c [] s" "s \<noteq> 0" "pct_text P cs" using 2(3,4) by (auto simp: pct_loop_def)
    then show ?thesis using 2(2) [OF False 2(3)] by (simp add: scan_silent [OF m(1,2)])
  qed
qed simp

end
