(* ===== verification/Cool_RequestMachine.thy ===== *)
theory Cool_RequestMachine
  imports Cool_Scanner
begin

text \<open>
  The scanner of requests (src/http/http11_parser.rl.cpp, generated from src/http/http11_parser.rl), in the order of the code: every part has the
  labels of a stretch of it, states \<open>case n\<close> with their tests and transitions \<open>trn\<close> with their actions.
\<close>

definition req_part1 :: "jump \<Rightarrow> item" where
  "req_part1 j =
    (case j of
       St n \<Rightarrow>
         (if n \<le> 1
          then State (Plain [Switch [(60, Tr 2), (64, Tr 3)], Cond (Gt 57) [Cond (Within 65 90) [Goto (Tr 0)] []]
            [Cond (Ge 48) [Goto (Tr 0)] []]] (St 0))
          else if n \<le> 2
           then State (Plain [Cond (Eq 32) [Goto (Tr 4)] [], Cond (Gt 57) [Cond (Within 65 90) [Goto (St 175)] []]
             [Cond (Ge 48) [Goto (St 175)] []]] (St 0))
           else State (Wide [Switch [(32, Tr 6), (33, Tr 7), (35, Tr 8), (37, Tr 9), (47, Tr 10), (59, Tr 7),
             (61, Tr 7), (63, Tr 11), (64, Tr 7), (95, Tr 7), (126, Tr 7), (606, Tr 7), (635, Tr 7), (637, Tr 7)],
             Cond (Lt 65) [Cond (Within 36 57) [Goto (Tr 7)] []] [Cond (Gt 90) [Cond (Within 97 122) [Goto (Tr 12)]
             []] [Goto (Tr 12)]]] (St 0)))
     | Tr n \<Rightarrow>
         (if n \<le> 6
          then if n \<le> 0
           then Trans [Mark] 2
           else if n \<le> 4
            then Trans [Request_method] 3
            else Trans [Mark, Request_path, Request_uri] 4
          else if n \<le> 43
           then if n \<le> 37
            then Trans [Request_path, Request_uri] 4
            else Trans [Mark, Fragment] 4
           else if n \<le> 46
            then Trans [Fragment] 4
            else Trans [Start_query, Query_string, Request_uri] 4))"

definition req_part2 :: "jump \<Rightarrow> item" where
  "req_part2 j =
    (case j of
       St n \<Rightarrow>
         (if n \<le> 8
          then if n \<le> 5
           then if n \<le> 4
            then State (Plain [Cond (Eq 72) [Goto (Tr 13)] []] (St 0))
            else State (Plain [Cond (Eq 84) [Goto (St 6)] []] (St 0))
           else if n \<le> 6
            then State (Plain [Cond (Eq 84) [Goto (St 7)] []] (St 0))
            else if n \<le> 7
             then State (Plain [Cond (Eq 80) [Goto (St 8)] []] (St 0))
             else State (Plain [Cond (Eq 47) [Goto (St 9)] []] (St 0))
          else if n \<le> 10
           then if n \<le> 9
            then State (Plain [Cond (Eq 49) [Goto (St 10)] []] (St 0))
            else State (Plain [Cond (Eq 46) [Goto (St 11)] []] (St 0))
           else if n \<le> 11
            then State (Plain [Cond (Within 48 49) [Goto (St 12)] []] (St 0))
            else if n \<le> 12
             then State (Plain [Switch [(10, Tr 21), (13, Tr 22)]] (St 0))
             else State (Plain [Switch [(10, Tr 24), (13, Tr 25), (33, Tr 23), (124, Tr 23), (126, Tr 23)], Cond
               (Lt 42) [Cond (Lt 11) [Cond (Within 1 8) [Goto (Tr 23)] []] [Cond (Gt 31) [Cond (Within 35 39)
               [Goto (Tr 23)] []] [Goto (Tr 23)]]] [Cond (Gt 43) [Cond (Lt 48) [Cond (Within 45 46) [Goto (Tr 23)]
               []] [Cond (Gt 57) [Cond (Gt 90) [Cond (Within 94 122) [Goto (Tr 23)] []] [Cond (Ge 65) [Goto (Tr 23)]
               []]] [Goto (Tr 23)]]] [Goto (Tr 23)]]] (St 0)))
     | Tr n \<Rightarrow>
         (if n \<le> 23
          then if n \<le> 13
           then Trans [Mark] 5
           else if n \<le> 21
            then Trans [Http_version] 13
            else Trans [Start_field] 14
          else if n \<le> 30
           then Trans [Start_value, Write_value] 13
           else if n \<le> 33
            then Trans [Write_value] 13
            else Trans [Query_string, Request_uri] 4))"

definition req_part3 :: "jump \<Rightarrow> item" where
  "req_part3 j =
    (case j of
       St n \<Rightarrow>
         (if n \<le> 15
          then if n \<le> 14
           then State (Plain [Switch [(33, St 14), (58, Tr 27), (124, St 14), (126, St 14)], Cond (Lt 42) [Cond
             (Lt 10) [Cond (Within 1 8) [Goto (St 14)] []] [Cond (Gt 31) [Cond (Within 35 39) [Goto (St 14)] []]
             [Goto (St 14)]]] [Cond (Gt 43) [Cond (Lt 48) [Cond (Within 45 46) [Goto (St 14)] []] [Cond (Gt 57) [Cond
             (Gt 90) [Cond (Within 94 122) [Goto (St 14)] []] [Cond (Ge 65) [Goto (St 14)] []]] [Goto (St 14)]]]
             [Goto (St 14)]]] (St 0))
           else State (Plain [Switch [(0, St 0), (9, Tr 29), (10, Tr 30), (13, Tr 31), (32, Tr 29), (127, St 0)]] (Tr
             28))
          else if n \<le> 16
           then State (Plain [Switch [(0, St 0), (10, Tr 33), (13, Tr 34), (127, St 0)]] (St 16))
           else State (Plain [Cond (Eq 10) [Goto (St 13)] []] (St 0)))
     | Tr n \<Rightarrow>
         (if n \<le> 28
          then if n \<le> 24
           then if n \<le> 22
            then Trans [Http_version] 17
            else Trans [Start_field, Done] 348
           else if n \<le> 27
            then Trans [Write_field] 15
            else Trans [Start_value] 16
          else if n \<le> 31
           then if n \<le> 29
            then Trans [Start_value] 15
            else Trans [Start_value, Write_value] 17
           else if n \<le> 34
            then Trans [Write_value] 17
            else Trans [Done] 348))"

definition req_part4 :: "jump \<Rightarrow> item" where
  "req_part4 j =
    (case j of
       St n \<Rightarrow>
         (if n \<le> 18
          then State (Plain [Switch [(10, Tr 36), (33, St 14), (58, Tr 27), (124, St 14), (126, St 14)], Cond (Lt 42)
            [Cond (Lt 11) [Cond (Within 1 8) [Goto (St 14)] []] [Cond (Gt 31) [Cond (Within 35 39) [Goto (St 14)] []]
            [Goto (St 14)]]] [Cond (Gt 43) [Cond (Lt 48) [Cond (Within 45 46) [Goto (St 14)] []] [Cond (Gt 57) [Cond
            (Gt 90) [Cond (Within 94 122) [Goto (St 14)] []] [Cond (Ge 65) [Goto (St 14)] []]] [Goto (St 14)]]]
            [Goto (St 14)]]] (St 0))
          else if n \<le> 19
           then State (Wide [Switch [(32, Tr 37), (33, St 19), (35, Tr 39), (37, St 24), (47, St 26), (59, St 19),
             (61, St 19), (63, Tr 42), (95, St 19), (126, St 19), (606, St 19), (635, St 19), (637, St 19)], Cond
             (Lt 64) [Cond (Within 36 57) [Goto (St 19)] []] [Cond (Gt 90) [Cond (Within 97 122) [Goto (St 19)] []]
             [Goto (St 19)]]] (St 0))
           else State (Plain [Switch [(33, St 14), (58, Tr 27), (124, St 14), (126, St 14)], Cond (Lt 42) [Cond
             (Lt 10) [Cond (Within 1 8) [Goto (St 14)] []] [Cond (Gt 31) [Cond (Within 35 39) [Goto (St 14)] []]
             [Goto (St 14)]]] [Cond (Gt 43) [Cond (Lt 48) [Cond (Within 45 46) [Goto (St 14)] []] [Cond (Gt 57) [Cond
             (Gt 90) [Cond (Within 94 122) [Goto (St 14)] []] [Cond (Ge 65) [Goto (St 14)] []]] [Goto (St 14)]]]
             [Goto (St 14)]]] (St 0)))
     | Tr n \<Rightarrow>
         (if n \<le> 7
          then Trans [Mark] 19
          else if n \<le> 8
           then Trans [Mark, Request_path, Request_uri] 20
           else Trans [Start_field] 18))"

definition req_part5 :: "jump \<Rightarrow> item" where
  "req_part5 j =
    (case j of
       St n \<Rightarrow>
         (if n \<le> 20
          then State (Wide [Switch [(32, Tr 43), (33, Tr 44), (37, Tr 45), (61, Tr 44), (95, Tr 44), (126, Tr 44),
            (606, Tr 44), (635, Tr 44), (637, Tr 44)], Cond (Lt 63) [Cond (Within 36 59) [Goto (Tr 44)] []] [Cond
            (Gt 90) [Cond (Within 97 122) [Goto (Tr 44)] []] [Goto (Tr 44)]]] (St 0))
          else State (Wide [Switch [(32, Tr 46), (33, St 21), (37, St 22), (61, St 21), (95, St 21), (126, St 21),
            (606, St 21), (635, St 21), (637, St 21)], Cond (Lt 63) [Cond (Within 36 59) [Goto (St 21)] []] [Cond
            (Gt 90) [Cond (Within 97 122) [Goto (St 21)] []] [Goto (St 21)]]] (St 0)))
     | Tr n \<Rightarrow>
         (if n \<le> 44
          then if n \<le> 39
           then Trans [Request_path, Request_uri] 20
           else Trans [Mark] 21
          else if n \<le> 45
           then Trans [Mark] 22
           else if n \<le> 55
            then Trans [Start_query, Query_string, Request_uri] 20
            else Trans [Query_string, Request_uri] 20))"

definition req_part6 :: "jump \<Rightarrow> item" where
  "req_part6 j =
    (case j of
       St n \<Rightarrow>
         (if n \<le> 24
          then if n \<le> 22
           then State (Plain [Cond (Lt 65) [Cond (Within 48 57) [Goto (St 23)] []] [Cond (Gt 70) [Cond
             (Within 97 102) [Goto (St 23)] []] [Goto (St 23)]]] (St 0))
           else if n \<le> 23
            then State (Plain [Cond (Lt 65) [Cond (Within 48 57) [Goto (St 21)] []] [Cond (Gt 70) [Cond
              (Within 97 102) [Goto (St 21)] []] [Goto (St 21)]]] (St 0))
            else State (Plain [Cond (Lt 65) [Cond (Within 48 57) [Goto (St 25)] []] [Cond (Gt 70) [Cond
              (Within 97 102) [Goto (St 25)] []] [Goto (St 25)]]] (St 0))
          else if n \<le> 26
           then if n \<le> 25
            then State (Plain [Cond (Lt 65) [Cond (Within 48 57) [Goto (St 19)] []] [Cond (Gt 70) [Cond
              (Within 97 102) [Goto (St 19)] []] [Goto (St 19)]]] (St 0))
            else State (Wide [Switch [(32, Tr 37), (33, St 26), (35, Tr 39), (37, St 27), (61, St 26), (63, Tr 42),
              (95, St 26), (126, St 26), (606, St 26), (635, St 26), (637, St 26)], Cond (Lt 64) [Cond (Within 36 59)
              [Goto (St 26)] []] [Cond (Gt 90) [Cond (Within 97 122) [Goto (St 26)] []] [Goto (St 26)]]] (St 0))
           else if n \<le> 27
            then State (Plain [Cond (Lt 65) [Cond (Within 48 57) [Goto (St 28)] []] [Cond (Gt 70) [Cond
              (Within 97 102) [Goto (St 28)] []] [Goto (St 28)]]] (St 0))
            else State (Plain [Cond (Lt 65) [Cond (Within 48 57) [Goto (St 26)] []] [Cond (Gt 70) [Cond
              (Within 97 102) [Goto (St 26)] []] [Goto (St 26)]]] (St 0)))
     | Tr n \<Rightarrow>
         (if n \<le> 11
          then if n \<le> 9
           then Trans [Mark] 24
           else Trans [Mark, Request_path] 29
          else if n \<le> 203
           then Trans [Mark] 26
           else Trans [Mark] 27))"

definition req_part7 :: "jump \<Rightarrow> item" where
  "req_part7 j =
    (case j of
       St n \<Rightarrow>
         (if n \<le> 30
          then if n \<le> 29
           then State (Wide [Switch [(32, Tr 53), (33, Tr 54), (35, Tr 55), (37, Tr 56), (61, Tr 54), (95, Tr 54),
             (126, Tr 54), (606, Tr 54), (635, Tr 54), (637, Tr 54)], Cond (Lt 63) [Cond (Within 36 59)
             [Goto (Tr 54)] []] [Cond (Gt 90) [Cond (Within 97 122) [Goto (Tr 54)] []] [Goto (Tr 54)]]] (St 0))
           else State (Wide [Switch [(32, Tr 57), (33, St 30), (35, Tr 59), (37, St 31), (61, St 30), (95, St 30),
             (126, St 30), (606, St 30), (635, St 30), (637, St 30)], Cond (Lt 63) [Cond (Within 36 59)
             [Goto (St 30)] []] [Cond (Gt 90) [Cond (Within 97 122) [Goto (St 30)] []] [Goto (St 30)]]] (St 0))
          else if n \<le> 31
           then State (Plain [Cond (Lt 65) [Cond (Within 48 57) [Goto (St 32)] []] [Cond (Gt 70) [Cond
             (Within 97 102) [Goto (St 32)] []] [Goto (St 32)]]] (St 0))
           else State (Plain [Cond (Lt 65) [Cond (Within 48 57) [Goto (St 30)] []] [Cond (Gt 70) [Cond
             (Within 97 102) [Goto (St 30)] []] [Goto (St 30)]]] (St 0)))
     | Tr n \<Rightarrow>
         (if n \<le> 42
          then if n \<le> 10
           then Trans [Mark] 33
           else Trans [Request_path] 29
          else if n \<le> 54
           then Trans [Start_query] 30
           else Trans [Start_query] 31))"

definition req_part8 :: "jump \<Rightarrow> item" where
  "req_part8 j =
    (case j of
       St n \<Rightarrow>
         (if n \<le> 33
          then State (Wide [Switch [(32, Tr 37), (33, St 26), (35, Tr 39), (37, St 27), (47, St 34), (61, St 26),
            (63, Tr 42), (95, St 26), (126, St 26), (606, St 26), (635, St 26), (637, St 26)], Cond (Lt 64) [Cond
            (Within 36 59) [Goto (St 26)] []] [Cond (Gt 90) [Cond (Within 97 122) [Goto (St 26)] []] [Goto (St 26)]]]
            (St 0))
          else if n \<le> 34
           then State (Wide [Switch [(32, Tr 37), (33, St 35), (35, Tr 39), (37, St 36), (47, St 26), (58, St 38),
             (61, St 35), (63, Tr 42), (64, St 42), (91, St 47), (95, St 35), (126, St 35), (606, St 35),
             (635, St 35), (637, St 35)], Cond (Lt 65) [Cond (Within 36 59) [Goto (St 35)] []] [Cond (Gt 90) [Cond
             (Within 97 122) [Goto (St 35)] []] [Goto (St 35)]]] (St 0))
           else State (Wide [Switch [(32, Tr 37), (33, St 35), (35, Tr 39), (37, St 36), (47, St 26), (58, St 38),
             (61, St 35), (63, Tr 42), (64, St 42), (95, St 35), (126, St 35), (606, St 35), (635, St 35),
             (637, St 35)], Cond (Lt 65) [Cond (Within 36 59) [Goto (St 35)] []] [Cond (Gt 90) [Cond (Within 97 122)
             [Goto (St 35)] []] [Goto (St 35)]]] (St 0)))
     | Tr n \<Rightarrow>
         (Trans [] 0))"

definition req_part9 :: "jump \<Rightarrow> item" where
  "req_part9 j =
    (case j of
       St n \<Rightarrow>
         (if n \<le> 37
          then if n \<le> 36
           then State (Plain [Cond (Lt 65) [Cond (Within 48 57) [Goto (St 37)] []] [Cond (Gt 70) [Cond
             (Within 97 102) [Goto (St 37)] []] [Goto (St 37)]]] (St 0))
           else State (Plain [Cond (Lt 65) [Cond (Within 48 57) [Goto (St 35)] []] [Cond (Gt 70) [Cond
             (Within 97 102) [Goto (St 35)] []] [Goto (St 35)]]] (St 0))
          else if n \<le> 38
           then State (Wide [Switch [(32, Tr 37), (33, St 39), (35, Tr 39), (37, St 40), (47, St 26), (61, St 39),
             (63, Tr 42), (64, St 42), (95, St 39), (126, St 39), (606, St 39), (635, St 39), (637, St 39)], Cond
             (Lt 58) [Cond (Gt 46) [Cond (Within 48 57) [Goto (St 38)] []] [Cond (Ge 36) [Goto (St 39)] []]] [Cond
             (Gt 59) [Cond (Gt 90) [Cond (Within 97 122) [Goto (St 39)] []] [Cond (Ge 65) [Goto (St 39)] []]]
             [Goto (St 39)]]] (St 0))
           else if n \<le> 39
            then State (Wide [Switch [(33, St 39), (37, St 40), (61, St 39), (64, St 42), (95, St 39), (126, St 39),
              (606, St 39), (635, St 39), (637, St 39)], Cond (Lt 48) [Cond (Within 36 46) [Goto (St 39)] []] [Cond
              (Gt 59) [Cond (Gt 90) [Cond (Within 97 122) [Goto (St 39)] []] [Cond (Ge 65) [Goto (St 39)] []]]
              [Goto (St 39)]]] (St 0))
            else State (Plain [Cond (Lt 65) [Cond (Within 48 57) [Goto (St 41)] []] [Cond (Gt 70) [Cond
              (Within 97 102) [Goto (St 41)] []] [Goto (St 41)]]] (St 0)))
     | Tr n \<Rightarrow>
         (Trans [] 0))"

definition req_part10 :: "jump \<Rightarrow> item" where
  "req_part10 j =
    (case j of
       St n \<Rightarrow>
         (if n \<le> 43
          then if n \<le> 41
           then State (Plain [Cond (Lt 65) [Cond (Within 48 57) [Goto (St 39)] []] [Cond (Gt 70) [Cond
             (Within 97 102) [Goto (St 39)] []] [Goto (St 39)]]] (St 0))
           else if n \<le> 42
            then State (Wide [Switch [(32, Tr 37), (33, St 43), (35, Tr 39), (37, St 44), (47, St 26), (58, St 46),
              (61, St 43), (63, Tr 42), (91, St 47), (95, St 43), (126, St 43), (606, St 43), (635, St 43),
              (637, St 43)], Cond (Lt 65) [Cond (Within 36 59) [Goto (St 43)] []] [Cond (Gt 90) [Cond (Within 97 122)
              [Goto (St 43)] []] [Goto (St 43)]]] (St 0))
            else State (Wide [Switch [(32, Tr 37), (33, St 43), (35, Tr 39), (37, St 44), (47, St 26), (58, St 46),
              (61, St 43), (63, Tr 42), (95, St 43), (126, St 43), (606, St 43), (635, St 43), (637, St 43)], Cond
              (Lt 65) [Cond (Within 36 59) [Goto (St 43)] []] [Cond (Gt 90) [Cond (Within 97 122) [Goto (St 43)] []]
              [Goto (St 43)]]] (St 0))
          else if n \<le> 44
           then State (Plain [Cond (Lt 65) [Cond (Within 48 57) [Goto (St 45)] []] [Cond (Gt 70) [Cond
             (Within 97 102) [Goto (St 45)] []] [Goto (St 45)]]] (St 0))
           else if n \<le> 45
            then State (Plain [Cond (Lt 65) [Cond (Within 48 57) [Goto (St 43)] []] [Cond (Gt 70) [Cond
              (Within 97 102) [Goto (St 43)] []] [Goto (St 43)]]] (St 0))
            else State (Plain [Switch [(32, Tr 37), (35, Tr 39), (47, St 26), (63, Tr 42)], Cond (Within 48 57)
              [Goto (St 46)] []] (St 0)))
     | Tr n \<Rightarrow>
         (Trans [] 0))"

definition req_part11 :: "jump \<Rightarrow> item" where
  "req_part11 j =
    (case j of
       St n \<Rightarrow>
         (if n \<le> 52
          then if n \<le> 49
           then if n \<le> 47
            then State (Plain [Switch [(6, St 48), (58, St 167), (118, St 169)], Cond (Lt 65) [Cond (Within 48 57)
              [Goto (St 91)] []] [Cond (Gt 70) [Cond (Within 97 102) [Goto (St 91)] []] [Goto (St 91)]]] (St 0))
            else if n \<le> 48
             then State (Plain [Cond (Lt 65) [Cond (Within 48 57) [Goto (St 49)] []] [Cond (Gt 70) [Cond
               (Within 97 102) [Goto (St 49)] []] [Goto (St 49)]]] (St 0))
             else State (Plain [Cond (Eq 58) [Goto (St 53)] [], Cond (Lt 65) [Cond (Within 48 57) [Goto (St 50)] []]
               [Cond (Gt 70) [Cond (Within 97 102) [Goto (St 50)] []] [Goto (St 50)]]] (St 0))
           else if n \<le> 50
            then State (Plain [Cond (Eq 58) [Goto (St 53)] [], Cond (Lt 65) [Cond (Within 48 57) [Goto (St 51)] []]
              [Cond (Gt 70) [Cond (Within 97 102) [Goto (St 51)] []] [Goto (St 51)]]] (St 0))
            else if n \<le> 51
             then State (Plain [Cond (Eq 58) [Goto (St 53)] [], Cond (Lt 65) [Cond (Within 48 57) [Goto (St 52)] []]
               [Cond (Gt 70) [Cond (Within 97 102) [Goto (St 52)] []] [Goto (St 52)]]] (St 0))
             else State (Plain [Cond (Eq 58) [Goto (St 53)] []] (St 0))
          else if n \<le> 55
           then if n \<le> 53
            then State (Plain [Switch [(49, St 84), (50, St 87)], Cond (Lt 65) [Cond (Within 48 57) [Goto (St 54)]
              []] [Cond (Gt 70) [Cond (Within 97 102) [Goto (St 90)] []] [Goto (St 90)]]] (St 0))
            else if n \<le> 54
             then State (Plain [Switch [(46, St 55), (58, St 80)], Cond (Lt 65) [Cond (Within 48 57) [Goto (St 77)]
               []] [Cond (Gt 70) [Cond (Within 97 102) [Goto (St 77)] []] [Goto (St 77)]]] (St 0))
             else State (Plain [Switch [(49, St 72), (50, St 74)], Cond (Within 48 57) [Goto (St 56)] []] (St 0))
           else if n \<le> 56
            then State (Plain [Cond (Eq 46) [Goto (St 57)] []] (St 0))
            else if n \<le> 57
             then State (Plain [Switch [(49, St 67), (50, St 69)], Cond (Within 48 57) [Goto (St 58)] []] (St 0))
             else State (Plain [Cond (Eq 46) [Goto (St 59)] []] (St 0)))
     | Tr n \<Rightarrow>
         (Trans [] 0))"

definition req_part12 :: "jump \<Rightarrow> item" where
  "req_part12 j =
    (case j of
       St n \<Rightarrow>
         (if n \<le> 66
          then if n \<le> 62
           then if n \<le> 60
            then if n \<le> 59
             then State (Plain [Switch [(49, St 62), (50, St 64)], Cond (Within 48 57) [Goto (St 60)] []] (St 0))
             else State (Plain [Cond (Eq 93) [Goto (St 61)] []] (St 0))
            else if n \<le> 61
             then State (Plain [Switch [(32, Tr 37), (35, Tr 39), (47, St 26), (58, St 46), (63, Tr 42)]] (St 0))
             else State (Plain [Cond (Eq 93) [Goto (St 61)] [], Cond (Within 48 57) [Goto (St 63)] []] (St 0))
           else if n \<le> 64
            then if n \<le> 63
             then State (Plain [Cond (Eq 93) [Goto (St 61)] [], Cond (Within 48 57) [Goto (St 60)] []] (St 0))
             else State (Plain [Switch [(48, St 65), (53, St 66), (93, St 61)]] (St 0))
            else if n \<le> 65
             then State (Plain [Cond (Within 48 57) [Goto (St 60)] []] (St 0))
             else State (Plain [Cond (Eq 48) [Goto (St 60)] []] (St 0))
          else if n \<le> 70
           then if n \<le> 68
            then if n \<le> 67
             then State (Plain [Cond (Eq 46) [Goto (St 59)] [], Cond (Within 48 57) [Goto (St 68)] []] (St 0))
             else State (Plain [Cond (Eq 46) [Goto (St 59)] [], Cond (Within 48 57) [Goto (St 58)] []] (St 0))
            else if n \<le> 69
             then State (Plain [Switch [(46, St 59), (48, St 70), (53, St 71)]] (St 0))
             else State (Plain [Cond (Within 48 57) [Goto (St 58)] []] (St 0))
           else if n \<le> 72
            then if n \<le> 71
             then State (Plain [Cond (Eq 48) [Goto (St 58)] []] (St 0))
             else State (Plain [Cond (Eq 46) [Goto (St 57)] [], Cond (Within 48 57) [Goto (St 73)] []] (St 0))
            else if n \<le> 73
             then State (Plain [Cond (Eq 46) [Goto (St 57)] [], Cond (Within 48 57) [Goto (St 56)] []] (St 0))
             else if n \<le> 74
              then State (Plain [Switch [(46, St 57), (48, St 75), (53, St 76)]] (St 0))
              else State (Plain [Cond (Within 48 57) [Goto (St 56)] []] (St 0)))
     | Tr n \<Rightarrow>
         (Trans [] 0))"

definition req_part13 :: "jump \<Rightarrow> item" where
  "req_part13 j =
    (case j of
       St n \<Rightarrow>
         (if n \<le> 80
          then if n \<le> 77
           then if n \<le> 76
            then State (Plain [Cond (Eq 48) [Goto (St 56)] []] (St 0))
            else State (Plain [Cond (Eq 58) [Goto (St 80)] [], Cond (Lt 65) [Cond (Within 48 57) [Goto (St 78)] []]
              [Cond (Gt 70) [Cond (Within 97 102) [Goto (St 78)] []] [Goto (St 78)]]] (St 0))
           else if n \<le> 78
            then State (Plain [Cond (Eq 58) [Goto (St 80)] [], Cond (Lt 65) [Cond (Within 48 57) [Goto (St 79)] []]
              [Cond (Gt 70) [Cond (Within 97 102) [Goto (St 79)] []] [Goto (St 79)]]] (St 0))
            else if n \<le> 79
             then State (Plain [Cond (Eq 58) [Goto (St 80)] []] (St 0))
             else State (Plain [Cond (Lt 65) [Cond (Within 48 57) [Goto (St 81)] []] [Cond (Gt 70) [Cond
               (Within 97 102) [Goto (St 81)] []] [Goto (St 81)]]] (St 0))
          else if n \<le> 83
           then if n \<le> 81
            then State (Plain [Cond (Eq 93) [Goto (St 61)] [], Cond (Lt 65) [Cond (Within 48 57) [Goto (St 82)] []]
              [Cond (Gt 70) [Cond (Within 97 102) [Goto (St 82)] []] [Goto (St 82)]]] (St 0))
            else if n \<le> 82
             then State (Plain [Cond (Eq 93) [Goto (St 61)] [], Cond (Lt 65) [Cond (Within 48 57) [Goto (St 83)] []]
               [Cond (Gt 70) [Cond (Within 97 102) [Goto (St 83)] []] [Goto (St 83)]]] (St 0))
             else State (Plain [Cond (Eq 93) [Goto (St 61)] [], Cond (Lt 65) [Cond (Within 48 57) [Goto (St 60)] []]
               [Cond (Gt 70) [Cond (Within 97 102) [Goto (St 60)] []] [Goto (St 60)]]] (St 0))
           else if n \<le> 84
            then State (Plain [Switch [(46, St 55), (58, St 80)], Cond (Lt 65) [Cond (Within 48 57) [Goto (St 85)]
              []] [Cond (Gt 70) [Cond (Within 97 102) [Goto (St 77)] []] [Goto (St 77)]]] (St 0))
            else if n \<le> 85
             then State (Plain [Switch [(46, St 55), (58, St 80)], Cond (Lt 65) [Cond (Within 48 57) [Goto (St 86)]
               []] [Cond (Gt 70) [Cond (Within 97 102) [Goto (St 78)] []] [Goto (St 78)]]] (St 0))
             else State (Plain [Switch [(46, St 55), (58, St 80)], Cond (Lt 65) [Cond (Within 48 57) [Goto (St 79)]
               []] [Cond (Gt 70) [Cond (Within 97 102) [Goto (St 79)] []] [Goto (St 79)]]] (St 0)))
     | Tr n \<Rightarrow>
         (Trans [] 0))"

definition req_part14 :: "jump \<Rightarrow> item" where
  "req_part14 j =
    (case j of
       St n \<Rightarrow>
         (if n \<le> 91
          then if n \<le> 88
           then if n \<le> 87
            then State (Plain [Switch [(46, St 55), (48, St 88), (53, St 89), (58, St 80)], Cond (Lt 65) [Cond
              (Within 49 57) [Goto (St 77)] []] [Cond (Gt 70) [Cond (Within 97 102) [Goto (St 77)] []]
              [Goto (St 77)]]] (St 0))
            else State (Plain [Cond (Eq 58) [Goto (St 80)] [], Cond (Lt 65) [Cond (Within 48 57) [Goto (St 86)] []]
              [Cond (Gt 70) [Cond (Within 97 102) [Goto (St 78)] []] [Goto (St 78)]]] (St 0))
           else if n \<le> 89
            then State (Plain [Switch [(48, St 86), (58, St 80)], Cond (Lt 65) [Cond (Within 49 57) [Goto (St 78)]
              []] [Cond (Gt 70) [Cond (Within 97 102) [Goto (St 78)] []] [Goto (St 78)]]] (St 0))
            else if n \<le> 90
             then State (Plain [Cond (Eq 58) [Goto (St 80)] [], Cond (Lt 65) [Cond (Within 48 57) [Goto (St 77)] []]
               [Cond (Gt 70) [Cond (Within 97 102) [Goto (St 77)] []] [Goto (St 77)]]] (St 0))
             else State (Plain [Cond (Eq 58) [Goto (St 95)] [], Cond (Lt 65) [Cond (Within 48 57) [Goto (St 92)] []]
               [Cond (Gt 70) [Cond (Within 97 102) [Goto (St 92)] []] [Goto (St 92)]]] (St 0))
          else if n \<le> 93
           then if n \<le> 92
            then State (Plain [Cond (Eq 58) [Goto (St 95)] [], Cond (Lt 65) [Cond (Within 48 57) [Goto (St 93)] []]
              [Cond (Gt 70) [Cond (Within 97 102) [Goto (St 93)] []] [Goto (St 93)]]] (St 0))
            else State (Plain [Cond (Eq 58) [Goto (St 95)] [], Cond (Lt 65) [Cond (Within 48 57) [Goto (St 94)] []]
              [Cond (Gt 70) [Cond (Within 97 102) [Goto (St 94)] []] [Goto (St 94)]]] (St 0))
           else if n \<le> 94
            then State (Plain [Cond (Eq 58) [Goto (St 95)] []] (St 0))
            else if n \<le> 95
             then State (Plain [Cond (Eq 58) [Goto (St 166)] [], Cond (Lt 65) [Cond (Within 48 57) [Goto (St 96)] []]
               [Cond (Gt 70) [Cond (Within 97 102) [Goto (St 96)] []] [Goto (St 96)]]] (St 0))
             else State (Plain [Cond (Eq 58) [Goto (St 100)] [], Cond (Lt 65) [Cond (Within 48 57) [Goto (St 97)] []]
               [Cond (Gt 70) [Cond (Within 97 102) [Goto (St 97)] []] [Goto (St 97)]]] (St 0)))
     | Tr n \<Rightarrow>
         (Trans [] 0))"

definition req_part15 :: "jump \<Rightarrow> item" where
  "req_part15 j =
    (case j of
       St n \<Rightarrow>
         (if n \<le> 101
          then if n \<le> 98
           then if n \<le> 97
            then State (Plain [Cond (Eq 58) [Goto (St 100)] [], Cond (Lt 65) [Cond (Within 48 57) [Goto (St 98)] []]
              [Cond (Gt 70) [Cond (Within 97 102) [Goto (St 98)] []] [Goto (St 98)]]] (St 0))
            else State (Plain [Cond (Eq 58) [Goto (St 100)] [], Cond (Lt 65) [Cond (Within 48 57) [Goto (St 99)] []]
              [Cond (Gt 70) [Cond (Within 97 102) [Goto (St 99)] []] [Goto (St 99)]]] (St 0))
           else if n \<le> 99
            then State (Plain [Cond (Eq 58) [Goto (St 100)] []] (St 0))
            else if n \<le> 100
             then State (Plain [Cond (Eq 58) [Goto (St 165)] [], Cond (Lt 65) [Cond (Within 48 57) [Goto (St 101)]
               []] [Cond (Gt 70) [Cond (Within 97 102) [Goto (St 101)] []] [Goto (St 101)]]] (St 0))
             else State (Plain [Cond (Eq 58) [Goto (St 105)] [], Cond (Lt 65) [Cond (Within 48 57) [Goto (St 102)]
               []] [Cond (Gt 70) [Cond (Within 97 102) [Goto (St 102)] []] [Goto (St 102)]]] (St 0))
          else if n \<le> 104
           then if n \<le> 102
            then State (Plain [Cond (Eq 58) [Goto (St 105)] [], Cond (Lt 65) [Cond (Within 48 57) [Goto (St 103)] []]
              [Cond (Gt 70) [Cond (Within 97 102) [Goto (St 103)] []] [Goto (St 103)]]] (St 0))
            else if n \<le> 103
             then State (Plain [Cond (Eq 58) [Goto (St 105)] [], Cond (Lt 65) [Cond (Within 48 57) [Goto (St 104)]
               []] [Cond (Gt 70) [Cond (Within 97 102) [Goto (St 104)] []] [Goto (St 104)]]] (St 0))
             else State (Plain [Cond (Eq 58) [Goto (St 105)] []] (St 0))
           else if n \<le> 105
            then State (Plain [Cond (Eq 58) [Goto (St 164)] [], Cond (Lt 65) [Cond (Within 48 57) [Goto (St 106)] []]
              [Cond (Gt 70) [Cond (Within 97 102) [Goto (St 106)] []] [Goto (St 106)]]] (St 0))
            else if n \<le> 106
             then State (Plain [Cond (Eq 58) [Goto (St 110)] [], Cond (Lt 65) [Cond (Within 48 57) [Goto (St 107)]
               []] [Cond (Gt 70) [Cond (Within 97 102) [Goto (St 107)] []] [Goto (St 107)]]] (St 0))
             else State (Plain [Cond (Eq 58) [Goto (St 110)] [], Cond (Lt 65) [Cond (Within 48 57) [Goto (St 108)]
               []] [Cond (Gt 70) [Cond (Within 97 102) [Goto (St 108)] []] [Goto (St 108)]]] (St 0)))
     | Tr n \<Rightarrow>
         (Trans [] 0))"

definition req_part16 :: "jump \<Rightarrow> item" where
  "req_part16 j =
    (case j of
       St n \<Rightarrow>
         (if n \<le> 112
          then if n \<le> 109
           then if n \<le> 108
            then State (Plain [Cond (Eq 58) [Goto (St 110)] [], Cond (Lt 65) [Cond (Within 48 57) [Goto (St 109)] []]
              [Cond (Gt 70) [Cond (Within 97 102) [Goto (St 109)] []] [Goto (St 109)]]] (St 0))
            else State (Plain [Cond (Eq 58) [Goto (St 110)] []] (St 0))
           else if n \<le> 110
            then State (Plain [Cond (Eq 58) [Goto (St 163)] [], Cond (Lt 65) [Cond (Within 48 57) [Goto (St 111)] []]
              [Cond (Gt 70) [Cond (Within 97 102) [Goto (St 111)] []] [Goto (St 111)]]] (St 0))
            else if n \<le> 111
             then State (Plain [Cond (Eq 58) [Goto (St 115)] [], Cond (Lt 65) [Cond (Within 48 57) [Goto (St 112)]
               []] [Cond (Gt 70) [Cond (Within 97 102) [Goto (St 112)] []] [Goto (St 112)]]] (St 0))
             else State (Plain [Cond (Eq 58) [Goto (St 115)] [], Cond (Lt 65) [Cond (Within 48 57) [Goto (St 113)]
               []] [Cond (Gt 70) [Cond (Within 97 102) [Goto (St 113)] []] [Goto (St 113)]]] (St 0))
          else if n \<le> 115
           then if n \<le> 113
            then State (Plain [Cond (Eq 58) [Goto (St 115)] [], Cond (Lt 65) [Cond (Within 48 57) [Goto (St 114)] []]
              [Cond (Gt 70) [Cond (Within 97 102) [Goto (St 114)] []] [Goto (St 114)]]] (St 0))
            else if n \<le> 114
             then State (Plain [Cond (Eq 58) [Goto (St 115)] []] (St 0))
             else State (Plain [Cond (Eq 58) [Goto (St 151)] [], Cond (Lt 65) [Cond (Within 48 57) [Goto (St 116)]
               []] [Cond (Gt 70) [Cond (Within 97 102) [Goto (St 116)] []] [Goto (St 116)]]] (St 0))
           else if n \<le> 116
            then State (Plain [Cond (Eq 58) [Goto (St 120)] [], Cond (Lt 65) [Cond (Within 48 57) [Goto (St 117)] []]
              [Cond (Gt 70) [Cond (Within 97 102) [Goto (St 117)] []] [Goto (St 117)]]] (St 0))
            else if n \<le> 117
             then State (Plain [Cond (Eq 58) [Goto (St 120)] [], Cond (Lt 65) [Cond (Within 48 57) [Goto (St 118)]
               []] [Cond (Gt 70) [Cond (Within 97 102) [Goto (St 118)] []] [Goto (St 118)]]] (St 0))
             else State (Plain [Cond (Eq 58) [Goto (St 120)] [], Cond (Lt 65) [Cond (Within 48 57) [Goto (St 119)]
               []] [Cond (Gt 70) [Cond (Within 97 102) [Goto (St 119)] []] [Goto (St 119)]]] (St 0)))
     | Tr n \<Rightarrow>
         (Trans [] 0))"

definition req_part17 :: "jump \<Rightarrow> item" where
  "req_part17 j =
    (case j of
       St n \<Rightarrow>
         (if n \<le> 123
          then if n \<le> 120
           then if n \<le> 119
            then State (Plain [Cond (Eq 58) [Goto (St 120)] []] (St 0))
            else State (Plain [Cond (Eq 58) [Goto (St 150)] [], Cond (Lt 65) [Cond (Within 48 57) [Goto (St 121)] []]
              [Cond (Gt 70) [Cond (Within 97 102) [Goto (St 121)] []] [Goto (St 121)]]] (St 0))
           else if n \<le> 121
            then State (Plain [Cond (Eq 58) [Goto (St 125)] [], Cond (Lt 65) [Cond (Within 48 57) [Goto (St 122)] []]
              [Cond (Gt 70) [Cond (Within 97 102) [Goto (St 122)] []] [Goto (St 122)]]] (St 0))
            else if n \<le> 122
             then State (Plain [Cond (Eq 58) [Goto (St 125)] [], Cond (Lt 65) [Cond (Within 48 57) [Goto (St 123)]
               []] [Cond (Gt 70) [Cond (Within 97 102) [Goto (St 123)] []] [Goto (St 123)]]] (St 0))
             else State (Plain [Cond (Eq 58) [Goto (St 125)] [], Cond (Lt 65) [Cond (Within 48 57) [Goto (St 124)]
               []] [Cond (Gt 70) [Cond (Within 97 102) [Goto (St 124)] []] [Goto (St 124)]]] (St 0))
          else if n \<le> 125
           then if n \<le> 124
            then State (Plain [Cond (Eq 58) [Goto (St 125)] []] (St 0))
            else State (Plain [Cond (Eq 58) [Goto (St 126)] [], Cond (Lt 65) [Cond (Within 48 57) [Goto (St 121)] []]
              [Cond (Gt 70) [Cond (Within 97 102) [Goto (St 121)] []] [Goto (St 121)]]] (St 0))
           else if n \<le> 126
            then State (Plain [Switch [(49, St 143), (50, St 146), (93, St 61)], Cond (Lt 48) [Cond (Within 2 3)
              [Goto (St 48)] []] [Cond (Gt 57) [Cond (Gt 70) [Cond (Within 97 102) [Goto (St 149)] []] [Cond (Ge 65)
              [Goto (St 149)] []]] [Goto (St 127)]]] (St 0))
            else if n \<le> 127
             then State (Plain [Switch [(46, St 55), (58, St 131), (93, St 61)], Cond (Lt 65) [Cond (Within 48 57)
               [Goto (St 128)] []] [Cond (Gt 70) [Cond (Within 97 102) [Goto (St 128)] []] [Goto (St 128)]]] (St 0))
             else State (Plain [Switch [(58, St 131), (93, St 61)], Cond (Lt 65) [Cond (Within 48 57) [Goto (St 129)]
               []] [Cond (Gt 70) [Cond (Within 97 102) [Goto (St 129)] []] [Goto (St 129)]]] (St 0)))
     | Tr n \<Rightarrow>
         (Trans [] 0))"

definition req_part18 :: "jump \<Rightarrow> item" where
  "req_part18 j =
    (case j of
       St n \<Rightarrow>
         (if n \<le> 132
          then if n \<le> 130
           then if n \<le> 129
            then State (Plain [Switch [(58, St 131), (93, St 61)], Cond (Lt 65) [Cond (Within 48 57) [Goto (St 130)]
              []] [Cond (Gt 70) [Cond (Within 97 102) [Goto (St 130)] []] [Goto (St 130)]]] (St 0))
            else State (Plain [Switch [(58, St 131), (93, St 61)]] (St 0))
           else if n \<le> 131
            then State (Plain [Switch [(49, St 136), (50, St 139)], Cond (Lt 65) [Cond (Within 48 57) [Goto (St 132)]
              []] [Cond (Gt 70) [Cond (Within 97 102) [Goto (St 142)] []] [Goto (St 142)]]] (St 0))
            else State (Plain [Switch [(46, St 55), (58, St 80), (93, St 61)], Cond (Lt 65) [Cond (Within 48 57)
              [Goto (St 133)] []] [Cond (Gt 70) [Cond (Within 97 102) [Goto (St 133)] []] [Goto (St 133)]]] (St 0))
          else if n \<le> 134
           then if n \<le> 133
            then State (Plain [Switch [(58, St 80), (93, St 61)], Cond (Lt 65) [Cond (Within 48 57) [Goto (St 134)]
              []] [Cond (Gt 70) [Cond (Within 97 102) [Goto (St 134)] []] [Goto (St 134)]]] (St 0))
            else State (Plain [Switch [(58, St 80), (93, St 61)], Cond (Lt 65) [Cond (Within 48 57) [Goto (St 135)]
              []] [Cond (Gt 70) [Cond (Within 97 102) [Goto (St 135)] []] [Goto (St 135)]]] (St 0))
           else if n \<le> 135
            then State (Plain [Switch [(58, St 80), (93, St 61)]] (St 0))
            else if n \<le> 136
             then State (Plain [Switch [(46, St 55), (58, St 80), (93, St 61)], Cond (Lt 65) [Cond (Within 48 57)
               [Goto (St 137)] []] [Cond (Gt 70) [Cond (Within 97 102) [Goto (St 133)] []] [Goto (St 133)]]] (St 0))
             else State (Plain [Switch [(46, St 55), (58, St 80), (93, St 61)], Cond (Lt 65) [Cond (Within 48 57)
               [Goto (St 138)] []] [Cond (Gt 70) [Cond (Within 97 102) [Goto (St 134)] []] [Goto (St 134)]]] (St 0)))
     | Tr n \<Rightarrow>
         (Trans [] 0))"

definition req_part19 :: "jump \<Rightarrow> item" where
  "req_part19 j =
    (case j of
       St n \<Rightarrow>
         (if n \<le> 141
          then if n \<le> 139
           then if n \<le> 138
            then State (Plain [Switch [(46, St 55), (58, St 80), (93, St 61)], Cond (Lt 65) [Cond (Within 48 57)
              [Goto (St 135)] []] [Cond (Gt 70) [Cond (Within 97 102) [Goto (St 135)] []] [Goto (St 135)]]] (St 0))
            else State (Plain [Switch [(46, St 55), (48, St 140), (53, St 141), (58, St 80), (93, St 61)], Cond
              (Lt 65) [Cond (Within 49 57) [Goto (St 133)] []] [Cond (Gt 70) [Cond (Within 97 102) [Goto (St 133)]
              []] [Goto (St 133)]]] (St 0))
           else if n \<le> 140
            then State (Plain [Switch [(58, St 80), (93, St 61)], Cond (Lt 65) [Cond (Within 48 57) [Goto (St 138)]
              []] [Cond (Gt 70) [Cond (Within 97 102) [Goto (St 134)] []] [Goto (St 134)]]] (St 0))
            else State (Plain [Switch [(48, St 138), (58, St 80), (93, St 61)], Cond (Lt 65) [Cond (Within 49 57)
              [Goto (St 134)] []] [Cond (Gt 70) [Cond (Within 97 102) [Goto (St 134)] []] [Goto (St 134)]]] (St 0))
          else if n \<le> 143
           then if n \<le> 142
            then State (Plain [Switch [(58, St 80), (93, St 61)], Cond (Lt 65) [Cond (Within 48 57) [Goto (St 133)]
              []] [Cond (Gt 70) [Cond (Within 97 102) [Goto (St 133)] []] [Goto (St 133)]]] (St 0))
            else State (Plain [Switch [(46, St 55), (58, St 131), (93, St 61)], Cond (Lt 65) [Cond (Within 48 57)
              [Goto (St 144)] []] [Cond (Gt 70) [Cond (Within 97 102) [Goto (St 128)] []] [Goto (St 128)]]] (St 0))
           else if n \<le> 144
            then State (Plain [Switch [(46, St 55), (58, St 131), (93, St 61)], Cond (Lt 65) [Cond (Within 48 57)
              [Goto (St 145)] []] [Cond (Gt 70) [Cond (Within 97 102) [Goto (St 129)] []] [Goto (St 129)]]] (St 0))
            else State (Plain [Switch [(46, St 55), (58, St 131), (93, St 61)], Cond (Lt 65) [Cond (Within 48 57)
              [Goto (St 130)] []] [Cond (Gt 70) [Cond (Within 97 102) [Goto (St 130)] []] [Goto (St 130)]]] (St 0)))
     | Tr n \<Rightarrow>
         (Trans [] 0))"

definition req_part20 :: "jump \<Rightarrow> item" where
  "req_part20 j =
    (case j of
       St n \<Rightarrow>
         (if n \<le> 149
          then if n \<le> 147
           then if n \<le> 146
            then State (Plain [Switch [(46, St 55), (48, St 147), (53, St 148), (58, St 131), (93, St 61)], Cond
              (Lt 65) [Cond (Within 49 57) [Goto (St 128)] []] [Cond (Gt 70) [Cond (Within 97 102) [Goto (St 128)]
              []] [Goto (St 128)]]] (St 0))
            else State (Plain [Switch [(58, St 131), (93, St 61)], Cond (Lt 65) [Cond (Within 48 57) [Goto (St 145)]
              []] [Cond (Gt 70) [Cond (Within 97 102) [Goto (St 129)] []] [Goto (St 129)]]] (St 0))
           else if n \<le> 148
            then State (Plain [Switch [(48, St 145), (58, St 131), (93, St 61)], Cond (Lt 65) [Cond (Within 49 57)
              [Goto (St 129)] []] [Cond (Gt 70) [Cond (Within 97 102) [Goto (St 129)] []] [Goto (St 129)]]] (St 0))
            else State (Plain [Switch [(58, St 131), (93, St 61)], Cond (Lt 65) [Cond (Within 48 57) [Goto (St 128)]
              []] [Cond (Gt 70) [Cond (Within 97 102) [Goto (St 128)] []] [Goto (St 128)]]] (St 0))
          else if n \<le> 151
           then if n \<le> 150
            then State (Plain [Switch [(49, St 143), (50, St 146)], Cond (Lt 48) [Cond (Within 2 3) [Goto (St 48)]
              []] [Cond (Gt 57) [Cond (Gt 70) [Cond (Within 97 102) [Goto (St 149)] []] [Cond (Ge 65) [Goto (St 149)]
              []]] [Goto (St 127)]]] (St 0))
            else State (Plain [Switch [(49, St 156), (50, St 159)], Cond (Lt 48) [Cond (Within 2 3) [Goto (St 48)]
              []] [Cond (Gt 57) [Cond (Gt 70) [Cond (Within 97 102) [Goto (St 162)] []] [Cond (Ge 65) [Goto (St 162)]
              []]] [Goto (St 152)]]] (St 0))
           else if n \<le> 152
            then State (Plain [Switch [(46, St 55), (58, St 131)], Cond (Lt 65) [Cond (Within 48 57) [Goto (St 153)]
              []] [Cond (Gt 70) [Cond (Within 97 102) [Goto (St 153)] []] [Goto (St 153)]]] (St 0))
            else State (Plain [Cond (Eq 58) [Goto (St 131)] [], Cond (Lt 65) [Cond (Within 48 57) [Goto (St 154)] []]
              [Cond (Gt 70) [Cond (Within 97 102) [Goto (St 154)] []] [Goto (St 154)]]] (St 0)))
     | Tr n \<Rightarrow>
         (Trans [] 0))"

definition req_part21 :: "jump \<Rightarrow> item" where
  "req_part21 j =
    (case j of
       St n \<Rightarrow>
         (if n \<le> 157
          then if n \<le> 155
           then if n \<le> 154
            then State (Plain [Cond (Eq 58) [Goto (St 131)] [], Cond (Lt 65) [Cond (Within 48 57) [Goto (St 155)] []]
              [Cond (Gt 70) [Cond (Within 97 102) [Goto (St 155)] []] [Goto (St 155)]]] (St 0))
            else State (Plain [Cond (Eq 58) [Goto (St 131)] []] (St 0))
           else if n \<le> 156
            then State (Plain [Switch [(46, St 55), (58, St 131)], Cond (Lt 65) [Cond (Within 48 57) [Goto (St 157)]
              []] [Cond (Gt 70) [Cond (Within 97 102) [Goto (St 153)] []] [Goto (St 153)]]] (St 0))
            else State (Plain [Switch [(46, St 55), (58, St 131)], Cond (Lt 65) [Cond (Within 48 57) [Goto (St 158)]
              []] [Cond (Gt 70) [Cond (Within 97 102) [Goto (St 154)] []] [Goto (St 154)]]] (St 0))
          else if n \<le> 159
           then if n \<le> 158
            then State (Plain [Switch [(46, St 55), (58, St 131)], Cond (Lt 65) [Cond (Within 48 57) [Goto (St 155)]
              []] [Cond (Gt 70) [Cond (Within 97 102) [Goto (St 155)] []] [Goto (St 155)]]] (St 0))
            else State (Plain [Switch [(46, St 55), (48, St 160), (53, St 161), (58, St 131)], Cond (Lt 65) [Cond
              (Within 49 57) [Goto (St 153)] []] [Cond (Gt 70) [Cond (Within 97 102) [Goto (St 153)] []]
              [Goto (St 153)]]] (St 0))
           else if n \<le> 160
            then State (Plain [Cond (Eq 58) [Goto (St 131)] [], Cond (Lt 65) [Cond (Within 48 57) [Goto (St 158)] []]
              [Cond (Gt 70) [Cond (Within 97 102) [Goto (St 154)] []] [Goto (St 154)]]] (St 0))
            else if n \<le> 161
             then State (Plain [Switch [(48, St 158), (58, St 131)], Cond (Lt 65) [Cond (Within 49 57)
               [Goto (St 154)] []] [Cond (Gt 70) [Cond (Within 97 102) [Goto (St 154)] []] [Goto (St 154)]]] (St 0))
             else State (Plain [Cond (Eq 58) [Goto (St 131)] [], Cond (Lt 65) [Cond (Within 48 57) [Goto (St 153)]
               []] [Cond (Gt 70) [Cond (Within 97 102) [Goto (St 153)] []] [Goto (St 153)]]] (St 0)))
     | Tr n \<Rightarrow>
         (Trans [] 0))"

definition req_part22 :: "jump \<Rightarrow> item" where
  "req_part22 j =
    (case j of
       St n \<Rightarrow>
         (if n \<le> 166
          then if n \<le> 164
           then if n \<le> 163
            then State (Plain [Cond (Lt 48) [Cond (Within 2 3) [Goto (St 48)] []] [Cond (Gt 57) [Cond (Gt 70) [Cond
              (Within 97 102) [Goto (St 49)] []] [Cond (Ge 65) [Goto (St 49)] []]] [Goto (St 49)]]] (St 0))
            else State (Plain [Cond (Within 2 3) [Goto (St 48)] []] (St 0))
           else if n \<le> 165
            then State (Plain [Cond (Eq 3) [Goto (St 48)] []] (St 0))
            else State (Plain [Cond (Eq 4) [Goto (St 48)] []] (St 0))
          else if n \<le> 168
           then if n \<le> 167
            then State (Plain [Cond (Eq 58) [Goto (St 168)] []] (St 0))
            else State (Plain [Switch [(49, St 143), (50, St 146), (93, St 61)], Cond (Lt 48) [Cond (Within 2 5)
              [Goto (St 48)] []] [Cond (Gt 57) [Cond (Gt 70) [Cond (Within 97 102) [Goto (St 149)] []] [Cond (Ge 65)
              [Goto (St 149)] []]] [Goto (St 127)]]] (St 0))
           else if n \<le> 169
            then State (Plain [Cond (Lt 65) [Cond (Within 48 57) [Goto (St 170)] []] [Cond (Gt 70) [Cond
              (Within 97 102) [Goto (St 170)] []] [Goto (St 170)]]] (St 0))
            else if n \<le> 170
             then State (Plain [Cond (Eq 46) [Goto (St 171)] [], Cond (Lt 65) [Cond (Within 48 57) [Goto (St 170)]
               []] [Cond (Gt 70) [Cond (Within 97 102) [Goto (St 170)] []] [Goto (St 170)]]] (St 0))
             else State (Wide [Switch [(33, St 172), (36, St 172), (61, St 172), (95, St 172), (126, St 172),
               (606, St 172), (635, St 172), (637, St 172)], Cond (Lt 48) [Cond (Within 38 46) [Goto (St 172)] []]
               [Cond (Gt 59) [Cond (Gt 90) [Cond (Within 97 122) [Goto (St 172)] []] [Cond (Ge 65) [Goto (St 172)]
               []]] [Goto (St 172)]]] (St 0)))
     | Tr n \<Rightarrow>
         (Trans [] 0))"

definition req_part23 :: "jump \<Rightarrow> item" where
  "req_part23 j =
    (case j of
       St n \<Rightarrow>
         (if n \<le> 172
          then State (Wide [Switch [(33, St 172), (36, St 172), (61, St 172), (93, St 61), (95, St 172),
            (126, St 172), (606, St 172), (635, St 172), (637, St 172)], Cond (Lt 48) [Cond (Within 38 46)
            [Goto (St 172)] []] [Cond (Gt 59) [Cond (Gt 90) [Cond (Within 97 122) [Goto (St 172)] []] [Cond (Ge 65)
            [Goto (St 172)] []]] [Goto (St 172)]]] (St 0))
          else State (Wide [Switch [(32, Tr 37), (33, St 19), (35, Tr 39), (37, St 24), (43, St 173), (47, St 26),
            (58, St 174), (59, St 19), (61, St 19), (63, Tr 42), (64, St 19), (95, St 19), (126, St 19),
            (606, St 19), (635, St 19), (637, St 19)], Cond (Lt 45) [Cond (Within 36 44) [Goto (St 19)] []] [Cond
            (Gt 57) [Cond (Gt 90) [Cond (Within 97 122) [Goto (St 173)] []] [Cond (Ge 65) [Goto (St 173)] []]]
            [Goto (St 173)]]] (St 0)))
     | Tr n \<Rightarrow>
         (Trans [Mark] 173))"

definition req_part24 :: "jump \<Rightarrow> item" where
  "req_part24 j =
    (case j of
       St n \<Rightarrow>
         (if n \<le> 177
          then if n \<le> 175
           then if n \<le> 174
            then State (Wide [Switch [(32, Tr 6), (33, Tr 203), (35, Tr 8), (37, Tr 204), (47, Tr 10), (61, Tr 203),
              (63, Tr 11), (95, Tr 203), (126, Tr 203), (606, Tr 203), (635, Tr 203), (637, Tr 203)], Cond (Lt 64)
              [Cond (Within 36 59) [Goto (Tr 203)] []] [Cond (Gt 90) [Cond (Within 97 122) [Goto (Tr 203)] []]
              [Goto (Tr 203)]]] (St 0))
            else State (Plain [Cond (Eq 32) [Goto (Tr 4)] [], Cond (Gt 57) [Cond (Within 65 90) [Goto (St 176)] []]
              [Cond (Ge 48) [Goto (St 176)] []]] (St 0))
           else if n \<le> 176
            then State (Plain [Cond (Eq 32) [Goto (Tr 4)] [], Cond (Gt 57) [Cond (Within 65 90) [Goto (St 177)] []]
              [Cond (Ge 48) [Goto (St 177)] []]] (St 0))
            else State (Plain [Cond (Eq 32) [Goto (Tr 4)] [], Cond (Gt 57) [Cond (Within 65 90) [Goto (St 178)] []]
              [Cond (Ge 48) [Goto (St 178)] []]] (St 0))
          else if n \<le> 179
           then if n \<le> 178
            then State (Plain [Cond (Eq 32) [Goto (Tr 4)] [], Cond (Gt 57) [Cond (Within 65 90) [Goto (St 179)] []]
              [Cond (Ge 48) [Goto (St 179)] []]] (St 0))
            else State (Plain [Cond (Eq 32) [Goto (Tr 4)] [], Cond (Gt 57) [Cond (Within 65 90) [Goto (St 180)] []]
              [Cond (Ge 48) [Goto (St 180)] []]] (St 0))
           else if n \<le> 180
            then State (Plain [Cond (Eq 32) [Goto (Tr 4)] [], Cond (Gt 57) [Cond (Within 65 90) [Goto (St 181)] []]
              [Cond (Ge 48) [Goto (St 181)] []]] (St 0))
            else if n \<le> 181
             then State (Plain [Cond (Eq 32) [Goto (Tr 4)] [], Cond (Gt 57) [Cond (Within 65 90) [Goto (St 182)] []]
               [Cond (Ge 48) [Goto (St 182)] []]] (St 0))
             else State (Plain [Cond (Eq 32) [Goto (Tr 4)] [], Cond (Gt 57) [Cond (Within 65 90) [Goto (St 183)] []]
               [Cond (Ge 48) [Goto (St 183)] []]] (St 0)))
     | Tr n \<Rightarrow>
         (Trans [] 0))"

definition req_part25 :: "jump \<Rightarrow> item" where
  "req_part25 j =
    (case j of
       St n \<Rightarrow>
         (if n \<le> 188
          then if n \<le> 185
           then if n \<le> 183
            then State (Plain [Cond (Eq 32) [Goto (Tr 4)] [], Cond (Gt 57) [Cond (Within 65 90) [Goto (St 184)] []]
              [Cond (Ge 48) [Goto (St 184)] []]] (St 0))
            else if n \<le> 184
             then State (Plain [Cond (Eq 32) [Goto (Tr 4)] [], Cond (Gt 57) [Cond (Within 65 90) [Goto (St 185)] []]
               [Cond (Ge 48) [Goto (St 185)] []]] (St 0))
             else State (Plain [Cond (Eq 32) [Goto (Tr 4)] [], Cond (Gt 57) [Cond (Within 65 90) [Goto (St 186)] []]
               [Cond (Ge 48) [Goto (St 186)] []]] (St 0))
           else if n \<le> 186
            then State (Plain [Cond (Eq 32) [Goto (Tr 4)] [], Cond (Gt 57) [Cond (Within 65 90) [Goto (St 187)] []]
              [Cond (Ge 48) [Goto (St 187)] []]] (St 0))
            else if n \<le> 187
             then State (Plain [Cond (Eq 32) [Goto (Tr 4)] [], Cond (Gt 57) [Cond (Within 65 90) [Goto (St 188)] []]
               [Cond (Ge 48) [Goto (St 188)] []]] (St 0))
             else State (Plain [Cond (Eq 32) [Goto (Tr 4)] [], Cond (Gt 57) [Cond (Within 65 90) [Goto (St 189)] []]
               [Cond (Ge 48) [Goto (St 189)] []]] (St 0))
          else if n \<le> 191
           then if n \<le> 189
            then State (Plain [Cond (Eq 32) [Goto (Tr 4)] [], Cond (Gt 57) [Cond (Within 65 90) [Goto (St 190)] []]
              [Cond (Ge 48) [Goto (St 190)] []]] (St 0))
            else if n \<le> 190
             then State (Plain [Cond (Eq 32) [Goto (Tr 4)] [], Cond (Gt 57) [Cond (Within 65 90) [Goto (St 191)] []]
               [Cond (Ge 48) [Goto (St 191)] []]] (St 0))
             else State (Plain [Cond (Eq 32) [Goto (Tr 4)] [], Cond (Gt 57) [Cond (Within 65 90) [Goto (St 192)] []]
               [Cond (Ge 48) [Goto (St 192)] []]] (St 0))
           else if n \<le> 192
            then State (Plain [Cond (Eq 32) [Goto (Tr 4)] [], Cond (Gt 57) [Cond (Within 65 90) [Goto (St 193)] []]
              [Cond (Ge 48) [Goto (St 193)] []]] (St 0))
            else if n \<le> 193
             then State (Plain [Cond (Eq 32) [Goto (Tr 4)] []] (St 0))
             else State (Plain [Cond (Lt 48) [Cond (Within 45 46) [Goto (St 195)] []] [Cond (Gt 57) [Cond (Gt 90)
               [Cond (Within 97 122) [Goto (St 195)] []] [Cond (Ge 65) [Goto (St 195)] []]] [Goto (St 195)]]] (St
               0)))
     | Tr n \<Rightarrow>
         (Trans [Mark] 194))"

definition req_part26 :: "jump \<Rightarrow> item" where
  "req_part26 j =
    (case j of
       St n \<Rightarrow>
         (if n \<le> 196
          then if n \<le> 195
           then State (Plain [Switch [(32, Tr 224), (47, Tr 224), (62, Tr 224)], Cond (Lt 45) [Cond (Within 9 13)
             [Goto (Tr 224)] []] [Cond (Gt 57) [Cond (Gt 90) [Cond (Within 97 122) [Goto (St 195)] []] [Cond (Ge 65)
             [Goto (St 195)] []]] [Goto (St 195)]]] (St 0))
           else State (Plain [Cond (Eq 62) [Goto (St 197)] []] (St 196))
          else if n \<le> 197
           then State (Plain [Switch [(0, Tr 227), (62, St 197)]] (St 196))
           else if n \<le> 198
            then State (Wide [Switch [(32, Tr 228), (33, St 202), (37, St 203), (47, St 208), (59, St 202),
              (61, St 202), (95, St 202), (126, St 202), (606, St 202), (635, St 202), (637, St 202)], Cond (Lt 64)
              [Cond (Within 36 57) [Goto (St 202)] []] [Cond (Gt 90) [Cond (Within 97 122) [Goto (St 202)] []]
              [Goto (St 202)]]] (St 0))
            else State (Plain [] (St 0)))
     | Tr n \<Rightarrow>
         (if n \<le> 224
          then if n \<le> 3
           then Trans [Mark] 198
           else Trans [Request_path] 196
          else if n \<le> 227
           then Trans [Xml, Done] 349
           else if n \<le> 228
            then Trans [Request_path] 199
            else Trans [Json, Done] 349))"

definition req_part27 :: "jump \<Rightarrow> item" where
  "req_part27 j =
    (case j of
       St n \<Rightarrow>
         (if n \<le> 201
          then if n \<le> 199
           then State (Plain [Cond (Eq 123) [Goto (Tr 232)] []] (St 0))
           else if n \<le> 200
            then State (Plain [Cond (Eq 125) [Goto (St 201)] []] (St 200))
            else State (Plain [Switch [(0, Tr 235), (125, St 201)]] (St 200))
          else if n \<le> 203
           then if n \<le> 202
            then State (Wide [Switch [(32, Tr 228), (33, St 202), (37, St 203), (47, St 205), (59, St 202),
              (61, St 202), (95, St 202), (126, St 202), (606, St 202), (635, St 202), (637, St 202)], Cond (Lt 64)
              [Cond (Within 36 57) [Goto (St 202)] []] [Cond (Gt 90) [Cond (Within 97 122) [Goto (St 202)] []]
              [Goto (St 202)]]] (St 0))
            else State (Plain [Cond (Lt 65) [Cond (Within 48 57) [Goto (St 204)] []] [Cond (Gt 70) [Cond
              (Within 97 102) [Goto (St 204)] []] [Goto (St 204)]]] (St 0))
           else if n \<le> 204
            then State (Plain [Cond (Lt 65) [Cond (Within 48 57) [Goto (St 202)] []] [Cond (Gt 70) [Cond
              (Within 97 102) [Goto (St 202)] []] [Goto (St 202)]]] (St 0))
            else State (Wide [Switch [(32, Tr 228), (33, St 205), (37, St 206), (61, St 205), (95, St 205),
              (126, St 205), (606, St 205), (635, St 205), (637, St 205)], Cond (Lt 64) [Cond (Within 36 59)
              [Goto (St 205)] []] [Cond (Gt 90) [Cond (Within 97 122) [Goto (St 205)] []] [Goto (St 205)]]] (St 0)))
     | Tr n \<Rightarrow>
         (Trans [Mark] 200))"

definition req_part28 :: "jump \<Rightarrow> item" where
  "req_part28 j =
    (case j of
       St n \<Rightarrow>
         (if n \<le> 207
          then if n \<le> 206
           then State (Plain [Cond (Lt 65) [Cond (Within 48 57) [Goto (St 207)] []] [Cond (Gt 70) [Cond
             (Within 97 102) [Goto (St 207)] []] [Goto (St 207)]]] (St 0))
           else State (Plain [Cond (Lt 65) [Cond (Within 48 57) [Goto (St 205)] []] [Cond (Gt 70) [Cond
             (Within 97 102) [Goto (St 205)] []] [Goto (St 205)]]] (St 0))
          else if n \<le> 208
           then State (Wide [Switch [(32, Tr 228), (33, St 205), (37, St 206), (47, St 209), (61, St 205),
             (95, St 205), (126, St 205), (606, St 205), (635, St 205), (637, St 205)], Cond (Lt 64) [Cond
             (Within 36 59) [Goto (St 205)] []] [Cond (Gt 90) [Cond (Within 97 122) [Goto (St 205)] []]
             [Goto (St 205)]]] (St 0))
           else State (Wide [Switch [(32, Tr 228), (33, St 210), (37, St 211), (47, St 205), (58, St 213),
             (61, St 210), (64, St 217), (91, St 222), (95, St 210), (126, St 210), (606, St 210), (635, St 210),
             (637, St 210)], Cond (Lt 65) [Cond (Within 36 59) [Goto (St 210)] []] [Cond (Gt 90) [Cond
             (Within 97 122) [Goto (St 210)] []] [Goto (St 210)]]] (St 0)))
     | Tr n \<Rightarrow>
         (Trans [] 0))"

definition req_part29 :: "jump \<Rightarrow> item" where
  "req_part29 j =
    (case j of
       St n \<Rightarrow>
         (if n \<le> 211
          then if n \<le> 210
           then State (Wide [Switch [(32, Tr 228), (33, St 210), (37, St 211), (47, St 205), (58, St 213),
             (61, St 210), (64, St 217), (95, St 210), (126, St 210), (606, St 210), (635, St 210), (637, St 210)],
             Cond (Lt 65) [Cond (Within 36 59) [Goto (St 210)] []] [Cond (Gt 90) [Cond (Within 97 122)
             [Goto (St 210)] []] [Goto (St 210)]]] (St 0))
           else State (Plain [Cond (Lt 65) [Cond (Within 48 57) [Goto (St 212)] []] [Cond (Gt 70) [Cond
             (Within 97 102) [Goto (St 212)] []] [Goto (St 212)]]] (St 0))
          else if n \<le> 212
           then State (Plain [Cond (Lt 65) [Cond (Within 48 57) [Goto (St 210)] []] [Cond (Gt 70) [Cond
             (Within 97 102) [Goto (St 210)] []] [Goto (St 210)]]] (St 0))
           else State (Wide [Switch [(32, Tr 228), (33, St 214), (37, St 215), (47, St 205), (61, St 214),
             (64, St 217), (95, St 214), (126, St 214), (606, St 214), (635, St 214), (637, St 214)], Cond (Lt 58)
             [Cond (Gt 46) [Cond (Within 48 57) [Goto (St 213)] []] [Cond (Ge 36) [Goto (St 214)] []]] [Cond (Gt 59)
             [Cond (Gt 90) [Cond (Within 97 122) [Goto (St 214)] []] [Cond (Ge 65) [Goto (St 214)] []]]
             [Goto (St 214)]]] (St 0)))
     | Tr n \<Rightarrow>
         (Trans [] 0))"

definition req_part30 :: "jump \<Rightarrow> item" where
  "req_part30 j =
    (case j of
       St n \<Rightarrow>
         (if n \<le> 215
          then if n \<le> 214
           then State (Wide [Switch [(33, St 214), (37, St 215), (61, St 214), (64, St 217), (95, St 214),
             (126, St 214), (606, St 214), (635, St 214), (637, St 214)], Cond (Lt 48) [Cond (Within 36 46)
             [Goto (St 214)] []] [Cond (Gt 59) [Cond (Gt 90) [Cond (Within 97 122) [Goto (St 214)] []] [Cond (Ge 65)
             [Goto (St 214)] []]] [Goto (St 214)]]] (St 0))
           else State (Plain [Cond (Lt 65) [Cond (Within 48 57) [Goto (St 216)] []] [Cond (Gt 70) [Cond
             (Within 97 102) [Goto (St 216)] []] [Goto (St 216)]]] (St 0))
          else if n \<le> 216
           then State (Plain [Cond (Lt 65) [Cond (Within 48 57) [Goto (St 214)] []] [Cond (Gt 70) [Cond
             (Within 97 102) [Goto (St 214)] []] [Goto (St 214)]]] (St 0))
           else State (Wide [Switch [(32, Tr 228), (33, St 218), (37, St 219), (47, St 205), (58, St 221),
             (61, St 218), (91, St 222), (95, St 218), (126, St 218), (606, St 218), (635, St 218), (637, St 218)],
             Cond (Lt 65) [Cond (Within 36 59) [Goto (St 218)] []] [Cond (Gt 90) [Cond (Within 97 122)
             [Goto (St 218)] []] [Goto (St 218)]]] (St 0)))
     | Tr n \<Rightarrow>
         (Trans [] 0))"

definition req_part31 :: "jump \<Rightarrow> item" where
  "req_part31 j =
    (case j of
       St n \<Rightarrow>
         (if n \<le> 221
          then if n \<le> 219
           then if n \<le> 218
            then State (Wide [Switch [(32, Tr 228), (33, St 218), (37, St 219), (47, St 205), (58, St 221),
              (61, St 218), (95, St 218), (126, St 218), (606, St 218), (635, St 218), (637, St 218)], Cond (Lt 65)
              [Cond (Within 36 59) [Goto (St 218)] []] [Cond (Gt 90) [Cond (Within 97 122) [Goto (St 218)] []]
              [Goto (St 218)]]] (St 0))
            else State (Plain [Cond (Lt 65) [Cond (Within 48 57) [Goto (St 220)] []] [Cond (Gt 70) [Cond
              (Within 97 102) [Goto (St 220)] []] [Goto (St 220)]]] (St 0))
           else if n \<le> 220
            then State (Plain [Cond (Lt 65) [Cond (Within 48 57) [Goto (St 218)] []] [Cond (Gt 70) [Cond
              (Within 97 102) [Goto (St 218)] []] [Goto (St 218)]]] (St 0))
            else State (Plain [Switch [(32, Tr 228), (47, St 205)], Cond (Within 48 57) [Goto (St 221)] []] (St 0))
          else if n \<le> 223
           then if n \<le> 222
            then State (Plain [Switch [(6, St 223), (58, St 342), (118, St 344)], Cond (Lt 65) [Cond (Within 48 57)
              [Goto (St 266)] []] [Cond (Gt 70) [Cond (Within 97 102) [Goto (St 266)] []] [Goto (St 266)]]] (St 0))
            else State (Plain [Cond (Lt 65) [Cond (Within 48 57) [Goto (St 224)] []] [Cond (Gt 70) [Cond
              (Within 97 102) [Goto (St 224)] []] [Goto (St 224)]]] (St 0))
           else if n \<le> 224
            then State (Plain [Cond (Eq 58) [Goto (St 228)] [], Cond (Lt 65) [Cond (Within 48 57) [Goto (St 225)] []]
              [Cond (Gt 70) [Cond (Within 97 102) [Goto (St 225)] []] [Goto (St 225)]]] (St 0))
            else State (Plain [Cond (Eq 58) [Goto (St 228)] [], Cond (Lt 65) [Cond (Within 48 57) [Goto (St 226)] []]
              [Cond (Gt 70) [Cond (Within 97 102) [Goto (St 226)] []] [Goto (St 226)]]] (St 0)))
     | Tr n \<Rightarrow>
         (Trans [] 0))"

definition req_part32 :: "jump \<Rightarrow> item" where
  "req_part32 j =
    (case j of
       St n \<Rightarrow>
         (if n \<le> 232
          then if n \<le> 228
           then if n \<le> 226
            then State (Plain [Cond (Eq 58) [Goto (St 228)] [], Cond (Lt 65) [Cond (Within 48 57) [Goto (St 227)] []]
              [Cond (Gt 70) [Cond (Within 97 102) [Goto (St 227)] []] [Goto (St 227)]]] (St 0))
            else if n \<le> 227
             then State (Plain [Cond (Eq 58) [Goto (St 228)] []] (St 0))
             else State (Plain [Switch [(49, St 259), (50, St 262)], Cond (Lt 65) [Cond (Within 48 57)
               [Goto (St 229)] []] [Cond (Gt 70) [Cond (Within 97 102) [Goto (St 265)] []] [Goto (St 265)]]] (St 0))
           else if n \<le> 230
            then if n \<le> 229
             then State (Plain [Switch [(46, St 230), (58, St 255)], Cond (Lt 65) [Cond (Within 48 57)
               [Goto (St 252)] []] [Cond (Gt 70) [Cond (Within 97 102) [Goto (St 252)] []] [Goto (St 252)]]] (St 0))
             else State (Plain [Switch [(49, St 247), (50, St 249)], Cond (Within 48 57) [Goto (St 231)] []] (St 0))
            else if n \<le> 231
             then State (Plain [Cond (Eq 46) [Goto (St 232)] []] (St 0))
             else State (Plain [Switch [(49, St 242), (50, St 244)], Cond (Within 48 57) [Goto (St 233)] []] (St 0))
          else if n \<le> 235
           then if n \<le> 233
            then State (Plain [Cond (Eq 46) [Goto (St 234)] []] (St 0))
            else if n \<le> 234
             then State (Plain [Switch [(49, St 237), (50, St 239)], Cond (Within 48 57) [Goto (St 235)] []] (St 0))
             else State (Plain [Cond (Eq 93) [Goto (St 236)] []] (St 0))
           else if n \<le> 237
            then if n \<le> 236
             then State (Plain [Switch [(32, Tr 228), (47, St 205), (58, St 221)]] (St 0))
             else State (Plain [Cond (Eq 93) [Goto (St 236)] [], Cond (Within 48 57) [Goto (St 238)] []] (St 0))
            else if n \<le> 238
             then State (Plain [Cond (Eq 93) [Goto (St 236)] [], Cond (Within 48 57) [Goto (St 235)] []] (St 0))
             else State (Plain [Switch [(48, St 240), (53, St 241), (93, St 236)]] (St 0)))
     | Tr n \<Rightarrow>
         (Trans [] 0))"

definition req_part33 :: "jump \<Rightarrow> item" where
  "req_part33 j =
    (case j of
       St n \<Rightarrow>
         (if n \<le> 247
          then if n \<le> 243
           then if n \<le> 241
            then if n \<le> 240
             then State (Plain [Cond (Within 48 57) [Goto (St 235)] []] (St 0))
             else State (Plain [Cond (Eq 48) [Goto (St 235)] []] (St 0))
            else if n \<le> 242
             then State (Plain [Cond (Eq 46) [Goto (St 234)] [], Cond (Within 48 57) [Goto (St 243)] []] (St 0))
             else State (Plain [Cond (Eq 46) [Goto (St 234)] [], Cond (Within 48 57) [Goto (St 233)] []] (St 0))
           else if n \<le> 245
            then if n \<le> 244
             then State (Plain [Switch [(46, St 234), (48, St 245), (53, St 246)]] (St 0))
             else State (Plain [Cond (Within 48 57) [Goto (St 233)] []] (St 0))
            else if n \<le> 246
             then State (Plain [Cond (Eq 48) [Goto (St 233)] []] (St 0))
             else State (Plain [Cond (Eq 46) [Goto (St 232)] [], Cond (Within 48 57) [Goto (St 248)] []] (St 0))
          else if n \<le> 251
           then if n \<le> 249
            then if n \<le> 248
             then State (Plain [Cond (Eq 46) [Goto (St 232)] [], Cond (Within 48 57) [Goto (St 231)] []] (St 0))
             else State (Plain [Switch [(46, St 232), (48, St 250), (53, St 251)]] (St 0))
            else if n \<le> 250
             then State (Plain [Cond (Within 48 57) [Goto (St 231)] []] (St 0))
             else State (Plain [Cond (Eq 48) [Goto (St 231)] []] (St 0))
           else if n \<le> 253
            then if n \<le> 252
             then State (Plain [Cond (Eq 58) [Goto (St 255)] [], Cond (Lt 65) [Cond (Within 48 57) [Goto (St 253)]
               []] [Cond (Gt 70) [Cond (Within 97 102) [Goto (St 253)] []] [Goto (St 253)]]] (St 0))
             else State (Plain [Cond (Eq 58) [Goto (St 255)] [], Cond (Lt 65) [Cond (Within 48 57) [Goto (St 254)]
               []] [Cond (Gt 70) [Cond (Within 97 102) [Goto (St 254)] []] [Goto (St 254)]]] (St 0))
            else if n \<le> 254
             then State (Plain [Cond (Eq 58) [Goto (St 255)] []] (St 0))
             else State (Plain [Cond (Lt 65) [Cond (Within 48 57) [Goto (St 256)] []] [Cond (Gt 70) [Cond
               (Within 97 102) [Goto (St 256)] []] [Goto (St 256)]]] (St 0)))
     | Tr n \<Rightarrow>
         (Trans [] 0))"

definition req_part34 :: "jump \<Rightarrow> item" where
  "req_part34 j =
    (case j of
       St n \<Rightarrow>
         (if n \<le> 259
          then if n \<le> 257
           then if n \<le> 256
            then State (Plain [Cond (Eq 93) [Goto (St 236)] [], Cond (Lt 65) [Cond (Within 48 57) [Goto (St 257)] []]
              [Cond (Gt 70) [Cond (Within 97 102) [Goto (St 257)] []] [Goto (St 257)]]] (St 0))
            else State (Plain [Cond (Eq 93) [Goto (St 236)] [], Cond (Lt 65) [Cond (Within 48 57) [Goto (St 258)] []]
              [Cond (Gt 70) [Cond (Within 97 102) [Goto (St 258)] []] [Goto (St 258)]]] (St 0))
           else if n \<le> 258
            then State (Plain [Cond (Eq 93) [Goto (St 236)] [], Cond (Lt 65) [Cond (Within 48 57) [Goto (St 235)] []]
              [Cond (Gt 70) [Cond (Within 97 102) [Goto (St 235)] []] [Goto (St 235)]]] (St 0))
            else State (Plain [Switch [(46, St 230), (58, St 255)], Cond (Lt 65) [Cond (Within 48 57) [Goto (St 260)]
              []] [Cond (Gt 70) [Cond (Within 97 102) [Goto (St 252)] []] [Goto (St 252)]]] (St 0))
          else if n \<le> 261
           then if n \<le> 260
            then State (Plain [Switch [(46, St 230), (58, St 255)], Cond (Lt 65) [Cond (Within 48 57) [Goto (St 261)]
              []] [Cond (Gt 70) [Cond (Within 97 102) [Goto (St 253)] []] [Goto (St 253)]]] (St 0))
            else State (Plain [Switch [(46, St 230), (58, St 255)], Cond (Lt 65) [Cond (Within 48 57) [Goto (St 254)]
              []] [Cond (Gt 70) [Cond (Within 97 102) [Goto (St 254)] []] [Goto (St 254)]]] (St 0))
           else if n \<le> 262
            then State (Plain [Switch [(46, St 230), (48, St 263), (53, St 264), (58, St 255)], Cond (Lt 65) [Cond
              (Within 49 57) [Goto (St 252)] []] [Cond (Gt 70) [Cond (Within 97 102) [Goto (St 252)] []]
              [Goto (St 252)]]] (St 0))
            else if n \<le> 263
             then State (Plain [Cond (Eq 58) [Goto (St 255)] [], Cond (Lt 65) [Cond (Within 48 57) [Goto (St 261)]
               []] [Cond (Gt 70) [Cond (Within 97 102) [Goto (St 253)] []] [Goto (St 253)]]] (St 0))
             else State (Plain [Switch [(48, St 261), (58, St 255)], Cond (Lt 65) [Cond (Within 49 57)
               [Goto (St 253)] []] [Cond (Gt 70) [Cond (Within 97 102) [Goto (St 253)] []] [Goto (St 253)]]] (St 0)))
     | Tr n \<Rightarrow>
         (Trans [] 0))"

definition req_part35 :: "jump \<Rightarrow> item" where
  "req_part35 j =
    (case j of
       St n \<Rightarrow>
         (if n \<le> 269
          then if n \<le> 266
           then if n \<le> 265
            then State (Plain [Cond (Eq 58) [Goto (St 255)] [], Cond (Lt 65) [Cond (Within 48 57) [Goto (St 252)] []]
              [Cond (Gt 70) [Cond (Within 97 102) [Goto (St 252)] []] [Goto (St 252)]]] (St 0))
            else State (Plain [Cond (Eq 58) [Goto (St 270)] [], Cond (Lt 65) [Cond (Within 48 57) [Goto (St 267)] []]
              [Cond (Gt 70) [Cond (Within 97 102) [Goto (St 267)] []] [Goto (St 267)]]] (St 0))
           else if n \<le> 267
            then State (Plain [Cond (Eq 58) [Goto (St 270)] [], Cond (Lt 65) [Cond (Within 48 57) [Goto (St 268)] []]
              [Cond (Gt 70) [Cond (Within 97 102) [Goto (St 268)] []] [Goto (St 268)]]] (St 0))
            else if n \<le> 268
             then State (Plain [Cond (Eq 58) [Goto (St 270)] [], Cond (Lt 65) [Cond (Within 48 57) [Goto (St 269)]
               []] [Cond (Gt 70) [Cond (Within 97 102) [Goto (St 269)] []] [Goto (St 269)]]] (St 0))
             else State (Plain [Cond (Eq 58) [Goto (St 270)] []] (St 0))
          else if n \<le> 272
           then if n \<le> 270
            then State (Plain [Cond (Eq 58) [Goto (St 341)] [], Cond (Lt 65) [Cond (Within 48 57) [Goto (St 271)] []]
              [Cond (Gt 70) [Cond (Within 97 102) [Goto (St 271)] []] [Goto (St 271)]]] (St 0))
            else if n \<le> 271
             then State (Plain [Cond (Eq 58) [Goto (St 275)] [], Cond (Lt 65) [Cond (Within 48 57) [Goto (St 272)]
               []] [Cond (Gt 70) [Cond (Within 97 102) [Goto (St 272)] []] [Goto (St 272)]]] (St 0))
             else State (Plain [Cond (Eq 58) [Goto (St 275)] [], Cond (Lt 65) [Cond (Within 48 57) [Goto (St 273)]
               []] [Cond (Gt 70) [Cond (Within 97 102) [Goto (St 273)] []] [Goto (St 273)]]] (St 0))
           else if n \<le> 273
            then State (Plain [Cond (Eq 58) [Goto (St 275)] [], Cond (Lt 65) [Cond (Within 48 57) [Goto (St 274)] []]
              [Cond (Gt 70) [Cond (Within 97 102) [Goto (St 274)] []] [Goto (St 274)]]] (St 0))
            else if n \<le> 274
             then State (Plain [Cond (Eq 58) [Goto (St 275)] []] (St 0))
             else State (Plain [Cond (Eq 58) [Goto (St 340)] [], Cond (Lt 65) [Cond (Within 48 57) [Goto (St 276)]
               []] [Cond (Gt 70) [Cond (Within 97 102) [Goto (St 276)] []] [Goto (St 276)]]] (St 0)))
     | Tr n \<Rightarrow>
         (Trans [] 0))"

definition req_part36 :: "jump \<Rightarrow> item" where
  "req_part36 j =
    (case j of
       St n \<Rightarrow>
         (if n \<le> 280
          then if n \<le> 277
           then if n \<le> 276
            then State (Plain [Cond (Eq 58) [Goto (St 280)] [], Cond (Lt 65) [Cond (Within 48 57) [Goto (St 277)] []]
              [Cond (Gt 70) [Cond (Within 97 102) [Goto (St 277)] []] [Goto (St 277)]]] (St 0))
            else State (Plain [Cond (Eq 58) [Goto (St 280)] [], Cond (Lt 65) [Cond (Within 48 57) [Goto (St 278)] []]
              [Cond (Gt 70) [Cond (Within 97 102) [Goto (St 278)] []] [Goto (St 278)]]] (St 0))
           else if n \<le> 278
            then State (Plain [Cond (Eq 58) [Goto (St 280)] [], Cond (Lt 65) [Cond (Within 48 57) [Goto (St 279)] []]
              [Cond (Gt 70) [Cond (Within 97 102) [Goto (St 279)] []] [Goto (St 279)]]] (St 0))
            else if n \<le> 279
             then State (Plain [Cond (Eq 58) [Goto (St 280)] []] (St 0))
             else State (Plain [Cond (Eq 58) [Goto (St 339)] [], Cond (Lt 65) [Cond (Within 48 57) [Goto (St 281)]
               []] [Cond (Gt 70) [Cond (Within 97 102) [Goto (St 281)] []] [Goto (St 281)]]] (St 0))
          else if n \<le> 283
           then if n \<le> 281
            then State (Plain [Cond (Eq 58) [Goto (St 285)] [], Cond (Lt 65) [Cond (Within 48 57) [Goto (St 282)] []]
              [Cond (Gt 70) [Cond (Within 97 102) [Goto (St 282)] []] [Goto (St 282)]]] (St 0))
            else if n \<le> 282
             then State (Plain [Cond (Eq 58) [Goto (St 285)] [], Cond (Lt 65) [Cond (Within 48 57) [Goto (St 283)]
               []] [Cond (Gt 70) [Cond (Within 97 102) [Goto (St 283)] []] [Goto (St 283)]]] (St 0))
             else State (Plain [Cond (Eq 58) [Goto (St 285)] [], Cond (Lt 65) [Cond (Within 48 57) [Goto (St 284)]
               []] [Cond (Gt 70) [Cond (Within 97 102) [Goto (St 284)] []] [Goto (St 284)]]] (St 0))
           else if n \<le> 284
            then State (Plain [Cond (Eq 58) [Goto (St 285)] []] (St 0))
            else if n \<le> 285
             then State (Plain [Cond (Eq 58) [Goto (St 338)] [], Cond (Lt 65) [Cond (Within 48 57) [Goto (St 286)]
               []] [Cond (Gt 70) [Cond (Within 97 102) [Goto (St 286)] []] [Goto (St 286)]]] (St 0))
             else State (Plain [Cond (Eq 58) [Goto (St 290)] [], Cond (Lt 65) [Cond (Within 48 57) [Goto (St 287)]
               []] [Cond (Gt 70) [Cond (Within 97 102) [Goto (St 287)] []] [Goto (St 287)]]] (St 0)))
     | Tr n \<Rightarrow>
         (Trans [] 0))"

definition req_part37 :: "jump \<Rightarrow> item" where
  "req_part37 j =
    (case j of
       St n \<Rightarrow>
         (if n \<le> 291
          then if n \<le> 288
           then if n \<le> 287
            then State (Plain [Cond (Eq 58) [Goto (St 290)] [], Cond (Lt 65) [Cond (Within 48 57) [Goto (St 288)] []]
              [Cond (Gt 70) [Cond (Within 97 102) [Goto (St 288)] []] [Goto (St 288)]]] (St 0))
            else State (Plain [Cond (Eq 58) [Goto (St 290)] [], Cond (Lt 65) [Cond (Within 48 57) [Goto (St 289)] []]
              [Cond (Gt 70) [Cond (Within 97 102) [Goto (St 289)] []] [Goto (St 289)]]] (St 0))
           else if n \<le> 289
            then State (Plain [Cond (Eq 58) [Goto (St 290)] []] (St 0))
            else if n \<le> 290
             then State (Plain [Cond (Eq 58) [Goto (St 326)] [], Cond (Lt 65) [Cond (Within 48 57) [Goto (St 291)]
               []] [Cond (Gt 70) [Cond (Within 97 102) [Goto (St 291)] []] [Goto (St 291)]]] (St 0))
             else State (Plain [Cond (Eq 58) [Goto (St 295)] [], Cond (Lt 65) [Cond (Within 48 57) [Goto (St 292)]
               []] [Cond (Gt 70) [Cond (Within 97 102) [Goto (St 292)] []] [Goto (St 292)]]] (St 0))
          else if n \<le> 294
           then if n \<le> 292
            then State (Plain [Cond (Eq 58) [Goto (St 295)] [], Cond (Lt 65) [Cond (Within 48 57) [Goto (St 293)] []]
              [Cond (Gt 70) [Cond (Within 97 102) [Goto (St 293)] []] [Goto (St 293)]]] (St 0))
            else if n \<le> 293
             then State (Plain [Cond (Eq 58) [Goto (St 295)] [], Cond (Lt 65) [Cond (Within 48 57) [Goto (St 294)]
               []] [Cond (Gt 70) [Cond (Within 97 102) [Goto (St 294)] []] [Goto (St 294)]]] (St 0))
             else State (Plain [Cond (Eq 58) [Goto (St 295)] []] (St 0))
           else if n \<le> 295
            then State (Plain [Cond (Eq 58) [Goto (St 325)] [], Cond (Lt 65) [Cond (Within 48 57) [Goto (St 296)] []]
              [Cond (Gt 70) [Cond (Within 97 102) [Goto (St 296)] []] [Goto (St 296)]]] (St 0))
            else if n \<le> 296
             then State (Plain [Cond (Eq 58) [Goto (St 300)] [], Cond (Lt 65) [Cond (Within 48 57) [Goto (St 297)]
               []] [Cond (Gt 70) [Cond (Within 97 102) [Goto (St 297)] []] [Goto (St 297)]]] (St 0))
             else State (Plain [Cond (Eq 58) [Goto (St 300)] [], Cond (Lt 65) [Cond (Within 48 57) [Goto (St 298)]
               []] [Cond (Gt 70) [Cond (Within 97 102) [Goto (St 298)] []] [Goto (St 298)]]] (St 0)))
     | Tr n \<Rightarrow>
         (Trans [] 0))"

definition req_part38 :: "jump \<Rightarrow> item" where
  "req_part38 j =
    (case j of
       St n \<Rightarrow>
         (if n \<le> 301
          then if n \<le> 299
           then if n \<le> 298
            then State (Plain [Cond (Eq 58) [Goto (St 300)] [], Cond (Lt 65) [Cond (Within 48 57) [Goto (St 299)] []]
              [Cond (Gt 70) [Cond (Within 97 102) [Goto (St 299)] []] [Goto (St 299)]]] (St 0))
            else State (Plain [Cond (Eq 58) [Goto (St 300)] []] (St 0))
           else if n \<le> 300
            then State (Plain [Cond (Eq 58) [Goto (St 301)] [], Cond (Lt 65) [Cond (Within 48 57) [Goto (St 296)] []]
              [Cond (Gt 70) [Cond (Within 97 102) [Goto (St 296)] []] [Goto (St 296)]]] (St 0))
            else State (Plain [Switch [(49, St 318), (50, St 321), (93, St 236)], Cond (Lt 48) [Cond (Within 2 3)
              [Goto (St 223)] []] [Cond (Gt 57) [Cond (Gt 70) [Cond (Within 97 102) [Goto (St 324)] []] [Cond (Ge 65)
              [Goto (St 324)] []]] [Goto (St 302)]]] (St 0))
          else if n \<le> 303
           then if n \<le> 302
            then State (Plain [Switch [(46, St 230), (58, St 306), (93, St 236)], Cond (Lt 65) [Cond (Within 48 57)
              [Goto (St 303)] []] [Cond (Gt 70) [Cond (Within 97 102) [Goto (St 303)] []] [Goto (St 303)]]] (St 0))
            else State (Plain [Switch [(58, St 306), (93, St 236)], Cond (Lt 65) [Cond (Within 48 57) [Goto (St 304)]
              []] [Cond (Gt 70) [Cond (Within 97 102) [Goto (St 304)] []] [Goto (St 304)]]] (St 0))
           else if n \<le> 304
            then State (Plain [Switch [(58, St 306), (93, St 236)], Cond (Lt 65) [Cond (Within 48 57) [Goto (St 305)]
              []] [Cond (Gt 70) [Cond (Within 97 102) [Goto (St 305)] []] [Goto (St 305)]]] (St 0))
            else if n \<le> 305
             then State (Plain [Switch [(58, St 306), (93, St 236)]] (St 0))
             else State (Plain [Switch [(49, St 311), (50, St 314)], Cond (Lt 65) [Cond (Within 48 57)
               [Goto (St 307)] []] [Cond (Gt 70) [Cond (Within 97 102) [Goto (St 317)] []] [Goto (St 317)]]] (St 0)))
     | Tr n \<Rightarrow>
         (Trans [] 0))"

definition req_part39 :: "jump \<Rightarrow> item" where
  "req_part39 j =
    (case j of
       St n \<Rightarrow>
         (if n \<le> 310
          then if n \<le> 308
           then if n \<le> 307
            then State (Plain [Switch [(46, St 230), (58, St 255), (93, St 236)], Cond (Lt 65) [Cond (Within 48 57)
              [Goto (St 308)] []] [Cond (Gt 70) [Cond (Within 97 102) [Goto (St 308)] []] [Goto (St 308)]]] (St 0))
            else State (Plain [Switch [(58, St 255), (93, St 236)], Cond (Lt 65) [Cond (Within 48 57) [Goto (St 309)]
              []] [Cond (Gt 70) [Cond (Within 97 102) [Goto (St 309)] []] [Goto (St 309)]]] (St 0))
           else if n \<le> 309
            then State (Plain [Switch [(58, St 255), (93, St 236)], Cond (Lt 65) [Cond (Within 48 57) [Goto (St 310)]
              []] [Cond (Gt 70) [Cond (Within 97 102) [Goto (St 310)] []] [Goto (St 310)]]] (St 0))
            else State (Plain [Switch [(58, St 255), (93, St 236)]] (St 0))
          else if n \<le> 312
           then if n \<le> 311
            then State (Plain [Switch [(46, St 230), (58, St 255), (93, St 236)], Cond (Lt 65) [Cond (Within 48 57)
              [Goto (St 312)] []] [Cond (Gt 70) [Cond (Within 97 102) [Goto (St 308)] []] [Goto (St 308)]]] (St 0))
            else State (Plain [Switch [(46, St 230), (58, St 255), (93, St 236)], Cond (Lt 65) [Cond (Within 48 57)
              [Goto (St 313)] []] [Cond (Gt 70) [Cond (Within 97 102) [Goto (St 309)] []] [Goto (St 309)]]] (St 0))
           else if n \<le> 313
            then State (Plain [Switch [(46, St 230), (58, St 255), (93, St 236)], Cond (Lt 65) [Cond (Within 48 57)
              [Goto (St 310)] []] [Cond (Gt 70) [Cond (Within 97 102) [Goto (St 310)] []] [Goto (St 310)]]] (St 0))
            else if n \<le> 314
             then State (Plain [Switch [(46, St 230), (48, St 315), (53, St 316), (58, St 255), (93, St 236)], Cond
               (Lt 65) [Cond (Within 49 57) [Goto (St 308)] []] [Cond (Gt 70) [Cond (Within 97 102) [Goto (St 308)]
               []] [Goto (St 308)]]] (St 0))
             else State (Plain [Switch [(58, St 255), (93, St 236)], Cond (Lt 65) [Cond (Within 48 57)
               [Goto (St 313)] []] [Cond (Gt 70) [Cond (Within 97 102) [Goto (St 309)] []] [Goto (St 309)]]] (St 0)))
     | Tr n \<Rightarrow>
         (Trans [] 0))"

definition req_part40 :: "jump \<Rightarrow> item" where
  "req_part40 j =
    (case j of
       St n \<Rightarrow>
         (if n \<le> 319
          then if n \<le> 317
           then if n \<le> 316
            then State (Plain [Switch [(48, St 313), (58, St 255), (93, St 236)], Cond (Lt 65) [Cond (Within 49 57)
              [Goto (St 309)] []] [Cond (Gt 70) [Cond (Within 97 102) [Goto (St 309)] []] [Goto (St 309)]]] (St 0))
            else State (Plain [Switch [(58, St 255), (93, St 236)], Cond (Lt 65) [Cond (Within 48 57) [Goto (St 308)]
              []] [Cond (Gt 70) [Cond (Within 97 102) [Goto (St 308)] []] [Goto (St 308)]]] (St 0))
           else if n \<le> 318
            then State (Plain [Switch [(46, St 230), (58, St 306), (93, St 236)], Cond (Lt 65) [Cond (Within 48 57)
              [Goto (St 319)] []] [Cond (Gt 70) [Cond (Within 97 102) [Goto (St 303)] []] [Goto (St 303)]]] (St 0))
            else State (Plain [Switch [(46, St 230), (58, St 306), (93, St 236)], Cond (Lt 65) [Cond (Within 48 57)
              [Goto (St 320)] []] [Cond (Gt 70) [Cond (Within 97 102) [Goto (St 304)] []] [Goto (St 304)]]] (St 0))
          else if n \<le> 321
           then if n \<le> 320
            then State (Plain [Switch [(46, St 230), (58, St 306), (93, St 236)], Cond (Lt 65) [Cond (Within 48 57)
              [Goto (St 305)] []] [Cond (Gt 70) [Cond (Within 97 102) [Goto (St 305)] []] [Goto (St 305)]]] (St 0))
            else State (Plain [Switch [(46, St 230), (48, St 322), (53, St 323), (58, St 306), (93, St 236)], Cond
              (Lt 65) [Cond (Within 49 57) [Goto (St 303)] []] [Cond (Gt 70) [Cond (Within 97 102) [Goto (St 303)]
              []] [Goto (St 303)]]] (St 0))
           else if n \<le> 322
            then State (Plain [Switch [(58, St 306), (93, St 236)], Cond (Lt 65) [Cond (Within 48 57) [Goto (St 320)]
              []] [Cond (Gt 70) [Cond (Within 97 102) [Goto (St 304)] []] [Goto (St 304)]]] (St 0))
            else State (Plain [Switch [(48, St 320), (58, St 306), (93, St 236)], Cond (Lt 65) [Cond (Within 49 57)
              [Goto (St 304)] []] [Cond (Gt 70) [Cond (Within 97 102) [Goto (St 304)] []] [Goto (St 304)]]] (St 0)))
     | Tr n \<Rightarrow>
         (Trans [] 0))"

definition req_part41 :: "jump \<Rightarrow> item" where
  "req_part41 j =
    (case j of
       St n \<Rightarrow>
         (if n \<le> 327
          then if n \<le> 325
           then if n \<le> 324
            then State (Plain [Switch [(58, St 306), (93, St 236)], Cond (Lt 65) [Cond (Within 48 57) [Goto (St 303)]
              []] [Cond (Gt 70) [Cond (Within 97 102) [Goto (St 303)] []] [Goto (St 303)]]] (St 0))
            else State (Plain [Switch [(49, St 318), (50, St 321)], Cond (Lt 48) [Cond (Within 2 3) [Goto (St 223)]
              []] [Cond (Gt 57) [Cond (Gt 70) [Cond (Within 97 102) [Goto (St 324)] []] [Cond (Ge 65) [Goto (St 324)]
              []]] [Goto (St 302)]]] (St 0))
           else if n \<le> 326
            then State (Plain [Switch [(49, St 331), (50, St 334)], Cond (Lt 48) [Cond (Within 2 3) [Goto (St 223)]
              []] [Cond (Gt 57) [Cond (Gt 70) [Cond (Within 97 102) [Goto (St 337)] []] [Cond (Ge 65) [Goto (St 337)]
              []]] [Goto (St 327)]]] (St 0))
            else State (Plain [Switch [(46, St 230), (58, St 306)], Cond (Lt 65) [Cond (Within 48 57) [Goto (St 328)]
              []] [Cond (Gt 70) [Cond (Within 97 102) [Goto (St 328)] []] [Goto (St 328)]]] (St 0))
          else if n \<le> 329
           then if n \<le> 328
            then State (Plain [Cond (Eq 58) [Goto (St 306)] [], Cond (Lt 65) [Cond (Within 48 57) [Goto (St 329)] []]
              [Cond (Gt 70) [Cond (Within 97 102) [Goto (St 329)] []] [Goto (St 329)]]] (St 0))
            else State (Plain [Cond (Eq 58) [Goto (St 306)] [], Cond (Lt 65) [Cond (Within 48 57) [Goto (St 330)] []]
              [Cond (Gt 70) [Cond (Within 97 102) [Goto (St 330)] []] [Goto (St 330)]]] (St 0))
           else if n \<le> 330
            then State (Plain [Cond (Eq 58) [Goto (St 306)] []] (St 0))
            else if n \<le> 331
             then State (Plain [Switch [(46, St 230), (58, St 306)], Cond (Lt 65) [Cond (Within 48 57)
               [Goto (St 332)] []] [Cond (Gt 70) [Cond (Within 97 102) [Goto (St 328)] []] [Goto (St 328)]]] (St 0))
             else State (Plain [Switch [(46, St 230), (58, St 306)], Cond (Lt 65) [Cond (Within 48 57)
               [Goto (St 333)] []] [Cond (Gt 70) [Cond (Within 97 102) [Goto (St 329)] []] [Goto (St 329)]]] (St 0)))
     | Tr n \<Rightarrow>
         (Trans [] 0))"

definition req_part42 :: "jump \<Rightarrow> item" where
  "req_part42 j =
    (case j of
       St n \<Rightarrow>
         (if n \<le> 337
          then if n \<le> 334
           then if n \<le> 333
            then State (Plain [Switch [(46, St 230), (58, St 306)], Cond (Lt 65) [Cond (Within 48 57) [Goto (St 330)]
              []] [Cond (Gt 70) [Cond (Within 97 102) [Goto (St 330)] []] [Goto (St 330)]]] (St 0))
            else State (Plain [Switch [(46, St 230), (48, St 335), (53, St 336), (58, St 306)], Cond (Lt 65) [Cond
              (Within 49 57) [Goto (St 328)] []] [Cond (Gt 70) [Cond (Within 97 102) [Goto (St 328)] []]
              [Goto (St 328)]]] (St 0))
           else if n \<le> 335
            then State (Plain [Cond (Eq 58) [Goto (St 306)] [], Cond (Lt 65) [Cond (Within 48 57) [Goto (St 333)] []]
              [Cond (Gt 70) [Cond (Within 97 102) [Goto (St 329)] []] [Goto (St 329)]]] (St 0))
            else if n \<le> 336
             then State (Plain [Switch [(48, St 333), (58, St 306)], Cond (Lt 65) [Cond (Within 49 57)
               [Goto (St 329)] []] [Cond (Gt 70) [Cond (Within 97 102) [Goto (St 329)] []] [Goto (St 329)]]] (St 0))
             else State (Plain [Cond (Eq 58) [Goto (St 306)] [], Cond (Lt 65) [Cond (Within 48 57) [Goto (St 328)]
               []] [Cond (Gt 70) [Cond (Within 97 102) [Goto (St 328)] []] [Goto (St 328)]]] (St 0))
          else if n \<le> 340
           then if n \<le> 338
            then State (Plain [Cond (Lt 48) [Cond (Within 2 3) [Goto (St 223)] []] [Cond (Gt 57) [Cond (Gt 70) [Cond
              (Within 97 102) [Goto (St 224)] []] [Cond (Ge 65) [Goto (St 224)] []]] [Goto (St 224)]]] (St 0))
            else if n \<le> 339
             then State (Plain [Cond (Within 2 3) [Goto (St 223)] []] (St 0))
             else State (Plain [Cond (Eq 3) [Goto (St 223)] []] (St 0))
           else if n \<le> 341
            then State (Plain [Cond (Eq 4) [Goto (St 223)] []] (St 0))
            else if n \<le> 342
             then State (Plain [Cond (Eq 58) [Goto (St 343)] []] (St 0))
             else State (Plain [Switch [(49, St 318), (50, St 321), (93, St 236)], Cond (Lt 48) [Cond (Within 2 5)
               [Goto (St 223)] []] [Cond (Gt 57) [Cond (Gt 70) [Cond (Within 97 102) [Goto (St 324)] []] [Cond
               (Ge 65) [Goto (St 324)] []]] [Goto (St 302)]]] (St 0)))
     | Tr n \<Rightarrow>
         (Trans [] 0))"

definition req_part43 :: "jump \<Rightarrow> item" where
  "req_part43 j =
    (case j of
       St n \<Rightarrow>
         (if n \<le> 345
          then if n \<le> 344
           then State (Plain [Cond (Lt 65) [Cond (Within 48 57) [Goto (St 345)] []] [Cond (Gt 70) [Cond
             (Within 97 102) [Goto (St 345)] []] [Goto (St 345)]]] (St 0))
           else State (Plain [Cond (Eq 46) [Goto (St 346)] [], Cond (Lt 65) [Cond (Within 48 57) [Goto (St 345)] []]
             [Cond (Gt 70) [Cond (Within 97 102) [Goto (St 345)] []] [Goto (St 345)]]] (St 0))
          else if n \<le> 346
           then State (Wide [Switch [(33, St 347), (36, St 347), (61, St 347), (95, St 347), (126, St 347),
             (606, St 347), (635, St 347), (637, St 347)], Cond (Lt 48) [Cond (Within 38 46) [Goto (St 347)] []]
             [Cond (Gt 59) [Cond (Gt 90) [Cond (Within 97 122) [Goto (St 347)] []] [Cond (Ge 65) [Goto (St 347)] []]]
             [Goto (St 347)]]] (St 0))
           else State (Wide [Switch [(33, St 347), (36, St 347), (61, St 347), (93, St 236), (95, St 347),
             (126, St 347), (606, St 347), (635, St 347), (637, St 347)], Cond (Lt 48) [Cond (Within 38 46)
             [Goto (St 347)] []] [Cond (Gt 59) [Cond (Gt 90) [Cond (Within 97 122) [Goto (St 347)] []] [Cond (Ge 65)
             [Goto (St 347)] []]] [Goto (St 347)]]] (St 0)))
     | Tr n \<Rightarrow>
         (Trans [] 0))"

text \<open>The label a jump leads to, by bisection.\<close>

definition req_item :: "jump \<Rightarrow> item" where
  "req_item j =
    (case j of
       St n \<Rightarrow>
         (if n \<le> 171
          then if n \<le> 58
           then if n \<le> 21
            then if n \<le> 13
             then if n \<le> 3
              then req_part1 (St n)
              else req_part2 (St n)
             else if n \<le> 17
              then req_part3 (St n)
              else if n \<le> 19
               then req_part4 (St n)
               else req_part5 (St n)
            else if n \<le> 35
             then if n \<le> 28
              then req_part6 (St n)
              else if n \<le> 32
               then req_part7 (St n)
               else req_part8 (St n)
             else if n \<le> 40
              then req_part9 (St n)
              else if n \<le> 46
               then req_part10 (St n)
               else req_part11 (St n)
           else if n \<le> 118
            then if n \<le> 86
             then if n \<le> 75
              then req_part12 (St n)
              else req_part13 (St n)
             else if n \<le> 96
              then req_part14 (St n)
              else if n \<le> 107
               then req_part15 (St n)
               else req_part16 (St n)
            else if n \<le> 145
             then if n \<le> 128
              then req_part17 (St n)
              else if n \<le> 137
               then req_part18 (St n)
               else req_part19 (St n)
             else if n \<le> 153
              then req_part20 (St n)
              else if n \<le> 162
               then req_part21 (St n)
               else req_part22 (St n)
          else if n \<le> 255
           then if n \<le> 205
            then if n \<le> 182
             then if n \<le> 173
              then req_part23 (St n)
              else req_part24 (St n)
             else if n \<le> 194
              then req_part25 (St n)
              else if n \<le> 198
               then req_part26 (St n)
               else req_part27 (St n)
            else if n \<le> 217
             then if n \<le> 209
              then req_part28 (St n)
              else if n \<le> 213
               then req_part29 (St n)
               else req_part30 (St n)
             else if n \<le> 225
              then req_part31 (St n)
              else if n \<le> 239
               then req_part32 (St n)
               else req_part33 (St n)
           else if n \<le> 315
            then if n \<le> 286
             then if n \<le> 264
              then req_part34 (St n)
              else if n \<le> 275
               then req_part35 (St n)
               else req_part36 (St n)
             else if n \<le> 297
              then req_part37 (St n)
              else if n \<le> 306
               then req_part38 (St n)
               else req_part39 (St n)
            else if n \<le> 343
             then if n \<le> 323
              then req_part40 (St n)
              else if n \<le> 332
               then req_part41 (St n)
               else req_part42 (St n)
             else if n \<le> 347
              then req_part43 (St n)
              else if n \<le> 348
               then req_part4 (St n)
               else req_part26 (St n))
     | Tr n \<Rightarrow>
         (if n \<le> 31
          then if n \<le> 11
           then if n \<le> 6
            then if n \<le> 2
             then if n \<le> 0
              then req_part1 (Tr n)
              else req_part25 (Tr n)
             else if n \<le> 3
              then req_part26 (Tr n)
              else req_part1 (Tr n)
            else if n \<le> 9
             then if n \<le> 8
              then req_part4 (Tr n)
              else req_part6 (Tr n)
             else if n \<le> 10
              then req_part7 (Tr n)
              else req_part6 (Tr n)
           else if n \<le> 23
            then if n \<le> 21
             then if n \<le> 12
              then req_part23 (Tr n)
              else req_part2 (Tr n)
             else if n \<le> 22
              then req_part3 (Tr n)
              else req_part2 (Tr n)
            else if n \<le> 25
             then if n \<le> 24
              then req_part3 (Tr n)
              else req_part4 (Tr n)
             else if n \<le> 29
              then req_part3 (Tr n)
              else if n \<le> 30
               then req_part2 (Tr n)
               else req_part3 (Tr n)
          else if n \<le> 53
           then if n \<le> 39
            then if n \<le> 36
             then if n \<le> 33
              then req_part2 (Tr n)
              else req_part3 (Tr n)
             else if n \<le> 37
              then req_part1 (Tr n)
              else req_part5 (Tr n)
            else if n \<le> 43
             then if n \<le> 42
              then req_part7 (Tr n)
              else req_part1 (Tr n)
             else if n \<le> 45
              then req_part5 (Tr n)
              else req_part1 (Tr n)
           else if n \<le> 57
            then if n \<le> 55
             then if n \<le> 54
              then req_part7 (Tr n)
              else req_part5 (Tr n)
             else if n \<le> 56
              then req_part7 (Tr n)
              else req_part2 (Tr n)
            else if n \<le> 204
             then if n \<le> 59
              then req_part5 (Tr n)
              else req_part6 (Tr n)
             else if n \<le> 228
              then req_part26 (Tr n)
              else if n \<le> 232
               then req_part27 (Tr n)
               else req_part26 (Tr n)))"

definition req_state :: "int \<Rightarrow> code" where
  "req_state n = (case req_item (St n) of State c \<Rightarrow> c | Trans as m \<Rightarrow> Plain [] (St 0))"

definition req_trans :: "int \<Rightarrow> act list \<times> int" where
  "req_trans n = (case req_item (Tr n) of Trans as m \<Rightarrow> (as, m) | State c \<Rightarrow> ([], 0))"

definition req_machine :: machine where
  "req_machine = \<lparr>mc_state = (\<lambda>n. if 1 \<le> n \<and> n \<le> 349 then Some (req_state n) else None), mc_trans = req_trans\<rparr>"

end
