(* ===== verification/Cool_ResponseMachine.thy ===== *)
theory Cool_ResponseMachine
  imports Cool_Scanner
begin

text \<open>
  The scanner of responses (src/http/httpclient_parser.rl.cpp, generated from src/http/httpclient_parser.rl), in the order of the code: every
  part has the labels of a stretch of it, states \<open>case n\<close> with their tests and transitions \<open>trn\<close> with their actions.
\<close>

definition rsp_part1 :: "jump \<Rightarrow> item" where
  "rsp_part1 j =
    (case j of
       St n \<Rightarrow>
         (if n \<le> 1
          then State (Plain [Cond (Eq 72) [Goto (Tr 2)] [], Cond (Lt 65) [Cond (Within 48 57) [Goto (Tr 0)] []] [Cond
            (Gt 70) [Cond (Within 97 102) [Goto (Tr 0)] []] [Goto (Tr 0)]]] (St 0))
          else if n \<le> 2
           then State (Plain [Switch [(10, Tr 3), (13, Tr 4), (59, Tr 6)], Cond (Lt 65) [Cond (Within 48 57)
             [Goto (St 2)] []] [Cond (Gt 70) [Cond (Within 97 102) [Goto (St 2)] []] [Goto (St 2)]]] (St 0))
           else State (Plain [] (St 0)))
     | Tr n \<Rightarrow>
         (if n \<le> 4
          then if n \<le> 0
           then Trans [Mark] 2
           else if n \<le> 3
            then Trans [Chunk_size, Done] 120
            else Trans [Chunk_size] 3
          else if n \<le> 9
           then if n \<le> 7
            then Trans [Done] 120
            else Trans [Write_field, Start_value, Write_value, Done] 120
           else if n \<le> 15
            then Trans [Write_value, Done] 120
            else Trans [Write_connection_close, Done] 120))"

definition rsp_part2 :: "jump \<Rightarrow> item" where
  "rsp_part2 j =
    (case j of
       St n \<Rightarrow>
         (if n \<le> 3
          then State (Plain [Cond (Eq 10) [Goto (Tr 7)] []] (St 0))
          else if n \<le> 4
           then State (Plain [Switch [(33, Tr 8), (124, Tr 8), (126, Tr 8)], Cond (Lt 45) [Cond (Gt 39) [Cond
             (Within 42 43) [Goto (Tr 8)] []] [Cond (Ge 35) [Goto (Tr 8)] []]] [Cond (Gt 46) [Cond (Lt 65) [Cond
             (Within 48 57) [Goto (Tr 8)] []] [Cond (Gt 90) [Cond (Within 94 122) [Goto (Tr 8)] []] [Goto (Tr 8)]]]
             [Goto (Tr 8)]]] (St 0))
           else State (Plain [Switch [(10, Tr 9), (13, Tr 10), (33, St 5), (59, Tr 12), (61, Tr 13), (124, St 5),
             (126, St 5)], Cond (Lt 45) [Cond (Gt 39) [Cond (Within 42 43) [Goto (St 5)] []] [Cond (Ge 35)
             [Goto (St 5)] []]] [Cond (Gt 46) [Cond (Lt 65) [Cond (Within 48 57) [Goto (St 5)] []] [Cond (Gt 90)
             [Cond (Within 94 122) [Goto (St 5)] []] [Goto (St 5)]]] [Goto (St 5)]]] (St 0)))
     | Tr n \<Rightarrow>
         (if n \<le> 12
          then if n \<le> 8
           then if n \<le> 6
            then Trans [Chunk_size] 4
            else Trans [Start_field] 5
           else if n \<le> 10
            then Trans [Write_field, Start_value, Write_value] 3
            else Trans [Write_field, Start_value, Write_value] 4
          else if n \<le> 16
           then if n \<le> 13
            then Trans [Write_field, Start_value] 6
            else Trans [Write_value] 3
           else if n \<le> 18
            then Trans [Write_value] 4
            else Trans [Write_connection_close] 3))"

definition rsp_part3 :: "jump \<Rightarrow> item" where
  "rsp_part3 j =
    (case j of
       St n \<Rightarrow>
         (if n \<le> 10
          then if n \<le> 7
           then if n \<le> 6
            then State (Plain [Switch [(33, Tr 14), (124, Tr 14), (126, Tr 14)], Cond (Lt 45) [Cond (Gt 39) [Cond
              (Within 42 43) [Goto (Tr 14)] []] [Cond (Ge 35) [Goto (Tr 14)] []]] [Cond (Gt 46) [Cond (Lt 65) [Cond
              (Within 48 57) [Goto (Tr 14)] []] [Cond (Gt 90) [Cond (Within 94 122) [Goto (Tr 14)] []]
              [Goto (Tr 14)]]] [Goto (Tr 14)]]] (St 0))
            else State (Plain [Switch [(10, Tr 15), (13, Tr 16), (33, St 7), (59, Tr 18), (124, St 7), (126, St 7)],
              Cond (Lt 45) [Cond (Gt 39) [Cond (Within 42 43) [Goto (St 7)] []] [Cond (Ge 35) [Goto (St 7)] []]]
              [Cond (Gt 46) [Cond (Lt 65) [Cond (Within 48 57) [Goto (St 7)] []] [Cond (Gt 90) [Cond (Within 94 122)
              [Goto (St 7)] []] [Goto (St 7)]]] [Goto (St 7)]]] (St 0))
           else if n \<le> 8
            then State (Plain [Cond (Eq 84) [Goto (St 9)] []] (St 0))
            else if n \<le> 9
             then State (Plain [Cond (Eq 84) [Goto (St 10)] []] (St 0))
             else State (Plain [Cond (Eq 80) [Goto (St 11)] []] (St 0))
          else if n \<le> 13
           then if n \<le> 11
            then State (Plain [Cond (Eq 47) [Goto (St 12)] []] (St 0))
            else if n \<le> 12
             then State (Plain [Cond (Within 48 57) [Goto (St 13)] []] (St 0))
             else State (Plain [Cond (Eq 46) [Goto (St 14)] [], Cond (Within 48 57) [Goto (St 13)] []] (St 0))
           else if n \<le> 14
            then State (Plain [Cond (Within 48 57) [Goto (St 15)] []] (St 0))
            else if n \<le> 15
             then State (Plain [Cond (Eq 32) [Goto (Tr 26)] [], Cond (Within 48 57) [Goto (St 15)] []] (St 0))
             else State (Plain [Cond (Within 48 57) [Goto (Tr 27)] []] (St 0)))
     | Tr n \<Rightarrow>
         (if n \<le> 14
          then if n \<le> 2
           then Trans [Mark] 8
           else Trans [Start_value] 7
          else if n \<le> 26
           then Trans [Http_version] 16
           else Trans [Mark] 17))"

definition rsp_part4 :: "jump \<Rightarrow> item" where
  "rsp_part4 j =
    (case j of
       St n \<Rightarrow>
         (if n \<le> 18
          then if n \<le> 17
           then State (Plain [Cond (Eq 32) [Goto (Tr 28)] [], Cond (Within 48 57) [Goto (St 17)] []] (St 0))
           else State (Plain [Cond (Eq 10) [Goto (St 0)] []] (Tr 30))
          else if n \<le> 19
           then State (Plain [Switch [(10, Tr 32), (13, Tr 33)]] (St 19))
           else State (Plain [Switch [(10, Tr 7), (13, St 3), (33, Tr 35), (67, Tr 36), (84, Tr 37), (99, Tr 36),
             (116, Tr 37), (124, Tr 35), (126, Tr 35)], Cond (Lt 45) [Cond (Gt 39) [Cond (Within 42 43)
             [Goto (Tr 35)] []] [Cond (Ge 35) [Goto (Tr 35)] []]] [Cond (Gt 46) [Cond (Lt 65) [Cond (Within 48 57)
             [Goto (Tr 35)] []] [Cond (Gt 90) [Cond (Within 94 122) [Goto (Tr 35)] []] [Goto (Tr 35)]]]
             [Goto (Tr 35)]]] (St 0)))
     | Tr n \<Rightarrow>
         (if n \<le> 42
          then if n \<le> 30
           then if n \<le> 28
            then Trans [Status_code] 18
            else Trans [Mark] 19
           else if n \<le> 32
            then Trans [Reason_phrase] 20
            else if n \<le> 35
             then Trans [Start_field] 21
             else Trans [Start_value, Write_value] 20
          else if n \<le> 76
           then if n \<le> 45
            then Trans [Write_value] 20
            else Trans [Write_connection_close, Start_field] 21
           else if n \<le> 111
            then Trans [Write_value, Trans_chunked] 20
            else if n \<le> 113
             then Trans [Trans_chunked] 20
             else Trans [Write_content_len, Write_value] 20))"

definition rsp_part5 :: "jump \<Rightarrow> item" where
  "rsp_part5 j =
    (case j of
       St n \<Rightarrow>
         (if n \<le> 22
          then if n \<le> 21
           then State (Plain [Switch [(33, St 21), (58, Tr 39), (124, St 21), (126, St 21)], Cond (Lt 45) [Cond
             (Gt 39) [Cond (Within 42 43) [Goto (St 21)] []] [Cond (Ge 35) [Goto (St 21)] []]] [Cond (Gt 46) [Cond
             (Lt 65) [Cond (Within 48 57) [Goto (St 21)] []] [Cond (Gt 90) [Cond (Within 94 122) [Goto (St 21)] []]
             [Goto (St 21)]]] [Goto (St 21)]]] (St 0))
           else State (Plain [Switch [(10, Tr 42), (13, Tr 43), (32, Tr 41)], Cond (Within 9 12) [Goto (Tr 41)] []]
             (Tr 40))
          else if n \<le> 23
           then State (Plain [Switch [(10, Tr 45), (13, Tr 46)]] (St 23))
           else State (Plain [Cond (Eq 10) [Goto (St 20)] []] (St 0)))
     | Tr n \<Rightarrow>
         (if n \<le> 40
          then if n \<le> 36
           then if n \<le> 33
            then Trans [Reason_phrase] 24
            else Trans [Start_field] 25
           else if n \<le> 39
            then Trans [Write_field] 22
            else Trans [Start_value] 23
          else if n \<le> 43
           then if n \<le> 41
            then Trans [Start_value] 22
            else Trans [Start_value, Write_value] 24
           else if n \<le> 46
            then Trans [Write_value] 24
            else if n \<le> 77
             then Trans [Write_connection_close, Start_field] 25
             else Trans [Write_content_len, Write_value] 24))"

definition rsp_part6 :: "jump \<Rightarrow> item" where
  "rsp_part6 j =
    (case j of
       St n \<Rightarrow>
         (if n \<le> 26
          then if n \<le> 25
           then State (Plain [Switch [(33, St 21), (58, Tr 39), (79, St 26), (111, St 26), (124, St 21),
             (126, St 21)], Cond (Lt 45) [Cond (Gt 39) [Cond (Within 42 43) [Goto (St 21)] []] [Cond (Ge 35)
             [Goto (St 21)] []]] [Cond (Gt 46) [Cond (Lt 65) [Cond (Within 48 57) [Goto (St 21)] []] [Cond (Gt 90)
             [Cond (Within 94 122) [Goto (St 21)] []] [Goto (St 21)]]] [Goto (St 21)]]] (St 0))
           else State (Plain [Switch [(33, St 21), (58, Tr 39), (78, St 27), (110, St 27), (124, St 21),
             (126, St 21)], Cond (Lt 45) [Cond (Gt 39) [Cond (Within 42 43) [Goto (St 21)] []] [Cond (Ge 35)
             [Goto (St 21)] []]] [Cond (Gt 46) [Cond (Lt 65) [Cond (Within 48 57) [Goto (St 21)] []] [Cond (Gt 90)
             [Cond (Within 94 122) [Goto (St 21)] []] [Goto (St 21)]]] [Goto (St 21)]]] (St 0))
          else if n \<le> 27
           then State (Plain [Switch [(33, St 21), (58, Tr 39), (78, St 28), (84, St 101), (110, St 28),
             (116, St 101), (124, St 21), (126, St 21)], Cond (Lt 45) [Cond (Gt 39) [Cond (Within 42 43)
             [Goto (St 21)] []] [Cond (Ge 35) [Goto (St 21)] []]] [Cond (Gt 46) [Cond (Lt 65) [Cond (Within 48 57)
             [Goto (St 21)] []] [Cond (Gt 90) [Cond (Within 94 122) [Goto (St 21)] []] [Goto (St 21)]]]
             [Goto (St 21)]]] (St 0))
           else if n \<le> 28
            then State (Plain [Switch [(33, St 21), (58, Tr 39), (69, St 29), (101, St 29), (124, St 21),
              (126, St 21)], Cond (Lt 45) [Cond (Gt 39) [Cond (Within 42 43) [Goto (St 21)] []] [Cond (Ge 35)
              [Goto (St 21)] []]] [Cond (Gt 46) [Cond (Lt 65) [Cond (Within 48 57) [Goto (St 21)] []] [Cond (Gt 90)
              [Cond (Within 94 122) [Goto (St 21)] []] [Goto (St 21)]]] [Goto (St 21)]]] (St 0))
            else State (Plain [Switch [(33, St 21), (58, Tr 39), (67, St 30), (99, St 30), (124, St 21),
              (126, St 21)], Cond (Lt 45) [Cond (Gt 39) [Cond (Within 42 43) [Goto (St 21)] []] [Cond (Ge 35)
              [Goto (St 21)] []]] [Cond (Gt 46) [Cond (Lt 65) [Cond (Within 48 57) [Goto (St 21)] []] [Cond (Gt 90)
              [Cond (Within 94 122) [Goto (St 21)] []] [Goto (St 21)]]] [Goto (St 21)]]] (St 0)))
     | Tr n \<Rightarrow>
         (Trans [] 0))"

definition rsp_part7 :: "jump \<Rightarrow> item" where
  "rsp_part7 j =
    (case j of
       St n \<Rightarrow>
         (if n \<le> 31
          then if n \<le> 30
           then State (Plain [Switch [(33, St 21), (58, Tr 39), (84, St 31), (116, St 31), (124, St 21),
             (126, St 21)], Cond (Lt 45) [Cond (Gt 39) [Cond (Within 42 43) [Goto (St 21)] []] [Cond (Ge 35)
             [Goto (St 21)] []]] [Cond (Gt 46) [Cond (Lt 65) [Cond (Within 48 57) [Goto (St 21)] []] [Cond (Gt 90)
             [Cond (Within 94 122) [Goto (St 21)] []] [Goto (St 21)]]] [Goto (St 21)]]] (St 0))
           else State (Plain [Switch [(33, St 21), (58, Tr 39), (73, St 32), (105, St 32), (124, St 21),
             (126, St 21)], Cond (Lt 45) [Cond (Gt 39) [Cond (Within 42 43) [Goto (St 21)] []] [Cond (Ge 35)
             [Goto (St 21)] []]] [Cond (Gt 46) [Cond (Lt 65) [Cond (Within 48 57) [Goto (St 21)] []] [Cond (Gt 90)
             [Cond (Within 94 122) [Goto (St 21)] []] [Goto (St 21)]]] [Goto (St 21)]]] (St 0))
          else if n \<le> 32
           then State (Plain [Switch [(33, St 21), (58, Tr 39), (79, St 33), (111, St 33), (124, St 21),
             (126, St 21)], Cond (Lt 45) [Cond (Gt 39) [Cond (Within 42 43) [Goto (St 21)] []] [Cond (Ge 35)
             [Goto (St 21)] []]] [Cond (Gt 46) [Cond (Lt 65) [Cond (Within 48 57) [Goto (St 21)] []] [Cond (Gt 90)
             [Cond (Within 94 122) [Goto (St 21)] []] [Goto (St 21)]]] [Goto (St 21)]]] (St 0))
           else if n \<le> 33
            then State (Plain [Switch [(33, St 21), (58, Tr 39), (78, St 34), (110, St 34), (124, St 21),
              (126, St 21)], Cond (Lt 45) [Cond (Gt 39) [Cond (Within 42 43) [Goto (St 21)] []] [Cond (Ge 35)
              [Goto (St 21)] []]] [Cond (Gt 46) [Cond (Lt 65) [Cond (Within 48 57) [Goto (St 21)] []] [Cond (Gt 90)
              [Cond (Within 94 122) [Goto (St 21)] []] [Goto (St 21)]]] [Goto (St 21)]]] (St 0))
            else State (Plain [Switch [(33, St 21), (58, Tr 58), (124, St 21), (126, St 21)], Cond (Lt 45) [Cond
              (Gt 39) [Cond (Within 42 43) [Goto (St 21)] []] [Cond (Ge 35) [Goto (St 21)] []]] [Cond (Gt 46) [Cond
              (Lt 65) [Cond (Within 48 57) [Goto (St 21)] []] [Cond (Gt 90) [Cond (Within 94 122) [Goto (St 21)] []]
              [Goto (St 21)]]] [Goto (St 21)]]] (St 0)))
     | Tr n \<Rightarrow>
         (Trans [Start_value] 35))"

definition rsp_part8 :: "jump \<Rightarrow> item" where
  "rsp_part8 j =
    (case j of
       St n \<Rightarrow>
         (if n \<le> 38
          then if n \<le> 36
           then if n \<le> 35
            then State (Plain [Switch [(10, Tr 60), (13, Tr 61), (32, Tr 59), (67, Tr 62), (99, Tr 62)], Cond
              (Within 9 12) [Goto (Tr 59)] []] (Tr 40))
            else State (Plain [Switch [(10, Tr 64), (13, St 89), (32, St 37), (33, Tr 35), (67, Tr 66), (84, Tr 37),
              (99, Tr 66), (116, Tr 37), (124, Tr 35), (126, Tr 35)], Cond (Lt 45) [Cond (Lt 35) [Cond (Within 9 12)
              [Goto (St 37)] []] [Cond (Gt 39) [Cond (Within 42 43) [Goto (Tr 35)] []] [Goto (Tr 35)]]] [Cond (Gt 46)
              [Cond (Lt 65) [Cond (Within 48 57) [Goto (Tr 35)] []] [Cond (Gt 90) [Cond (Within 94 122)
              [Goto (Tr 35)] []] [Goto (Tr 35)]]] [Goto (Tr 35)]]] (St 0))
           else if n \<le> 37
            then State (Plain [Switch [(32, St 37), (67, St 38), (99, St 38)], Cond (Within 9 13) [Goto (St 37)] []]
              (St 0))
            else State (Plain [Switch [(76, St 39), (108, St 39)]] (St 0))
          else if n \<le> 40
           then if n \<le> 39
            then State (Plain [Switch [(79, St 40), (111, St 40)]] (St 0))
            else State (Plain [Switch [(83, St 41), (115, St 41)]] (St 0))
           else if n \<le> 41
            then State (Plain [Switch [(69, St 42), (101, St 42)]] (St 0))
            else State (Plain [Switch [(10, St 43), (13, St 88)]] (St 0)))
     | Tr n \<Rightarrow>
         (if n \<le> 58
          then Trans [Write_field] 35
          else if n \<le> 60
           then Trans [Start_value, Write_value] 36
           else Trans [Write_value] 43))"

definition rsp_part9 :: "jump \<Rightarrow> item" where
  "rsp_part9 j =
    (case j of
       St n \<Rightarrow>
         (if n \<le> 44
          then if n \<le> 43
           then State (Plain [Switch [(10, Tr 74), (13, Tr 75), (33, Tr 76), (67, Tr 77), (84, Tr 78), (99, Tr 77),
             (116, Tr 78), (124, Tr 76), (126, Tr 76)], Cond (Lt 45) [Cond (Gt 39) [Cond (Within 42 43)
             [Goto (Tr 76)] []] [Cond (Ge 35) [Goto (Tr 76)] []]] [Cond (Gt 46) [Cond (Lt 65) [Cond (Within 48 57)
             [Goto (Tr 76)] []] [Cond (Gt 90) [Cond (Within 94 122) [Goto (Tr 76)] []] [Goto (Tr 76)]]]
             [Goto (Tr 76)]]] (St 0))
           else State (Plain [Switch [(33, St 21), (58, Tr 39), (82, St 45), (114, St 45), (124, St 21),
             (126, St 21)], Cond (Lt 45) [Cond (Gt 39) [Cond (Within 42 43) [Goto (St 21)] []] [Cond (Ge 35)
             [Goto (St 21)] []]] [Cond (Gt 46) [Cond (Lt 65) [Cond (Within 48 57) [Goto (St 21)] []] [Cond (Gt 90)
             [Cond (Within 94 122) [Goto (St 21)] []] [Goto (St 21)]]] [Goto (St 21)]]] (St 0))
          else if n \<le> 45
           then State (Plain [Switch [(33, St 21), (58, Tr 39), (65, St 46), (97, St 46), (124, St 21),
             (126, St 21)], Cond (Lt 45) [Cond (Gt 39) [Cond (Within 42 43) [Goto (St 21)] []] [Cond (Ge 35)
             [Goto (St 21)] []]] [Cond (Gt 46) [Cond (Lt 66) [Cond (Within 48 57) [Goto (St 21)] []] [Cond (Gt 90)
             [Cond (Within 94 122) [Goto (St 21)] []] [Goto (St 21)]]] [Goto (St 21)]]] (St 0))
           else State (Plain [Switch [(33, St 21), (58, Tr 39), (78, St 47), (110, St 47), (124, St 21),
             (126, St 21)], Cond (Lt 45) [Cond (Gt 39) [Cond (Within 42 43) [Goto (St 21)] []] [Cond (Ge 35)
             [Goto (St 21)] []]] [Cond (Gt 46) [Cond (Lt 65) [Cond (Within 48 57) [Goto (St 21)] []] [Cond (Gt 90)
             [Cond (Within 94 122) [Goto (St 21)] []] [Goto (St 21)]]] [Goto (St 21)]]] (St 0)))
     | Tr n \<Rightarrow>
         (if n \<le> 37
          then Trans [Start_field] 44
          else Trans [Write_connection_close, Start_field] 44))"

definition rsp_part10 :: "jump \<Rightarrow> item" where
  "rsp_part10 j =
    (case j of
       St n \<Rightarrow>
         (if n \<le> 48
          then if n \<le> 47
           then State (Plain [Switch [(33, St 21), (58, Tr 39), (83, St 48), (115, St 48), (124, St 21),
             (126, St 21)], Cond (Lt 45) [Cond (Gt 39) [Cond (Within 42 43) [Goto (St 21)] []] [Cond (Ge 35)
             [Goto (St 21)] []]] [Cond (Gt 46) [Cond (Lt 65) [Cond (Within 48 57) [Goto (St 21)] []] [Cond (Gt 90)
             [Cond (Within 94 122) [Goto (St 21)] []] [Goto (St 21)]]] [Goto (St 21)]]] (St 0))
           else State (Plain [Switch [(33, St 21), (58, Tr 39), (70, St 49), (102, St 49), (124, St 21),
             (126, St 21)], Cond (Lt 45) [Cond (Gt 39) [Cond (Within 42 43) [Goto (St 21)] []] [Cond (Ge 35)
             [Goto (St 21)] []]] [Cond (Gt 46) [Cond (Lt 65) [Cond (Within 48 57) [Goto (St 21)] []] [Cond (Gt 90)
             [Cond (Within 94 122) [Goto (St 21)] []] [Goto (St 21)]]] [Goto (St 21)]]] (St 0))
          else if n \<le> 49
           then State (Plain [Switch [(33, St 21), (58, Tr 39), (69, St 50), (101, St 50), (124, St 21),
             (126, St 21)], Cond (Lt 45) [Cond (Gt 39) [Cond (Within 42 43) [Goto (St 21)] []] [Cond (Ge 35)
             [Goto (St 21)] []]] [Cond (Gt 46) [Cond (Lt 65) [Cond (Within 48 57) [Goto (St 21)] []] [Cond (Gt 90)
             [Cond (Within 94 122) [Goto (St 21)] []] [Goto (St 21)]]] [Goto (St 21)]]] (St 0))
           else if n \<le> 50
            then State (Plain [Switch [(33, St 21), (58, Tr 39), (82, St 51), (114, St 51), (124, St 21),
              (126, St 21)], Cond (Lt 45) [Cond (Gt 39) [Cond (Within 42 43) [Goto (St 21)] []] [Cond (Ge 35)
              [Goto (St 21)] []]] [Cond (Gt 46) [Cond (Lt 65) [Cond (Within 48 57) [Goto (St 21)] []] [Cond (Gt 90)
              [Cond (Within 94 122) [Goto (St 21)] []] [Goto (St 21)]]] [Goto (St 21)]]] (St 0))
            else State (Plain [Switch [(33, St 21), (45, St 52), (46, St 21), (58, Tr 39), (124, St 21),
              (126, St 21)], Cond (Lt 48) [Cond (Gt 39) [Cond (Within 42 43) [Goto (St 21)] []] [Cond (Ge 35)
              [Goto (St 21)] []]] [Cond (Gt 57) [Cond (Gt 90) [Cond (Within 94 122) [Goto (St 21)] []] [Cond (Ge 65)
              [Goto (St 21)] []]] [Goto (St 21)]]] (St 0)))
     | Tr n \<Rightarrow>
         (Trans [] 0))"

definition rsp_part11 :: "jump \<Rightarrow> item" where
  "rsp_part11 j =
    (case j of
       St n \<Rightarrow>
         (if n \<le> 53
          then if n \<le> 52
           then State (Plain [Switch [(33, St 21), (58, Tr 39), (69, St 53), (101, St 53), (124, St 21),
             (126, St 21)], Cond (Lt 45) [Cond (Gt 39) [Cond (Within 42 43) [Goto (St 21)] []] [Cond (Ge 35)
             [Goto (St 21)] []]] [Cond (Gt 46) [Cond (Lt 65) [Cond (Within 48 57) [Goto (St 21)] []] [Cond (Gt 90)
             [Cond (Within 94 122) [Goto (St 21)] []] [Goto (St 21)]]] [Goto (St 21)]]] (St 0))
           else State (Plain [Switch [(33, St 21), (58, Tr 39), (78, St 54), (110, St 54), (124, St 21),
             (126, St 21)], Cond (Lt 45) [Cond (Gt 39) [Cond (Within 42 43) [Goto (St 21)] []] [Cond (Ge 35)
             [Goto (St 21)] []]] [Cond (Gt 46) [Cond (Lt 65) [Cond (Within 48 57) [Goto (St 21)] []] [Cond (Gt 90)
             [Cond (Within 94 122) [Goto (St 21)] []] [Goto (St 21)]]] [Goto (St 21)]]] (St 0))
          else if n \<le> 54
           then State (Plain [Switch [(33, St 21), (58, Tr 39), (67, St 55), (99, St 55), (124, St 21),
             (126, St 21)], Cond (Lt 45) [Cond (Gt 39) [Cond (Within 42 43) [Goto (St 21)] []] [Cond (Ge 35)
             [Goto (St 21)] []]] [Cond (Gt 46) [Cond (Lt 65) [Cond (Within 48 57) [Goto (St 21)] []] [Cond (Gt 90)
             [Cond (Within 94 122) [Goto (St 21)] []] [Goto (St 21)]]] [Goto (St 21)]]] (St 0))
           else if n \<le> 55
            then State (Plain [Switch [(33, St 21), (58, Tr 39), (79, St 56), (111, St 56), (124, St 21),
              (126, St 21)], Cond (Lt 45) [Cond (Gt 39) [Cond (Within 42 43) [Goto (St 21)] []] [Cond (Ge 35)
              [Goto (St 21)] []]] [Cond (Gt 46) [Cond (Lt 65) [Cond (Within 48 57) [Goto (St 21)] []] [Cond (Gt 90)
              [Cond (Within 94 122) [Goto (St 21)] []] [Goto (St 21)]]] [Goto (St 21)]]] (St 0))
            else State (Plain [Switch [(33, St 21), (58, Tr 39), (68, St 57), (100, St 57), (124, St 21),
              (126, St 21)], Cond (Lt 45) [Cond (Gt 39) [Cond (Within 42 43) [Goto (St 21)] []] [Cond (Ge 35)
              [Goto (St 21)] []]] [Cond (Gt 46) [Cond (Lt 65) [Cond (Within 48 57) [Goto (St 21)] []] [Cond (Gt 90)
              [Cond (Within 94 122) [Goto (St 21)] []] [Goto (St 21)]]] [Goto (St 21)]]] (St 0)))
     | Tr n \<Rightarrow>
         (Trans [] 0))"

definition rsp_part12 :: "jump \<Rightarrow> item" where
  "rsp_part12 j =
    (case j of
       St n \<Rightarrow>
         (if n \<le> 58
          then if n \<le> 57
           then State (Plain [Switch [(33, St 21), (58, Tr 39), (73, St 58), (105, St 58), (124, St 21),
             (126, St 21)], Cond (Lt 45) [Cond (Gt 39) [Cond (Within 42 43) [Goto (St 21)] []] [Cond (Ge 35)
             [Goto (St 21)] []]] [Cond (Gt 46) [Cond (Lt 65) [Cond (Within 48 57) [Goto (St 21)] []] [Cond (Gt 90)
             [Cond (Within 94 122) [Goto (St 21)] []] [Goto (St 21)]]] [Goto (St 21)]]] (St 0))
           else State (Plain [Switch [(33, St 21), (58, Tr 39), (78, St 59), (110, St 59), (124, St 21),
             (126, St 21)], Cond (Lt 45) [Cond (Gt 39) [Cond (Within 42 43) [Goto (St 21)] []] [Cond (Ge 35)
             [Goto (St 21)] []]] [Cond (Gt 46) [Cond (Lt 65) [Cond (Within 48 57) [Goto (St 21)] []] [Cond (Gt 90)
             [Cond (Within 94 122) [Goto (St 21)] []] [Goto (St 21)]]] [Goto (St 21)]]] (St 0))
          else if n \<le> 59
           then State (Plain [Switch [(33, St 21), (58, Tr 39), (71, St 60), (103, St 60), (124, St 21),
             (126, St 21)], Cond (Lt 45) [Cond (Gt 39) [Cond (Within 42 43) [Goto (St 21)] []] [Cond (Ge 35)
             [Goto (St 21)] []]] [Cond (Gt 46) [Cond (Lt 65) [Cond (Within 48 57) [Goto (St 21)] []] [Cond (Gt 90)
             [Cond (Within 94 122) [Goto (St 21)] []] [Goto (St 21)]]] [Goto (St 21)]]] (St 0))
           else if n \<le> 60
            then State (Plain [Switch [(33, St 21), (58, Tr 95), (124, St 21), (126, St 21)], Cond (Lt 45) [Cond
              (Gt 39) [Cond (Within 42 43) [Goto (St 21)] []] [Cond (Ge 35) [Goto (St 21)] []]] [Cond (Gt 46) [Cond
              (Lt 65) [Cond (Within 48 57) [Goto (St 21)] []] [Cond (Gt 90) [Cond (Within 94 122) [Goto (St 21)] []]
              [Goto (St 21)]]] [Goto (St 21)]]] (St 0))
            else State (Plain [Switch [(10, Tr 97), (13, Tr 98), (32, Tr 96), (67, Tr 99), (99, Tr 99)], Cond
              (Within 9 12) [Goto (Tr 96)] []] (Tr 40)))
     | Tr n \<Rightarrow>
         (if n \<le> 95
          then Trans [Write_field] 61
          else if n \<le> 96
           then Trans [Start_value] 61
           else Trans [Start_value, Write_value] 62))"

definition rsp_part13 :: "jump \<Rightarrow> item" where
  "rsp_part13 j =
    (case j of
       St n \<Rightarrow>
         (if n \<le> 66
          then if n \<le> 63
           then if n \<le> 62
            then State (Plain [Switch [(10, Tr 101), (13, St 72), (32, St 63), (33, Tr 35), (67, Tr 103),
              (84, Tr 37), (99, Tr 103), (116, Tr 37), (124, Tr 35), (126, Tr 35)], Cond (Lt 45) [Cond (Lt 35) [Cond
              (Within 9 12) [Goto (St 63)] []] [Cond (Gt 39) [Cond (Within 42 43) [Goto (Tr 35)] []] [Goto (Tr 35)]]]
              [Cond (Gt 46) [Cond (Lt 65) [Cond (Within 48 57) [Goto (Tr 35)] []] [Cond (Gt 90) [Cond (Within 94 122)
              [Goto (Tr 35)] []] [Goto (Tr 35)]]] [Goto (Tr 35)]]] (St 0))
            else State (Plain [Switch [(32, St 63), (67, Tr 104), (99, Tr 104)], Cond (Within 9 13) [Goto (St 63)]
              []] (St 0))
           else if n \<le> 64
            then State (Plain [Switch [(72, St 65), (104, St 65)]] (St 0))
            else if n \<le> 65
             then State (Plain [Switch [(85, St 66), (117, St 66)]] (St 0))
             else State (Plain [Switch [(78, St 67), (110, St 67)]] (St 0))
          else if n \<le> 68
           then if n \<le> 67
            then State (Plain [Switch [(75, St 68), (107, St 68)]] (St 0))
            else State (Plain [Switch [(69, St 69), (101, St 69)]] (St 0))
           else if n \<le> 69
            then State (Plain [Switch [(68, St 70), (100, St 70)]] (St 0))
            else if n \<le> 70
             then State (Plain [Switch [(10, Tr 111), (13, Tr 112)]] (St 0))
             else State (Plain [Cond (Eq 10) [Goto (Tr 113)] []] (St 0)))
     | Tr n \<Rightarrow>
         (if n \<le> 101
          then Trans [Done] 121
          else if n \<le> 104
           then Trans [Start_value] 64
           else Trans [Write_value] 71))"

definition rsp_part14 :: "jump \<Rightarrow> item" where
  "rsp_part14 j =
    (case j of
       St n \<Rightarrow>
         (if n \<le> 73
          then if n \<le> 72
           then State (Plain [Switch [(10, Tr 101), (32, St 63), (67, Tr 104), (99, Tr 104)], Cond (Within 9 13)
             [Goto (St 63)] []] (St 0))
           else State (Plain [Switch [(33, St 21), (58, Tr 39), (72, St 74), (79, St 26), (104, St 74), (111, St 26),
             (124, St 21), (126, St 21)], Cond (Lt 45) [Cond (Gt 39) [Cond (Within 42 43) [Goto (St 21)] []] [Cond
             (Ge 35) [Goto (St 21)] []]] [Cond (Gt 46) [Cond (Lt 65) [Cond (Within 48 57) [Goto (St 21)] []] [Cond
             (Gt 90) [Cond (Within 94 122) [Goto (St 21)] []] [Goto (St 21)]]] [Goto (St 21)]]] (St 0))
          else if n \<le> 74
           then State (Plain [Switch [(33, St 21), (58, Tr 39), (85, St 75), (117, St 75), (124, St 21),
             (126, St 21)], Cond (Lt 45) [Cond (Gt 39) [Cond (Within 42 43) [Goto (St 21)] []] [Cond (Ge 35)
             [Goto (St 21)] []]] [Cond (Gt 46) [Cond (Lt 65) [Cond (Within 48 57) [Goto (St 21)] []] [Cond (Gt 90)
             [Cond (Within 94 122) [Goto (St 21)] []] [Goto (St 21)]]] [Goto (St 21)]]] (St 0))
           else if n \<le> 75
            then State (Plain [Switch [(33, St 21), (58, Tr 39), (78, St 76), (110, St 76), (124, St 21),
              (126, St 21)], Cond (Lt 45) [Cond (Gt 39) [Cond (Within 42 43) [Goto (St 21)] []] [Cond (Ge 35)
              [Goto (St 21)] []]] [Cond (Gt 46) [Cond (Lt 65) [Cond (Within 48 57) [Goto (St 21)] []] [Cond (Gt 90)
              [Cond (Within 94 122) [Goto (St 21)] []] [Goto (St 21)]]] [Goto (St 21)]]] (St 0))
            else State (Plain [Switch [(32, St 63), (67, Tr 104), (99, Tr 104)], Cond (Within 9 13) [Goto (St 63)]
              []] (St 0)))
     | Tr n \<Rightarrow>
         (Trans [Start_value, Start_field] 73))"

definition rsp_part15 :: "jump \<Rightarrow> item" where
  "rsp_part15 j =
    (case j of
       St n \<Rightarrow>
         (if n \<le> 77
          then if n \<le> 76
           then State (Plain [Switch [(33, St 21), (58, Tr 39), (75, St 77), (107, St 77), (124, St 21),
             (126, St 21)], Cond (Lt 45) [Cond (Gt 39) [Cond (Within 42 43) [Goto (St 21)] []] [Cond (Ge 35)
             [Goto (St 21)] []]] [Cond (Gt 46) [Cond (Lt 65) [Cond (Within 48 57) [Goto (St 21)] []] [Cond (Gt 90)
             [Cond (Within 94 122) [Goto (St 21)] []] [Goto (St 21)]]] [Goto (St 21)]]] (St 0))
           else State (Plain [Switch [(33, St 21), (58, Tr 39), (69, St 78), (101, St 78), (124, St 21),
             (126, St 21)], Cond (Lt 45) [Cond (Gt 39) [Cond (Within 42 43) [Goto (St 21)] []] [Cond (Ge 35)
             [Goto (St 21)] []]] [Cond (Gt 46) [Cond (Lt 65) [Cond (Within 48 57) [Goto (St 21)] []] [Cond (Gt 90)
             [Cond (Within 94 122) [Goto (St 21)] []] [Goto (St 21)]]] [Goto (St 21)]]] (St 0))
          else if n \<le> 78
           then State (Plain [Switch [(33, St 21), (58, Tr 39), (68, St 79), (100, St 79), (124, St 21),
             (126, St 21)], Cond (Lt 45) [Cond (Gt 39) [Cond (Within 42 43) [Goto (St 21)] []] [Cond (Ge 35)
             [Goto (St 21)] []]] [Cond (Gt 46) [Cond (Lt 65) [Cond (Within 48 57) [Goto (St 21)] []] [Cond (Gt 90)
             [Cond (Within 94 122) [Goto (St 21)] []] [Goto (St 21)]]] [Goto (St 21)]]] (St 0))
           else if n \<le> 79
            then State (Plain [Switch [(10, Tr 111), (13, Tr 112), (33, St 21), (58, Tr 39), (124, St 21),
              (126, St 21)], Cond (Lt 45) [Cond (Gt 39) [Cond (Within 42 43) [Goto (St 21)] []] [Cond (Ge 35)
              [Goto (St 21)] []]] [Cond (Gt 46) [Cond (Lt 65) [Cond (Within 48 57) [Goto (St 21)] []] [Cond (Gt 90)
              [Cond (Within 94 122) [Goto (St 21)] []] [Goto (St 21)]]] [Goto (St 21)]]] (St 0))
            else State (Plain [Switch [(10, St 62), (32, St 63), (67, Tr 104), (99, Tr 104)], Cond (Within 9 13)
              [Goto (St 63)] []] (St 0)))
     | Tr n \<Rightarrow>
         (if n \<le> 98
          then Trans [Start_value, Write_value] 80
          else Trans [Start_value] 81))"

definition rsp_part16 :: "jump \<Rightarrow> item" where
  "rsp_part16 j =
    (case j of
       St n \<Rightarrow>
         (if n \<le> 85
          then if n \<le> 82
           then if n \<le> 81
            then State (Plain [Switch [(10, Tr 45), (13, Tr 46), (72, St 82), (104, St 82)]] (St 23))
            else State (Plain [Switch [(10, Tr 45), (13, Tr 46), (85, St 83), (117, St 83)]] (St 23))
           else if n \<le> 83
            then State (Plain [Switch [(10, Tr 45), (13, Tr 46), (78, St 84), (110, St 84)]] (St 23))
            else if n \<le> 84
             then State (Plain [Switch [(10, Tr 45), (13, Tr 46), (75, St 85), (107, St 85)]] (St 23))
             else State (Plain [Switch [(10, Tr 45), (13, Tr 46), (69, St 86), (101, St 86)]] (St 23))
          else if n \<le> 87
           then if n \<le> 86
            then State (Plain [Switch [(10, Tr 45), (13, Tr 46), (68, St 87), (100, St 87)]] (St 23))
            else State (Plain [Switch [(10, Tr 111), (13, Tr 112)]] (St 23))
           else if n \<le> 88
            then State (Plain [Cond (Eq 10) [Goto (St 43)] []] (St 0))
            else if n \<le> 89
             then State (Plain [Switch [(10, Tr 64), (32, St 37), (67, St 38), (99, St 38)], Cond (Within 9 13)
               [Goto (St 37)] []] (St 0))
             else State (Plain [Switch [(32, St 37), (67, St 38), (99, St 38)], Cond (Within 9 13) [Goto (St 37)] []]
               (St 0)))
     | Tr n \<Rightarrow>
         (if n \<le> 64
          then Trans [Done] 122
          else if n \<le> 66
           then Trans [Start_field] 90
           else Trans [Write_value] 88))"

definition rsp_part17 :: "jump \<Rightarrow> item" where
  "rsp_part17 j =
    (case j of
       St n \<Rightarrow>
         (if n \<le> 91
          then if n \<le> 90
           then State (Plain [Switch [(33, St 21), (58, Tr 39), (76, St 91), (79, St 26), (108, St 91), (111, St 26),
             (124, St 21), (126, St 21)], Cond (Lt 45) [Cond (Gt 39) [Cond (Within 42 43) [Goto (St 21)] []] [Cond
             (Ge 35) [Goto (St 21)] []]] [Cond (Gt 46) [Cond (Lt 65) [Cond (Within 48 57) [Goto (St 21)] []] [Cond
             (Gt 90) [Cond (Within 94 122) [Goto (St 21)] []] [Goto (St 21)]]] [Goto (St 21)]]] (St 0))
           else State (Plain [Switch [(33, St 21), (58, Tr 39), (79, St 92), (111, St 92), (124, St 21),
             (126, St 21)], Cond (Lt 45) [Cond (Gt 39) [Cond (Within 42 43) [Goto (St 21)] []] [Cond (Ge 35)
             [Goto (St 21)] []]] [Cond (Gt 46) [Cond (Lt 65) [Cond (Within 48 57) [Goto (St 21)] []] [Cond (Gt 90)
             [Cond (Within 94 122) [Goto (St 21)] []] [Goto (St 21)]]] [Goto (St 21)]]] (St 0))
          else if n \<le> 92
           then State (Plain [Switch [(33, St 21), (58, Tr 39), (83, St 93), (115, St 93), (124, St 21),
             (126, St 21)], Cond (Lt 45) [Cond (Gt 39) [Cond (Within 42 43) [Goto (St 21)] []] [Cond (Ge 35)
             [Goto (St 21)] []]] [Cond (Gt 46) [Cond (Lt 65) [Cond (Within 48 57) [Goto (St 21)] []] [Cond (Gt 90)
             [Cond (Within 94 122) [Goto (St 21)] []] [Goto (St 21)]]] [Goto (St 21)]]] (St 0))
           else if n \<le> 93
            then State (Plain [Switch [(33, St 21), (58, Tr 39), (69, St 94), (101, St 94), (124, St 21),
              (126, St 21)], Cond (Lt 45) [Cond (Gt 39) [Cond (Within 42 43) [Goto (St 21)] []] [Cond (Ge 35)
              [Goto (St 21)] []]] [Cond (Gt 46) [Cond (Lt 65) [Cond (Within 48 57) [Goto (St 21)] []] [Cond (Gt 90)
              [Cond (Within 94 122) [Goto (St 21)] []] [Goto (St 21)]]] [Goto (St 21)]]] (St 0))
            else State (Plain [Switch [(10, St 43), (13, St 88), (33, St 21), (58, Tr 39), (124, St 21),
              (126, St 21)], Cond (Lt 45) [Cond (Gt 39) [Cond (Within 42 43) [Goto (St 21)] []] [Cond (Ge 35)
              [Goto (St 21)] []]] [Cond (Gt 46) [Cond (Lt 65) [Cond (Within 48 57) [Goto (St 21)] []] [Cond (Gt 90)
              [Cond (Within 94 122) [Goto (St 21)] []] [Goto (St 21)]]] [Goto (St 21)]]] (St 0)))
     | Tr n \<Rightarrow>
         (Trans [] 0))"

definition rsp_part18 :: "jump \<Rightarrow> item" where
  "rsp_part18 j =
    (case j of
       St n \<Rightarrow>
         (if n \<le> 98
          then if n \<le> 96
           then if n \<le> 95
            then State (Plain [Switch [(10, St 36), (32, St 37), (67, St 38), (99, St 38)], Cond (Within 9 13)
              [Goto (St 37)] []] (St 0))
            else State (Plain [Switch [(10, Tr 45), (13, Tr 46), (76, St 97), (108, St 97)]] (St 23))
           else if n \<le> 97
            then State (Plain [Switch [(10, Tr 45), (13, Tr 46), (79, St 98), (111, St 98)]] (St 23))
            else State (Plain [Switch [(10, Tr 45), (13, Tr 46), (83, St 99), (115, St 99)]] (St 23))
          else if n \<le> 100
           then if n \<le> 99
            then State (Plain [Switch [(10, Tr 45), (13, Tr 46), (69, St 100), (101, St 100)]] (St 23))
            else State (Plain [Switch [(10, Tr 136), (13, Tr 137)]] (St 23))
           else if n \<le> 101
            then State (Plain [Switch [(33, St 21), (58, Tr 39), (69, St 102), (101, St 102), (124, St 21),
              (126, St 21)], Cond (Lt 45) [Cond (Gt 39) [Cond (Within 42 43) [Goto (St 21)] []] [Cond (Ge 35)
              [Goto (St 21)] []]] [Cond (Gt 46) [Cond (Lt 65) [Cond (Within 48 57) [Goto (St 21)] []] [Cond (Gt 90)
              [Cond (Within 94 122) [Goto (St 21)] []] [Goto (St 21)]]] [Goto (St 21)]]] (St 0))
            else State (Plain [Switch [(33, St 21), (58, Tr 39), (78, St 103), (110, St 103), (124, St 21),
              (126, St 21)], Cond (Lt 45) [Cond (Gt 39) [Cond (Within 42 43) [Goto (St 21)] []] [Cond (Ge 35)
              [Goto (St 21)] []]] [Cond (Gt 46) [Cond (Lt 65) [Cond (Within 48 57) [Goto (St 21)] []] [Cond (Gt 90)
              [Cond (Within 94 122) [Goto (St 21)] []] [Goto (St 21)]]] [Goto (St 21)]]] (St 0)))
     | Tr n \<Rightarrow>
         (if n \<le> 61
          then Trans [Start_value, Write_value] 95
          else Trans [Start_value] 96))"

definition rsp_part19 :: "jump \<Rightarrow> item" where
  "rsp_part19 j =
    (case j of
       St n \<Rightarrow>
         (if n \<le> 104
          then if n \<le> 103
           then State (Plain [Switch [(33, St 21), (58, Tr 39), (84, St 104), (116, St 104), (124, St 21),
             (126, St 21)], Cond (Lt 45) [Cond (Gt 39) [Cond (Within 42 43) [Goto (St 21)] []] [Cond (Ge 35)
             [Goto (St 21)] []]] [Cond (Gt 46) [Cond (Lt 65) [Cond (Within 48 57) [Goto (St 21)] []] [Cond (Gt 90)
             [Cond (Within 94 122) [Goto (St 21)] []] [Goto (St 21)]]] [Goto (St 21)]]] (St 0))
           else State (Plain [Switch [(33, St 21), (45, St 105), (46, St 21), (58, Tr 39), (124, St 21),
             (126, St 21)], Cond (Lt 48) [Cond (Gt 39) [Cond (Within 42 43) [Goto (St 21)] []] [Cond (Ge 35)
             [Goto (St 21)] []]] [Cond (Gt 57) [Cond (Gt 90) [Cond (Within 94 122) [Goto (St 21)] []] [Cond (Ge 65)
             [Goto (St 21)] []]] [Goto (St 21)]]] (St 0))
          else if n \<le> 105
           then State (Plain [Switch [(33, St 21), (58, Tr 39), (76, St 106), (108, St 106), (124, St 21),
             (126, St 21)], Cond (Lt 45) [Cond (Gt 39) [Cond (Within 42 43) [Goto (St 21)] []] [Cond (Ge 35)
             [Goto (St 21)] []]] [Cond (Gt 46) [Cond (Lt 65) [Cond (Within 48 57) [Goto (St 21)] []] [Cond (Gt 90)
             [Cond (Within 94 122) [Goto (St 21)] []] [Goto (St 21)]]] [Goto (St 21)]]] (St 0))
           else if n \<le> 106
            then State (Plain [Switch [(33, St 21), (58, Tr 39), (69, St 107), (101, St 107), (124, St 21),
              (126, St 21)], Cond (Lt 45) [Cond (Gt 39) [Cond (Within 42 43) [Goto (St 21)] []] [Cond (Ge 35)
              [Goto (St 21)] []]] [Cond (Gt 46) [Cond (Lt 65) [Cond (Within 48 57) [Goto (St 21)] []] [Cond (Gt 90)
              [Cond (Within 94 122) [Goto (St 21)] []] [Goto (St 21)]]] [Goto (St 21)]]] (St 0))
            else State (Plain [Switch [(33, St 21), (58, Tr 39), (78, St 108), (110, St 108), (124, St 21),
              (126, St 21)], Cond (Lt 45) [Cond (Gt 39) [Cond (Within 42 43) [Goto (St 21)] []] [Cond (Ge 35)
              [Goto (St 21)] []]] [Cond (Gt 46) [Cond (Lt 65) [Cond (Within 48 57) [Goto (St 21)] []] [Cond (Gt 90)
              [Cond (Within 94 122) [Goto (St 21)] []] [Goto (St 21)]]] [Goto (St 21)]]] (St 0)))
     | Tr n \<Rightarrow>
         (Trans [] 0))"

definition rsp_part20 :: "jump \<Rightarrow> item" where
  "rsp_part20 j =
    (case j of
       St n \<Rightarrow>
         (if n \<le> 109
          then if n \<le> 108
           then State (Plain [Switch [(33, St 21), (58, Tr 39), (71, St 109), (103, St 109), (124, St 21),
             (126, St 21)], Cond (Lt 45) [Cond (Gt 39) [Cond (Within 42 43) [Goto (St 21)] []] [Cond (Ge 35)
             [Goto (St 21)] []]] [Cond (Gt 46) [Cond (Lt 65) [Cond (Within 48 57) [Goto (St 21)] []] [Cond (Gt 90)
             [Cond (Within 94 122) [Goto (St 21)] []] [Goto (St 21)]]] [Goto (St 21)]]] (St 0))
           else State (Plain [Switch [(33, St 21), (58, Tr 39), (84, St 110), (116, St 110), (124, St 21),
             (126, St 21)], Cond (Lt 45) [Cond (Gt 39) [Cond (Within 42 43) [Goto (St 21)] []] [Cond (Ge 35)
             [Goto (St 21)] []]] [Cond (Gt 46) [Cond (Lt 65) [Cond (Within 48 57) [Goto (St 21)] []] [Cond (Gt 90)
             [Cond (Within 94 122) [Goto (St 21)] []] [Goto (St 21)]]] [Goto (St 21)]]] (St 0))
          else if n \<le> 110
           then State (Plain [Switch [(33, St 21), (58, Tr 39), (72, St 111), (104, St 111), (124, St 21),
             (126, St 21)], Cond (Lt 45) [Cond (Gt 39) [Cond (Within 42 43) [Goto (St 21)] []] [Cond (Ge 35)
             [Goto (St 21)] []]] [Cond (Gt 46) [Cond (Lt 65) [Cond (Within 48 57) [Goto (St 21)] []] [Cond (Gt 90)
             [Cond (Within 94 122) [Goto (St 21)] []] [Goto (St 21)]]] [Goto (St 21)]]] (St 0))
           else if n \<le> 111
            then State (Plain [Switch [(33, St 21), (58, Tr 148), (124, St 21), (126, St 21)], Cond (Lt 45) [Cond
              (Gt 39) [Cond (Within 42 43) [Goto (St 21)] []] [Cond (Ge 35) [Goto (St 21)] []]] [Cond (Gt 46) [Cond
              (Lt 65) [Cond (Within 48 57) [Goto (St 21)] []] [Cond (Gt 90) [Cond (Within 94 122) [Goto (St 21)] []]
              [Goto (St 21)]]] [Goto (St 21)]]] (St 0))
            else State (Plain [Switch [(10, Tr 150), (13, Tr 151), (32, Tr 149)], Cond (Gt 12) [Cond (Within 48 57)
              [Goto (Tr 152)] []] [Cond (Ge 9) [Goto (Tr 149)] []]] (Tr 40)))
     | Tr n \<Rightarrow>
         (if n \<le> 148
          then Trans [Write_field] 112
          else Trans [Start_value] 112))"

definition rsp_part21 :: "jump \<Rightarrow> item" where
  "rsp_part21 j =
    (case j of
       St n \<Rightarrow>
         (if n \<le> 115
          then if n \<le> 113
           then State (Plain [Switch [(10, Tr 154), (13, St 116), (32, St 114), (33, Tr 35), (67, Tr 36),
             (84, Tr 37), (99, Tr 36), (116, Tr 37), (124, Tr 35), (126, Tr 35)], Cond (Lt 45) [Cond (Lt 35) [Cond
             (Within 9 12) [Goto (St 114)] []] [Cond (Gt 39) [Cond (Within 42 43) [Goto (Tr 35)] []] [Goto (Tr 35)]]]
             [Cond (Gt 46) [Cond (Lt 65) [Cond (Within 48 57) [Goto (Tr 156)] []] [Cond (Gt 90) [Cond (Within 94 122)
             [Goto (Tr 35)] []] [Goto (Tr 35)]]] [Goto (Tr 35)]]] (St 0))
           else if n \<le> 114
            then State (Plain [Cond (Eq 32) [Goto (St 114)] [], Cond (Gt 13) [Cond (Within 48 57) [Goto (Tr 157)] []]
              [Cond (Ge 9) [Goto (St 114)] []]] (St 0))
            else State (Plain [Switch [(10, Tr 158), (13, Tr 159)], Cond (Within 48 57) [Goto (St 115)] []] (St 0))
          else if n \<le> 116
           then State (Plain [Switch [(10, Tr 154), (32, St 114)], Cond (Gt 13) [Cond (Within 48 57) [Goto (Tr 157)]
             []] [Cond (Ge 9) [Goto (St 114)] []]] (St 0))
           else if n \<le> 117
            then State (Plain [Switch [(10, Tr 158), (13, Tr 159), (33, St 21), (58, Tr 39), (124, St 21),
              (126, St 21)], Cond (Lt 45) [Cond (Gt 39) [Cond (Within 42 43) [Goto (St 21)] []] [Cond (Ge 35)
              [Goto (St 21)] []]] [Cond (Gt 46) [Cond (Lt 65) [Cond (Within 48 57) [Goto (St 117)] []] [Cond (Gt 90)
              [Cond (Within 94 122) [Goto (St 21)] []] [Goto (St 21)]]] [Goto (St 21)]]] (St 0))
            else State (Plain [Cond (Eq 32) [Goto (St 114)] [], Cond (Gt 13) [Cond (Within 48 57) [Goto (Tr 157)] []]
              [Cond (Ge 9) [Goto (St 114)] []]] (St 0)))
     | Tr n \<Rightarrow>
         (if n \<le> 154
          then if n \<le> 150
           then Trans [Start_value, Write_value] 113
           else Trans [Done] 123
          else if n \<le> 156
           then Trans [Start_value, Start_field] 117
           else Trans [Start_value] 115))"

definition rsp_part22 :: "jump \<Rightarrow> item" where
  "rsp_part22 j =
    (case j of
       St n \<Rightarrow>
         (if n \<le> 118
          then State (Plain [Switch [(10, St 113), (32, St 114)], Cond (Gt 13) [Cond (Within 48 57) [Goto (Tr 157)]
            []] [Cond (Ge 9) [Goto (St 114)] []]] (St 0))
          else State (Plain [Switch [(10, Tr 158), (13, Tr 159)], Cond (Within 48 57) [Goto (St 119)] []] (St 23)))
     | Tr n \<Rightarrow>
         (if n \<le> 151
          then Trans [Start_value, Write_value] 118
          else Trans [Start_value] 119))"

text \<open>The label a jump leads to, by bisection.\<close>

definition rsp_item :: "jump \<Rightarrow> item" where
  "rsp_item j =
    (case j of
       St n \<Rightarrow>
         (if n \<le> 71
          then if n \<le> 29
           then if n \<le> 16
            then if n \<le> 2
             then rsp_part1 (St n)
             else if n \<le> 5
              then rsp_part2 (St n)
              else rsp_part3 (St n)
            else if n \<le> 20
             then rsp_part4 (St n)
             else if n \<le> 24
              then rsp_part5 (St n)
              else rsp_part6 (St n)
           else if n \<le> 46
            then if n \<le> 34
             then rsp_part7 (St n)
             else if n \<le> 42
              then rsp_part8 (St n)
              else rsp_part9 (St n)
            else if n \<le> 56
             then if n \<le> 51
              then rsp_part10 (St n)
              else rsp_part11 (St n)
             else if n \<le> 61
              then rsp_part12 (St n)
              else rsp_part13 (St n)
          else if n \<le> 107
           then if n \<le> 89
            then if n \<le> 75
             then rsp_part14 (St n)
             else if n \<le> 80
              then rsp_part15 (St n)
              else rsp_part16 (St n)
            else if n \<le> 94
             then rsp_part17 (St n)
             else if n \<le> 102
              then rsp_part18 (St n)
              else rsp_part19 (St n)
           else if n \<le> 119
            then if n \<le> 112
             then rsp_part20 (St n)
             else if n \<le> 117
              then rsp_part21 (St n)
              else rsp_part22 (St n)
            else if n \<le> 121
             then if n \<le> 120
              then rsp_part1 (St n)
              else rsp_part14 (St n)
             else if n \<le> 122
              then rsp_part16 (St n)
              else rsp_part21 (St n))
     | Tr n \<Rightarrow>
         (if n \<le> 59
          then if n \<le> 27
           then if n \<le> 8
            then if n \<le> 4
             then if n \<le> 0
              then rsp_part1 (Tr n)
              else if n \<le> 2
               then rsp_part3 (Tr n)
               else rsp_part1 (Tr n)
             else if n \<le> 6
              then rsp_part2 (Tr n)
              else if n \<le> 7
               then rsp_part1 (Tr n)
               else rsp_part2 (Tr n)
            else if n \<le> 14
             then if n \<le> 9
              then rsp_part1 (Tr n)
              else if n \<le> 13
               then rsp_part2 (Tr n)
               else rsp_part3 (Tr n)
             else if n \<le> 15
              then rsp_part1 (Tr n)
              else if n \<le> 18
               then rsp_part2 (Tr n)
               else rsp_part3 (Tr n)
           else if n \<le> 41
            then if n \<le> 35
             then if n \<le> 32
              then rsp_part4 (Tr n)
              else if n \<le> 33
               then rsp_part5 (Tr n)
               else rsp_part4 (Tr n)
             else if n \<le> 36
              then rsp_part5 (Tr n)
              else if n \<le> 37
               then rsp_part9 (Tr n)
               else rsp_part5 (Tr n)
            else if n \<le> 45
             then if n \<le> 42
              then rsp_part4 (Tr n)
              else if n \<le> 43
               then rsp_part5 (Tr n)
               else rsp_part4 (Tr n)
             else if n \<le> 46
              then rsp_part5 (Tr n)
              else if n \<le> 58
               then rsp_part8 (Tr n)
               else rsp_part7 (Tr n)
          else if n \<le> 103
           then if n \<le> 76
            then if n \<le> 66
             then if n \<le> 60
              then rsp_part8 (Tr n)
              else if n \<le> 62
               then rsp_part18 (Tr n)
               else rsp_part16 (Tr n)
             else if n \<le> 74
              then rsp_part1 (Tr n)
              else if n \<le> 75
               then rsp_part2 (Tr n)
               else rsp_part4 (Tr n)
            else if n \<le> 97
             then if n \<le> 77
              then rsp_part5 (Tr n)
              else if n \<le> 78
               then rsp_part9 (Tr n)
               else rsp_part12 (Tr n)
             else if n \<le> 99
              then rsp_part15 (Tr n)
              else if n \<le> 101
               then rsp_part13 (Tr n)
               else rsp_part14 (Tr n)
           else if n \<le> 137
            then if n \<le> 112
             then if n \<le> 104
              then rsp_part13 (Tr n)
              else if n \<le> 111
               then rsp_part4 (Tr n)
               else rsp_part13 (Tr n)
             else if n \<le> 113
              then rsp_part4 (Tr n)
              else if n \<le> 136
               then rsp_part8 (Tr n)
               else rsp_part16 (Tr n)
            else if n \<le> 152
             then if n \<le> 149
              then rsp_part20 (Tr n)
              else if n \<le> 150
               then rsp_part21 (Tr n)
               else rsp_part22 (Tr n)
             else if n \<le> 157
              then rsp_part21 (Tr n)
              else if n \<le> 158
               then rsp_part4 (Tr n)
               else rsp_part5 (Tr n)))"

definition rsp_state :: "int \<Rightarrow> code" where
  "rsp_state n = (case rsp_item (St n) of State c \<Rightarrow> c | Trans as m \<Rightarrow> Plain [] (St 0))"

definition rsp_trans :: "int \<Rightarrow> act list \<times> int" where
  "rsp_trans n = (case rsp_item (Tr n) of Trans as m \<Rightarrow> (as, m) | State c \<Rightarrow> ([], 0))"

definition rsp_machine :: machine where
  "rsp_machine = \<lparr>mc_state = (\<lambda>n. if 1 \<le> n \<and> n \<le> 123 then Some (rsp_state n) else None), mc_trans = rsp_trans\<rparr>"

end
