(* ===== verification/Cool_Http.thy ===== *)
theory Cool_Http
  imports Cool_Text Cool_Containers "HOL-Library.List_Lexorder"
begin

text \<open>
  HTTP messages (src/http/http.h, src/http/http.cpp): methods and status codes with their texts, header maps ordered
  without regard to case, requests and responses, and how they are written out. \<open>boost::lexical_cast\<close> is a parameter.
\<close>

section \<open>Methods and status codes\<close>

datatype http_method =
    DELETE | GET | HEAD | POST | PUT | CONNECT | OPTIONS | TRACE | COPY | LOCK | MKCOL | MOVE | PROPFIND |
    PROPPATCH | SEARCH | UNLOCK | BIND | REBIND | UNBIND | ACL | REPORT | MKACTIVITY | CHECKOUT | MERGE | MSEARCH |
    NOTIFY | SUBSCRIBE | UNSUBSCRIBE | PATCH | PURGE | MKCALENDAR | LINK | UNLINK | SOURCE | INVALID_METHOD

text \<open>The texts are the stringized third arguments of \<open>HTTP_METHOD_MAP\<close> and \<open>HTTP_STATUS_MAP\<close>, blanks included.\<close>

definition method_map :: "(http_method \<times> string) list" where
  "method_map =
     [(DELETE, ''DELETE''), (GET, ''GET''), (HEAD, ''HEAD''), (POST, ''POST''), (PUT, ''PUT''),
      (CONNECT, ''CONNECT''), (OPTIONS, ''OPTIONS''), (TRACE, ''TRACE''), (COPY, ''COPY''), (LOCK, ''LOCK''),
      (MKCOL, ''MKCOL''), (MOVE, ''MOVE''), (PROPFIND, ''PROPFIND''), (PROPPATCH, ''PROPPATCH''),
      (SEARCH, ''SEARCH''), (UNLOCK, ''UNLOCK''), (BIND, ''BIND''), (REBIND, ''REBIND''), (UNBIND, ''UNBIND''),
      (ACL, ''ACL''), (REPORT, ''REPORT''), (MKACTIVITY, ''MKACTIVITY''), (CHECKOUT, ''CHECKOUT''),
      (MERGE, ''MERGE''), (MSEARCH, ''M - SEARCH''), (NOTIFY, ''NOTIFY''), (SUBSCRIBE, ''SUBSCRIBE''),
      (UNSUBSCRIBE, ''UNSUBSCRIBE''), (PATCH, ''PATCH''), (PURGE, ''PURGE''), (MKCALENDAR, ''MKCALENDAR''),
      (LINK, ''LINK''), (UNLINK, ''UNLINK''), (SOURCE, ''SOURCE'')]"

definition status_map :: "(int \<times> string) list" where
  "status_map =
     [(100, ''Continue''), (101, ''Switching Protocols''), (102, ''Processing''), (200, ''OK''), (201, ''Created''),
      (202, ''Accepted''), (203, ''Non - Authoritative Information''), (204, ''No Content''),
      (205, ''Reset Content''), (206, ''Partial Content''), (207, ''Multi - Status''), (208, ''Already Reported''),
      (226, ''IM Used''), (300, ''Multiple Choices''), (301, ''Moved Permanently''), (302, ''Found''),
      (303, ''See Other''), (304, ''Not Modified''), (305, ''Use Proxy''), (307, ''Temporary Redirect''),
      (308, ''Permanent Redirect''), (400, ''Bad Request''), (401, ''Unauthorized''), (402, ''Payment Required''),
      (403, ''Forbidden''), (404, ''Not Found''), (405, ''Method Not Allowed''), (406, ''Not Acceptable''),
      (407, ''Proxy Authentication Required''), (408, ''Request Timeout''), (409, ''Conflict''), (410, ''Gone''),
      (411, ''Length Required''), (412, ''Precondition Failed''), (413, ''Payload Too Large''),
      (414, ''URI Too Long''), (415, ''Unsupported Media Type''), (416, ''Range Not Satisfiable''),
      (417, ''Expectation Failed''), (421, ''Misdirected Request''), (422, ''Unprocessable Entity''),
      (423, ''Locked''), (424, ''Failed Dependency''), (426, ''Upgrade Required''), (428, ''Precondition Required''),
      (429, ''Too Many Requests''), (431, ''Request Header Fields Too Large''),
      (451, ''Unavailable For Legal Reasons''), (500, ''Internal Server Error''), (501, ''Not Implemented''),
      (502, ''Bad Gateway''), (503, ''Service Unavailable''), (504, ''Gateway Timeout''),
      (505, ''HTTP Version Not Supported''), (506, ''Variant Also Negotiates''), (507, ''Insufficient Storage''),
      (508, ''Loop Detected''), (510, ''Not Extended''), (511, ''Network Authentication Required'')]"

fun first_method :: "(string \<Rightarrow> bool) \<Rightarrow> (http_method \<times> string) list \<Rightarrow> http_method" where
  "first_method P [] = INVALID_METHOD"
| "first_method P ((m, s) # ms) = (if P s then m else first_method P ms)"

text \<open>\<open>strcmp\<close> sees the string up to its first NUL.\<close>

definition string_to_http_method :: "string \<Rightarrow> http_method" where
  "string_to_http_method v = first_method (\<lambda>s. s = c_str v) method_map"

text \<open>
  \<open>strncmp (s, v, strlen (s))\<close> on the characters from \<open>v\<close> to the end of what has been read: it stops at the first
  difference, and reads beyond the end if there is none before.
\<close>

fun strncmp_eq :: "string \<Rightarrow> string \<Rightarrow> bool outcome" where
  "strncmp_eq [] v = Inr True"
| "strncmp_eq (c # s) [] = Inl Out_of_bounds"
| "strncmp_eq (c # s) (d # v) = (if c = d then strncmp_eq s v else Inr False)"

fun first_prefix :: "string \<Rightarrow> (http_method \<times> string) list \<Rightarrow> http_method outcome" where
  "first_prefix v [] = Inr INVALID_METHOD"
| "first_prefix v ((m, s) # ms) = bindE (strncmp_eq s v) (\<lambda>eq. if eq then Inr m else first_prefix v ms)"

definition chars_to_http_methd :: "string \<Rightarrow> http_method outcome" where
  "chars_to_http_methd v = first_prefix v method_map"

fun method_index :: "http_method \<Rightarrow> (http_method \<times> string) list \<Rightarrow> nat" where
  "method_index m [] = 0"
| "method_index m ((k, s) # ms) = (if k = m then 0 else Suc (method_index m ms))"

definition http_method_to_chars :: "http_method \<Rightarrow> string" where
  "http_method_to_chars v =
     (let index = method_index v method_map
      in if index \<ge> length method_map then ''<unknow>'' else snd (method_map ! index))"

text \<open>A status is the integer behind the enumeration, which casts can give any value.\<close>

definition http_status_to_chars :: "int \<Rightarrow> string" where
  "http_status_to_chars v = (case map_of status_map v of Some msg \<Rightarrow> msg | None \<Rightarrow> ''<unknow>'')"

section \<open>Header maps\<close>

text \<open>\<open>strcasecmp\<close> compares the lower-case characters up to the first NUL.\<close>

definition ci_key :: "string \<Rightarrow> int list" where
  "ci_key s = map (\<lambda>c. of_char (tolower c)) (c_str s)"

definition CaseInsensitiveLess :: "string \<Rightarrow> string \<Rightarrow> bool" where
  "CaseInsensitiveLess lhs rhs \<longleftrightarrow> ci_key lhs < ci_key rhs"

definition strcasecmp_eq :: "string \<Rightarrow> string \<Rightarrow> bool" where
  "strcasecmp_eq a b \<longleftrightarrow> ci_key a = ci_key b"

type_synonym header_map = "(string \<times> string) list"

definition hm_get :: "string \<Rightarrow> header_map \<Rightarrow> string option" where
  "hm_get = omap_get CaseInsensitiveLess"

definition hm_set :: "string \<Rightarrow> string \<Rightarrow> header_map \<Rightarrow> header_map" where
  "hm_set = omap_put CaseInsensitiveLess"

definition hm_del :: "string \<Rightarrow> header_map \<Rightarrow> header_map" where
  "hm_del = omap_erase CaseInsensitiveLess"

text \<open>\<open>cast\<close> is \<open>boost::lexical_cast\<close>, \<^const>\<open>None\<close> where it throws.\<close>

definition checkGetAs :: "(string \<Rightarrow> 'a option) \<Rightarrow> header_map \<Rightarrow> string \<Rightarrow> 'a \<Rightarrow> bool \<times> 'a" where
  "checkGetAs cast m key def =
     (case hm_get key m of
        None \<Rightarrow> (False, def)
      | Some s \<Rightarrow> (case cast s of Some v \<Rightarrow> (True, v) | None \<Rightarrow> (False, def)))"

definition getAs :: "(string \<Rightarrow> 'a option) \<Rightarrow> header_map \<Rightarrow> string \<Rightarrow> 'a \<Rightarrow> 'a" where
  "getAs cast m key def =
     (case hm_get key m of
        None \<Rightarrow> def
      | Some s \<Rightarrow> (case cast s of Some v \<Rightarrow> v | None \<Rightarrow> def))"

section \<open>Requests\<close>

record http_request =
  rq_method :: http_method
  rq_version :: "8 word"
  rq_close :: bool
  rq_path :: string
  rq_query :: string
  rq_fragment :: string
  rq_body :: string
  rq_headers :: header_map
  rq_params :: header_map
  rq_cookies :: header_map

definition HttpRequest_new :: "8 word \<Rightarrow> bool \<Rightarrow> http_request" where
  "HttpRequest_new version close =
     \<lparr>rq_method = GET, rq_version = version, rq_close = close, rq_path = ''/'', rq_query = [], rq_fragment = [], rq_body = [],
      rq_headers = [], rq_params = [], rq_cookies = []\<rparr>"

definition getHeader :: "string \<Rightarrow> string \<Rightarrow> http_request \<Rightarrow> string" where
  "getHeader key def r = (case hm_get key (rq_headers r) of None \<Rightarrow> def | Some v \<Rightarrow> v)"

definition getParam :: "string \<Rightarrow> string \<Rightarrow> http_request \<Rightarrow> string" where
  "getParam key def r = (case hm_get key (rq_params r) of None \<Rightarrow> def | Some v \<Rightarrow> v)"

definition getCookie :: "string \<Rightarrow> string \<Rightarrow> http_request \<Rightarrow> string" where
  "getCookie key def r = (case hm_get key (rq_cookies r) of None \<Rightarrow> def | Some v \<Rightarrow> v)"

definition setHeader :: "string \<Rightarrow> string \<Rightarrow> http_request \<Rightarrow> http_request" where
  "setHeader key val r = r\<lparr>rq_headers := hm_set key val (rq_headers r)\<rparr>"

definition setParam :: "string \<Rightarrow> string \<Rightarrow> http_request \<Rightarrow> http_request" where
  "setParam key val r = r\<lparr>rq_params := hm_set key val (rq_params r)\<rparr>"

definition setCookie :: "string \<Rightarrow> string \<Rightarrow> http_request \<Rightarrow> http_request" where
  "setCookie key val r = r\<lparr>rq_cookies := hm_set key val (rq_cookies r)\<rparr>"

definition delHeader :: "string \<Rightarrow> http_request \<Rightarrow> http_request" where
  "delHeader key r = r\<lparr>rq_headers := hm_del key (rq_headers r)\<rparr>"

definition delParam :: "string \<Rightarrow> http_request \<Rightarrow> http_request" where
  "delParam key r = r\<lparr>rq_params := hm_del key (rq_params r)\<rparr>"

text \<open>\<open>delCookie\<close> erases from the parameters.\<close>

definition delCookie :: "string \<Rightarrow> http_request \<Rightarrow> http_request" where
  "delCookie key r = r\<lparr>rq_params := hm_del key (rq_params r)\<rparr>"

text \<open>\<open>out\<close>: a pointer for the value was given; the default is a null pointer, which is written through all the same.\<close>

definition has_value :: "string option \<Rightarrow> bool \<Rightarrow> (bool \<times> string option) outcome" where
  "has_value found out =
     (case found of
        None \<Rightarrow> Inr (False, None)
      | Some v \<Rightarrow> if out then Inr (True, Some v) else Inl Null_deref)"

definition hasHeader :: "string \<Rightarrow> bool \<Rightarrow> http_request \<Rightarrow> (bool \<times> string option) outcome" where
  "hasHeader key out r = has_value (hm_get key (rq_headers r)) out"

definition hasParam :: "string \<Rightarrow> bool \<Rightarrow> http_request \<Rightarrow> (bool \<times> string option) outcome" where
  "hasParam key out r = has_value (hm_get key (rq_params r)) out"

definition hasCookie :: "string \<Rightarrow> bool \<Rightarrow> http_request \<Rightarrow> (bool \<times> string option) outcome" where
  "hasCookie key out r = has_value (hm_get key (rq_cookies r)) out"

text \<open>The values as other types.\<close>

definition checkGetHeaderAs :: "(string \<Rightarrow> 'a option) \<Rightarrow> string \<Rightarrow> 'a \<Rightarrow> http_request \<Rightarrow> bool \<times> 'a" where
  "checkGetHeaderAs cast key def r = checkGetAs cast (rq_headers r) key def"

definition getHeaderAs :: "(string \<Rightarrow> 'a option) \<Rightarrow> string \<Rightarrow> 'a \<Rightarrow> http_request \<Rightarrow> 'a" where
  "getHeaderAs cast key def r = getAs cast (rq_headers r) key def"

definition checkGetParamAs :: "(string \<Rightarrow> 'a option) \<Rightarrow> string \<Rightarrow> 'a \<Rightarrow> http_request \<Rightarrow> bool \<times> 'a" where
  "checkGetParamAs cast key def r = checkGetAs cast (rq_params r) key def"

definition getParamAs :: "(string \<Rightarrow> 'a option) \<Rightarrow> string \<Rightarrow> 'a \<Rightarrow> http_request \<Rightarrow> 'a" where
  "getParamAs cast key def r = getAs cast (rq_params r) key def"

definition checkGetCookieAs :: "(string \<Rightarrow> 'a option) \<Rightarrow> string \<Rightarrow> 'a \<Rightarrow> http_request \<Rightarrow> bool \<times> 'a" where
  "checkGetCookieAs cast key def r = checkGetAs cast (rq_cookies r) key def"

definition getCookieAs :: "(string \<Rightarrow> 'a option) \<Rightarrow> string \<Rightarrow> 'a \<Rightarrow> http_request \<Rightarrow> 'a" where
  "getCookieAs cast key def r = getAs cast (rq_cookies r) key def"

section \<open>Responses\<close>

record http_response =
  rp_status :: int
  rp_version :: "8 word"
  rp_close :: bool
  rp_body :: string
  rp_reason :: string
  rp_headers :: header_map

definition HttpResponse_new :: "8 word \<Rightarrow> bool \<Rightarrow> http_response" where
  "HttpResponse_new version close =
     \<lparr>rp_status = 200, rp_version = version, rp_close = close, rp_body = [], rp_reason = [], rp_headers = []\<rparr>"

definition rsp_getHeader :: "string \<Rightarrow> string \<Rightarrow> http_response \<Rightarrow> string" where
  "rsp_getHeader key def r = (case hm_get key (rp_headers r) of None \<Rightarrow> def | Some v \<Rightarrow> v)"

definition rsp_setHeader :: "string \<Rightarrow> string \<Rightarrow> http_response \<Rightarrow> http_response" where
  "rsp_setHeader key val r = r\<lparr>rp_headers := hm_set key val (rp_headers r)\<rparr>"

definition rsp_delHeader :: "string \<Rightarrow> http_response \<Rightarrow> http_response" where
  "rsp_delHeader key r = r\<lparr>rp_headers := hm_del key (rp_headers r)\<rparr>"

definition rsp_checkGetHeaderAs :: "(string \<Rightarrow> 'a option) \<Rightarrow> string \<Rightarrow> 'a \<Rightarrow> http_response \<Rightarrow> bool \<times> 'a" where
  "rsp_checkGetHeaderAs cast key def r = checkGetAs cast (rp_headers r) key def"

definition rsp_getHeaderAs :: "(string \<Rightarrow> 'a option) \<Rightarrow> string \<Rightarrow> 'a \<Rightarrow> http_response \<Rightarrow> 'a" where
  "rsp_getHeaderAs cast key def r = getAs cast (rp_headers r) key def"

section \<open>Writing out\<close>

definition CRLF :: string where
  "CRLF = [CHR 0x0D, CHR 0x0A]"

definition version_text :: "8 word \<Rightarrow> string" where
  "version_text v = ''HTTP/'' @ dec (unat (drop_bit 4 v)) @ ''.'' @ dec (unat (v AND 0x0F))"

definition connection_text :: "bool \<Rightarrow> string" where
  "connection_text close = ''Connection: '' @ (if close then ''close'' else ''keep-alive'') @ CRLF"

definition headers_text :: "string \<Rightarrow> header_map \<Rightarrow> string" where
  "headers_text sep m =
     concat (map (\<lambda>(k, v). if strcasecmp_eq k ''Connection'' then [] else k @ sep @ v @ CRLF) m)"

definition body_text :: "string \<Rightarrow> string" where
  "body_text body =
     (if body \<noteq> [] then ''Content-Length: '' @ dec (length body) @ CRLF @ CRLF @ body else CRLF)"

definition request_dump :: "http_request \<Rightarrow> string" where
  "request_dump r =
     http_method_to_chars (rq_method r) @ '' '' @ rq_path r @ (if rq_query r = [] then [] else ''?'') @ rq_query r
     @ (if rq_fragment r = [] then [] else ''#'') @ rq_fragment r @ '' '' @ version_text (rq_version r) @ CRLF
     @ connection_text (rq_close r) @ headers_text '':'' (rq_headers r) @ body_text (rq_body r)"

definition response_dump :: "http_response \<Rightarrow> string" where
  "response_dump r =
     version_text (rp_version r) @ '' '' @ dec (unat (word_of_int (rp_status r) :: u32)) @ '' ''
     @ (if rp_reason r = [] then http_status_to_chars (rp_status r) else rp_reason r) @ CRLF
     @ headers_text '': '' (rp_headers r) @ connection_text (rp_close r) @ body_text (rp_body r)"

definition request_to_string :: "http_request \<Rightarrow> string" where
  "request_to_string r = request_dump r"

definition response_to_string :: "http_response \<Rightarrow> string" where
  "response_to_string r = response_dump r"

section \<open>Properties\<close>

lemma CaseInsensitiveLess_iff: "CaseInsensitiveLess a b \<longleftrightarrow> ci_key a < ci_key b"
  by (simp add: CaseInsensitiveLess_def)

interpretation header_order: weak_order CaseInsensitiveLess
  by unfold_locales (auto simp: CaseInsensitiveLess_iff)

lemma equiv_by_header [simp]: "equiv_by CaseInsensitiveLess a b \<longleftrightarrow> ci_key a = ci_key b"
  by (auto simp: equiv_by_def CaseInsensitiveLess_iff)

abbreviation hm_sorted :: "header_map \<Rightarrow> bool" where
  "hm_sorted m \<equiv> ord_sorted CaseInsensitiveLess fst m"

lemma hm_set_sorted [simp]: "hm_sorted m \<Longrightarrow> hm_sorted (hm_set k v m)"
  by (simp add: hm_set_def header_order.put_sorted)

lemma hm_del_sorted [simp]: "hm_sorted m \<Longrightarrow> hm_sorted (hm_del k m)"
  by (simp add: hm_del_def omap_erase_def)

lemma hm_get_set: "hm_sorted m \<Longrightarrow> hm_get k' (hm_set k v m) = (if ci_key k = ci_key k' then Some v else hm_get k' m)"
  by (simp add: hm_get_def hm_set_def header_order.get_put)

lemma hm_get_del: "hm_sorted m \<Longrightarrow> hm_get k' (hm_del k m) = (if ci_key k = ci_key k' then None else hm_get k' m)"
  by (simp add: hm_get_def hm_del_def header_order.get_erase)

text \<open>A history of updates of a header map, as the map and as a partial function of the folded names.\<close>

datatype hm_op = Set string string | Del string

fun hm_run :: "hm_op list \<Rightarrow> header_map \<Rightarrow> header_map" where
  "hm_run [] m = m"
| "hm_run (Set k v # ops) m = hm_run ops (hm_set k v m)"
| "hm_run (Del k # ops) m = hm_run ops (hm_del k m)"

fun hm_spec :: "hm_op list \<Rightarrow> (int list \<Rightarrow> string option) \<Rightarrow> int list \<Rightarrow> string option" where
  "hm_spec [] s = s"
| "hm_spec (Set k v # ops) s = hm_spec ops (s(ci_key k := Some v))"
| "hm_spec (Del k # ops) s = hm_spec ops (s(ci_key k := None))"

lemma hm_run_spec:
  assumes "hm_sorted m" and "\<forall>k. hm_get k m = s (ci_key k)"
  shows "hm_sorted (hm_run ops m) \<and> (\<forall>k. hm_get k (hm_run ops m) = hm_spec ops s (ci_key k))"
  using assms
proof (induction ops arbitrary: m s)
  case (Cons op ops)
  show ?case
  proof (cases op)
    case (Set k v)
    then show ?thesis using Cons.IH [of "hm_set k v m" "s(ci_key k := Some v)"] Cons.prems by (simp add: hm_get_set fun_upd_def)
  next
    case (Del k)
    then show ?thesis using Cons.IH [of "hm_del k m" "s(ci_key k := None)"] Cons.prems by (simp add: hm_get_del fun_upd_def)
  qed
qed simp

lemma hm_get_Nil [simp]: "hm_get k [] = None"
  by (simp add: hm_get_def omap_get_def)


text \<open>Every method's text is recognized again, as a string and, but for the one with blanks, before a blank in a request line.\<close>

lemma method_round_trip: "m \<noteq> INVALID_METHOD \<Longrightarrow> string_to_http_method (http_method_to_chars m) = m"
  by (cases m) (simp_all add: http_method_to_chars_def string_to_http_method_def method_map_def c_str_def)

lemma method_line:
  "m \<noteq> INVALID_METHOD \<Longrightarrow> m \<noteq> MSEARCH \<Longrightarrow> chars_to_http_methd (http_method_to_chars m @ CHR '' '' # rest) = Inr m"
  by (cases m) (simp_all add: http_method_to_chars_def chars_to_http_methd_def method_map_def)

text \<open>Names that merely begin with a method are taken for it.\<close>

lemma method_prefix: "chars_to_http_methd ''GETAWAY /'' = Inr GET"
  by (simp add: chars_to_http_methd_def method_map_def)

end
