(* ===== verification/Cool_HttpParser.thy ===== *)
theory Cool_HttpParser
  imports Cool_RequestMachine Cool_ResponseMachine Cool_Http
begin

text \<open>
  Parsing HTTP messages (src/http/http_parser.h, src/http/http_parser.cpp, and the actions and the driver functions of
  src/http/http11_parser.rl.cpp and src/http/httpclient_parser.rl.cpp): the actions of the scanners, the callbacks that fill a request or
  a response, and the functions that run a scanner over a buffer.
\<close>

section \<open>The parser structures\<close>

record http_parser =
  hp_cs :: int
  hp_body_start :: nat
  hp_content_len :: int
  hp_nread :: nat
  hp_mark :: nat
  hp_field_start :: nat
  hp_field_len :: nat
  hp_query_start :: nat
  hp_xml_sent :: bool
  hp_json_sent :: bool
  hp_uri_relaxed :: bool

text \<open>Initialisation does not touch \<open>query_start\<close> and \<open>uri_relaxed\<close>, which keep what the memory held.\<close>

definition http_parser_init :: "http_parser \<Rightarrow> http_parser" where
  "http_parser_init h =
     h\<lparr>hp_cs := 1, hp_body_start := 0, hp_content_len := 0, hp_mark := 0, hp_nread := 0, hp_field_len := 0, hp_field_start := 0,
       hp_xml_sent := False, hp_json_sent := False\<rparr>"

definition http_parser_has_error :: "http_parser \<Rightarrow> bool" where
  "http_parser_has_error h \<longleftrightarrow> hp_cs h = 0"

definition http_parser_is_finished :: "http_parser \<Rightarrow> bool" where
  "http_parser_is_finished h \<longleftrightarrow> hp_cs h \<ge> 348"

definition http_parser_finish :: "http_parser \<Rightarrow> int" where
  "http_parser_finish h = (if http_parser_has_error h then - 1 else if http_parser_is_finished h then 1 else 0)"

text \<open>\<open>HttpRequestParser\<close>: the C structure, the error code and the request being filled.\<close>

record req_parser =
  qp_parser :: http_parser
  qp_error :: int
  qp_data :: http_request

definition HttpRequestParser_new :: "http_parser \<Rightarrow> req_parser" where
  "HttpRequestParser_new junk = \<lparr>qp_parser = http_parser_init junk, qp_error = 0, qp_data = HttpRequest_new 0x11 True\<rparr>"

definition upd_hp :: "(http_parser \<Rightarrow> http_parser) \<Rightarrow> req_parser \<Rightarrow> req_parser" where
  "upd_hp f q = q\<lparr>qp_parser := f (qp_parser q)\<rparr>"

definition upd_req :: "(http_request \<Rightarrow> http_request) \<Rightarrow> req_parser \<Rightarrow> req_parser" where
  "upd_req f q = q\<lparr>qp_data := f (qp_data q)\<rparr>"

section \<open>The callbacks of requests\<close>

text \<open>\<open>std::string (buffer + at, n)\<close>, which reads the buffer; a length that wrapped around is more than a string can hold.\<close>

definition text_at :: "string \<Rightarrow> nat \<Rightarrow> nat \<Rightarrow> string outcome" where
  "text_at buf at n = (if at + n \<le> length buf then Inr (take n (drop at buf)) else Inl Out_of_bounds)"

definition LEN :: "nat \<Rightarrow> nat \<Rightarrow> nat outcome" where
  "LEN at p = (if at \<le> p then Inr (p - at) else Inl (Exception ''length_error''))"

definition marked :: "string \<Rightarrow> nat \<Rightarrow> nat \<Rightarrow> string outcome" where
  "marked buf at p = bindE (LEN at p) (\<lambda>n. text_at buf at n)"

definition on_request_method :: "string \<Rightarrow> req_parser \<Rightarrow> req_parser outcome" where
  "on_request_method at q =
     bindE (chars_to_http_methd at) (\<lambda>m.
       if m = INVALID_METHOD then Inr (q\<lparr>qp_error := 1000\<rparr>) else Inr (upd_req (\<lambda>r. r\<lparr>rq_method := m\<rparr>) q))"

definition on_request_fragment :: "string \<Rightarrow> req_parser \<Rightarrow> req_parser" where
  "on_request_fragment v q = upd_req (\<lambda>r. r\<lparr>rq_fragment := v\<rparr>) q"

definition on_request_path :: "string \<Rightarrow> req_parser \<Rightarrow> req_parser" where
  "on_request_path v q = upd_req (\<lambda>r. r\<lparr>rq_path := v\<rparr>) q"

definition on_request_query :: "string \<Rightarrow> req_parser \<Rightarrow> req_parser" where
  "on_request_query v q = upd_req (\<lambda>r. r\<lparr>rq_query := v\<rparr>) q"

text \<open>\<open>strncmp (at, text, length)\<close> compares at most \<open>length\<close> characters, and no more than the text has.\<close>

definition version_of :: "string \<Rightarrow> 8 word option" where
  "version_of v =
     (if take (length v) ''HTTP/1.1'' = take 8 v then Some 0x11
      else if take (length v) ''HTTP/1.0'' = take 8 v then Some 0x10 else None)"

definition on_request_version :: "string \<Rightarrow> req_parser \<Rightarrow> req_parser" where
  "on_request_version v q =
     (case version_of v of
        None \<Rightarrow> q\<lparr>qp_error := 1001\<rparr>
      | Some x \<Rightarrow> upd_req (\<lambda>r. r\<lparr>rq_version := x\<rparr>) q)"

definition on_request_http_field :: "string \<Rightarrow> string \<Rightarrow> req_parser \<Rightarrow> req_parser" where
  "on_request_http_field field val q = (if length field = 0 then q else upd_req (setHeader field val) q)"

section \<open>The actions of requests\<close>

text \<open>The actions of the scanner at position \<open>p\<close> of \<open>buf\<close>; the callbacks for the URI and the end of the headers do nothing.\<close>

definition req_act :: "string \<Rightarrow> act \<Rightarrow> nat \<Rightarrow> req_parser \<Rightarrow> req_parser outcome" where
  "req_act buf a p q =
     (let h = qp_parser q in
      case a of
        Mark \<Rightarrow> Inr (upd_hp (\<lambda>h. h\<lparr>hp_mark := p\<rparr>) q)
      | Start_value \<Rightarrow> Inr (upd_hp (\<lambda>h. h\<lparr>hp_mark := p\<rparr>) q)
      | Start_field \<Rightarrow> Inr (upd_hp (\<lambda>h. h\<lparr>hp_field_start := p\<rparr>) q)
      | Write_field \<Rightarrow> bindE (LEN (hp_field_start h) p) (\<lambda>n. Inr (upd_hp (\<lambda>h. h\<lparr>hp_field_len := n\<rparr>) q))
      | Write_value \<Rightarrow>
          bindE (text_at buf (hp_field_start h) (hp_field_len h)) (\<lambda>field.
          bindE (marked buf (hp_mark h) p) (\<lambda>val. Inr (on_request_http_field field val q)))
      | Request_method \<Rightarrow> on_request_method (drop (hp_mark h) buf) q
      | Request_uri \<Rightarrow> Inr q
      | Fragment \<Rightarrow> bindE (marked buf (hp_mark h) p) (\<lambda>v. Inr (on_request_fragment v q))
      | Start_query \<Rightarrow> Inr (upd_hp (\<lambda>h. h\<lparr>hp_query_start := p\<rparr>) q)
      | Query_string \<Rightarrow> bindE (marked buf (hp_query_start h) p) (\<lambda>v. Inr (on_request_query v q))
      | Http_version \<Rightarrow> bindE (marked buf (hp_mark h) p) (\<lambda>v. Inr (on_request_version v q))
      | Request_path \<Rightarrow> bindE (marked buf (hp_mark h) p) (\<lambda>v. Inr (on_request_path v q))
      | Done \<Rightarrow>
          Inr (upd_hp (\<lambda>h. if hp_xml_sent h \<or> hp_json_sent h
                 then h\<lparr>hp_body_start := hp_mark h, hp_content_len := int p - int (hp_mark h) + 1\<rparr>
                 else h\<lparr>hp_body_start := p + 1\<rparr>) q)
      | Xml \<Rightarrow> Inr (upd_hp (\<lambda>h. h\<lparr>hp_xml_sent := True\<rparr>) q)
      | Json \<Rightarrow> Inr (upd_hp (\<lambda>h. h\<lparr>hp_json_sent := True\<rparr>) q)
      | _ \<Rightarrow> Inr q)"

text \<open>Every call forgets the marks of the one before; only the query mark survives.\<close>

definition http_parser_execute :: "string \<Rightarrow> nat \<Rightarrow> req_parser \<Rightarrow> (nat \<times> req_parser) outcome" where
  "http_parser_execute buf off q =
     (if length buf = 0 then Inr (0, q)
      else let q = upd_hp (\<lambda>h. h\<lparr>hp_nread := 0, hp_mark := 0, hp_field_len := 0, hp_field_start := 0\<rparr>) q;
               cs = hp_cs (qp_parser q) in
        bindE (assertE ''offset past end of buffer'' (off \<le> length buf)) (\<lambda>_.
        bindE (scan req_machine (hp_uri_relaxed (qp_parser q)) (req_act buf) (drop off buf) off cs q) (\<lambda>(p, cs, q).
        bindE (assertE ''Buffer overflow after parsing.'' (p \<le> length buf)) (\<lambda>_.
          let q = (if http_parser_has_error (qp_parser q) then q else upd_hp (\<lambda>h. h\<lparr>hp_cs := cs\<rparr>) q);
              q = upd_hp (\<lambda>h. h\<lparr>hp_nread := hp_nread h + (p - off)\<rparr>) q;
              h = qp_parser q in
          bindE (assertE ''nread longer than length'' (hp_nread h \<le> length buf)) (\<lambda>_.
          bindE (assertE ''body starts after buffer end'' (hp_body_start h \<le> length buf)) (\<lambda>_.
          bindE (assertE ''mark is after buffer end'' (hp_mark h < length buf)) (\<lambda>_.
          bindE (assertE ''field has length longer than whole buffer'' (hp_field_len h \<le> length buf)) (\<lambda>_.
          bindE (assertE ''field starts after buffer end'' (hp_field_start h < length buf)) (\<lambda>_.
            Inr (hp_nread h, q))))))))))"

text \<open>\<open>execute\<close> moves what was not consumed to the front; the bytes behind it stay as they were.\<close>

definition move_rest :: "string \<Rightarrow> nat \<Rightarrow> string" where
  "move_rest buf offset = drop offset buf @ drop (length buf - offset) buf"

definition req_execute :: "string \<Rightarrow> req_parser \<Rightarrow> (nat \<times> string \<times> req_parser) outcome" where
  "req_execute data q = bindE (http_parser_execute data 0 q) (\<lambda>(offset, q). Inr (offset, move_rest data offset, q))"

definition req_isFinished :: "req_parser \<Rightarrow> int" where
  "req_isFinished q = http_parser_finish (qp_parser q)"

definition req_hasError :: "req_parser \<Rightarrow> bool" where
  "req_hasError q \<longleftrightarrow> qp_error q \<noteq> 0 \<or> http_parser_has_error (qp_parser q)"

text \<open>\<open>to_u64\<close> is \<open>boost::lexical_cast\<close> to 64 bits.\<close>

definition req_content_length :: "(string \<Rightarrow> u64 option) \<Rightarrow> req_parser \<Rightarrow> u64" where
  "req_content_length to_u64 q = getHeaderAs to_u64 ''content-length'' 0 (qp_data q)"

section \<open>Responses\<close>

record httpclient_parser =
  cp_cs :: int
  cp_body_start :: nat
  cp_content_len :: int
  cp_status :: int
  cp_chunked :: bool
  cp_chunks_done :: bool
  cp_close :: bool
  cp_nread :: nat
  cp_mark :: nat
  cp_field_start :: nat
  cp_field_len :: nat

definition httpclient_parser_init :: "httpclient_parser \<Rightarrow> httpclient_parser" where
  "httpclient_parser_init h =
     h\<lparr>cp_cs := 1, cp_body_start := 0, cp_content_len := - 1, cp_chunked := False, cp_chunks_done := False, cp_mark := 0,
       cp_nread := 0, cp_field_len := 0, cp_field_start := 0, cp_close := False\<rparr>"

definition httpclient_parser_has_error :: "httpclient_parser \<Rightarrow> bool" where
  "httpclient_parser_has_error h \<longleftrightarrow> cp_cs h = 0"

definition httpclient_parser_is_finished :: "httpclient_parser \<Rightarrow> bool" where
  "httpclient_parser_is_finished h \<longleftrightarrow> cp_cs h = 120"

definition httpclient_parser_finish :: "httpclient_parser \<Rightarrow> int" where
  "httpclient_parser_finish h =
     (if httpclient_parser_has_error h then - 1 else if httpclient_parser_is_finished h then 1 else 0)"

record rsp_parser =
  sp_data :: http_response
  sp_error :: int
  sp_parser :: httpclient_parser

definition HttpResponseParser_new :: "httpclient_parser \<Rightarrow> rsp_parser" where
  "HttpResponseParser_new junk =
     \<lparr>sp_data = HttpResponse_new 0x11 True, sp_error = 0, sp_parser = httpclient_parser_init junk\<rparr>"

definition upd_cp :: "(httpclient_parser \<Rightarrow> httpclient_parser) \<Rightarrow> rsp_parser \<Rightarrow> rsp_parser" where
  "upd_cp f q = q\<lparr>sp_parser := f (sp_parser q)\<rparr>"

definition upd_rsp :: "(http_response \<Rightarrow> http_response) \<Rightarrow> rsp_parser \<Rightarrow> rsp_parser" where
  "upd_rsp f q = q\<lparr>sp_data := f (sp_data q)\<rparr>"

text \<open>
  \<open>strtol\<close> at a digit: the value of the digits there, at most the largest \<open>long\<close>; the result is stored in an \<open>int\<close>,
  as is that of \<open>atoi\<close>.
\<close>

definition digit_val :: "nat \<Rightarrow> char \<Rightarrow> nat option" where
  "digit_val base c =
     (let x = schar c;
          v = (if 48 \<le> x \<and> x \<le> 57 then Some (nat (x - 48))
               else if 97 \<le> x \<and> x \<le> 122 then Some (nat (x - 87))
               else if 65 \<le> x \<and> x \<le> 90 then Some (nat (x - 55)) else None)
      in case v of Some d \<Rightarrow> if d < base then Some d else None | None \<Rightarrow> None)"

definition strtol :: "nat \<Rightarrow> string \<Rightarrow> int" where
  "strtol base s =
     (let ds = map (\<lambda>c. the (digit_val base c)) (takeWhile (\<lambda>c. digit_val base c \<noteq> None) s)
      in min (int (undigits base ds)) (2 ^ 63 - 1))"

definition to_int :: "int \<Rightarrow> int" where
  "to_int v = sint (word_of_int v :: u32)"

definition on_response_reason :: "string \<Rightarrow> rsp_parser \<Rightarrow> rsp_parser" where
  "on_response_reason v q = upd_rsp (\<lambda>r. r\<lparr>rp_reason := v\<rparr>) q"

definition on_response_status :: "string \<Rightarrow> rsp_parser \<Rightarrow> rsp_parser" where
  "on_response_status at q = upd_rsp (\<lambda>r. r\<lparr>rp_status := to_int (strtol 10 at)\<rparr>) q"

definition on_response_version :: "string \<Rightarrow> rsp_parser \<Rightarrow> rsp_parser" where
  "on_response_version v q =
     (case version_of v of
        None \<Rightarrow> q\<lparr>sp_error := 1001\<rparr>
      | Some x \<Rightarrow> upd_rsp (\<lambda>r. r\<lparr>rp_version := x\<rparr>) q)"

definition on_response_http_field :: "string \<Rightarrow> string \<Rightarrow> rsp_parser \<Rightarrow> rsp_parser" where
  "on_response_http_field field val q =
     (if length field = 0 then q\<lparr>sp_error := 1002\<rparr> else upd_rsp (rsp_setHeader field val) q)"

text \<open>The callbacks for chunks and for the end of the headers do nothing.\<close>

definition rsp_act :: "string \<Rightarrow> act \<Rightarrow> nat \<Rightarrow> rsp_parser \<Rightarrow> rsp_parser outcome" where
  "rsp_act buf a p q =
     (let h = sp_parser q in
      case a of
        Mark \<Rightarrow> Inr (upd_cp (\<lambda>h. h\<lparr>cp_mark := p\<rparr>) q)
      | Start_value \<Rightarrow> Inr (upd_cp (\<lambda>h. h\<lparr>cp_mark := p\<rparr>) q)
      | Start_field \<Rightarrow> Inr (upd_cp (\<lambda>h. h\<lparr>cp_field_start := p\<rparr>) q)
      | Write_field \<Rightarrow> bindE (LEN (cp_field_start h) p) (\<lambda>n. Inr (upd_cp (\<lambda>h. h\<lparr>cp_field_len := n\<rparr>) q))
      | Write_content_len \<Rightarrow> Inr (upd_cp (\<lambda>h. h\<lparr>cp_content_len := to_int (strtol 10 (drop (cp_mark h) buf))\<rparr>) q)
      | Write_connection_close \<Rightarrow> Inr (upd_cp (\<lambda>h. h\<lparr>cp_close := True\<rparr>) q)
      | Write_value \<Rightarrow>
          bindE (text_at buf (cp_field_start h) (cp_field_len h)) (\<lambda>field.
          bindE (marked buf (cp_mark h) p) (\<lambda>val. Inr (on_response_http_field field val q)))
      | Reason_phrase \<Rightarrow> bindE (marked buf (cp_mark h) p) (\<lambda>v. Inr (on_response_reason v q))
      | Status_code \<Rightarrow>
          Inr (on_response_status (drop (cp_mark h) buf)
                (upd_cp (\<lambda>h. h\<lparr>cp_status := to_int (strtol 10 (drop (cp_mark h) buf))\<rparr>) q))
      | Http_version \<Rightarrow> bindE (marked buf (cp_mark h) p) (\<lambda>v. Inr (on_response_version v q))
      | Chunk_size \<Rightarrow>
          let len = to_int (strtol 16 (drop (cp_mark h) buf))
          in Inr (upd_cp (\<lambda>h. h\<lparr>cp_chunked := True, cp_content_len := len, cp_chunks_done := len \<le> 0\<rparr>) q)
      | Trans_chunked \<Rightarrow> Inr (upd_cp (\<lambda>h. h\<lparr>cp_chunked := True\<rparr>) q)
      | Done \<Rightarrow> Inr (upd_cp (\<lambda>h. h\<lparr>cp_body_start := p + 1\<rparr>) q)
      | _ \<Rightarrow> Inr q)"

text \<open>
  \<open>buf\<close> has the \<open>len\<close> characters to scan; \<open>behind\<close> is the one after them, which must be NUL. The last three checks
  return -1 instead of aborting.
\<close>

definition httpclient_parser_execute :: "string \<Rightarrow> char \<Rightarrow> nat \<Rightarrow> rsp_parser \<Rightarrow> (int \<times> rsp_parser) outcome" where
  "httpclient_parser_execute buf behind off q =
     bindE (assertE ''offset past end of buffer'' (off \<le> length buf)) (\<lambda>_.
     bindE (assertE ''pointer does not end on NUL'' (behind = CHR 0x00)) (\<lambda>_.
     bindE (scan rsp_machine False (rsp_act buf) (drop off buf) off (cp_cs (sp_parser q)) q) (\<lambda>(p, cs, q).
       let q = upd_cp (\<lambda>h. h\<lparr>cp_cs := cs, cp_nread := cp_nread h + (p - off)\<rparr>) q; h = sp_parser q in
       bindE (assertE ''buffer overflow after parsing execute'' (p \<le> length buf)) (\<lambda>_.
       bindE (assertE ''nread longer than length'' (cp_nread h \<le> length buf)) (\<lambda>_.
       bindE (assertE ''body starts after buffer end'' (cp_body_start h \<le> length buf)) (\<lambda>_.
         Inr (if cp_mark h < length buf \<and> cp_field_len h \<le> length buf \<and> cp_field_start h < length buf
              then int (cp_nread h) else - 1, q)))))))"

text \<open>The result -1 becomes the largest offset, and moving the rest then starts before the buffer.\<close>

definition rsp_execute :: "string \<Rightarrow> char \<Rightarrow> rsp_parser \<Rightarrow> (nat \<times> string \<times> rsp_parser) outcome" where
  "rsp_execute data behind q =
     bindE (httpclient_parser_execute data behind 0 q) (\<lambda>(offset, q).
       if offset < 0 then Inl Out_of_bounds else Inr (nat offset, move_rest data (nat offset), q))"

definition rsp_isFinished :: "rsp_parser \<Rightarrow> int" where
  "rsp_isFinished q = httpclient_parser_finish (sp_parser q)"

definition rsp_hasError :: "rsp_parser \<Rightarrow> bool" where
  "rsp_hasError q \<longleftrightarrow> sp_error q \<noteq> 0 \<or> httpclient_parser_has_error (sp_parser q)"

definition rsp_content_length :: "(string \<Rightarrow> u64 option) \<Rightarrow> rsp_parser \<Rightarrow> u64" where
  "rsp_content_length to_u64 q = rsp_getHeaderAs to_u64 ''content-length'' 0 (sp_data q)"

end
