(* ===== verification/Cool_RequestMoves.thy ===== *)
theory Cool_RequestMoves
  imports Cool_HttpParser
begin

text \<open>
  The moves of the request scanner over the characters a request is written with, read off its tables by evaluation: the
  actions and the next state in the states for the method, the URI, the version and the header fields.
\<close>

section \<open>Moves of the scanner\<close>

definition upper_digit :: string where
  "upper_digit = ''ABCDEFGHIJKLMNOPQRSTUVWXYZ0123456789''"

definition pchars :: string where
  "pchars = CHR 0x27 # ''!$&()*+,-.0123456789:;=@ABCDEFGHIJKLMNOPQRSTUVWXYZ_abcdefghijklmnopqrstuvwxyz~''"

definition tokens :: string where
  "tokens = CHR 0x27 # ''!#$%&*+-.0123456789ABCDEFGHIJKLMNOPQRSTUVWXYZ^_`abcdefghijklmnopqrstuvwxyz|~''"

definition blanks :: string where
  "blanks = [CHR 0x09, CHR '' '']"

text \<open>Every character but NUL, the line ends and DEL; and those of them that are not blank.\<close>

definition value_chars :: string where
  "value_chars = map char_of ([1..9] @ [11..12] @ [14..126] @ [128..255 :: int])"

definition value_starts :: string where
  "value_starts = map char_of ([1..8] @ [11..12] @ [14..31] @ [33..126] @ [128..255 :: int])"

definition hexes :: string where
  "hexes = ''0123456789abcdefABCDEF''"

definition agree :: "bool \<Rightarrow> (int \<times> string \<times> act list \<times> int) list \<Rightarrow> bool" where
  "agree relaxed t \<longleftrightarrow> list_all (\<lambda>(s, cs, as, n). list_all (\<lambda>c. moves req_machine relaxed s c as n) cs) t"

definition method_moves :: "(int \<times> string \<times> act list \<times> int) list" where
  "method_moves = (1, upper_digit, [Mark], 2) # (2, upper_digit, [], 175) # (2, '' '', [Request_method], 3) #
     map (\<lambda>i. (175 + i, upper_digit, [], 176 + i)) [0..17] @ map (\<lambda>i. (175 + i, '' '', [Request_method], 3)) [0..18]"

definition uri_moves :: "(int \<times> string \<times> act list \<times> int) list" where
  "uri_moves = [(3, ''/'', [Mark], 33), (33, pchars, [], 26), (33, ''%'', [], 27),
     (26, CHR ''/'' # pchars, [], 26), (26, ''%'', [], 27), (27, hexes, [], 28), (28, hexes, [], 26),
     (33, '' '', [Request_path, Request_uri], 4), (33, ''#'', [Request_path, Request_uri], 20), (33, ''?'', [Request_path], 29),
     (26, '' '', [Request_path, Request_uri], 4), (26, ''#'', [Request_path, Request_uri], 20), (26, ''?'', [Request_path], 29),
     (29, ''/?'' @ pchars, [Start_query], 30), (29, ''%'', [Start_query], 31),
     (30, ''/?'' @ pchars, [], 30), (30, ''%'', [], 31), (31, hexes, [], 32), (32, hexes, [], 30),
     (30, '' '', [Query_string, Request_uri], 4), (30, ''#'', [Query_string, Request_uri], 20),
     (20, ''/?'' @ pchars, [Mark], 21), (20, ''%'', [Mark], 22),
     (21, ''/?'' @ pchars, [], 21), (21, ''%'', [], 22), (22, hexes, [], 23), (23, hexes, [], 21), (21, '' '', [Fragment], 4)]"

definition field_moves :: "(int \<times> string \<times> act list \<times> int) list" where
  "field_moves = [(4, ''H'', [Mark], 5), (5, ''T'', [], 6), (6, ''T'', [], 7), (7, ''P'', [], 8), (8, ''/'', [], 9), (9, ''1'', [], 10),
     (10, ''.'', [], 11), (11, ''01'', [], 12), (12, [CHR 0x0D], [Http_version], 17), (17, [CHR 0x0A], [], 13),
     (13, tokens, [Start_field], 14), (14, tokens, [], 14), (14, '':'', [Write_field], 15), (15, blanks, [Start_value], 15),
     (15, value_starts, [Start_value], 16), (15, [CHR 0x0D], [Start_value, Write_value], 17), (16, value_chars, [], 16),
     (16, [CHR 0x0D], [Write_value], 17), (13, [CHR 0x0D], [Start_field], 18), (18, [CHR 0x0A], [Done], 348)]"

lemma method_moves_agree: "agree False method_moves \<and> agree True method_moves"
  by code_simp

lemma uri_moves_agree: "agree False uri_moves \<and> agree True uri_moves"
  by code_simp

lemma field_moves_agree: "agree False field_moves \<and> agree True field_moves"
  by code_simp

lemma agreeD:
  assumes "agree False t \<and> agree True t" and "(s, cs, as, n) \<in> set t" and "c \<in> set cs"
  shows "moves req_machine relaxed s c as n"
  using assms by (cases relaxed) (force simp: agree_def list_all_iff)+

lemmas method_move = agreeD [OF method_moves_agree]
lemmas uri_move = agreeD [OF uri_moves_agree]
lemmas field_move = agreeD [OF field_moves_agree]

end
