(* ===== verification/Cool_RequestTrip.thy ===== *)
theory Cool_RequestTrip
  imports Cool_RequestMoves
begin

text \<open>
  A request that was written out is read back: what the request scanner does on each part of a request, and that
  together they give the request.
\<close>

section \<open>Reading the parts of a request\<close>

abbreviation set_mark :: "nat \<Rightarrow> req_parser \<Rightarrow> req_parser" where
  "set_mark p \<equiv> upd_hp (\<lambda>h. h\<lparr>hp_mark := p\<rparr>)"

abbreviation set_query :: "nat \<Rightarrow> req_parser \<Rightarrow> req_parser" where
  "set_query p \<equiv> upd_hp (\<lambda>h. h\<lparr>hp_query_start := p\<rparr>)"

lemma qp_upd [simp]:
  "qp_parser (upd_hp f q) = f (qp_parser q)" "qp_data (upd_hp f q) = qp_data q" "qp_error (upd_hp f q) = qp_error q"
  "qp_parser (upd_req g q) = qp_parser q" "qp_data (upd_req g q) = g (qp_data q)" "qp_error (upd_req g q) = qp_error q"
  by (simp_all add: upd_hp_def upd_req_def)

lemma marked_middle [simp]:
  "marked (pre @ x @ post) (length pre) (length pre + length x) = Inr x"
  by (simp add: marked_def LEN_def text_at_def)

text \<open>The method: twenty states count its letters.\<close>

definition method_state :: "nat \<Rightarrow> int" where
  "method_state k = (if k = 1 then 2 else 173 + int k)"

lemma method_letters:
  assumes "1 \<le> k" and "k + length xs \<le> 20" and "set xs \<subseteq> set upper_digit"
  shows "scan req_machine relaxed f (xs @ rest) p (method_state k) q =
    scan req_machine relaxed f rest (p + length xs) (method_state (k + length xs)) q"
  using assms
proof (induction xs arbitrary: k p)
  case (Cons x xs)
  have "(method_state k, upper_digit, [], method_state (Suc k)) \<in> set method_moves"
  proof (cases "k = 1")
    case False
    then have "int k - 2 \<in> {0..17}" using Cons.prems(1,2) by auto
    then show ?thesis using False by (auto simp: method_moves_def method_state_def intro!: rev_image_eqI [of "int k - 2"])
  qed (simp add: method_moves_def method_state_def)
  then have m: "moves req_machine relaxed (method_state k) x [] (method_state (Suc k))"
    by (rule method_move) (use Cons.prems(3) in simp)
  have "method_state (Suc k) \<noteq> 0" by (simp add: method_state_def)
  then show ?case using Cons.IH [of "Suc k" "Suc p"] Cons.prems by (simp add: scan_silent [OF m])
qed simp

lemma scan_method:
  assumes "m \<noteq> []" and "length m \<le> 20" and "set m \<subseteq> set upper_digit" and "on_request_method buf (set_mark 0 q) = Inr q'"
  shows "scan req_machine relaxed (req_act buf) (m @ CHR '' '' # rest) 0 1 q =
    scan req_machine relaxed (req_act buf) rest (length m + 1) 3 q'"
proof -
  obtain c xs where m: "m = c # xs" using assms(1) by (cases m) auto
  have 1: "moves req_machine relaxed 1 c [Mark] 2"
    by (rule method_move [of 1 upper_digit]) (use assms(3) m in \<open>auto simp: method_moves_def\<close>)
  have "(method_state (length m), '' '', [Request_method], 3) \<in> set method_moves"
  proof (cases "length m = 1")
    case False
    then have "int (length m) - 2 \<in> {0..18}" using assms(1,2) by (cases m) auto
    then show ?thesis using False by (auto simp: method_moves_def method_state_def intro!: rev_image_eqI [of "int (length m) - 2"])
  qed (simp add: method_moves_def method_state_def)
  then have 3: "moves req_machine relaxed (method_state (length m)) (CHR '' '') [Request_method] 3"
    by (rule method_move) simp
  have s: "scan req_machine relaxed (req_act buf) (xs @ CHR '' '' # rest) (Suc 0) 2 (set_mark 0 q) =
      scan req_machine relaxed (req_act buf) (CHR '' '' # rest) (length m) (method_state (length m)) (set_mark 0 q)"
    using method_letters [of 1 xs relaxed "req_act buf" "CHR '' '' # rest" 1 "set_mark 0 q"] assms(2,3) m
    by (simp add: method_state_def)
  have a: "scan req_machine relaxed (req_act buf) (m @ CHR '' '' # rest) 0 1 q =
      scan req_machine relaxed (req_act buf) (xs @ CHR '' '' # rest) (Suc 0) 2 (set_mark 0 q)"
    by (simp add: m scan_step [OF 1, where d' = "set_mark 0 q"] req_act_def)
  have "do_acts (req_act buf) [Request_method] (length m) (set_mark 0 q) = Inr q'" using assms(4) by (simp add: req_act_def)
  then show ?thesis
    using scan_step [OF 3, of "req_act buf" "length m" "set_mark 0 q" q' rest] by (simp only: a s) simp
qed

text \<open>The path: an absolute one that does not begin with two slashes.\<close>

definition path_ok :: "string \<Rightarrow> bool" where
  "path_ok s \<longleftrightarrow> s \<noteq> [] \<and> hd s = CHR ''/'' \<and> (tl s \<noteq> [] \<longrightarrow> hd (tl s) \<noteq> CHR ''/'') \<and> pct_text (CHR ''/'' # pchars) (tl s)"

definition query_ok :: "string \<Rightarrow> bool" where
  "query_ok s \<longleftrightarrow> pct_text (''/?'' @ pchars) s"

lemma pchars_facts [simp]: "CHR ''%'' \<notin> set pchars" "CHR ''/'' \<notin> set pchars"
  by (simp_all add: pchars_def)

lemma uri_pct_loop:
  assumes "(s, P, [], s) \<in> set uri_moves" and "(s, ''%'', [], s1) \<in> set uri_moves" and "(s1, hexes, [], s2) \<in> set uri_moves"
    and "(s2, hexes, [], s) \<in> set uri_moves" and "s \<noteq> 0" "s1 \<noteq> 0" "s2 \<noteq> 0"
  shows "pct_loop req_machine relaxed P s s1 s2"
  unfolding pct_loop_def hexes_def [symmetric]
  using uri_move [OF assms(1)] uri_move [OF assms(2)] uri_move [OF assms(3)] uri_move [OF assms(4)] assms(5-7) by simp

lemma pct_loops:
  "pct_loop req_machine relaxed (CHR ''/'' # pchars) 26 27 28" "pct_loop req_machine relaxed (''/?'' @ pchars) 30 31 32"
  "pct_loop req_machine relaxed (''/?'' @ pchars) 21 22 23"
  by (rule uri_pct_loop; simp add: uri_moves_def)+

text \<open>A text whose first character is read in another state.\<close>

lemma scan_pct_first:
  assumes l: "pct_loop M relaxed P s s1 s2" and t: "pct_text P xs" "xs \<noteq> []"
    and m: "\<And>c. c \<in> set P \<Longrightarrow> c \<noteq> CHR ''%'' \<Longrightarrow> c = hd xs \<Longrightarrow> moves M relaxed s0 c as s" "moves M relaxed s0 (CHR ''%'') as s1"
    and a: "do_acts f as p d = Inr d'" "Done \<notin> set as"
  shows "scan M relaxed f (xs @ rest) p s0 d = scan M relaxed f rest (p + length xs) s d'"
proof (cases xs)
  case (Cons c cs)
  have ne: "s \<noteq> 0" "s1 \<noteq> 0" using l by (simp_all add: pct_loop_def)
  show ?thesis
  proof (cases "c = CHR ''%''")
    case True
    then obtain x y r where r: "cs = x # y # r" "x \<in> set ''0123456789abcdefABCDEF''" "y \<in> set ''0123456789abcdefABCDEF''" "pct_text P r"
      using t(1) Cons by (auto split: list.splits)
    show ?thesis
      using scan_pct [OF l r(4), of f rest] by (simp add: Cons True r(1) scan_step [OF m(2) ne(2) a(2,1)] pct_hex [OF l r(2,3)])
  next
    case False
    then have c: "c \<in> set P" "pct_text P cs" using t(1) Cons by auto
    show ?thesis
      using scan_pct [OF l c(2), of f rest] m(1) [OF c(1) False] Cons by (simp add: scan_step [OF _ ne(1) a(2,1)])
  qed
qed (use t in simp)

lemma scan_path:
  assumes ok: "path_ok path" and buf: "buf = pre @ path @ c # post"
    and c: "(c, as, n) \<in> {(CHR '' '', [Request_path, Request_uri], 4), (CHR ''#'', [Request_path, Request_uri], 20), (CHR ''?'', [Request_path], 29)}"
  shows "scan req_machine relaxed (req_act buf) (path @ c # rest) (length pre) 3 q =
    scan req_machine relaxed (req_act buf) rest (length pre + length path + 1) n (on_request_path path (set_mark (length pre) q))"
proof -
  obtain r where r: "path = CHR ''/'' # r" "pct_text (CHR ''/'' # pchars) r" "r \<noteq> [] \<longrightarrow> hd r \<noteq> CHR ''/''"
    using ok by (cases path) (auto simp: path_ok_def)
  let ?f = "req_act buf" and ?q = "set_mark (length pre) q"
  have 3: "moves req_machine relaxed 3 (CHR ''/'') [Mark] 33"
    by (rule uri_move [of 3 "''/''"]) (simp_all add: uri_moves_def)
  have m: "moves req_machine relaxed s c as n" if "s = 26 \<or> s = 33" for s
    by (rule uri_move [of s "[c]"]) (use c that in \<open>elim insertE emptyE disjE; simp add: uri_moves_def\<close>, simp)
  have n: "n \<noteq> 0" "Done \<notin> set as" using c by auto
  have "marked buf (length pre) (length pre + length path) = Inr path" by (simp add: buf)
  then have act: "do_acts ?f as (length pre + length path) ?q = Inr (on_request_path path ?q)"
    using c by (auto simp: req_act_def)
  have "\<exists>s. (s = 26 \<or> s = 33) \<and> scan req_machine relaxed ?f (r @ c # rest) (Suc (length pre)) 33 ?q =
      scan req_machine relaxed ?f (c # rest) (length pre + length path) s ?q"
  proof (cases "r = []")
    case False
    have p: "moves req_machine relaxed 33 (CHR ''%'') [] 27" by (rule uri_move [of 33 "''%''"]) (simp_all add: uri_moves_def)
    have "moves req_machine relaxed 33 x [] 26" if "x \<in> set (CHR ''/'' # pchars)" "x = hd r" for x
      by (rule uri_move [of 33 pchars]) (use that False r(3) in \<open>auto simp: uri_moves_def\<close>)
    from scan_pct_first [OF pct_loops(1) r(2) False this p, of ?f "Suc (length pre)" ?q ?q] show ?thesis
      using r(1) by auto
  qed (use r(1) in auto)
  then obtain s where s: "s = 26 \<or> s = 33" "scan req_machine relaxed ?f (r @ c # rest) (Suc (length pre)) 33 ?q =
      scan req_machine relaxed ?f (c # rest) (length pre + length path) s ?q" by blast
  have "scan req_machine relaxed ?f (path @ c # rest) (length pre) 3 q = scan req_machine relaxed ?f (r @ c # rest) (Suc (length pre)) 33 ?q"
    unfolding r(1) append_Cons by (rule scan_step [OF 3]) (simp_all add: req_act_def)
  then show ?thesis using s scan_step [OF m [OF s(1)] n act] by simp
qed

lemma scan_query:
  assumes ok: "query_ok x" "x \<noteq> []" and buf: "buf = pre @ x @ c # post" and c: "(c, n) \<in> {(CHR '' '', 4), (CHR ''#'', 20)}"
  shows "scan req_machine relaxed (req_act buf) (x @ c # rest) (length pre) 29 q =
    scan req_machine relaxed (req_act buf) rest (length pre + length x + 1) n (on_request_query x (set_query (length pre) q))"
proof -
  let ?f = "req_act buf" and ?q = "set_query (length pre) q"
  have m: "moves req_machine relaxed 30 c [Query_string, Request_uri] n"
    by (rule uri_move [of 30 "[c]"]) (use c in \<open>elim insertE emptyE; simp add: uri_moves_def\<close>, simp)
  have p: "moves req_machine relaxed 29 (CHR ''%'') [Start_query] 31" by (rule uri_move [of 29 "''%''"]) (simp_all add: uri_moves_def)
  have f: "moves req_machine relaxed 29 y [Start_query] 30" if "y \<in> set (''/?'' @ pchars)" for y
    by (rule uri_move [of 29 "''/?'' @ pchars"]) (use that in \<open>simp_all add: uri_moves_def\<close>)
  have "marked buf (length pre) (length pre + length x) = Inr x" by (simp add: buf)
  then have act: "do_acts ?f [Query_string, Request_uri] (length pre + length x) ?q = Inr (on_request_query x ?q)"
    by (simp add: req_act_def)
  have "scan req_machine relaxed ?f (x @ c # rest) (length pre) 29 q = scan req_machine relaxed ?f (c # rest) (length pre + length x) 30 ?q"
    by (rule scan_pct_first [OF pct_loops(2) ok(1) [unfolded query_ok_def] ok(2) f p]) (simp_all add: req_act_def)
  then show ?thesis using scan_step [OF m _ _ act] c by auto
qed

lemma scan_fragment:
  assumes ok: "query_ok x" "x \<noteq> []" and buf: "buf = pre @ x @ CHR '' '' # post"
  shows "scan req_machine relaxed (req_act buf) (x @ CHR '' '' # rest) (length pre) 20 q =
    scan req_machine relaxed (req_act buf) rest (length pre + length x + 1) 4 (on_request_fragment x (set_mark (length pre) q))"
proof -
  let ?f = "req_act buf" and ?q = "set_mark (length pre) q"
  have m: "moves req_machine relaxed 21 (CHR '' '') [Fragment] 4" by (rule uri_move [of 21 "'' ''"]) (simp_all add: uri_moves_def)
  have p: "moves req_machine relaxed 20 (CHR ''%'') [Mark] 22" by (rule uri_move [of 20 "''%''"]) (simp_all add: uri_moves_def)
  have f: "moves req_machine relaxed 20 y [Mark] 21" if "y \<in> set (''/?'' @ pchars)" for y
    by (rule uri_move [of 20 "''/?'' @ pchars"]) (use that in \<open>simp_all add: uri_moves_def\<close>)
  have "marked buf (length pre) (length pre + length x) = Inr x" by (simp add: buf)
  then have act: "do_acts ?f [Fragment] (length pre + length x) ?q = Inr (on_request_fragment x ?q)" by (simp add: req_act_def)
  have "scan req_machine relaxed ?f (x @ CHR '' '' # rest) (length pre) 20 q =
      scan req_machine relaxed ?f (CHR '' '' # rest) (length pre + length x) 21 ?q"
    by (rule scan_pct_first [OF pct_loops(3) ok(1) [unfolded query_ok_def] ok(2) f p]) (simp_all add: req_act_def)
  then show ?thesis using scan_step [OF m _ _ act] by simp
qed

lemma req_act_simps [simp]:
  "req_act buf Mark p q = Inr (set_mark p q)"
  "req_act buf Start_value p q = Inr (set_mark p q)"
  "req_act buf Start_field p q = Inr (upd_hp (\<lambda>h. h\<lparr>hp_field_start := p\<rparr>) q)"
  "req_act buf Write_field p q =
     bindE (LEN (hp_field_start (qp_parser q)) p) (\<lambda>n. Inr (upd_hp (\<lambda>h. h\<lparr>hp_field_len := n\<rparr>) q))"
  "req_act buf Write_value p q =
     bindE (text_at buf (hp_field_start (qp_parser q)) (hp_field_len (qp_parser q))) (\<lambda>field.
     bindE (marked buf (hp_mark (qp_parser q)) p) (\<lambda>val. Inr (on_request_http_field field val q)))"
  "req_act buf Request_method p q = on_request_method (drop (hp_mark (qp_parser q)) buf) q"
  "req_act buf Request_uri p q = Inr q"
  "req_act buf Fragment p q = bindE (marked buf (hp_mark (qp_parser q)) p) (\<lambda>v. Inr (on_request_fragment v q))"
  "req_act buf Start_query p q = Inr (set_query p q)"
  "req_act buf Query_string p q = bindE (marked buf (hp_query_start (qp_parser q)) p) (\<lambda>v. Inr (on_request_query v q))"
  "req_act buf Http_version p q = bindE (marked buf (hp_mark (qp_parser q)) p) (\<lambda>v. Inr (on_request_version v q))"
  "req_act buf Request_path p q = bindE (marked buf (hp_mark (qp_parser q)) p) (\<lambda>v. Inr (on_request_path v q))"
  "req_act buf Xml p q = Inr (upd_hp (\<lambda>h. h\<lparr>hp_xml_sent := True\<rparr>) q)"
  "req_act buf Json p q = Inr (upd_hp (\<lambda>h. h\<lparr>hp_json_sent := True\<rparr>) q)"
  by (simp_all add: req_act_def Let_def)

lemma field_move1: "(s, [c], as, n) \<in> set field_moves \<Longrightarrow> moves req_machine relaxed s c as n"
  by (erule field_move) simp

lemma text_at_middle [simp]: "text_at (pre @ x @ post) (length pre) (length x) = Inr x"
  by (simp add: text_at_def)

lemma on_field_mark:
  "upd_hp f (upd_hp g q) = upd_hp (f \<circ> g) q"
  by (simp add: upd_hp_def)

definition version_ok :: "8 word \<Rightarrow> bool" where
  "version_ok v \<longleftrightarrow> v = 0x10 \<or> v = 0x11"

lemma version_text_cases: "version_ok v \<Longrightarrow> version_text v = ''HTTP/1.0'' \<and> v = 0x10 \<or> version_text v = ''HTTP/1.1'' \<and> v = 0x11"
proof -
  have "version_text 0x10 = ''HTTP/1.0''" "version_text 0x11 = ''HTTP/1.1''" by code_simp+
  then show "version_ok v \<Longrightarrow> version_text v = ''HTTP/1.0'' \<and> v = 0x10 \<or> version_text v = ''HTTP/1.1'' \<and> v = 0x11"
    by (auto simp: version_ok_def)
qed

lemma scan_version:
  assumes ok: "version_ok v" and buf: "buf = pre @ version_text v @ CRLF @ post"
  shows "scan req_machine relaxed (req_act buf) (version_text v @ CRLF @ rest) (length pre) 4 q =
    scan req_machine relaxed (req_act buf) rest (10 + length pre) 13 (upd_req (\<lambda>r. r\<lparr>rq_version := v\<rparr>) (set_mark (length pre) q))"
proof -
  let ?f = "req_act buf" and ?q = "set_mark (length pre) q"
  obtain d where d: "version_text v = ''HTTP/1.'' @ [d]" "d \<in> set ''01''" using version_text_cases [OF ok] by auto
  have m: "moves req_machine relaxed 4 (CHR ''H'') [Mark] 5" "moves req_machine relaxed 5 (CHR ''T'') [] 6"
    "moves req_machine relaxed 6 (CHR ''T'') [] 7" "moves req_machine relaxed 7 (CHR ''P'') [] 8" "moves req_machine relaxed 8 (CHR ''/'') [] 9"
    "moves req_machine relaxed 9 (CHR ''1'') [] 10" "moves req_machine relaxed 10 (CHR ''.'') [] 11"
    by (rule field_move1; simp add: field_moves_def)+
  have m': "moves req_machine relaxed 11 d [] 12" by (rule field_move [of 11 "''01''"]) (use d in \<open>simp_all add: field_moves_def\<close>)
  have e: "moves req_machine relaxed 12 (CHR 0x0D) [Http_version] 17" "moves req_machine relaxed 17 (CHR 0x0A) [] 13"
    by (rule field_move1; simp add: field_moves_def)+
  have "marked buf (length pre) (length pre + 8) = Inr (version_text v)"
    using marked_middle [of pre "version_text v" "CRLF @ post"] by (simp add: buf d(1) eval_nat_numeral)
  then have "do_acts ?f [Http_version] (length pre + 8) ?q = Inr (on_request_version (version_text v) ?q)"
    by (simp)
  also have "on_request_version (version_text v) ?q = upd_req (\<lambda>r. r\<lparr>rq_version := v\<rparr>) ?q"
    using version_text_cases [OF ok] by (auto simp: on_request_version_def version_of_def)
  finally have act: "do_acts ?f [Http_version] (length pre + 8) ?q = Inr (upd_req (\<lambda>r. r\<lparr>rq_version := v\<rparr>) ?q)" .
  have "do_acts ?f [Mark] (length pre) q = Inr ?q" by (simp)
  note s = scan_step [OF m(1) _ _ this]
  have "scan req_machine relaxed ?f (version_text v @ CRLF @ rest) (length pre) 4 q =
      scan req_machine relaxed ?f (CHR 0x0D # CHR 0x0A # rest) (length pre + 8) 12 ?q"
    by (simp add: d(1) CRLF_def s scan_silent [OF m(2)] scan_silent [OF m(3)] scan_silent [OF m(4)] scan_silent [OF m(5)]
        scan_silent [OF m(6)] scan_silent [OF m(7)] scan_silent [OF m'] eval_nat_numeral)
  then show ?thesis
    by (simp add: scan_step [OF e(1) _ _ act] scan_silent [OF e(2)])
qed

lemma value_chars_iff: "c \<in> set value_chars \<longleftrightarrow> (of_char c :: int) \<in> {1..9} \<union> {11..12} \<union> {14..126} \<union> {128..255}" (is "_ \<longleftrightarrow> _ \<in> ?V")
proof -
  have s: "set value_chars = char_of ` ?V" by (simp add: value_chars_def image_Un Un_assoc del: upto_rec_numeral)
  have "of_char (char_of i) = i" if "i \<in> ?V" for i :: int using that by auto
  then show ?thesis unfolding s by (auto simp del: Un_iff intro!: rev_image_eqI [of "of_char c"])
qed

lemma value_starts_iff:
  "c \<in> set value_starts \<longleftrightarrow> (of_char c :: int) \<in> {1..8} \<union> {11..12} \<union> {14..31} \<union> {33..126} \<union> {128..255}" (is "_ \<longleftrightarrow> _ \<in> ?V")
proof -
  have s: "set value_starts = char_of ` ?V" by (simp add: value_starts_def image_Un Un_assoc del: upto_rec_numeral)
  have "of_char (char_of i) = i" if "i \<in> ?V" for i :: int using that by auto
  then show ?thesis unfolding s by (auto simp del: Un_iff intro!: rev_image_eqI [of "of_char c"])
qed

lemma blanks_iff: "c \<in> set blanks \<longleftrightarrow> (of_char c :: int) \<in> {9, 32}"
proof -
  have "(of_char c :: int) = of_char (CHR 0x09) \<or> (of_char c :: int) = of_char (CHR '' '') \<longleftrightarrow> c \<in> set blanks"
    by (simp only: of_char_eq_iff blanks_def) simp
  then show ?thesis by simp
qed

lemma value_start: "c \<in> set value_starts \<longleftrightarrow> c \<in> set value_chars \<and> c \<notin> set blanks"
  unfolding value_chars_iff value_starts_iff blanks_iff by auto

lemma scan_key:
  assumes k: "k \<noteq> []" "set k \<subseteq> set tokens"
  shows "scan req_machine relaxed (req_act buf) (k @ CHR '':'' # rest) p 13 q =
    scan req_machine relaxed (req_act buf) rest (p + length k + 1) 15
      (upd_hp (\<lambda>h. h\<lparr>hp_field_start := p, hp_field_len := length k\<rparr>) q)"
proof -
  obtain c cs where c: "k = c # cs" using k(1) by (cases k) auto
  have 1: "moves req_machine relaxed 13 c [Start_field] 14"
    by (rule field_move [of 13 tokens]) (use k c in \<open>auto simp: field_moves_def\<close>)
  have "\<forall>c\<in>set cs. moves req_machine relaxed 14 c [] 14"
    by (intro ballI field_move [of 14 tokens]) (use k c in \<open>auto simp: field_moves_def\<close>)
  note 2 = scan_loop [OF this]
  have 3: "moves req_machine relaxed 14 (CHR '':'') [Write_field] 15"
    by (rule field_move [of 14 "'':''"]) (simp_all add: field_moves_def)
  show ?thesis unfolding c
    by (simp add: scan_step [OF 1, where d' = "upd_hp (\<lambda>h. h\<lparr>hp_field_start := p\<rparr>) q"] 2 LEN_def on_field_mark comp_def
        scan_step [OF 3, where d' = "upd_hp (\<lambda>h. h\<lparr>hp_field_start := p, hp_field_len := Suc (length cs)\<rparr>) q"])
qed

lemma scan_blanks:
  assumes "set sp \<subseteq> set blanks"
  shows "\<exists>m. scan req_machine relaxed (req_act buf) (sp @ rest) p 15 q =
    scan req_machine relaxed (req_act buf) rest (p + length sp) 15 (set_mark m q)"
  using assms
proof (induction sp arbitrary: p q)
  case Nil
  have "set_mark (hp_mark (qp_parser q)) q = q" by (simp add: upd_hp_def)
  then show ?case by (intro exI [of _ "hp_mark (qp_parser q)"]) (simp only: append_Nil list.size(3) add_0_right)
next
  case (Cons c sp)
  have m: "moves req_machine relaxed 15 c [Start_value] 15"
    by (rule field_move [of 15 blanks]) (use Cons.prems in \<open>auto simp: field_moves_def\<close>)
  obtain m' where "scan req_machine relaxed (req_act buf) (sp @ rest) (Suc p) 15 (set_mark p q) =
      scan req_machine relaxed (req_act buf) rest (Suc p + length sp) 15 (set_mark m' (set_mark p q))"
    using Cons.IH [of "Suc p" "set_mark p q"] Cons.prems by auto
  then show ?case
    by (intro exI [of _ m']) (simp add: scan_step [OF m, where d' = "set_mark p q"] on_field_mark comp_def)
qed

lemma scan_value:
  assumes v: "set v \<subseteq> set value_chars" "v \<noteq> [] \<longrightarrow> hd v \<notin> set blanks"
    and f: "text_at buf (hp_field_start (qp_parser q)) (hp_field_len (qp_parser q)) = Inr k" and buf: "buf = pre @ v @ CRLF @ post"
  shows "scan req_machine relaxed (req_act buf) (v @ CRLF @ rest) (length pre) 15 q =
    scan req_machine relaxed (req_act buf) rest (length pre + length v + 2) 13
      (on_request_http_field k v (set_mark (length pre) q))"
proof -
  let ?f = "req_act buf" and ?q = "set_mark (length pre) q" and ?q' = "on_request_http_field k v (set_mark (length pre) q)"
  have "marked buf (length pre) (length pre + length v) = Inr v" by (simp add: buf)
  then have act: "do_acts ?f [Write_value] (length pre + length v) ?q = Inr ?q'" using f by (simp)
  have start: "do_acts ?f [Start_value] (length pre) q = Inr ?q" by (simp)
  have lf: "moves req_machine relaxed 17 (CHR 0x0A) [] 13" by (rule field_move1; simp add: field_moves_def)
  have "scan req_machine relaxed ?f (v @ CRLF @ rest) (length pre) 15 q =
      scan req_machine relaxed ?f (CHR 0x0A # rest) (length pre + length v + 1) 17 ?q'"
  proof (cases v)
    case Nil
    have m: "moves req_machine relaxed 15 (CHR 0x0D) [Start_value, Write_value] 17" by (rule field_move1; simp add: field_moves_def)
    have "do_acts ?f [Start_value, Write_value] (length pre) q = Inr ?q'" using start act Nil by simp
    then show ?thesis using Nil by (simp add: CRLF_def scan_step [OF m])
  next
    case (Cons c cs)
    have m: "moves req_machine relaxed 15 c [Start_value] 16"
      by (rule field_move [of 15 value_starts]) (use v Cons value_start in \<open>auto simp: field_moves_def\<close>)
    have "\<forall>c\<in>set cs. moves req_machine relaxed 16 c [] 16"
      by (intro ballI field_move [of 16 value_chars]) (use v Cons in \<open>auto simp: field_moves_def\<close>)
    note l = scan_loop [OF this]
    have e: "moves req_machine relaxed 16 (CHR 0x0D) [Write_value] 17" by (rule field_move1; simp add: field_moves_def)
    show ?thesis using scan_step [OF e _ _ act] start by (simp add: Cons CRLF_def scan_step [OF m] l)
  qed
  then show ?thesis by (simp add: scan_silent [OF lf])
qed

text \<open>Header fields: the name, the blanks after the colon, and the value.\<close>

definition field_text :: "string \<times> string \<times> string \<Rightarrow> string" where
  "field_text = (\<lambda>(k, sp, v). k @ CHR '':'' # sp @ v @ CRLF)"

definition value_ok :: "string \<Rightarrow> bool" where
  "value_ok v \<longleftrightarrow> set v \<subseteq> set value_chars \<and> (v \<noteq> [] \<longrightarrow> hd v \<notin> set blanks)"

definition field_ok :: "string \<times> string \<times> string \<Rightarrow> bool" where
  "field_ok = (\<lambda>(k, sp, v). k \<noteq> [] \<and> set k \<subseteq> set tokens \<and> set sp \<subseteq> set blanks \<and> value_ok v)"

definition marks_in :: "nat \<Rightarrow> http_parser \<Rightarrow> bool" where
  "marks_in N h \<longleftrightarrow> hp_mark h < N \<and> hp_field_start h < N \<and> hp_field_len h \<le> N \<and> \<not> hp_xml_sent h \<and> \<not> hp_json_sent h \<and> hp_cs h = 1 \<and> hp_nread h = 0"

lemma scan_field:
  assumes ok: "field_ok (k, sp, v)" and buf: "buf = pre @ field_text (k, sp, v) @ post" and marks: "marks_in (length buf) (qp_parser q)"
  shows "\<exists>h. scan req_machine relaxed (req_act buf) (field_text (k, sp, v) @ rest) (length pre) 13 q =
      scan req_machine relaxed (req_act buf) rest (length pre + length (field_text (k, sp, v))) 13 (upd_req (setHeader k v) (upd_hp (\<lambda>_. h) q)) \<and>
    marks_in (length buf) h"
proof -
  let ?f = "req_act buf" and ?q = "upd_hp (\<lambda>h. h\<lparr>hp_field_start := length pre, hp_field_len := length k\<rparr>) q"
  let ?pre = "pre @ k @ CHR '':'' # sp"
  obtain m where m: "scan req_machine relaxed ?f (sp @ v @ CRLF @ rest) (length pre + length k + 1) 15 ?q =
      scan req_machine relaxed ?f (v @ CRLF @ rest) (length pre + length k + 1 + length sp) 15 (set_mark m ?q)"
    using scan_blanks [of sp] ok unfolding field_ok_def by blast
  have b: "buf = pre @ k @ (CHR '':'' # sp @ v @ CRLF @ post)" "buf = ?pre @ v @ CRLF @ post" by (simp_all add: buf field_text_def)
  have "text_at buf (length pre) (length k) = Inr k" unfolding b(1) by simp
  then have v: "scan req_machine relaxed ?f (v @ CRLF @ rest) (length ?pre) 15 (set_mark m ?q) =
      scan req_machine relaxed ?f rest (length ?pre + length v + 2) 13 (on_request_http_field k v (set_mark (length ?pre) (set_mark m ?q)))"
    using ok by (intro scan_value [OF _ _ _ b(2)]) (simp_all add: field_ok_def value_ok_def)
  have k: "scan req_machine relaxed ?f (k @ CHR '':'' # sp @ v @ CRLF @ rest) (length pre) 13 q =
      scan req_machine relaxed ?f (sp @ v @ CRLF @ rest) (length pre + length k + 1) 15 ?q"
    using ok by (intro scan_key) (simp_all add: field_ok_def)
  define h where "h = (qp_parser q)\<lparr>hp_field_start := length pre, hp_field_len := length k, hp_mark := length ?pre\<rparr>"
  have h: "on_request_http_field k v (set_mark (length ?pre) (set_mark m ?q)) = upd_req (setHeader k v) (upd_hp (\<lambda>_. h) q)"
    using ok by (simp add: on_request_http_field_def field_ok_def h_def upd_hp_def)
  have "marks_in (length buf) h" using marks by (simp add: marks_in_def h_def b(2) CRLF_def)
  moreover have "length ?pre + length v + 2 = length pre + length (field_text (k, sp, v))" by (simp add: field_text_def CRLF_def)
  ultimately show ?thesis
    using v [unfolded h] m k by (intro exI [of _ h]) (simp add: field_text_def add.assoc CRLF_def)
qed

lemma scan_fields:
  assumes ok: "list_all field_ok fs" and buf: "buf = pre @ concat (map field_text fs) @ post" and marks: "marks_in (length buf) (qp_parser q)"
  shows "\<exists>h. scan req_machine relaxed (req_act buf) (concat (map field_text fs) @ rest) (length pre) 13 q =
      scan req_machine relaxed (req_act buf) rest (length pre + length (concat (map field_text fs))) 13
        (upd_req (fold (\<lambda>(k, sp, v). setHeader k v) fs) (upd_hp (\<lambda>_. h) q)) \<and>
    marks_in (length buf) h"
  using assms
proof (induction fs arbitrary: pre q)
  case Nil
  show ?case using Nil.prems(3) by (intro exI [of _ "qp_parser q"]) (simp add: upd_req_def upd_hp_def)
next
  case (Cons f fs)
  obtain k sp v where f: "f = (k, sp, v)" by (cases f)
  have ok: "field_ok (k, sp, v)" "list_all field_ok fs" using Cons.prems(1) f by simp_all
  have b: "buf = pre @ field_text (k, sp, v) @ (concat (map field_text fs) @ post)"
    "buf = (pre @ field_text (k, sp, v)) @ concat (map field_text fs) @ post" using Cons.prems(2) f by simp_all
  obtain h where h: "scan req_machine relaxed (req_act buf) (field_text (k, sp, v) @ concat (map field_text fs) @ rest) (length pre) 13 q =
      scan req_machine relaxed (req_act buf) (concat (map field_text fs) @ rest) (length pre + length (field_text (k, sp, v))) 13
        (upd_req (setHeader k v) (upd_hp (\<lambda>_. h) q))" "marks_in (length buf) h"
    using scan_field [OF ok(1) b(1) Cons.prems(3)] by blast
  let ?q = "upd_req (setHeader k v) (upd_hp (\<lambda>_. h) q)"
  have m: "marks_in (length buf) (qp_parser ?q)" using h(2) by simp
  obtain h' where h': "scan req_machine relaxed (req_act buf) (concat (map field_text fs) @ rest) (length (pre @ field_text (k, sp, v))) 13 ?q =
      scan req_machine relaxed (req_act buf) rest (length (pre @ field_text (k, sp, v)) + length (concat (map field_text fs))) 13
        (upd_req (fold (\<lambda>(k, sp, v). setHeader k v) fs) (upd_hp (\<lambda>_. h') ?q))" "marks_in (length buf) h'"
    using Cons.IH [OF ok(2) b(2) m] by blast
  then show ?case using h f by (intro exI [of _ h']) (simp add: add.assoc upd_req_def upd_hp_def)
qed

lemma scan_end:
  assumes "\<not> hp_xml_sent (qp_parser q)" and "\<not> hp_json_sent (qp_parser q)"
  shows "scan req_machine relaxed (req_act buf) (CRLF @ rest) p 13 q =
    Inr (p + 2, 348, upd_hp (\<lambda>h. h\<lparr>hp_field_start := p, hp_body_start := p + 2\<rparr>) q)"
proof -
  have m: "moves req_machine relaxed 13 (CHR 0x0D) [Start_field] 18" "moves req_machine relaxed 18 (CHR 0x0A) [Done] 348"
    by (rule field_move1; simp add: field_moves_def)+
  show ?thesis unfolding CRLF_def
    by (simp add: scan_step [OF m(1), where d' = "upd_hp (\<lambda>h. h\<lparr>hp_field_start := p\<rparr>) q"]
        scan_done [OF m(2), where d' = "upd_hp (\<lambda>h. h\<lparr>hp_field_start := p, hp_body_start := p + 2\<rparr>) q"] req_act_def [of buf Done] assms on_field_mark comp_def
        upd_hp_def)
qed

text \<open>The target: path, query and fragment; what ends the path or the query is a blank or the mark of a fragment.\<close>

definition target_text :: "http_request \<Rightarrow> string" where
  "target_text r = rq_path r @ (if rq_query r = [] then [] else ''?'') @ rq_query r @ (if rq_fragment r = [] then [] else ''#'') @ rq_fragment r"

definition set_target :: "http_request \<Rightarrow> http_request \<Rightarrow> http_request" where
  "set_target r d =
     (let d = d\<lparr>rq_path := rq_path r\<rparr>;
          d = (if rq_query r = [] then d else d\<lparr>rq_query := rq_query r\<rparr>)
      in if rq_fragment r = [] then d else d\<lparr>rq_fragment := rq_fragment r\<rparr>)"

definition target_ok :: "http_request \<Rightarrow> bool" where
  "target_ok r \<longleftrightarrow> path_ok (rq_path r) \<and> query_ok (rq_query r) \<and> query_ok (rq_fragment r)"

definition stop_char :: "string \<Rightarrow> char" where
  "stop_char x = (if x = [] then CHR '' '' else CHR ''#'')"

definition stop_state :: "string \<Rightarrow> int" where
  "stop_state x = (if x = [] then 4 else 20)"

definition after_stop :: "string \<Rightarrow> string \<Rightarrow> string" where
  "after_stop x rest = (if x = [] then rest else x @ CHR '' '' # rest)"

lemma stops: "(stop_char x, stop_state x) \<in> {(CHR '' '', 4), (CHR ''#'', 20)}"
  by (simp add: stop_char_def stop_state_def)

lemma target_stop:
  "target_text r @ CHR '' '' # rest =
     rq_path r @ (if rq_query r = [] then [] else ''?'' @ rq_query r) @ stop_char (rq_fragment r) # after_stop (rq_fragment r) rest"
  by (simp add: target_text_def stop_char_def after_stop_def)

lemma scan_stop:
  assumes ok: "query_ok x" and buf: "buf = pre @ after_stop x post" and marks: "marks_in (length buf) (qp_parser q)"
  shows "\<exists>h. scan req_machine relaxed (req_act buf) (after_stop x rest) (length pre) (stop_state x) q =
      scan req_machine relaxed (req_act buf) rest (length pre + length (after_stop x [])) 4
        ((if x = [] then id else on_request_fragment x) (upd_hp (\<lambda>_. h) q)) \<and>
    marks_in (length buf) h"
proof (cases "x = []")
  case True
  then show ?thesis using marks by (intro exI [of _ "qp_parser q"]) (simp add: upd_hp_def after_stop_def stop_state_def)
next
  case False
  define h where "h = (qp_parser q)\<lparr>hp_mark := length pre\<rparr>"
  have b: "buf = pre @ x @ CHR '' '' # post" using buf False by (simp add: after_stop_def)
  have h: "upd_hp (\<lambda>_. h) q = set_mark (length pre) q" by (simp add: h_def upd_hp_def)
  have "marks_in (length buf) h" using marks by (simp add: h_def marks_in_def b)
  then show ?thesis using scan_fragment [OF ok False b, of relaxed rest q] False
    by (intro exI [of _ h]) (simp add: after_stop_def stop_state_def h)
qed

lemma scan_target:
  assumes ok: "target_ok r" and buf: "buf = pre @ target_text r @ CHR '' '' # post" and marks: "marks_in (length buf) (qp_parser q)"
  shows "\<exists>h. scan req_machine relaxed (req_act buf) (target_text r @ CHR '' '' # rest) (length pre) 3 q =
      scan req_machine relaxed (req_act buf) rest (length pre + length (target_text r) + 1) 4 (upd_req (set_target r) (upd_hp (\<lambda>_. h) q)) \<and>
    marks_in (length buf) h"
proof -
  let ?f = "rq_fragment r" and ?y = "rq_query r" and ?p = "rq_path r" and ?S = "scan req_machine relaxed (req_act buf)"
  let ?c = "stop_char ?f" and ?n = "stop_state ?f"
  note buf = buf [unfolded target_stop] and ok = ok [unfolded target_ok_def]
  define q1 where "q1 = on_request_path ?p (set_mark (length pre) q)"
  define q2 where "q2 = (if ?y = [] then q1 else on_request_query ?y (set_query (length pre + length ?p + 1) q1))"
  define pre' where "pre' = pre @ ?p @ (if ?y = [] then [] else ''?'' @ ?y) @ [?c]"
  have s: "?S (target_text r @ CHR '' '' # rest) (length pre) 3 q = ?S (after_stop ?f rest) (length pre') ?n q2"
  proof (cases "?y = []")
    case True
    have "buf = pre @ ?p @ ?c # after_stop ?f post" using buf True by simp
    from scan_path [OF _ this, of "[Request_path, Request_uri]" ?n relaxed "after_stop ?f rest" q] show ?thesis
      using ok stops [of ?f] True by (simp add: target_stop pre'_def q2_def q1_def)
  next
    case False
    have b: "buf = pre @ ?p @ CHR ''?'' # ?y @ ?c # after_stop ?f post" "buf = (pre @ ?p @ ''?'') @ ?y @ ?c # after_stop ?f post"
      using buf False by simp_all
    have 1: "?S (?p @ CHR ''?'' # ?y @ ?c # after_stop ?f rest) (length pre) 3 q = ?S (?y @ ?c # after_stop ?f rest) (length pre + length ?p + 1) 29 q1"
      unfolding q1_def using ok by (intro scan_path [OF _ b(1), of "[Request_path]"]) simp_all
    have 2: "?S (?y @ ?c # after_stop ?f rest) (length (pre @ ?p @ ''?'')) 29 q1 = ?S (after_stop ?f rest) (length (pre @ ?p @ ''?'') + length ?y + 1) ?n q2"
      using ok stops [of ?f] False scan_query [OF _ False b(2), of ?n relaxed "after_stop ?f rest" q1] by (simp add: q2_def)
    show ?thesis using 1 2 False by (simp add: target_stop pre'_def add.assoc)
  qed
  have "marks_in (length buf) (qp_parser q2)"
    using marks buf by (auto simp: marks_in_def q2_def q1_def on_request_path_def on_request_query_def)
  moreover have "buf = pre' @ after_stop ?f post" using buf by (simp add: pre'_def)
  ultimately obtain h where h: "?S (after_stop ?f rest) (length pre') ?n q2 =
      ?S rest (length pre' + length (after_stop ?f [])) 4 ((if ?f = [] then id else on_request_fragment ?f) (upd_hp (\<lambda>_. h) q2))"
      "marks_in (length buf) h"
    using scan_stop [of ?f buf pre' post q2 relaxed rest] ok by blast
  have "length pre' + length (after_stop ?f []) = length pre + length (target_text r) + 1"
    by (simp add: pre'_def after_stop_def target_text_def)
  moreover have "(if ?f = [] then id else on_request_fragment ?f) (upd_hp (\<lambda>_. h) q2) = upd_req (set_target r) (upd_hp (\<lambda>_. h) q)"
    by (simp add: q2_def q1_def on_request_path_def on_request_query_def on_request_fragment_def upd_req_def upd_hp_def set_target_def)
  ultimately show ?thesis using s h by (intro exI [of _ h]) simp
qed

section \<open>Requests written out are read back\<close>

lemma hm_get_Cons:
  assumes "hm_sorted ((a, b) # m)"
  shows "hm_get k ((a, b) # m) = (if ci_key a = ci_key k then Some b else hm_get k m)"
proof -
  have "hm_get k m = None" if "ci_key k < ci_key a"
    using assms that by (cases m) (auto simp: hm_get_def omap_get_def ord_find_def lower_bound_def ord_sorted_def CaseInsensitiveLess_iff)
  then show ?thesis
    by (auto simp: hm_get_def omap_get_def ord_find_def lower_bound_def CaseInsensitiveLess_iff not_less)
qed

lemma hm_get_fold:
  assumes "hm_sorted m" and "hm_sorted m0"
  shows "hm_sorted (fold (\<lambda>(k, v). hm_set k v) m m0) \<and>
    hm_get k (fold (\<lambda>(k, v). hm_set k v) m m0) = (case hm_get k m of None \<Rightarrow> hm_get k m0 | Some v \<Rightarrow> Some v)"
  using assms
proof (induction m arbitrary: m0)
  case (Cons x m)
  obtain a b where x: "x = (a, b)" by (cases x)
  have s: "hm_sorted m" using Cons.prems(1) by (simp add: ord_sorted_def)
  have "hm_get k m = None" if "ci_key a = ci_key k"
  proof -
    have "hm_sorted ((k, b) # m)" using Cons.prems(1) that by (simp add: ord_sorted_def x CaseInsensitiveLess_iff)
    then show ?thesis by (cases m) (auto simp: hm_get_def omap_get_def ord_find_def lower_bound_def ord_sorted_def CaseInsensitiveLess_iff)
  qed
  then show ?case
    using Cons.IH [OF s, of "hm_set a b m0"] Cons.prems hm_get_Cons [of a b m k] by (auto simp: x hm_get_set split: option.splits)
qed simp

lemma hm_sorted_filter: "hm_sorted m \<Longrightarrow> hm_sorted (filter P m)"
  by (simp add: ord_sorted_def sorted_wrt_filter)

lemma hm_get_filter:
  assumes "hm_sorted m"
  shows "hm_get k (filter (\<lambda>(a, b). ci_key a \<noteq> c) m) = (if ci_key k = c then None else hm_get k m)"
  using assms
proof (induction m)
  case (Cons x m)
  obtain a b where x: "x = (a, b)" by (cases x)
  have s: "hm_sorted m" using Cons.prems by (simp add: ord_sorted_def)
  have f: "hm_sorted (filter (\<lambda>(a, b). ci_key a \<noteq> c) ((a, b) # m))" using Cons.prems x hm_sorted_filter by blast
  show ?case
    using Cons.IH [OF s] Cons.prems f hm_get_Cons [of a b m k] hm_get_Cons [of a b "filter (\<lambda>(a, b). ci_key a \<noteq> c) m" k]
    by (auto simp: x split: if_splits)
qed simp

text \<open>The fields of a dumped request.\<close>

definition connection_value :: "bool \<Rightarrow> string" where
  "connection_value close = (if close then ''close'' else ''keep-alive'')"

definition req_fields :: "http_request \<Rightarrow> (string \<times> string \<times> string) list" where
  "req_fields r =
     (''Connection'', '' '', connection_value (rq_close r)) #
     map (\<lambda>(k, v). (k, [], v)) (filter (\<lambda>(k, v). \<not> strcasecmp_eq k ''Connection'') (rq_headers r)) @
     (if rq_body r = [] then [] else [(''Content-Length'', '' '', dec (length (rq_body r)))])"

lemma request_dump_fields:
  "request_dump r = http_method_to_chars (rq_method r) @ CHR '' '' # target_text r @ CHR '' '' # version_text (rq_version r) @ CRLF @
     concat (map field_text (req_fields r)) @ CRLF @ rq_body r"
proof -
  have "headers_text '':'' m = concat (map field_text (map (\<lambda>(k, v). (k, [], v)) (filter (\<lambda>(k, v). \<not> strcasecmp_eq k ''Connection'') m)))" for m
    by (induction m) (auto simp: headers_text_def field_text_def)
  then show ?thesis
    by (simp add: request_dump_def target_text_def req_fields_def connection_text_def connection_value_def field_text_def body_text_def)
qed

definition req_ok :: "http_request \<Rightarrow> bool" where
  "req_ok r \<longleftrightarrow> rq_method r \<notin> {INVALID_METHOD, MSEARCH} \<and> version_ok (rq_version r) \<and> target_ok r \<and> hm_sorted (rq_headers r) \<and>
     list_all (\<lambda>(k, v). k \<noteq> [] \<and> set k \<subseteq> set tokens \<and> value_ok v) (rq_headers r)"

text \<open>What the names of a dumped request mean: the connection and the length of the body come from the request itself.\<close>

definition sent_header :: "http_request \<Rightarrow> string \<Rightarrow> string option" where
  "sent_header r k =
     (if rq_body r \<noteq> [] \<and> ci_key k = ci_key ''Content-Length'' then Some (dec (length (rq_body r)))
      else if ci_key k = ci_key ''Connection'' then Some (connection_value (rq_close r))
      else hm_get k (rq_headers r))"

lemma fields_ok:
  assumes "req_ok r"
  shows "list_all field_ok (req_fields r)"
proof -
  have d: "set ''0123456789'' \<subseteq> set value_starts" "set ''close'' \<subseteq> set value_starts" "set ''keep-alive'' \<subseteq> set value_starts"
    "set ''Connection'' \<subseteq> set tokens" "set ''Content-Length'' \<subseteq> set tokens"
    by (simp_all add: value_starts_iff tokens_def)
  have s: "value_ok v" if "set v \<subseteq> set value_starts" for v
    using that value_start by (cases v) (auto simp: value_ok_def)
  have "value_ok (dec n)" for n using s [of "dec n"] set_dec [of n] d(1) by blast
  moreover have "value_ok (connection_value b)" for b using s d by (simp add: connection_value_def)
  ultimately show ?thesis
    using assms d(4,5) by (auto simp: req_fields_def req_ok_def field_ok_def list_all_iff blanks_def)
qed

lemma fold_setHeader:
  "fold (\<lambda>(k, sp, v). setHeader k v) fs d =
     d\<lparr>rq_headers := fold (\<lambda>(k, v). hm_set k v) (map (\<lambda>(k, sp, v). (k, v)) fs) (rq_headers d)\<rparr>"
proof (induction fs arbitrary: d)
  case (Cons x fs)
  then show ?case by (cases x) (simp add: setHeader_def)
qed simp

lemma headers_of_fields:
  assumes "req_ok r" and "rq_headers d = []"
  shows "hm_get k (rq_headers (fold (\<lambda>(k, sp, v). setHeader k v) (req_fields r) d)) = sent_header r k"
proof -
  let ?m = "filter (\<lambda>(k, v). \<not> strcasecmp_eq k ''Connection'') (rq_headers r)" and ?conn = "hm_set ''Connection'' (connection_value (rq_close r)) []"
  have s: "hm_sorted (rq_headers r)" using assms(1) by (simp add: req_ok_def)
  have m: "hm_sorted (fold (\<lambda>(k, v). hm_set k v) ?m ?conn) \<and>
      hm_get k (fold (\<lambda>(k, v). hm_set k v) ?m ?conn) = (case hm_get k ?m of None \<Rightarrow> hm_get k ?conn | Some v \<Rightarrow> Some v)" for k
    by (rule hm_get_fold [OF hm_sorted_filter [OF s]]) simp
  have "map (\<lambda>(k, sp, v). (k, v)) (map (\<lambda>(k, v). (k, [] :: string, v)) xs) = xs" for xs :: header_map by (induction xs) auto
  then have "hm_get k (rq_headers (fold (\<lambda>(k, sp, v). setHeader k v) (req_fields r) d)) =
      hm_get k ((if rq_body r = [] then id else hm_set ''Content-Length'' (dec (length (rq_body r)))) (fold (\<lambda>(k, v). hm_set k v) ?m ?conn))"
    using assms(2) by (simp add: fold_setHeader req_fields_def setHeader_def)
  also have "\<dots> = sent_header r k"
    using m [of k] hm_get_filter [OF s, of k "ci_key ''Connection''"]
    by (auto simp: sent_header_def hm_get_set strcasecmp_eq_def split: option.splits)
  finally show ?thesis .
qed

lemma method_ok:
  assumes "m \<notin> {INVALID_METHOD, MSEARCH}"
  shows "http_method_to_chars m \<noteq> [] \<and> length (http_method_to_chars m) \<le> 20 \<and> set (http_method_to_chars m) \<subseteq> set upper_digit"
  using assms by (cases m) (simp_all add: http_method_to_chars_def method_map_def upper_digit_def)

lemma scan_request:
  assumes ok: "req_ok r" and q: "qp_parser q = h0" "marks_in (length (request_dump r)) h0" "rq_headers (qp_data q) = []"
  shows "\<exists>h d. scan req_machine relaxed (req_act (request_dump r)) (request_dump r) 0 1 q =
      Inr (length (request_dump r) - length (rq_body r), 348, q\<lparr>qp_parser := h, qp_data := d\<rparr>) \<and>
    marks_in (length (request_dump r)) h \<and> hp_body_start h = length (request_dump r) - length (rq_body r) \<and>
    d = fold (\<lambda>(k, sp, v). setHeader k v) (req_fields r)
          (set_target r ((qp_data q)\<lparr>rq_method := rq_method r\<rparr>)\<lparr>rq_version := rq_version r\<rparr>)"
proof -
  define buf where "buf = request_dump r"
  let ?S = "scan req_machine relaxed (req_act buf)" and ?m = "http_method_to_chars (rq_method r)" and ?t = "target_text r"
  let ?v = "version_text (rq_version r)" and ?fs = "concat (map field_text (req_fields r))"
  have buf: "buf = ?m @ CHR '' '' # ?t @ CHR '' '' # ?v @ CRLF @ ?fs @ CRLF @ rq_body r" by (simp only: buf_def request_dump_fields)
  have ok: "rq_method r \<notin> {INVALID_METHOD, MSEARCH}" "version_ok (rq_version r)" "target_ok r" "list_all field_ok (req_fields r)"
    using ok fields_ok by (simp_all add: req_ok_def)
  define q1 where "q1 = upd_req (\<lambda>d. d\<lparr>rq_method := rq_method r\<rparr>) (set_mark 0 q)"
  have "on_request_method buf (set_mark 0 q) = Inr q1"
    unfolding buf on_request_method_def q1_def using ok(1) method_line [of "rq_method r"] by simp
  then have 1: "?S buf 0 1 q = ?S (?t @ CHR '' '' # ?v @ CRLF @ ?fs @ CRLF @ rq_body r) (length (?m @ '' '')) 3 q1"
    using scan_method [of ?m buf q q1] method_ok [OF ok(1)] buf by simp
  have "marks_in (length buf) (qp_parser q1)" using q buf by (simp add: q1_def marks_in_def buf_def [symmetric])
  moreover have "buf = (?m @ '' '') @ ?t @ CHR '' '' # ?v @ CRLF @ ?fs @ CRLF @ rq_body r" by (simp add: buf)
  ultimately obtain h2 where 2: "?S (?t @ CHR '' '' # ?v @ CRLF @ ?fs @ CRLF @ rq_body r) (length (?m @ '' '')) 3 q1 =
      ?S (?v @ CRLF @ ?fs @ CRLF @ rq_body r) (length (?m @ '' '') + length ?t + 1) 4 (upd_req (set_target r) (upd_hp (\<lambda>_. h2) q1))"
    and m2: "marks_in (length buf) h2"
    using scan_target [OF ok(3), of buf "?m @ '' ''" _ q1 relaxed] by metis
  let ?q2 = "upd_req (set_target r) (upd_hp (\<lambda>_. h2) q1)" and ?pre = "?m @ '' '' @ ?t @ '' ''"
  define q3 where "q3 = upd_req (\<lambda>d. d\<lparr>rq_version := rq_version r\<rparr>) (set_mark (length ?pre) ?q2)"
  have "buf = ?pre @ ?v @ CRLF @ ?fs @ CRLF @ rq_body r" by (simp add: buf)
  from scan_version [OF ok(2) this] have 3: "?S (?v @ CRLF @ ?fs @ CRLF @ rq_body r) (length ?pre) 4 ?q2 =
      ?S (?fs @ CRLF @ rq_body r) (10 + length ?pre) 13 q3" by (simp add: q3_def)
  let ?pre3 = "?pre @ ?v @ CRLF"
  have v: "length ?v = 8" using version_text_cases [OF ok(2)] by auto
  have b3: "buf = ?pre3 @ ?fs @ CRLF @ rq_body r" by (simp add: buf)
  have "marks_in (length buf) (qp_parser q3)" using m2 b3 v by (simp add: marks_in_def q3_def)
  then obtain h4 where 4: "?S (?fs @ CRLF @ rq_body r) (length ?pre3) 13 q3 =
      ?S (CRLF @ rq_body r) (length ?pre3 + length ?fs) 13 (upd_req (fold (\<lambda>(k, sp, v). setHeader k v) (req_fields r)) (upd_hp (\<lambda>_. h4) q3))"
    and m4: "marks_in (length buf) h4"
    using scan_fields [OF ok(4) b3] by blast
  let ?q4 = "upd_req (fold (\<lambda>(k, sp, v). setHeader k v) (req_fields r)) (upd_hp (\<lambda>_. h4) q3)" and ?p = "length ?pre3 + length ?fs"
  have 5: "?S (CRLF @ rq_body r) ?p 13 ?q4 = Inr (?p + 2, 348, upd_hp (\<lambda>h. h\<lparr>hp_field_start := ?p, hp_body_start := ?p + 2\<rparr>) ?q4)"
    using m4 by (intro scan_end) (simp_all add: marks_in_def)
  have p: "?p + 2 = length buf - length (rq_body r)" "?p < length buf" using b3 by (simp_all add: CRLF_def)
  define h where "h = h4\<lparr>hp_field_start := ?p, hp_body_start := ?p + 2\<rparr>"
  define d where "d = fold (\<lambda>(k, sp, v). setHeader k v) (req_fields r) (set_target r ((qp_data q)\<lparr>rq_method := rq_method r\<rparr>)\<lparr>rq_version := rq_version r\<rparr>)"
  have "upd_hp (\<lambda>h. h\<lparr>hp_field_start := ?p, hp_body_start := ?p + 2\<rparr>) ?q4 = q\<lparr>qp_parser := h, qp_data := d\<rparr>"
    by (simp add: h_def d_def q3_def q1_def upd_req_def upd_hp_def)
  moreover have "marks_in (length buf) h" "hp_body_start h = ?p + 2" using m4 p(2) by (simp_all add: h_def marks_in_def)
  moreover have "length (?m @ '' '') + length ?t + 1 = length ?pre" "10 + length ?pre = length ?pre3" using v by (simp_all add: CRLF_def)
  ultimately show ?thesis
    using 1 2 3 4 5 p(1) by (intro exI [of _ h] exI [of _ d] conjI) (simp_all only: buf_def d_def)
qed

lemma execute_done:
  assumes "buf \<noteq> []" and "off \<le> length buf"
    and "scan req_machine (hp_uri_relaxed (qp_parser q)) (req_act buf) (drop off buf) off (hp_cs (qp_parser q))
      (upd_hp (\<lambda>h. h\<lparr>hp_nread := 0, hp_mark := 0, hp_field_len := 0, hp_field_start := 0\<rparr>) q) = Inr (p, cs, q')"
    and "off \<le> p" "p \<le> length buf" and "hp_body_start (qp_parser q') \<le> length buf" "hp_nread (qp_parser q') = 0"
    and "hp_mark (qp_parser q') < length buf" "hp_field_len (qp_parser q') \<le> length buf" "hp_field_start (qp_parser q') < length buf"
  shows "http_parser_execute buf off q =
    Inr (p - off, upd_hp (\<lambda>h. h\<lparr>hp_cs := (if hp_cs h = 0 then 0 else cs), hp_nread := p - off\<rparr>) q')"
proof -
  have "(if http_parser_has_error (qp_parser q') then q' else upd_hp (\<lambda>h. h\<lparr>hp_cs := cs\<rparr>) q') =
      upd_hp (\<lambda>h. h\<lparr>hp_cs := (if hp_cs h = 0 then 0 else cs)\<rparr>) q'"
    by (simp add: http_parser_has_error_def upd_hp_def)
  moreover have "p - off \<le> length buf" using assms(5) by simp
  ultimately show ?thesis using assms by (simp add: http_parser_execute_def Let_def upd_hp_def)
qed

lemma execute_request:
  assumes "req_ok r"
  shows "\<exists>q. http_parser_execute (request_dump r) 0 (HttpRequestParser_new junk) = Inr (length (request_dump r) - length (rq_body r), q) \<and>
    req_isFinished q = 1 \<and> \<not> req_hasError q \<and>
    drop (hp_body_start (qp_parser q)) (request_dump r) = rq_body r \<and>
    (let d = qp_data q in
       rq_method d = rq_method r \<and> rq_version d = rq_version r \<and> rq_path d = rq_path r \<and> rq_query d = rq_query r \<and>
       rq_fragment d = rq_fragment r \<and> rq_close d \<and> rq_body d = [] \<and> (\<forall>k. hm_get k (rq_headers d) = sent_header r k))"
proof -
  let ?buf = "request_dump r"
  let ?q0 = "upd_hp (\<lambda>h. h\<lparr>hp_nread := 0, hp_mark := 0, hp_field_len := 0, hp_field_start := 0\<rparr>) (HttpRequestParser_new junk)"
  let ?d = "set_target r ((qp_data ?q0)\<lparr>rq_method := rq_method r\<rparr>)\<lparr>rq_version := rq_version r\<rparr>"
  have N: "length ?buf > 0" "length (rq_body r) \<le> length ?buf" "drop (length ?buf - length (rq_body r)) ?buf = rq_body r"
    by (simp_all add: request_dump_fields)
  obtain h d where s: "scan req_machine (hp_uri_relaxed (qp_parser ?q0)) (req_act ?buf) ?buf 0 1 ?q0 =
      Inr (length ?buf - length (rq_body r), 348, ?q0\<lparr>qp_parser := h, qp_data := d\<rparr>)"
    and m: "marks_in (length ?buf) h" and b: "hp_body_start h = length ?buf - length (rq_body r)"
    and d: "d = fold (\<lambda>(k, sp, v). setHeader k v) (req_fields r) ?d"
    using scan_request [OF assms, of ?q0 "qp_parser ?q0" "hp_uri_relaxed (qp_parser ?q0)"] N(1)
    by (auto simp: marks_in_def HttpRequestParser_new_def http_parser_init_def HttpRequest_new_def)
  have e: "rq_headers ?d = [] \<and> rq_method ?d = rq_method r \<and> rq_version ?d = rq_version r \<and> rq_path ?d = rq_path r \<and>
      rq_query ?d = rq_query r \<and> rq_fragment ?d = rq_fragment r \<and> rq_close ?d \<and> rq_body ?d = []"
    by (auto simp: set_target_def Let_def HttpRequestParser_new_def HttpRequest_new_def)
  have "http_parser_execute ?buf 0 (HttpRequestParser_new junk) = Inr (length ?buf - length (rq_body r) - 0,
      upd_hp (\<lambda>h. h\<lparr>hp_cs := (if hp_cs h = 0 then 0 else 348), hp_nread := length ?buf - length (rq_body r) - 0\<rparr>) (?q0\<lparr>qp_parser := h, qp_data := d\<rparr>))"
    using N s m b by (intro execute_done) (simp_all add: marks_in_def HttpRequestParser_new_def http_parser_init_def)
  moreover have "hp_cs h = 1" using m by (simp add: marks_in_def)
  ultimately show ?thesis
    using N(3) b e headers_of_fields [OF assms, of ?d]
    by (simp add: d fold_setHeader req_isFinished_def http_parser_finish_def http_parser_has_error_def http_parser_is_finished_def req_hasError_def
        HttpRequestParser_new_def)
qed

text \<open>
  C1. A request that \<open>dump\<close> wrote out is read back by a fresh parser in one call: for every method but
  \<open>M-SEARCH\<close>, HTTP 1.0 or 1.1, a path of one leading slash, any query and fragment the URI grammar allows and
  any headers with token names, the parser consumes everything up to the body, reports that it is finished without an error, and has the same method,
  version, path, query and fragment; looking up a header in any spelling gives the connection and the body length the dump
  added, and what the request had for every other name.
\<close>

theorem request_round_trip:
  assumes "req_ok r"
  shows "\<exists>q. http_parser_execute (request_dump r) 0 (HttpRequestParser_new junk) = Inr (length (request_dump r) - length (rq_body r), q) \<and>
    req_isFinished q = 1 \<and> \<not> req_hasError q \<and>
    drop (hp_body_start (qp_parser q)) (request_dump r) = rq_body r \<and>
    (let d = qp_data q in
       rq_method d = rq_method r \<and> rq_version d = rq_version r \<and> rq_path d = rq_path r \<and> rq_query d = rq_query r \<and>
       rq_fragment d = rq_fragment r \<and> (\<forall>k. hm_get k (rq_headers d) = sent_header r k))"
proof -
  from execute_request [OF assms, of junk] obtain q where
    q: "http_parser_execute (request_dump r) 0 (HttpRequestParser_new junk) = Inr (length (request_dump r) - length (rq_body r), q)"
      "req_isFinished q = 1" "\<not> req_hasError q" "drop (hp_body_start (qp_parser q)) (request_dump r) = rq_body r"
      "rq_method (qp_data q) = rq_method r" "rq_version (qp_data q) = rq_version r" "rq_path (qp_data q) = rq_path r"
      "rq_query (qp_data q) = rq_query r" "rq_fragment (qp_data q) = rq_fragment r" "\<forall>k. hm_get k (rq_headers (qp_data q)) = sent_header r k"
    unfolding Let_def by blast
  then show ?thesis by (intro exI [of _ q]) simp
qed

text \<open>The same for a request with all parts.\<close>

definition demo_request :: http_request where
  "demo_request =
     (HttpRequest_new 0x11 True)\<lparr>rq_method := POST, rq_path := ''/a%20b'', rq_query := ''x=1'', rq_fragment := ''top'', rq_body := ''hi'',
       rq_headers := [(''Host'', ''x y'')]\<rparr>"

definition blank_parser :: http_parser where
  "blank_parser =
     \<lparr>hp_cs = 0, hp_body_start = 0, hp_content_len = 0, hp_nread = 0, hp_mark = 0, hp_field_start = 0, hp_field_len = 0,
      hp_query_start = 0, hp_xml_sent = False, hp_json_sent = False, hp_uri_relaxed = False\<rparr>"

lemma demo_request_ok: "req_ok demo_request"
  by (simp add: req_ok_def demo_request_def HttpRequest_new_def version_ok_def target_ok_def path_ok_def query_ok_def pchars_def
        ord_sorted_def tokens_def value_ok_def value_chars_iff blanks_iff)

theorem request_round_trip_witness:
  "req_ok demo_request \<and>
   (\<exists>q. http_parser_execute (request_dump demo_request) 0 (HttpRequestParser_new blank_parser) =
       Inr (length (request_dump demo_request) - 2, q) \<and> req_isFinished q = 1 \<and> rq_path (qp_data q) = ''/a%20b'')"
proof -
  have "length (rq_body demo_request) = 2" "rq_path demo_request = ''/a%20b''" by (simp_all add: demo_request_def)
  then show ?thesis using demo_request_ok request_round_trip [OF demo_request_ok, of blank_parser] by (auto simp: Let_def)
qed

end
