(* ===== verification/Cool_RequestSafe.thy ===== *)
theory Cool_RequestSafe
  imports Cool_RequestTrip "HOL-Library.Sublist"
begin

text \<open>
  What the request parser does on arbitrary bytes: one call on a fresh parser stays inside the buffer and passes every
  assertion of its own, but for one method name, and it calls back in the order of the grammar. Both follow from
  one evaluation over the table of the scanner's states.
\<close>

section \<open>Which characters lead to a jump\<close>

fun at_only :: "int \<Rightarrow> (jump \<Rightarrow> bool) \<Rightarrow> stmt list \<Rightarrow> bool" where
  "at_only k P [] \<longleftrightarrow> True"
| "at_only k P (Goto j # ss) \<longleftrightarrow> \<not> P j \<and> at_only k P ss"
| "at_only k P (Cond t a b # ss) \<longleftrightarrow> (t = Eq k \<or> at_only k P a) \<and> at_only k P b \<and> at_only k P ss"
| "at_only k P (Switch cs # ss) \<longleftrightarrow> list_all (\<lambda>(x, j). x = k \<or> \<not> P j) cs \<and> at_only k P ss"

fun code_at_only :: "int \<Rightarrow> (jump \<Rightarrow> bool) \<Rightarrow> code \<Rightarrow> bool" where
  "code_at_only k P (Plain ss j) \<longleftrightarrow> \<not> P j \<and> at_only k P ss"
| "code_at_only k P (Wide ss j) \<longleftrightarrow> list_all (\<lambda>j. \<not> P j) (j # gotos ss)"

lemma at_only_exec: "at_only k P ss \<Longrightarrow> exec_stmts x ss = Some j \<Longrightarrow> P j \<Longrightarrow> x = k"
proof (induction x ss rule: exec_stmts.induct)
  case (3 x t a b ss)
  then show ?case by (cases "holds t x") (auto split: option.splits)
next
  case (4 x cs ss)
  then show ?case by (auto simp: list_all_iff split: option.splits dest!: map_of_SomeD)
qed auto

lemma code_at_only_run:
  assumes "code_at_only k P code" and "P (run_code relaxed x code)"
  shows "x = k"
proof (cases code)
  case (Plain ss j)
  then show ?thesis using assms at_only_exec by (auto split: option.splits)
next
  case (Wide ss j)
  then show ?thesis using assms run_code_in [of relaxed x code] by (auto simp: list_all_iff)
qed

section \<open>Positions\<close>

text \<open>
  What is known of the positions in a state: that the query mark, the field and the start of the method lie before
  the current position. The actions of a step are followed on these three.
\<close>

definition query_state :: "int \<Rightarrow> bool" where
  "query_state s \<longleftrightarrow> s = 30 \<or> s = 31 \<or> s = 32"

definition value_state :: "int \<Rightarrow> bool" where
  "value_state s \<longleftrightarrow> s = 15 \<or> s = 16"

definition in_method :: "int \<Rightarrow> bool" where
  "in_method s \<longleftrightarrow> s = 2 \<or> 175 \<le> s \<and> s \<le> 193"

type_synonym known = "bool \<times> bool \<times> bool"

fun know_act :: "bool \<Rightarrow> act \<Rightarrow> known \<Rightarrow> known option" where
  "know_act start a (qok, fok, m0) =
     (case a of
        Mark \<Rightarrow> Some (qok, fok, start)
      | Start_value \<Rightarrow> Some (qok, fok, start)
      | Start_field \<Rightarrow> Some (qok, False, m0)
      | Write_field \<Rightarrow> Some (qok, True, m0)
      | Write_value \<Rightarrow> if fok then Some (qok, fok, m0) else None
      | Request_method \<Rightarrow> if m0 then Some (qok, fok, m0) else None
      | Start_query \<Rightarrow> Some (True, fok, m0)
      | Query_string \<Rightarrow> if qok then Some (qok, fok, m0) else None
      | _ \<Rightarrow> Some (qok, fok, m0))"

fun know_acts :: "bool \<Rightarrow> act list \<Rightarrow> known \<Rightarrow> known option" where
  "know_acts start [] k = Some k"
| "know_acts start (a # as) k = (case know_act start a k of None \<Rightarrow> None | Some k \<Rightarrow> know_acts start as k)"

definition known_in :: "int \<Rightarrow> known" where
  "known_in s = (query_state s, value_state s, in_method s)"

definition step_ok :: "int \<Rightarrow> act list \<times> int \<Rightarrow> bool" where
  "step_ok s = (\<lambda>(as, n).
     (case know_acts (s = 1) as (known_in s) of
        None \<Rightarrow> False
      | Some (qok, fok, m0) \<Rightarrow> (query_state n \<longrightarrow> qok) \<and> (value_state n \<longrightarrow> fok) \<and> (in_method n \<longrightarrow> m0) \<and> n \<noteq> 1)
     \<and> (Request_method \<in> set as \<longrightarrow> in_method s))"

definition names_method :: "jump \<Rightarrow> bool" where
  "names_method j = (case j of St n \<Rightarrow> False | Tr n \<Rightarrow> Request_method \<in> set (fst (req_trans n)))"

definition state_ok :: "int \<Rightarrow> bool" where
  "state_ok s \<longleftrightarrow> list_all (step_ok s) (steps_of req_machine (req_state s)) \<and> code_at_only 32 names_method (req_state s)"

lemma states_ok: "list_all state_ok [1..349]"
  by code_simp

lemma strncmp_fault: "strncmp_eq s v = Inl e \<Longrightarrow> e = Out_of_bounds \<and> strict_prefix v s"
  by (induction s v rule: strncmp_eq.induct) (auto simp: strict_prefix_def split: if_splits)

lemma first_prefix_fault: "first_prefix v ms = Inl e \<Longrightarrow> e = Out_of_bounds \<and> (\<exists>s\<in>snd ` set ms. strict_prefix v s)"
proof (induction v ms rule: first_prefix.induct)
  case (2 v m s ms)
  then show ?case using strncmp_fault [of s v e] by (cases "strncmp_eq s v") (auto split: if_splits)
qed simp

text \<open>A method name is compared past the end of the buffer only where the buffer is the beginning of the one with blanks.\<close>

lemma method_fault:
  assumes "chars_to_http_methd buf = Inl e" and "p < length buf" and "buf ! p = CHR '' ''"
  shows "e = Out_of_bounds \<and> strict_prefix buf ''M - SEARCH''"
proof -
  obtain s where s: "e = Out_of_bounds" "s \<in> snd ` set method_map" "strict_prefix buf s"
    using first_prefix_fault assms(1) unfolding chars_to_http_methd_def by blast
  obtain zs where "s = buf @ zs" using s(3) by (auto simp: strict_prefix_def prefix_def)
  then have "CHR '' '' \<in> set s" using nth_mem [OF assms(2)] assms(3) by simp
  have m: "list_all (\<lambda>s. CHR '' '' \<in> set s \<longrightarrow> s = ''M - SEARCH'') (map snd method_map)" by (simp add: method_map_def)
  have "s \<in> set (map snd method_map)" using s(2) by (simp only: set_map)
  with m have "CHR '' '' \<in> set s \<longrightarrow> s = ''M - SEARCH''" unfolding list_all_iff by (rule bspec)
  with \<open>CHR '' '' \<in> set s\<close> show ?thesis using s(1,3) by simp
qed

section \<open>One call on a fresh parser\<close>

definition knows :: "nat \<Rightarrow> nat \<Rightarrow> known \<Rightarrow> http_parser \<Rightarrow> bool" where
  "knows N p = (\<lambda>(qok, fok, m0) h.
     hp_cs h = 1 \<and> hp_nread h = 0 \<and> hp_mark h \<le> p \<and> hp_mark h < N \<and> hp_field_start h \<le> p \<and> hp_field_start h < N \<and>
     hp_field_len h \<le> N \<and> hp_body_start h \<le> N \<and> (qok \<longrightarrow> hp_query_start h \<le> p) \<and>
     (fok \<longrightarrow> hp_field_start h + hp_field_len h \<le> p) \<and> (m0 \<longrightarrow> hp_mark h = 0))"

lemma callback_keeps [simp]:
  "qp_parser (on_request_fragment v q) = qp_parser q" "qp_parser (on_request_path v q) = qp_parser q"
  "qp_parser (on_request_query v q) = qp_parser q" "qp_parser (on_request_version v q) = qp_parser q"
  "qp_parser (on_request_http_field f v q) = qp_parser q"
  by (simp_all add: on_request_fragment_def on_request_path_def on_request_query_def on_request_version_def
      on_request_http_field_def split: option.splits)

lemma marked_ok: "at \<le> p \<Longrightarrow> p \<le> length buf \<Longrightarrow> \<exists>v. marked buf at p = Inr v"
  by (simp add: marked_def LEN_def text_at_def)

lemma req_act_rest [simp]:
  "a \<in> {Write_content_len, Write_connection_close, Reason_phrase, Status_code, Chunk_size, Trans_chunked} \<Longrightarrow> req_act buf a p q = Inr q"
  by (auto simp: req_act_def)

lemma act_knows:
  assumes k: "knows (length buf) p k (qp_parser q)" and p: "p < length buf" "start \<longrightarrow> p = 0" and a: "know_act start a k = Some k'"
    and m: "a = Request_method \<longrightarrow> (\<exists>m. chars_to_http_methd buf = Inr m)"
  shows "\<exists>q'. req_act buf a p q = Inr q' \<and> knows (length buf) p k' (qp_parser q')"
proof -
  obtain qok fok m0 where kk: "k = (qok, fok, m0)" by (cases k)
  let ?h = "qp_parser q"
  have "hp_mark ?h \<le> p" using k kk by (simp add: knows_def)
  then obtain v where v: "marked buf (hp_mark ?h) p = Inr v" using marked_ok [of "hp_mark ?h" p buf] p(1) by auto
  consider "a = Request_method" | "a = Query_string" | "a = Write_value" | "a \<notin> {Request_method, Query_string, Write_value}" by blast
  then show ?thesis
  proof cases
    case 1
    then show ?thesis using k kk a m by (auto simp: knows_def on_request_method_def split: if_splits)
  next
    case 2
    then have "hp_query_start ?h \<le> p" using k kk a by (auto simp: knows_def split: if_splits)
    then obtain w where "marked buf (hp_query_start ?h) p = Inr w" using marked_ok [of "hp_query_start ?h" p buf] p(1) by auto
    then show ?thesis using 2 k kk a by (auto split: if_splits)
  next
    case 3
    then have "hp_field_start ?h + hp_field_len ?h \<le> length buf" using k kk a p(1) by (auto simp: knows_def split: if_splits)
    then show ?thesis using 3 v k kk a by (auto simp: text_at_def split: if_splits)
  next
    case 4
    then have "a \<in> {Mark, Start_value} \<and> k' = (qok, fok, start) \<or> a = Start_field \<and> k' = (qok, False, m0) \<or> a = Write_field \<and> k' = (qok, True, m0) \<or>
        a = Start_query \<and> k' = (True, fok, m0) \<or> a \<notin> {Mark, Start_value, Start_field, Write_field, Start_query} \<and> k' = k"
      using a kk by (cases a) auto
    then show ?thesis
    proof (elim disjE conjE)
      assume k': "a \<notin> {Mark, Start_value, Start_field, Write_field, Start_query}" "k' = k"
      show ?thesis using v k 4 k' kk p(1) by (cases a) (auto simp: knows_def req_act_def [of buf Done])
    qed (use k kk p in \<open>auto simp: knows_def LEN_def\<close>)
  qed
qed

lemma acts_know:
  assumes "knows (length buf) p k (qp_parser q)" and "p < length buf" "start \<longrightarrow> p = 0" and "know_acts start as k = Some k'"
    and "Request_method \<in> set as \<longrightarrow> (\<exists>m. chars_to_http_methd buf = Inr m)"
  shows "\<exists>q'. do_acts (req_act buf) as p q = Inr q' \<and> knows (length buf) p k' (qp_parser q')"
  using assms
proof (induction as arbitrary: k q)
  case (Cons a as)
  obtain k1 where k1: "know_act start a k = Some k1" "know_acts start as k1 = Some k'" using Cons.prems(4) by (auto split: option.splits)
  obtain q1 where q1: "req_act buf a p q = Inr q1" "knows (length buf) p k1 (qp_parser q1)"
    using act_knows [OF Cons.prems(1,2,3) k1(1)] Cons.prems(5) by auto
  then show ?case using Cons.IH [OF q1(2) Cons.prems(2,3) k1(2)] Cons.prems(5) by auto
qed simp

lemma schar_blank: "schar c = 32 \<Longrightarrow> c = CHR '' ''"
proof -
  assume s: "schar c = 32"
  have "(of_char c :: int) mod 256 = of_char c" by simp
  then have "(of_char c :: int) < 256" by (metis pos_mod_bound zero_less_numeral)
  then have "(of_char c :: int) = of_char (CHR '' '')" using s by (simp add: schar_def Let_def split: if_splits)
  then show ?thesis by (simp only: of_char_eq_iff)
qed

lemma knows_later: "knows N p k h \<Longrightarrow> knows N (Suc p) k h"
  by (cases k) (auto simp: knows_def)

lemma knows_less: "knows N p (a, b, c) h \<Longrightarrow> (a' \<longrightarrow> a) \<Longrightarrow> (b' \<longrightarrow> b) \<Longrightarrow> (c' \<longrightarrow> c) \<Longrightarrow> knows N p (a', b', c') h"
  by (auto simp: knows_def)

definition scan_knows :: "string \<Rightarrow> nat \<Rightarrow> int \<Rightarrow> req_parser \<Rightarrow> bool" where
  "scan_knows buf p cs q \<longleftrightarrow>
     knows (length buf) p (known_in cs) (qp_parser q) \<and> (cs = 1 \<longrightarrow> p = 0) \<and> (in_method cs \<longrightarrow> 1 \<le> p)"

lemma scan_knows_step:
  assumes I: "scan_knows buf p cs q" and code: "mc_state req_machine cs = Some code" and p: "p < length buf"
    and n: "next_step req_machine relaxed code (buf ! p) = (as, n)" and ok: "\<not> (2 \<le> length buf \<and> strict_prefix buf ''M - SEARCH'')"
  shows "\<exists>q'. do_acts (req_act buf) as p q = Inr q' \<and> scan_knows buf (p + 1) n q'"
proof -
  have cs: "cs \<in> set [1..349]" "code = req_state cs" using code by (auto simp: req_machine_def split: if_splits simp del: upto_rec_numeral)
  then have st: "state_ok cs" using states_ok unfolding list_all_iff by blast
  have in_steps: "(as, n) \<in> set (steps_of req_machine code)" using next_step_in n by metis
  then have "step_ok cs (as, n)" using st cs(2) by (simp add: state_ok_def list_all_iff)
  then obtain qok fok m0 where k: "know_acts (cs = 1) as (known_in cs) = Some (qok, fok, m0)"
      "query_state n \<longrightarrow> qok" "value_state n \<longrightarrow> fok" "in_method n \<longrightarrow> m0" "n \<noteq> 1" "Request_method \<in> set as \<longrightarrow> in_method cs"
    by (auto simp: step_ok_def split: option.splits)
  have "\<exists>m. chars_to_http_methd buf = Inr m" if m: "Request_method \<in> set as"
  proof (rule ccontr)
    assume "\<nexists>m. chars_to_http_methd buf = Inr m"
    then obtain e where e: "chars_to_http_methd buf = Inl e" by (cases "chars_to_http_methd buf") auto
    have "names_method (run_code relaxed (schar (buf ! p)) code)"
      using n m by (auto simp: next_step_def names_method_def req_machine_def split: jump.splits)
    then have "buf ! p = CHR '' ''" using st cs(2) code_at_only_run schar_blank unfolding state_ok_def by blast
    then have "strict_prefix buf ''M - SEARCH''" using method_fault [OF e p] by blast
    moreover have "1 \<le> p" using I k(6) m by (simp add: scan_knows_def)
    ultimately show False using ok p by simp
  qed
  then obtain q' where q': "do_acts (req_act buf) as p q = Inr q'" "knows (length buf) p (qok, fok, m0) (qp_parser q')"
    using acts_know [OF _ p _ k(1), of q] I by (auto simp: scan_knows_def)
  have "knows (length buf) (Suc p) (known_in n) (qp_parser q')"
    unfolding known_in_def by (rule knows_later [OF knows_less [OF q'(2) k(2,3,4)]])
  then show ?thesis using q'(1) k(5) by (simp add: scan_knows_def)
qed

lemma execute_fresh:
  assumes ok: "\<not> (2 \<le> length buf \<and> strict_prefix buf ''M - SEARCH'')"
  shows "\<exists>n q. http_parser_execute buf 0 (HttpRequestParser_new junk) = Inr (n, q)"
proof (cases "buf = []")
  case False
  let ?new = "HttpRequestParser_new junk" and ?q = "upd_hp (\<lambda>h. h\<lparr>hp_nread := 0, hp_mark := 0, hp_field_len := 0, hp_field_start := 0\<rparr>) (HttpRequestParser_new junk)"
  have cs: "hp_cs (qp_parser ?new) = 1" by (simp add: HttpRequestParser_new_def http_parser_init_def)
  have start: "scan_knows buf 0 1 ?q"
    using False by (simp add: scan_knows_def knows_def known_in_def query_state_def value_state_def in_method_def HttpRequestParser_new_def http_parser_init_def)
  have err: "scan_knows buf p 0 q" if "scan_knows buf p s q" for p s q
    using that by (auto simp: scan_knows_def known_in_def query_state_def value_state_def in_method_def knows_def)
  let ?r = "hp_uri_relaxed (qp_parser ?new)"
  have "\<exists>p cs' q'. scan req_machine ?r (req_act buf) (drop 0 buf) 0 1 ?q = Inr (p, cs', q') \<and> 0 \<le> p \<and> p \<le> length buf \<and> scan_knows buf p cs' q'"
  proof (rule scan_invariant_char [where I = "scan_knows buf"])
    show "\<exists>q'. do_acts (req_act buf) as p q = Inr q' \<and> scan_knows buf (p + 1) n q'"
      if "scan_knows buf p s q" "mc_state req_machine s = Some code" "p < length buf" "next_step req_machine ?r code (buf ! p) = (as, n)" for p s q code as n
      by (rule scan_knows_step [OF that ok])
  qed (use start err in auto)
  then obtain p cs' q' where s: "scan req_machine ?r (req_act buf) (drop 0 buf) 0 1 ?q = Inr (p, cs', q')" "p \<le> length buf" "scan_knows buf p cs' q'"
    by blast
  have "http_parser_execute buf 0 ?new = Inr (p - 0, upd_hp (\<lambda>h. h\<lparr>hp_cs := (if hp_cs h = 0 then 0 else cs'), hp_nread := p - 0\<rparr>) q')"
    using s False by (intro execute_done) (simp_all add: cs scan_knows_def knows_def known_in_def)
  then show ?thesis by blast
qed (simp add: http_parser_execute_def)

lemma execute_msearch:
  assumes "2 \<le> length buf" and "strict_prefix buf ''M - SEARCH''"
  shows "http_parser_execute buf 0 (HttpRequestParser_new junk) = Inl Out_of_bounds"
proof -
  obtain r where r: "buf = CHR ''M'' # CHR '' '' # r" using assms by (cases buf; cases "tl buf") (auto simp: strict_prefix_def)
  have f: "chars_to_http_methd buf = Inl Out_of_bounds"
    using assms by (auto simp: r strict_prefix_def prefix_Cons chars_to_http_methd_def method_map_def)
  have m: "moves req_machine relaxed 1 (CHR ''M'') [Mark] 2" "moves req_machine relaxed 2 (CHR '' '') [Request_method] 3" for relaxed
    by (rule method_move [of 1 upper_digit] method_move [of 2 "'' ''"]; simp add: method_moves_def upper_digit_def)+
  have "scan req_machine relaxed (req_act buf) (CHR ''M'' # CHR '' '' # r) 0 1 q = Inl Out_of_bounds" for relaxed q
  proof -
    have "scan req_machine relaxed (req_act buf) (CHR '' '' # r) 1 2 (set_mark 0 q) = Inl Out_of_bounds"
      using m(2) [of relaxed] f by (auto simp: moves_def scan.simps(2) on_request_method_def split: option.splits)
    then show ?thesis using scan_step [OF m(1), of "req_act buf" 0 q "set_mark 0 q" relaxed "CHR '' '' # r"] by simp
  qed
  then show ?thesis using r by (simp add: http_parser_execute_def Let_def HttpRequestParser_new_def http_parser_init_def)
qed


section \<open>The order of the callbacks\<close>

text \<open>Which callback may follow which; \<^const>\<open>None\<close> is before the first. The other actions only set marks.\<close>

definition callbacks :: "act list" where
  "callbacks = [Request_method, Request_path, Query_string, Request_uri, Fragment, Http_version, Write_value, Xml, Json, Done]"

definition follow :: "act option \<Rightarrow> act list" where
  "follow x =
     (case x of
        None \<Rightarrow> [Request_method, Request_path]
      | Some Request_method \<Rightarrow> [Request_path]
      | Some Request_path \<Rightarrow> [Query_string, Request_uri, Json, Xml]
      | Some Query_string \<Rightarrow> [Request_uri]
      | Some Request_uri \<Rightarrow> [Fragment, Http_version]
      | Some Fragment \<Rightarrow> [Http_version]
      | Some Http_version \<Rightarrow> [Write_value, Done]
      | Some Write_value \<Rightarrow> [Write_value, Done]
      | Some Xml \<Rightarrow> [Done]
      | Some Json \<Rightarrow> [Done]
      | _ \<Rightarrow> [])"

fun last_call :: "act option \<Rightarrow> act list \<Rightarrow> act option option" where
  "last_call x [] = Some x"
| "last_call x (a # as) =
     (if List.member callbacks a
      then if List.member (follow x) a then last_call (Some a) as else None
      else last_call x as)"

lemma last_call_append: "last_call x (as @ bs) = (case last_call x as of None \<Rightarrow> None | Some y \<Rightarrow> last_call y bs)"
  by (induction x as rule: last_call.induct) auto

text \<open>The callback last made in each state.\<close>

definition lasts :: "int \<Rightarrow> act option list" where
  "lasts s =
     (if s \<le> 2 then [None]
      else if s = 3 then [Some Request_method]
      else if s \<le> 12 then [Some Fragment, Some Request_uri]
      else if s \<le> 18 then [Some Http_version, Some Write_value]
      else if s = 19 then [Some Request_method]
      else if s \<le> 23 then [Some Request_uri]
      else if s \<le> 28 then [Some Request_method]
      else if s \<le> 32 then [Some Request_path]
      else if s \<le> 174 then [Some Request_method]
      else if s \<le> 195 then [None]
      else if s \<le> 197 then [Some Request_path]
      else if s = 198 then [None]
      else if s \<le> 201 then [Some Request_path]
      else [None])"

definition call_ok :: "int \<Rightarrow> act list \<times> int \<Rightarrow> bool" where
  "call_ok s = (\<lambda>(as, n).
     list_all (\<lambda>x. case last_call x as of
         None \<Rightarrow> False
       | Some y \<Rightarrow> if List.member as Done then y = Some Done \<and> 348 \<le> n else n < 348 \<and> (n = 0 \<or> List.member (lasts n) y)) (lasts s))"

lemma calls_ok: "list_all (\<lambda>s. list_all (call_ok s) (steps_of req_machine (req_state s))) [1..347]"
  by code_simp

definition log_act :: "act \<Rightarrow> nat \<Rightarrow> act list \<Rightarrow> act list outcome" where
  "log_act a p tr = Inr (tr @ [a])"

lemma do_log: "do_acts log_act as p tr = Inr (tr @ as)"
  by (induction as arbitrary: tr) (simp_all add: log_act_def)

lemma scan_calls:
  assumes "last_call None tr = Some y" and "cs = 0 \<or> y \<in> set (lasts cs)" and "cs < 348" and "Done \<notin> set tr"
  shows "\<exists>p' cs' tr' z. scan req_machine relaxed log_act rest p cs tr = Inr (p', cs', tr') \<and> last_call None tr' = Some z \<and>
    (Done \<in> set tr' \<longleftrightarrow> 348 \<le> cs')"
  using assms
proof (induction rest arbitrary: p cs tr y)
  case (Cons c rest)
  show ?case
  proof (cases "mc_state req_machine cs")
    case None
    then show ?thesis using Cons.prems by (simp add: scan.simps(2))
  next
    case (Some code)
    then have cs: "cs \<in> set [1..347]" "code = req_state cs"
      using Cons.prems(3) by (auto simp: req_machine_def split: if_splits simp del: upto_rec_numeral)
    obtain as n where n: "next_step req_machine relaxed code c = (as, n)" by fastforce
    then have "(as, n) \<in> set (steps_of req_machine code)" using next_step_in by metis
    then have "call_ok cs (as, n)" using calls_ok cs unfolding list_all_iff by blast
    moreover have "y \<in> set (lasts cs)" using Cons.prems(2) cs(1) by auto
    ultimately have ok: "\<exists>z. last_call y as = Some z \<and> (if Done \<in> set as then z = Some Done \<and> 348 \<le> n else n < 348 \<and> (n = 0 \<or> z \<in> set (lasts n)))"
      by (auto simp: call_ok_def list_all_iff List.member_iff split: option.splits if_splits)
    then obtain z where z: "last_call y as = Some z" "Done \<in> set as \<longrightarrow> 348 \<le> n" "Done \<notin> set as \<longrightarrow> n < 348 \<and> (n = 0 \<or> z \<in> set (lasts n))"
      by (auto split: if_splits)
    have l: "last_call None (tr @ as) = Some z" using Cons.prems(1) z(1) by (simp add: last_call_append)
    show ?thesis
    proof (cases "as = [] \<and> n = 0 \<or> Done \<in> set as")
      case True
      then show ?thesis using Some n Cons.prems l z by (auto simp: scan.simps(2) do_log)
    next
      case False
      then show ?thesis using Cons.IH [OF l, of n "Suc p"] Some n Cons.prems(4) z by (auto simp: scan.simps(2) do_log)
    qed
  qed
qed simp

text \<open>
  C29. Whatever the bytes, the request scanner calls back in the order of the grammar: at most one method, then the
  path, at most one query, the URI, at most one fragment, the version, any number of header fields and the end of the
  headers (or, after the path, an XML or JSON message and the end); no callback is out of turn or repeated, nothing comes after the end,
  and the scanner is in a final state exactly when the end was called.
\<close>

theorem request_callback_order:
  "\<exists>p cs tr z. scan req_machine relaxed log_act buf 0 1 [] = Inr (p, cs, tr) \<and> last_call None tr = Some z \<and>
     (Done \<in> set tr \<longleftrightarrow> 348 \<le> cs)"
  using scan_calls [of "[]" None 1] by (simp add: lasts_def)

section \<open>Requests that arrive in pieces\<close>

lemma scan_key_rest:
  assumes k: "set k \<subseteq> set tokens" and q: "hp_field_start (qp_parser q) = p"
  shows "scan req_machine relaxed (req_act buf) (k @ CHR '':'' # rest) p 14 q =
    scan req_machine relaxed (req_act buf) rest (p + length k + 1) 15 (upd_hp (\<lambda>h. h\<lparr>hp_field_len := length k\<rparr>) q)"
proof -
  have "\<forall>c\<in>set k. moves req_machine relaxed 14 c [] 14"
    by (intro ballI field_move [of 14 tokens]) (use k in \<open>auto simp: field_moves_def\<close>)
  note 1 = scan_loop [OF this]
  have 2: "moves req_machine relaxed 14 (CHR '':'') [Write_field] 15" by (rule field_move1) (simp add: field_moves_def)
  show ?thesis
    using q by (simp add: 1 LEN_def scan_step [OF 2, where d' = "upd_hp (\<lambda>h. h\<lparr>hp_field_len := length k\<rparr>) q"])
qed

text \<open>
  C39. The parser does not survive a request that arrives in two pieces. If one call ended inside the name of a header
  field, the next call, given the rest of the name, the value and the end of the headers, finishes without an error but with
  the wrong field: the value is stored under the rest of the name, which \<open>http_parser_execute\<close> takes to start
  at the beginning of the new buffer, and it is dropped when nothing but the colon was missing.
\<close>

theorem split_request_garbled:
  assumes "hp_cs (qp_parser q) = 14" and "\<not> hp_xml_sent (qp_parser q)" "\<not> hp_json_sent (qp_parser q)"
    and "set k \<subseteq> set tokens" and "set sp \<subseteq> set blanks" and "value_ok v"
    and buf: "buf = k @ CHR '':'' # sp @ v @ CRLF @ CRLF @ body"
  shows "\<exists>q'. http_parser_execute buf 0 q = Inr (length buf - length body, q') \<and> req_isFinished q' = 1 \<and> qp_error q' = qp_error q \<and>
    qp_data q' = (if k = [] then qp_data q else setHeader k v (qp_data q))"
proof -
  let ?q = "upd_hp (\<lambda>h. h\<lparr>hp_nread := 0, hp_mark := 0, hp_field_len := 0, hp_field_start := 0\<rparr>) q" and ?pre = "k @ CHR '':'' # sp"
  let ?S = "scan req_machine (hp_uri_relaxed (qp_parser q)) (req_act buf)" and ?k = "upd_hp (\<lambda>h. h\<lparr>hp_field_len := length k\<rparr>)"
  let ?rest = "v @ CRLF @ CRLF @ body" and ?p = "length ?pre + length v + 2"
  obtain m where m: "?S (sp @ ?rest) (length k + 1) 15 (?k ?q) = ?S ?rest (length k + 1 + length sp) 15 (set_mark m (?k ?q))"
    using scan_blanks [OF assms(5)] by blast
  have b: "buf = ?pre @ v @ CRLF @ (CRLF @ body)" by (simp add: buf)
  have "text_at buf 0 (length k) = Inr k" by (simp add: buf text_at_def)
  then have v: "?S ?rest (length ?pre) 15 (set_mark m (?k ?q)) =
      ?S (CRLF @ body) ?p 13 (on_request_http_field k v (set_mark (length ?pre) (set_mark m (?k ?q))))"
    using assms(6) by (intro scan_value [OF _ _ _ b]) (simp_all add: value_ok_def)
  let ?q1 = "on_request_http_field k v (set_mark (length ?pre) (set_mark m (?k ?q)))"
  define q2 where "q2 = upd_hp (\<lambda>h. h\<lparr>hp_field_start := ?p, hp_body_start := ?p + 2\<rparr>) ?q1"
  have e: "?S (CRLF @ body) ?p 13 ?q1 = Inr (?p + 2, 348, q2)" unfolding q2_def using assms(2,3) by (intro scan_end) simp_all
  have "?S (drop 0 buf) 0 14 ?q = ?S (sp @ ?rest) (length k + 1) 15 (?k ?q)"
    using scan_key_rest [OF assms(4), of ?q 0] by (simp add: buf)
  then have s: "?S (drop 0 buf) 0 (hp_cs (qp_parser q)) ?q = Inr (?p + 2, 348, q2)"
    using m v e assms(1) by simp
  have n: "?p + 2 - 0 = length buf - length body" "?p + 2 \<le> length buf" by (simp_all add: b CRLF_def)
  have "http_parser_execute buf 0 q = Inr (?p + 2 - 0, upd_hp (\<lambda>h. h\<lparr>hp_cs := (if hp_cs h = 0 then 0 else 348), hp_nread := ?p + 2 - 0\<rparr>) q2)"
    using n(2) by (intro execute_done [OF _ _ s]) (simp_all add: q2_def buf CRLF_def)
  moreover have "qp_data q2 = (if k = [] then qp_data q else setHeader k v (qp_data q))" "qp_error q2 = qp_error q" "hp_cs (qp_parser q2) = 14"
    using assms(1) by (simp_all add: q2_def) (simp_all add: on_request_http_field_def)
  ultimately show ?thesis
    unfolding n(1) by (simp add: req_isFinished_def http_parser_finish_def http_parser_has_error_def http_parser_is_finished_def)
qed

text \<open>\<open>Host: a\<close> cut after two letters.\<close>

definition first_piece :: req_parser where
  "first_piece =
     (case http_parser_execute (''GET / HTTP/1.1'' @ CRLF @ ''Ho'') 0 (HttpRequestParser_new blank_parser) of
        Inl e \<Rightarrow> HttpRequestParser_new blank_parser
      | Inr (n, q) \<Rightarrow> q)"

lemma first_piece_state:
  "hp_cs (qp_parser first_piece) = 14 \<and> \<not> hp_xml_sent (qp_parser first_piece) \<and> \<not> hp_json_sent (qp_parser first_piece) \<and>
   rq_headers (qp_data first_piece) = [] \<and> rq_path (qp_data first_piece) = ''/''"
  by code_simp

theorem split_request_garbled_witness:
  "\<exists>q'. http_parser_execute (''st: a'' @ CRLF @ CRLF) 0 first_piece = Inr (9, q') \<and> req_isFinished q' = 1 \<and>
     hm_get ''Host'' (rq_headers (qp_data q')) = None \<and> hm_get ''st'' (rq_headers (qp_data q')) = Some ''a''"
proof -
  have "\<exists>q'. http_parser_execute (''st: a'' @ CRLF @ CRLF) 0 first_piece = Inr (length (''st: a'' @ CRLF @ CRLF) - length ([] :: string), q') \<and>
      req_isFinished q' = 1 \<and> qp_error q' = qp_error first_piece \<and>
      qp_data q' = (if ''st'' = [] then qp_data first_piece else setHeader ''st'' ''a'' (qp_data first_piece))"
    using first_piece_state
    by (intro split_request_garbled [where sp = "'' ''"]) (simp_all add: tokens_def blanks_def value_ok_def value_chars_iff blanks_iff)
  moreover have "hm_get ''Host'' (hm_set ''st'' ''a'' []) = None" "hm_get ''st'' (hm_set ''st'' ''a'' []) = Some ''a''"
    by (simp_all add: hm_get_set ci_key_def c_str_def tolower_def)
  ultimately show ?thesis using first_piece_state by (auto simp: setHeader_def CRLF_def)
qed

end
