(* ===== verification/Cool_Servlet.thy ===== *)
theory Cool_Servlet
  imports Cool_Http
begin

text \<open>
  Servlets and their dispatcher (src/http/servlet.h, src/http/servlet.cpp). The virtual function of a servlet is a
  function that may change the request, the response and the session it is given; \<open>'s\<close> is the state of the session.
  A \<open>Servlet::ptr\<close> may be null.
\<close>

section \<open>Servlets\<close>

type_synonym 's handler = "http_request \<Rightarrow> http_response \<Rightarrow> 's \<Rightarrow> (int \<times> http_request \<times> http_response \<times> 's) outcome"

record 's servlet =
  sl_name :: string
  sl_handle :: "'s handler"

type_synonym 's servlet_ptr = "'s servlet option"

definition FunctionServlet :: "'s handler \<Rightarrow> 's servlet" where
  "FunctionServlet cb = \<lparr>sl_name = ''FunctionServlet'', sl_handle = cb\<rparr>"

definition not_found_body :: string where
  "not_found_body =
     ''<html><head><title>404 Not Found</title></head><body><center><h1>404 Not Found</h1></center>'' @
     ''<hr><center>cool/1.0.0</center></body></html>''"

definition NotFoundServlet_handle :: "'s handler" where
  "NotFoundServlet_handle request response session =
     (let response = response\<lparr>rp_status := 404\<rparr>;
          response = rsp_setHeader ''Server'' ''cool/1.0.0'' response;
          response = rsp_setHeader ''Content-Type'' ''text/html'' response
      in Inr (0, request, response\<lparr>rp_body := not_found_body\<rparr>, session))"

definition NotFoundServlet :: "'s servlet" where
  "NotFoundServlet = \<lparr>sl_name = ''NotFoundServlet'', sl_handle = NotFoundServlet_handle\<rparr>"

section \<open>The dispatcher\<close>

record 's dispatch =
  m_datas :: "string \<Rightarrow> 's servlet_ptr option"
  m_globs :: "(string \<times> 's servlet_ptr) list"
  m_default :: "'s servlet_ptr"

definition ServletDispatch_new :: "'s dispatch" where
  "ServletDispatch_new = \<lparr>m_datas = (\<lambda>_. None), m_globs = [], m_default = Some NotFoundServlet\<rparr>"

definition add_servlet :: "string \<Rightarrow> 's servlet_ptr \<Rightarrow> 's dispatch \<Rightarrow> 's dispatch" where
  "add_servlet uri slt d = d\<lparr>m_datas := (m_datas d)(uri \<mapsto> slt)\<rparr>"

definition add_servlet_cb :: "string \<Rightarrow> 's handler \<Rightarrow> 's dispatch \<Rightarrow> 's dispatch" where
  "add_servlet_cb uri cb d = d\<lparr>m_datas := (m_datas d)(uri \<mapsto> Some (FunctionServlet cb))\<rparr>"

text \<open>Erasing the first entry of a pattern.\<close>

fun erase_glob :: "string \<Rightarrow> (string \<times> 's) list \<Rightarrow> (string \<times> 's) list" where
  "erase_glob uri [] = []"
| "erase_glob uri ((p, s) # globs) = (if p = uri then globs else (p, s) # erase_glob uri globs)"

definition add_glob_servlet :: "string \<Rightarrow> 's servlet_ptr \<Rightarrow> 's dispatch \<Rightarrow> 's dispatch" where
  "add_glob_servlet uri slt d = d\<lparr>m_globs := erase_glob uri (m_globs d) @ [(uri, slt)]\<rparr>"

definition add_glob_servlet_cb :: "string \<Rightarrow> 's handler \<Rightarrow> 's dispatch \<Rightarrow> 's dispatch" where
  "add_glob_servlet_cb uri cb d = add_glob_servlet uri (Some (FunctionServlet cb)) d"

definition del_servlet :: "string \<Rightarrow> 's dispatch \<Rightarrow> 's dispatch" where
  "del_servlet uri d = d\<lparr>m_datas := (m_datas d)(uri := None)\<rparr>"

definition del_glob_servlet :: "string \<Rightarrow> 's dispatch \<Rightarrow> 's dispatch" where
  "del_glob_servlet uri d = d\<lparr>m_globs := erase_glob uri (m_globs d)\<rparr>"

definition get_servlet :: "string \<Rightarrow> 's dispatch \<Rightarrow> 's servlet_ptr" where
  "get_servlet uri d = (case m_datas d uri of None \<Rightarrow> None | Some slt \<Rightarrow> slt)"

fun first_glob :: "(string \<Rightarrow> bool) \<Rightarrow> (string \<times> 's) list \<Rightarrow> 's option" where
  "first_glob P [] = None"
| "first_glob P ((p, s) # globs) = (if P p then Some s else first_glob P globs)"

definition get_glob_servlet :: "string \<Rightarrow> 's dispatch \<Rightarrow> 's servlet_ptr" where
  "get_glob_servlet uri d = (case first_glob (\<lambda>p. p = uri) (m_globs d) of None \<Rightarrow> None | Some slt \<Rightarrow> slt)"

definition set_default_servlet :: "'s servlet_ptr \<Rightarrow> 's dispatch \<Rightarrow> 's dispatch" where
  "set_default_servlet v d = d\<lparr>m_default := v\<rparr>"

text \<open>\<open>fnmatch p u\<close>: the call of that name with no flags returns 0 on the C strings.\<close>

definition get_matched_servlet :: "(string \<Rightarrow> string \<Rightarrow> bool) \<Rightarrow> string \<Rightarrow> 's dispatch \<Rightarrow> 's servlet_ptr" where
  "get_matched_servlet fnmatch uri d =
     (case m_datas d uri of
        Some slt \<Rightarrow> slt
      | None \<Rightarrow>
          (case first_glob (\<lambda>p. fnmatch (c_str p) (c_str uri)) (m_globs d) of
             Some slt \<Rightarrow> slt
           | None \<Rightarrow> m_default d))"

definition ServletDispatch_handle :: "(string \<Rightarrow> string \<Rightarrow> bool) \<Rightarrow> 's dispatch \<Rightarrow> 's handler" where
  "ServletDispatch_handle fnmatch d request response session =
     (case get_matched_servlet fnmatch (rq_path request) d of
        Some slt \<Rightarrow>
          bindE (sl_handle slt request response session) (\<lambda>(_, request, response, session). Inr (0, request, response, session))
      | None \<Rightarrow> Inr (0, request, response, session))"

section \<open>What is registered\<close>

text \<open>A history of registrations, and what is in force after it: for a path the last operation on it, for patterns those not touched since they were added, in that order.\<close>

datatype 's reg = Add string "'s servlet_ptr" | Remove string | Add_glob string "'s servlet_ptr" | Remove_glob string

fun register :: "'s reg \<Rightarrow> 's dispatch \<Rightarrow> 's dispatch" where
  "register (Add u s) d = add_servlet u s d"
| "register (Remove u) d = del_servlet u d"
| "register (Add_glob u s) d = add_glob_servlet u s d"
| "register (Remove_glob u) d = del_glob_servlet u d"

fun touches_glob :: "string \<Rightarrow> 's reg \<Rightarrow> bool" where
  "touches_glob u (Add_glob v s) \<longleftrightarrow> v = u"
| "touches_glob u (Remove_glob v) \<longleftrightarrow> v = u"
| "touches_glob u _ \<longleftrightarrow> False"

fun live_globs :: "'s reg list \<Rightarrow> (string \<times> 's servlet_ptr) list" where
  "live_globs [] = []"
| "live_globs (Add_glob u s # ops) = (if list_ex (touches_glob u) ops then live_globs ops else (u, s) # live_globs ops)"
| "live_globs (_ # ops) = live_globs ops"

fun last_reg :: "string \<Rightarrow> 's reg list \<Rightarrow> 's servlet_ptr option" where
  "last_reg u [] = None"
| "last_reg u (Add v s # ops) = (if v = u then Some s else last_reg u ops)"
| "last_reg u (Remove v # ops) = (if v = u then None else last_reg u ops)"
| "last_reg u (_ # ops) = last_reg u ops"

lemma erase_glob_other: "u \<notin> fst ` set globs \<Longrightarrow> erase_glob u globs = globs"
  by (induction globs) auto

lemma erase_glob_filter: "distinct (map fst globs) \<Longrightarrow> erase_glob u globs = filter (\<lambda>(p, s). p \<noteq> u) globs"
proof (induction globs)
  case (Cons x globs)
  then show ?case by (cases x) (auto simp: erase_glob_other rev_image_eqI intro!: filter_True [symmetric])
qed simp

lemma distinct_filter_fst: "distinct (map fst xs) \<Longrightarrow> distinct (map fst (filter P xs))"
  by (induction xs) auto

text \<open>Registering after a history of patterns that are in force.\<close>

lemma fold_register_globs:
  assumes "distinct (map fst (m_globs d))"
  shows "m_globs (fold register ops d) = filter (\<lambda>(p, s). \<not> list_ex (touches_glob p) ops) (m_globs d) @ live_globs ops \<and>
    distinct (map fst (m_globs (fold register ops d)))"
  using assms
proof (induction ops arbitrary: d)
  case (Cons op ops)
  have dist: "distinct (map fst (m_globs (register op d)))"
    using Cons.prems by (cases op) (auto simp: add_servlet_def del_servlet_def add_glob_servlet_def del_glob_servlet_def erase_glob_filter distinct_filter_fst)
  have "filter (\<lambda>(p, s). \<not> list_ex (touches_glob p) ops) (m_globs (register op d)) @ live_globs ops =
      filter (\<lambda>(p, s). \<not> list_ex (touches_glob p) (op # ops)) (m_globs d) @ live_globs (op # ops)"
    using Cons.prems
    by (cases op) (auto simp: add_servlet_def del_servlet_def add_glob_servlet_def del_glob_servlet_def erase_glob_filter case_prod_unfold intro!: filter_cong)
  with Cons.IH [OF dist] show ?case by (metis fold_simps(2))
qed simp

lemma register_exact: "m_datas (fold register ops d) u = (case last_reg u (rev ops) of Some s \<Rightarrow> Some s | None \<Rightarrow>
    if list_ex (\<lambda>op. op = Remove u) ops then None else m_datas d u)"
proof (induction ops rule: rev_induct)
  case (snoc op ops)
  then show ?case
    by (cases op) (auto simp: add_servlet_def del_servlet_def add_glob_servlet_def del_glob_servlet_def split: option.splits)
qed simp

lemma register_default: "m_default (fold register ops d) = m_default d"
proof (induction ops arbitrary: d)
  case (Cons op ops)
  then show ?case by (cases op) (simp_all add: add_servlet_def del_servlet_def add_glob_servlet_def del_glob_servlet_def)
qed simp

text \<open>
  C13. Which servlet a request reaches: after any history of registrations on a new dispatcher, a path goes to the
  servlet registered last for exactly this path, unless it was removed since; else to the servlet of the first matching
  pattern, in the order in which the patterns in force were last added, each pattern counting once; else to the
  servlet that answers 404.
\<close>

theorem dispatch_precedence:
  "distinct (map fst (m_globs (fold register ops ServletDispatch_new))) \<and>
   get_matched_servlet fnmatch uri (fold register ops ServletDispatch_new) =
     (case last_reg uri (rev ops) of
        Some slt \<Rightarrow> slt
      | None \<Rightarrow>
          (case first_glob (\<lambda>p. fnmatch (c_str p) (c_str uri)) (live_globs ops) of
             Some slt \<Rightarrow> slt
           | None \<Rightarrow> Some NotFoundServlet))"
  using fold_register_globs [of ServletDispatch_new ops] register_exact [of ops ServletDispatch_new uri] register_default [of ops ServletDispatch_new]
  by (simp add: get_matched_servlet_def ServletDispatch_new_def split: option.splits)

end
