(* ===== verification/Cool_HttpServer.thy ===== *)
theory Cool_HttpServer
  imports Cool_Servlet Cool_RequestTrip Cool_Socket
begin

text \<open>
  HTTP sessions and the HTTP server (src/http/http_session.cpp, src/http/http_server.cpp): receiving a request over a socket
  stream, dispatching it to a servlet and sending the response. Loops that may never end are partial functions.
\<close>

section \<open>Sessions\<close>

text \<open>The stream carries bytes, the parser works on characters.\<close>

definition chars_of :: "byte list \<Rightarrow> string" where
  "chars_of bs = map (\<lambda>b. char_of (uint b)) bs"

definition bytes_of :: "string \<Rightarrow> byte list" where
  "bytes_of s = map (\<lambda>c. word_of_int (of_char c)) s"

text \<open>
  The reading loop of \<open>recvRequest\<close> over a buffer \<open>data\<close> of \<open>buf_size\<close> characters, of which the first \<open>offset\<close> are left over from the
  last call of the parser. It ends without a request when the stream is closed, or with the parser, the buffer and what is left in it.
\<close>

partial_function (option) recv_loop ::
  "'k calls \<Rightarrow> nat \<Rightarrow> string \<Rightarrow> nat \<Rightarrow> req_parser \<Rightarrow> 'k stream_st \<Rightarrow> ((req_parser \<times> string \<times> nat) option \<times> 'k stream_st) outcome option" where
  "recv_loop c buf_size data offset parser st =
     (case stream_read c (buf_size - offset) st of ((len, bytes), st) \<Rightarrow>
        if length data < offset + length bytes then Some (Inl Out_of_bounds)
        else let data = overwrite offset (chars_of bytes) data in
        if len \<le> 0 then Some (Inr (None, stream_close c st))
        else let n = nat len + offset in
          (case req_execute (take n data) parser of
             Inl e \<Rightarrow> Some (Inl e)
           | Inr (nparse, moved, parser) \<Rightarrow>
               let data = moved @ drop n data in
               if req_hasError parser then Some (Inr (None, stream_close c st))
               else let offset = n - nparse in
                 if offset = buf_size then Some (Inr (None, stream_close c st))
                 else if req_isFinished parser \<noteq> 0 then Some (Inr (Some (parser, data, offset), st))
                 else recv_loop c buf_size data offset parser st))"

text \<open>
  The body: the string is first resized to its length and the characters at hand are then appended; the missing ones are read to its
  end, where it has no room. \<open>can_alloc\<close> tells for which lengths the allocation succeeds.
\<close>

definition recv_body ::
  "'k calls \<Rightarrow> (int \<Rightarrow> bool) \<Rightarrow> int \<Rightarrow> string \<Rightarrow> nat \<Rightarrow> req_parser \<Rightarrow> 'k stream_st \<Rightarrow> (http_request option \<times> 'k stream_st) outcome option" where
  "recv_body c can_alloc n data offset parser st =
     (if n > 0
      then if \<not> can_alloc n then Some (Inl (Exception ''bad_alloc''))
        else let body = replicate (nat n) (CHR 0x00) @ take (if n \<ge> int offset then offset else nat n) data;
                 req = (qp_data parser)\<lparr>rq_body := body\<rparr>;
                 left = n - int offset
             in if left > 0
                then (case readFixSize (stream_read c) (word_of_int left) [] st of
                        None \<Rightarrow> None
                      | Some (Inl e) \<Rightarrow> Some (Inl e)
                      | Some (Inr (rt, _, st)) \<Rightarrow>
                          if rt \<le> 0 then Some (Inr (None, stream_close c st)) else Some (Inr (Some req, st)))
                else Some (Inr (Some req, st))
      else Some (Inr (Some (qp_data parser), st)))"

definition recvRequest ::
  "'k calls \<Rightarrow> (string \<Rightarrow> u64 option) \<Rightarrow> (int \<Rightarrow> bool) \<Rightarrow> http_parser \<Rightarrow> string \<Rightarrow> 'k stream_st \<Rightarrow> (http_request option \<times> 'k stream_st) outcome option" where
  "recvRequest c to_num can_alloc junk buffer st =
     (case recv_loop c (length buffer) buffer 0 (HttpRequestParser_new junk) st of
        None \<Rightarrow> None
      | Some (Inl e) \<Rightarrow> Some (Inl e)
      | Some (Inr (None, st)) \<Rightarrow> Some (Inr (None, st))
      | Some (Inr (Some (parser, data, offset), st)) \<Rightarrow>
          recv_body c can_alloc (sint (req_content_length to_num parser)) data offset parser st)"

definition sendResponse :: "'k calls \<Rightarrow> http_response \<Rightarrow> 'k stream_st \<Rightarrow> (int \<times> 'k stream_st) outcome option" where
  "sendResponse c rsp st =
     (let data = bytes_of (response_dump rsp) in writeFixSize (stream_write c) (of_nat (length data)) data st)"

section \<open>The server\<close>

text \<open>Serving a client; \<open>junk\<close> and \<open>buffer\<close> are what the memory of the parser and of the buffer held. At the end the session is closed, and its destructor closes it again.\<close>

partial_function (option) client_loop ::
  "'k calls \<Rightarrow> (string \<Rightarrow> u64 option) \<Rightarrow> (int \<Rightarrow> bool) \<Rightarrow> (string \<Rightarrow> string \<Rightarrow> bool) \<Rightarrow> http_parser \<Rightarrow> string \<Rightarrow>
   bool \<Rightarrow> 'k stream_st dispatch \<Rightarrow> 'k stream_st \<Rightarrow> 'k stream_st outcome option" where
  "client_loop c to_num can_alloc fnmatch junk buffer keepalive d st =
     (case recvRequest c to_num can_alloc junk buffer st of
        None \<Rightarrow> None
      | Some (Inl e) \<Rightarrow> Some (Inl e)
      | Some (Inr (None, st)) \<Rightarrow> Some (Inr st)
      | Some (Inr (Some req, st)) \<Rightarrow>
          let rsp = HttpResponse_new (rq_version req) (rq_close req \<or> \<not> keepalive) in
          (case ServletDispatch_handle fnmatch d req rsp st of
             Inl e \<Rightarrow> Some (Inl e)
           | Inr (_, req, rsp, st) \<Rightarrow>
               (case sendResponse c rsp st of
                  None \<Rightarrow> None
                | Some (Inl e) \<Rightarrow> Some (Inl e)
                | Some (Inr (_, st)) \<Rightarrow>
                    if keepalive then client_loop c to_num can_alloc fnmatch junk buffer keepalive d st else Some (Inr st))))"

definition HttpServer_handle_client ::
  "'k calls \<Rightarrow> (string \<Rightarrow> u64 option) \<Rightarrow> (int \<Rightarrow> bool) \<Rightarrow> (string \<Rightarrow> string \<Rightarrow> bool) \<Rightarrow> http_parser \<Rightarrow> string \<Rightarrow>
   bool \<Rightarrow> 'k stream_st dispatch \<Rightarrow> sock \<times> 'k world \<Rightarrow> 'k stream_st outcome option" where
  "HttpServer_handle_client c to_num can_alloc fnmatch junk buffer keepalive d client =
     (case client_loop c to_num can_alloc fnmatch junk buffer keepalive d (Some (fst client), snd client) of
        None \<Rightarrow> None
      | Some (Inl e) \<Rightarrow> Some (Inl e)
      | Some (Inr st) \<Rightarrow> Some (Inr (SocketStream_delete c True (stream_close c st))))"

section \<open>Serving a request\<close>

lemma length_bytes_of [simp]: "length (bytes_of s) = length s"
  by (simp add: bytes_of_def)

lemma chars_of_bytes_of [simp]: "chars_of (bytes_of s) = s"
proof -
  have "char_of (uint (word_of_int (of_char c) :: byte)) = c" for c
    by (simp add: uint_word_of_int)
  then show ?thesis by (simp add: chars_of_def bytes_of_def comp_def)
qed

text \<open>A request that arrives in one read: the parser finishes, and what is left in the buffer is the body.\<close>

lemma recv_loop_whole:
  assumes ok: "req_ok r" and conn: "m_isConnected s" and len: "length (request_dump r) \<le> length buffer"
    and rcv: "c_recv c (m_sock s) (length buffer) 0 w = ((int (length (request_dump r)), bytes_of (request_dump r)), w')"
  shows "\<exists>q data. recv_loop c (length buffer) buffer 0 (HttpRequestParser_new junk) (Some s, w) =
      Some (Inr (Some (q, data, length (rq_body r)), (Some s, w'))) \<and> take (length (rq_body r)) data = rq_body r \<and>
    rq_method (qp_data q) = rq_method r \<and> rq_version (qp_data q) = rq_version r \<and> rq_path (qp_data q) = rq_path r \<and>
    rq_query (qp_data q) = rq_query r \<and> rq_fragment (qp_data q) = rq_fragment r \<and> rq_close (qp_data q) \<and> rq_body (qp_data q) = [] \<and>
    (\<forall>k. hm_get k (rq_headers (qp_data q)) = sent_header r k)"
proof -
  let ?d = "request_dump r"
  have N: "0 < length ?d" "length (rq_body r) < length ?d" "drop (length ?d - length (rq_body r)) ?d = rq_body r"
    by (simp_all add: request_dump_fields)
  obtain q where q: "http_parser_execute ?d 0 (HttpRequestParser_new junk) = Inr (length ?d - length (rq_body r), q)"
      "req_isFinished q = 1" "\<not> req_hasError q"
    and f: "rq_method (qp_data q) = rq_method r" "rq_version (qp_data q) = rq_version r" "rq_path (qp_data q) = rq_path r"
      "rq_query (qp_data q) = rq_query r" "rq_fragment (qp_data q) = rq_fragment r" "rq_close (qp_data q)" "rq_body (qp_data q) = []"
      "\<forall>k. hm_get k (rq_headers (qp_data q)) = sent_header r k"
    using execute_request [OF ok, of junk] unfolding Let_def by blast
  let ?m = "move_rest ?d (length ?d - length (rq_body r))" and ?data = "?d @ drop (length ?d) buffer"
  have e: "req_execute ?d (HttpRequestParser_new junk) = Inr (length ?d - length (rq_body r), ?m, q)"
    using q(1) by (simp add: req_execute_def)
  have rd: "stream_read c (length buffer) (Some s, w) = ((int (length ?d), bytes_of ?d), (Some s, w'))"
    using conn rcv by (simp add: stream_read_def stream_isConnected_def socket_recv_def)
  have ov: "overwrite 0 ?d buffer = ?data" "take (length ?d) ?data = ?d" "drop (length ?d) ?data = drop (length ?d) buffer"
    by (simp_all add: overwrite_def)
  have "recv_loop c (length buffer) buffer 0 (HttpRequestParser_new junk) (Some s, w) =
      Some (Inr (Some (q, ?m @ drop (length ?d) buffer, length (rq_body r)), (Some s, w')))"
    using N len q(2,3) by (subst recv_loop.simps) (simp add: rd ov e Let_def)
  moreover have "take (length (rq_body r)) (?m @ drop (length ?d) buffer) = rq_body r" using N(3) by (simp add: move_rest_def)
  ultimately show ?thesis using f by blast
qed

lemma recvRequest_whole:
  assumes "req_ok r" and "m_isConnected s" and "length (request_dump r) \<le> length buffer" and "length (rq_body r) < 2 ^ 63"
    and "c_recv c (m_sock s) (length buffer) 0 w = ((int (length (request_dump r)), bytes_of (request_dump r)), w')"
    and "rq_body r = [] \<Longrightarrow> hm_get ''content-length'' (rq_headers r) = None"
    and "to_num (dec (length (rq_body r))) = Some (of_nat (length (rq_body r)))" and "can_alloc (int (length (rq_body r)))"
  shows "\<exists>q. recvRequest c to_num can_alloc junk buffer (Some s, w) = Some (Inr (Some q, (Some s, w'))) \<and>
    rq_method q = rq_method r \<and> rq_version q = rq_version r \<and> rq_path q = rq_path r \<and> rq_query q = rq_query r \<and>
    rq_fragment q = rq_fragment r \<and> rq_close q \<and> (\<forall>k. hm_get k (rq_headers q) = sent_header r k) \<and>
    rq_body q = replicate (length (rq_body r)) (CHR 0x00) @ rq_body r"
proof -
  obtain q data where l: "recv_loop c (length buffer) buffer 0 (HttpRequestParser_new junk) (Some s, w) =
      Some (Inr (Some (q, data, length (rq_body r)), (Some s, w')))" "take (length (rq_body r)) data = rq_body r"
    and f: "rq_method (qp_data q) = rq_method r" "rq_version (qp_data q) = rq_version r" "rq_path (qp_data q) = rq_path r"
      "rq_query (qp_data q) = rq_query r" "rq_fragment (qp_data q) = rq_fragment r" "rq_close (qp_data q)" "rq_body (qp_data q) = []"
      "\<forall>k. hm_get k (rq_headers (qp_data q)) = sent_header r k"
    using recv_loop_whole [OF assms(1-3,5), of junk] by blast
  have "ci_key ''content-length'' = ci_key ''Content-Length''" "ci_key ''content-length'' \<noteq> ci_key ''Connection''"
    by (simp_all add: ci_key_def c_str_def tolower_def)
  then have "req_content_length to_num q = of_nat (length (rq_body r))"
    using f(8) assms(4,6,7) by (simp add: req_content_length_def getHeaderAs_def getAs_def sent_header_def)
  then have n: "sint (req_content_length to_num q) = int (length (rq_body r))"
    using assms(4) by (simp add: signed_of_nat signed_take_bit_int_eq_self)
  show ?thesis
    using l n f assms(8) by (cases "rq_body r = []") (auto simp: recvRequest_def recv_body_def Let_def)
qed

text \<open>
  C36. A whole request received in one piece, no longer than the buffer, comes out of \<open>recvRequest\<close> with its method, version,
  path, query, fragment and headers; but its body comes out behind as many NUL characters as it is long, because the body
  string is resized to the announced length before the received characters are appended to it.
\<close>

theorem recv_request_whole:
  assumes "req_ok r" and "m_isConnected s" and "length (request_dump r) \<le> length buffer" and "length (rq_body r) < 2 ^ 63"
    and "c_recv c (m_sock s) (length buffer) 0 w = ((int (length (request_dump r)), bytes_of (request_dump r)), w')"
    and "rq_body r = [] \<Longrightarrow> hm_get ''content-length'' (rq_headers r) = None"
    and "to_num (dec (length (rq_body r))) = Some (of_nat (length (rq_body r)))" and "can_alloc (int (length (rq_body r)))"
  shows "\<exists>q. recvRequest c to_num can_alloc junk buffer (Some s, w) = Some (Inr (Some q, (Some s, w'))) \<and>
    rq_method q = rq_method r \<and> rq_version q = rq_version r \<and> rq_path q = rq_path r \<and> rq_query q = rq_query r \<and>
    rq_fragment q = rq_fragment r \<and> rq_close q \<and> (\<forall>k. hm_get k (rq_headers q) = sent_header r k) \<and>
    rq_body q = replicate (length (rq_body r)) (CHR 0x00) @ rq_body r"
  using assms by (rule recvRequest_whole)

theorem recv_request_whole_witness:
  "\<exists>q. recvRequest mem_calls (\<lambda>s. Some (word_of_int (strtol 10 s))) (\<lambda>_. True) blank_parser (replicate 200 (CHR ''x''))
       (Some open_sock, mem_world (bytes_of (request_dump demo_request))) = Some (Inr (Some q, (Some open_sock, mem_world []))) \<and>
     rq_path q = ''/a%20b'' \<and> rq_body q = [CHR 0x00, CHR 0x00, CHR ''h'', CHR ''i'']"
proof -
  have ok: "req_ok demo_request" by (rule demo_request_ok)
  have len: "length (request_dump demo_request) \<le> 200" by code_simp
  have b: "rq_body demo_request = ''hi''" "rq_path demo_request = ''/a%20b''" by (simp_all add: demo_request_def)
  have num: "Some (word_of_int (strtol 10 (dec (length ''hi''))) :: u64) = Some (of_nat (length ''hi''))" by code_simp
  have conn: "m_isConnected open_sock" by (simp add: open_sock_def)
  have rcv: "c_recv mem_calls (m_sock open_sock) (length (replicate 200 (CHR ''x''))) 0 (mem_world (bytes_of (request_dump demo_request))) =
      ((int (length (request_dump demo_request)), bytes_of (request_dump demo_request)), mem_world [])"
    using len by (simp add: mem_calls_def mem_world_def)
  show ?thesis
    using recv_request_whole [where to_num = "\<lambda>s. Some (word_of_int (strtol 10 s))" and can_alloc = "\<lambda>_. True" and junk = blank_parser, OF ok conn _ _ rcv]
      len num b by auto
qed

text \<open>
  C37. A body that has not arrived with the headers is received into memory the session does not own: the missing characters
  are read to the end of the body string, so the first of them already lies out of its bounds.
\<close>

theorem split_body_overflow:
  assumes "recv_loop c (length buffer) buffer 0 (HttpRequestParser_new junk) st = Some (Inr (Some (q, data, offset), st'))"
    and "int offset < sint (req_content_length to_num q)" and "can_alloc (sint (req_content_length to_num q))"
    and "stream_read c (nat (sint (req_content_length to_num q)) - offset) st' = ((int (length bs), bs), st'')" and "bs \<noteq> []"
  shows "recvRequest c to_num can_alloc junk buffer st = Some (Inl Out_of_bounds)"
proof -
  let ?n = "sint (req_content_length to_num q)"
  let ?l = "word_of_int (?n - int offset) :: u64"
  have "?n < 2 ^ 63" using sint_lt [of "req_content_length to_num q"] by simp
  then have "uint ?l = ?n - int offset"
    unfolding uint_word_of_int using assms(2) by (intro mod_pos_pos_trivial) simp_all
  then have u: "unat ?l = nat ?n - offset" "0 < ?l"
    using assms(2) by (simp_all only: unat_eq_nat_uint word_less_def) simp_all
  then have "readFix_loop (stream_read c) 0 ?l [] st' = Some (Inl Out_of_bounds)"
    using assms(4,5) by (subst readFix_loop.simps) (simp add: store_at_def)
  then have "readFixSize (stream_read c) ?l [] st' = Some (Inl Out_of_bounds)"
    by (simp add: readFixSize_def)
  then show ?thesis using assms(1-3) by (simp add: recvRequest_def recv_body_def Let_def)
qed

definition late_request :: http_request where
  "late_request = (HttpRequest_new 0x11 True)\<lparr>rq_headers := [(''content-length'', ''2'')]\<rparr>"

lemma late_request_ok: "req_ok late_request"
  by (simp add: req_ok_def late_request_def HttpRequest_new_def version_ok_def target_ok_def path_ok_def query_ok_def pchars_def
        ord_sorted_def tokens_def value_ok_def value_chars_iff blanks_iff)

theorem split_body_overflow_witness:
  "recvRequest mem_calls (\<lambda>s. Some (word_of_int (strtol 10 s))) (\<lambda>_. True) blank_parser (replicate (length (request_dump late_request)) (CHR ''x''))
     (Some open_sock, mem_world (bytes_of (request_dump late_request) @ [104, 105])) = Some (Inl Out_of_bounds)"
proof -
  let ?b = "replicate (length (request_dump late_request)) (CHR ''x'')"
  have conn: "m_isConnected open_sock" by (simp add: open_sock_def)
  have rcv: "c_recv mem_calls (m_sock open_sock) (length ?b) 0 (mem_world (bytes_of (request_dump late_request) @ [104, 105])) =
      ((int (length (request_dump late_request)), bytes_of (request_dump late_request)), mem_world [104, 105])"
    by (simp add: mem_calls_def mem_world_def)
  obtain q data where l: "recv_loop mem_calls (length ?b) ?b 0 (HttpRequestParser_new blank_parser)
      (Some open_sock, mem_world (bytes_of (request_dump late_request) @ [104, 105])) =
      Some (Inr (Some (q, data, length (rq_body late_request)), (Some open_sock, mem_world [104, 105])))"
    and h: "\<forall>k. hm_get k (rq_headers (qp_data q)) = sent_header late_request k"
    using recv_loop_whole [OF late_request_ok conn _ rcv, of blank_parser] by auto
  have "sent_header late_request ''content-length'' = Some ''2''" "rq_body late_request = []" by code_simp+
  moreover have "(word_of_int (strtol 10 ''2'') :: u64) = 2" by code_simp
  ultimately have n: "sint (req_content_length (\<lambda>s. Some (word_of_int (strtol 10 s))) q) = 2" "rq_body late_request = []"
    using h by (simp_all add: req_content_length_def getHeaderAs_def getAs_def)
  show ?thesis
    by (rule split_body_overflow [where bs = "[104, 105]" and st'' = "(Some open_sock, mem_world [])", OF l])
      (simp_all add: n mem_read, simp add: mem_world_def)
qed

lemma send_whole:
  assumes "m_isConnected s" and "0 < length data" and "length data < 2 ^ 64"
    and "c_send c (m_sock s) data 0 None w = (int (length data), w')"
  shows "\<exists>rt. writeFixSize (stream_write c) (of_nat (length data)) data (Some s, w) = Some (Inr (rt, (Some s, w')))"
proof -
  let ?n = "of_nat (length data) :: u64"
  have n: "unat ?n = length data" using assms(3) by (simp add: unat_of_nat)
  then have "0 < ?n" using assms(2) by (simp add: word_less_nat_alt)
  moreover have "stream_write c data (Some s, w) = (int (length data), (Some s, w'))"
    using assms(1,4) by (simp add: stream_write_def stream_isConnected_def socket_send_def)
  ultimately have "writeFix_loop (stream_write c) 0 ?n data (Some s, w) = writeFix_loop (stream_write c) ?n 0 data (Some s, w')"
    using n by (subst writeFix_loop.simps) auto
  also have "\<dots> = Some (Inr (None, (Some s, w')))" by (subst writeFix_loop.simps) simp
  finally show ?thesis by (simp add: writeFixSize_def)
qed

text \<open>
  C3. What a server without keep-alive does for a client: a whole request is received in one piece, the servlet the dispatcher
  has for its path is given a response with the request's version that closes the connection, exactly the text of what it
  makes of that response goes out, and the descriptor is closed, once, although the session is closed and then destroyed.
\<close>

theorem server_answers:
  assumes "req_ok r" and "m_isConnected s" "m_sock s \<noteq> - 1" and "length (request_dump r) \<le> length buffer" and "length (rq_body r) < 2 ^ 63"
    and "c_recv c (m_sock s) (length buffer) 0 w = ((int (length (request_dump r)), bytes_of (request_dump r)), w')"
    and "rq_body r = [] \<Longrightarrow> hm_get ''content-length'' (rq_headers r) = None"
    and "to_num (dec (length (rq_body r))) = Some (of_nat (length (rq_body r)))" and "can_alloc (int (length (rq_body r)))"
    and slt: "get_matched_servlet fnmatch (rq_path r) d = Some slt"
    and hdl: "\<And>q. rq_method q = rq_method r \<Longrightarrow> rq_path q = rq_path r \<Longrightarrow> rq_query q = rq_query r \<Longrightarrow>
      \<exists>k q'. sl_handle slt q (HttpResponse_new (rq_version r) True) (Some s, w') = Inr (k, q', rsp, (Some s, w'))"
    and "length (response_dump rsp) < 2 ^ 64"
    and "c_send c (m_sock s) (bytes_of (response_dump rsp)) 0 None w' = (int (length (response_dump rsp)), w'')"
  shows "HttpServer_handle_client c to_num can_alloc fnmatch junk buffer False d (s, w) =
    Some (Inr (Some (s\<lparr>m_sock := - 1\<rparr>), c_close c (m_sock s) w''))"
proof -
  obtain q where q: "recvRequest c to_num can_alloc junk buffer (Some s, w) = Some (Inr (Some q, (Some s, w')))"
      "rq_method q = rq_method r" "rq_version q = rq_version r" "rq_path q = rq_path r" "rq_query q = rq_query r"
    using recvRequest_whole [where to_num = to_num and can_alloc = can_alloc and junk = junk, OF assms(1,2,4-9)] by blast
  obtain k q' where h: "sl_handle slt q (HttpResponse_new (rq_version r) True) (Some s, w') = Inr (k, q', rsp, (Some s, w'))"
    using hdl [of q] q by blast
  have "0 < length (response_dump rsp)" by (simp add: response_dump_def CRLF_def)
  then obtain rt where "sendResponse c rsp (Some s, w') = Some (Inr (rt, (Some s, w'')))"
    using send_whole [of s "bytes_of (response_dump rsp)" c w' w''] assms(2,12,13) by (auto simp: sendResponse_def)
  then have "client_loop c to_num can_alloc fnmatch junk buffer False d (Some s, w) = Some (Inr (Some s, w''))"
    using q h slt by (subst client_loop.simps) (simp add: ServletDispatch_handle_def Let_def)
  moreover have "s\<lparr>m_isConnected := True, m_sock := - 1\<rparr> = s\<lparr>m_sock := - 1\<rparr>" using assms(2) by simp
  ultimately show ?thesis
    using assms(2,3) by (simp add: HttpServer_handle_client_def stream_close_def socket_close_def SocketStream_delete_def Let_def)
qed

theorem server_answers_witness:
  "\<exists>rsp. rp_status rsp = 404 \<and> NotFoundServlet_handle demo_request (HttpResponse_new 0x11 True) () = Inr (0, demo_request, rsp, ()) \<and>
     HttpServer_handle_client mem_calls (\<lambda>s. Some (word_of_int (strtol 10 s))) (\<lambda>_. True) (\<lambda>_ _. False) blank_parser
       (replicate 200 (CHR ''x'')) False ServletDispatch_new (open_sock, mem_world (bytes_of (request_dump demo_request))) =
     Some (Inr (Some (open_sock\<lparr>m_sock := - 1\<rparr>), mem_world []))"
proof -
  define rsp where "rsp = (rsp_setHeader ''Content-Type'' ''text/html'' (rsp_setHeader ''Server'' ''cool/1.0.0''
    ((HttpResponse_new 0x11 True)\<lparr>rp_status := 404\<rparr>)))\<lparr>rp_body := not_found_body\<rparr>"
  have len: "length (request_dump demo_request) \<le> 200" by code_simp
  have b: "rq_body demo_request = ''hi''" "rq_version demo_request = 0x11" by (simp_all add: demo_request_def HttpRequest_new_def)
  have num: "Some (word_of_int (strtol 10 (dec (length ''hi''))) :: u64) = Some (of_nat (length ''hi''))" by code_simp
  have rl: "length (response_dump rsp) \<le> 400" unfolding rsp_def by code_simp
  have h: "NotFoundServlet_handle q (HttpResponse_new 0x11 True) z = Inr (0, q, rsp, z)" for q z
    by (simp add: NotFoundServlet_handle_def rsp_def Let_def)
  have "HttpServer_handle_client mem_calls (\<lambda>s. Some (word_of_int (strtol 10 s))) (\<lambda>_. True) (\<lambda>_ _. False) blank_parser
       (replicate 200 (CHR ''x'')) False ServletDispatch_new (open_sock, mem_world (bytes_of (request_dump demo_request))) =
     Some (Inr (Some (open_sock\<lparr>m_sock := - 1\<rparr>), c_close mem_calls (m_sock open_sock) (mem_world [])))"
    by (rule server_answers [OF demo_request_ok, where slt = NotFoundServlet and rsp = rsp and w' = "mem_world []"])
      (use len rl num b in \<open>simp_all add: open_sock_def mem_calls_def mem_world_def h NotFoundServlet_def get_matched_servlet_def
         ServletDispatch_new_def\<close>)
  moreover have "rp_status rsp = 404" by (simp add: rsp_def rsp_setHeader_def)
  ultimately show ?thesis using h [of demo_request "()"] by (auto simp: mem_calls_def)
qed

end
