(* ===== verification/Cool_Config.thy ===== *)
theory Cool_Config
  imports Cool_Containers Cool_Text "HOL-Library.List_Lexorder"
begin

text \<open>
  The configuration of config.h and config.cpp: the conversions between text and containers, which go through YAML, the
  configuration variables with their listeners, the table of all variables, and the loading of a YAML document into it.
\<close>

section \<open>YAML\<close>

text \<open>
  The nodes of yaml-cpp. Reading and writing YAML text belongs to that library: \<open>y_load\<close> is \<open>YAML::Load\<close> and \<open>y_emit\<close> the
  output operator; \<open>y_key_at\<close> is what subscripting a map with a number gives, and \<open>y_as_string\<close> what a node that is no scalar
  gives as a string.
\<close>

datatype yaml = NullNode | ScalarNode string | SequenceNode "yaml list" | MapNode "(yaml \<times> yaml) list"

record yaml_lib =
  y_load :: "string \<Rightarrow> yaml outcome"
  y_emit :: "yaml \<Rightarrow> string"
  y_key_at :: "(yaml \<times> yaml) list \<Rightarrow> nat \<Rightarrow> yaml"
  y_as_string :: "yaml \<Rightarrow> string outcome"

fun node_size :: "yaml \<Rightarrow> nat" where
  "node_size (SequenceNode ns) = length ns"
| "node_size (MapNode kvs) = length kvs"
| "node_size _ = 0"

fun node_at :: "yaml_lib \<Rightarrow> yaml \<Rightarrow> nat \<Rightarrow> yaml" where
  "node_at yl (SequenceNode ns) i = (if i < length ns then ns ! i else NullNode)"
| "node_at yl (MapNode kvs) i = y_key_at yl kvs i"
| "node_at yl _ i = NullNode"

text \<open>\<open>Scalar()\<close>: the text of a scalar, empty for the other nodes.\<close>

fun node_scalar :: "yaml \<Rightarrow> string" where
  "node_scalar (ScalarNode s) = s"
| "node_scalar _ = []"

text \<open>Iterating a node as a map: the elements of a sequence have no first and second, using them throws.\<close>

fun node_items :: "yaml \<Rightarrow> (yaml \<times> yaml) list outcome" where
  "node_items (MapNode kvs) = Inr kvs"
| "node_items (SequenceNode ns) = (if ns = [] then Inr [] else Inl (Exception ''InvalidNode''))"
| "node_items _ = Inr []"

text \<open>A node that starts empty and is appended to, or assigned by key.\<close>

definition sequence_node :: "yaml list \<Rightarrow> yaml" where
  "sequence_node ns = (if ns = [] then NullNode else SequenceNode ns)"

definition map_node :: "(string \<times> yaml) list \<Rightarrow> yaml" where
  "map_node kvs = (if kvs = [] then NullNode else MapNode (map (\<lambda>(k, n). (ScalarNode k, n)) kvs))"

fun kvs_set :: "string \<Rightarrow> yaml \<Rightarrow> (string \<times> yaml) list \<Rightarrow> (string \<times> yaml) list" where
  "kvs_set k n [] = [(k, n)]"
| "kvs_set k n ((k', n') # kvs) = (if k = k' then (k, n) # kvs else (k', n') # kvs_set k n kvs)"

section \<open>Conversions of containers\<close>

text \<open>A loop whose body may throw.\<close>

fun foldE :: "('a \<Rightarrow> 'b \<Rightarrow> 'b outcome) \<Rightarrow> 'a list \<Rightarrow> 'b \<Rightarrow> 'b outcome" where
  "foldE f [] s = Inr s"
| "foldE f (x # xs) s = bindE (f x s) (foldE f xs)"

text \<open>
  The loops the conversions share: \<open>fs\<close> and \<open>ts\<close> convert one element from and to text, \<open>ins\<close> adds an element to the container.
\<close>

definition elements_from :: "yaml_lib \<Rightarrow> (string \<Rightarrow> 'a outcome) \<Rightarrow> ('a \<Rightarrow> 'c \<Rightarrow> 'c) \<Rightarrow> 'c \<Rightarrow> string \<Rightarrow> 'c outcome" where
  "elements_from yl fs ins vec0 v =
     bindE (y_load yl v) (\<lambda>node.
       foldE (\<lambda>i vec. bindE (fs (y_emit yl (node_at yl node i))) (\<lambda>x. Inr (ins x vec))) [0..<node_size node] vec0)"

definition elements_to :: "yaml_lib \<Rightarrow> ('a \<Rightarrow> string outcome) \<Rightarrow> 'a list \<Rightarrow> string outcome" where
  "elements_to yl ts v =
     bindE (foldE (\<lambda>i ns. bindE (ts i) (\<lambda>s. bindE (y_load yl s) (\<lambda>n. Inr (ns @ [n])))) v []) (\<lambda>ns.
       Inr (y_emit yl (sequence_node ns)))"

definition entries_from ::
  "yaml_lib \<Rightarrow> (string \<Rightarrow> 'a outcome) \<Rightarrow> (string \<times> 'a \<Rightarrow> 'c \<Rightarrow> 'c) \<Rightarrow> 'c \<Rightarrow> string \<Rightarrow> 'c outcome" where
  "entries_from yl fs ins vec0 v =
     bindE (y_load yl v) (\<lambda>node. bindE (node_items node) (\<lambda>items.
       foldE (\<lambda>(k, n) vec. bindE (fs (y_emit yl n)) (\<lambda>x. Inr (ins (node_scalar k, x) vec))) items vec0))"

definition entries_to :: "yaml_lib \<Rightarrow> ('a \<Rightarrow> string outcome) \<Rightarrow> (string \<times> 'a) list \<Rightarrow> string outcome" where
  "entries_to yl ts v =
     bindE (foldE (\<lambda>(k, x) kvs. bindE (ts x) (\<lambda>s. bindE (y_load yl s) (\<lambda>n. Inr (kvs_set k n kvs)))) v []) (\<lambda>kvs.
       Inr (y_emit yl (map_node kvs)))"

definition vector_from_string :: "yaml_lib \<Rightarrow> (string \<Rightarrow> 'a outcome) \<Rightarrow> string \<Rightarrow> 'a list outcome" where
  "vector_from_string yl fs v = elements_from yl fs (\<lambda>x vec. vec @ [x]) [] v"

definition vector_to_string :: "yaml_lib \<Rightarrow> ('a \<Rightarrow> string outcome) \<Rightarrow> 'a list \<Rightarrow> string outcome" where
  "vector_to_string yl ts v = elements_to yl ts v"

definition list_from_string :: "yaml_lib \<Rightarrow> (string \<Rightarrow> 'a outcome) \<Rightarrow> string \<Rightarrow> 'a list outcome" where
  "list_from_string yl fs v = elements_from yl fs (\<lambda>x vec. vec @ [x]) [] v"

definition list_to_string :: "yaml_lib \<Rightarrow> ('a \<Rightarrow> string outcome) \<Rightarrow> 'a list \<Rightarrow> string outcome" where
  "list_to_string yl ts v = elements_to yl ts v"

text \<open>A \<open>std::set\<close> is the sorted list of its elements, a \<open>std::map\<close> with string keys the list of its pairs sorted by key.\<close>

definition set_from_string :: "yaml_lib \<Rightarrow> (string \<Rightarrow> 'a::linorder outcome) \<Rightarrow> string \<Rightarrow> 'a list outcome" where
  "set_from_string yl fs v = elements_from yl fs (ord_insert (<) id) [] v"

definition set_to_string :: "yaml_lib \<Rightarrow> ('a \<Rightarrow> string outcome) \<Rightarrow> 'a list \<Rightarrow> string outcome" where
  "set_to_string yl ts v = elements_to yl ts v"

text \<open>
  The unordered containers are lists without repetitions; where an element is put is up to the library: \<open>place\<close> adds one that is not there.
\<close>

definition uset_from_string ::
  "yaml_lib \<Rightarrow> (string \<Rightarrow> 'a outcome) \<Rightarrow> ('a \<Rightarrow> 'a list \<Rightarrow> 'a list) \<Rightarrow> string \<Rightarrow> 'a list outcome" where
  "uset_from_string yl fs place v = elements_from yl fs (\<lambda>x vec. if x \<in> set vec then vec else place x vec) [] v"

definition uset_to_string :: "yaml_lib \<Rightarrow> ('a \<Rightarrow> string outcome) \<Rightarrow> 'a list \<Rightarrow> string outcome" where
  "uset_to_string yl ts v = elements_to yl ts v"

definition str_less :: "string \<Rightarrow> string \<Rightarrow> bool" where
  "str_less a b \<longleftrightarrow> (map of_char a :: int list) < map of_char b"

definition map_from_string :: "yaml_lib \<Rightarrow> (string \<Rightarrow> 'a outcome) \<Rightarrow> string \<Rightarrow> (string \<times> 'a) list outcome" where
  "map_from_string yl fs v = entries_from yl fs (ord_insert str_less fst) [] v"

definition map_to_string :: "yaml_lib \<Rightarrow> ('a \<Rightarrow> string outcome) \<Rightarrow> (string \<times> 'a) list \<Rightarrow> string outcome" where
  "map_to_string yl ts v = entries_to yl ts v"

definition umap_from_string ::
  "yaml_lib \<Rightarrow> (string \<Rightarrow> 'a outcome) \<Rightarrow> (string \<times> 'a \<Rightarrow> (string \<times> 'a) list \<Rightarrow> (string \<times> 'a) list) \<Rightarrow> string \<Rightarrow> (string \<times> 'a) list outcome" where
  "umap_from_string yl fs place v = entries_from yl fs (\<lambda>e vec. if fst e \<in> fst ` set vec then vec else place e vec) [] v"

definition umap_to_string :: "yaml_lib \<Rightarrow> ('a \<Rightarrow> string outcome) \<Rightarrow> (string \<times> 'a) list \<Rightarrow> string outcome" where
  "umap_to_string yl ts v = entries_to yl ts v"

section \<open>Variables\<close>

text \<open>
  A variable of any type \<open>T\<close>: the values of all types together are \<open>'v\<close>, the name of the type and its two conversions are kept with
  the variable. A listener changes the rest of the program, \<open>'w\<close>, and may throw.
\<close>

type_synonym ('v, 'w) on_change_cb = "'v \<Rightarrow> 'v \<Rightarrow> 'w \<Rightarrow> fault option \<times> 'w"

record ('v, 'w) config_var =
  cv_name :: string
  cv_des :: string
  cv_type :: string
  cv_from :: "string \<Rightarrow> 'v outcome"
  cv_to :: "'v \<Rightarrow> string outcome"
  cv_val :: 'v
  cv_cbs :: "(u64 \<times> ('v, 'w) on_change_cb) list"

definition ConfigVar_new ::
  "string \<Rightarrow> (string \<Rightarrow> 'v outcome) \<Rightarrow> ('v \<Rightarrow> string outcome) \<Rightarrow> string \<Rightarrow> 'v \<Rightarrow> string \<Rightarrow> ('v, 'w) config_var" where
  "ConfigVar_new T fs ts name default_val des =
     \<lparr>cv_name = map tolower name, cv_des = des, cv_type = T, cv_from = fs, cv_to = ts, cv_val = default_val, cv_cbs = []\<rparr>"

text \<open>Exceptions of the conversions are caught and logged.\<close>

definition to_string :: "('v, 'w) config_var \<Rightarrow> string outcome" where
  "to_string var = (case cv_to var (cv_val var) of Inl (Exception _) \<Rightarrow> Inr [] | r \<Rightarrow> r)"

fun call_listeners :: "(u64 \<times> ('v, 'w) on_change_cb) list \<Rightarrow> 'v \<Rightarrow> 'v \<Rightarrow> 'w \<Rightarrow> fault option \<times> 'w" where
  "call_listeners [] old new w = (None, w)"
| "call_listeners ((_, cb) # cbs) old new w =
     (case cb old new w of
        (None, w) \<Rightarrow> call_listeners cbs old new w
      | (Some e, w) \<Rightarrow> (Some e, w))"

definition set_value :: "'v \<Rightarrow> ('v, 'w) config_var \<Rightarrow> 'w \<Rightarrow> fault option \<times> ('v, 'w) config_var \<times> 'w" where
  "set_value v var w =
     (if v = cv_val var then (None, var, w)
      else case call_listeners (cv_cbs var) (cv_val var) v w of
             (None, w) \<Rightarrow> (None, var\<lparr>cv_val := v\<rparr>, w)
           | (Some e, w) \<Rightarrow> (Some e, var, w))"

definition from_string :: "string \<Rightarrow> ('v, 'w) config_var \<Rightarrow> 'w \<Rightarrow> (bool \<times> ('v, 'w) config_var \<times> 'w) outcome" where
  "from_string val var w =
     (case cv_from var val of
        Inl (Exception _) \<Rightarrow> Inr (False, var, w)
      | Inl e \<Rightarrow> Inl e
      | Inr v \<Rightarrow>
          (case set_value v var w of
             (None, var, w) \<Rightarrow> Inr (False, var, w)
           | (Some (Exception _), var, w) \<Rightarrow> Inr (False, var, w)
           | (Some e, _, _) \<Rightarrow> Inl e))"

text \<open>The keys of listeners come from a counter that all variables of a type share.\<close>

definition add_listener :: "('v, 'w) on_change_cb \<Rightarrow> u64 \<times> ('v, 'w) config_var \<Rightarrow> u64 \<times> ('v, 'w) config_var" where
  "add_listener cb = (\<lambda>(s_fun_id, var).
     let s_fun_id = s_fun_id + 1 in (s_fun_id, var\<lparr>cv_cbs := omap_put (<) s_fun_id cb (cv_cbs var)\<rparr>))"

definition del_listener :: "u64 \<Rightarrow> ('v, 'w) config_var \<Rightarrow> ('v, 'w) config_var" where
  "del_listener key var = var\<lparr>cv_cbs := omap_erase (<) key (cv_cbs var)\<rparr>"

definition get_listener :: "u64 \<Rightarrow> ('v, 'w) config_var \<Rightarrow> ('v, 'w) on_change_cb option" where
  "get_listener key var = omap_get (<) key (cv_cbs var)"

definition clear_listeners :: "('v, 'w) config_var \<Rightarrow> ('v, 'w) config_var" where
  "clear_listeners var = var\<lparr>cv_cbs := []\<rparr>"

section \<open>The table of variables\<close>

text \<open>Variables are never removed, so the key of a variable stands for the pointer to it.\<close>

type_synonym ('v, 'w) datas = "string \<Rightarrow> ('v, 'w) config_var option"

definition lower_name_chars :: string where
  "lower_name_chars = ''abcdefghijklmnopqrstuvwxyz._0123456789''"

definition name_chars :: string where
  "name_chars = ''abcdefghijklmnopqrstuvwxyzABCDEFGHIJKLMNOPQRSTUVWXYZ._0123456789''"

definition lookup ::
  "string \<Rightarrow> (string \<Rightarrow> 'v outcome) \<Rightarrow> ('v \<Rightarrow> string outcome) \<Rightarrow> string \<Rightarrow> 'v \<Rightarrow> string \<Rightarrow> ('v, 'w) datas \<Rightarrow>
   (string option \<times> ('v, 'w) datas) outcome" where
  "lookup T fs ts name default_val des d =
     (case d name of
        Some var \<Rightarrow>
          if cv_type var = T then Inr (Some name, d)
          else bindE (to_string var) (\<lambda>_. Inr (None, d))
      | None \<Rightarrow>
          if list_ex (\<lambda>c. c \<notin> set name_chars) name then Inl (Exception name)
          else Inr (Some name, d(name \<mapsto> ConfigVar_new T fs ts name default_val des)))"

definition lookup_name :: "string \<Rightarrow> string \<Rightarrow> ('v, 'w) datas \<Rightarrow> string option" where
  "lookup_name T name d = (case d name of None \<Rightarrow> None | Some var \<Rightarrow> if cv_type var = T then Some name else None)"

definition lookup_base :: "string \<Rightarrow> ('v, 'w) datas \<Rightarrow> string option" where
  "lookup_base name d = (if d name = None then None else Some name)"

function listAllMember :: "string \<Rightarrow> yaml \<Rightarrow> (string \<times> yaml) list" where
  "listAllMember prefix node =
     (if list_ex (\<lambda>c. c \<notin> set lower_name_chars) prefix then []
      else (prefix, node) #
        (case node of
           MapNode kvs \<Rightarrow>
             concat (map (\<lambda>(k, n). listAllMember (if prefix = [] then node_scalar k else prefix @ ''.'' @ node_scalar k) n) kvs)
         | _ \<Rightarrow> []))"
  by pat_completeness auto
termination
proof (relation "measure (\<lambda>(_, n). size n)", goal_cases)
  case (2 prefix node kvs kn k n)
  then have "size (snd kn) < size node" using size_list_estimation' [of kn kvs "size (snd kn)" "size_prod size size"] by auto
  then show ?case using 2 by auto
qed simp

definition load_entry ::
  "yaml_lib \<Rightarrow> string \<times> yaml \<Rightarrow> ('v, 'w) datas \<times> 'w \<Rightarrow> (('v, 'w) datas \<times> 'w) outcome" where
  "load_entry yl = (\<lambda>(key, node) (d, w).
     if key = [] then Inr (d, w)
     else case lookup_base (map tolower key) d of
            None \<Rightarrow> Inr (d, w)
          | Some p \<Rightarrow>
              bindE (from_string (case node of ScalarNode s \<Rightarrow> s | _ \<Rightarrow> y_emit yl node) (the (d p)) w)
                (\<lambda>(_, var, w). Inr (d(p \<mapsto> var), w)))"

definition load_from_yaml :: "yaml_lib \<Rightarrow> yaml \<Rightarrow> ('v, 'w) datas \<times> 'w \<Rightarrow> (('v, 'w) datas \<times> 'w) outcome" where
  "load_from_yaml yl root st = foldE (load_entry yl) (listAllMember [] root) st"

text \<open>\<open>order\<close> lists the keys the way the table is iterated; the callback may use the variable it is given.\<close>

definition Visit :: "(('v, 'w) datas \<Rightarrow> string list) \<Rightarrow> (string \<Rightarrow> ('v, 'w) datas \<times> 'w \<Rightarrow> (('v, 'w) datas \<times> 'w) outcome) \<Rightarrow>
  ('v, 'w) datas \<times> 'w \<Rightarrow> (('v, 'w) datas \<times> 'w) outcome" where
  "Visit order cb st = foldE cb (order (fst st)) st"

section \<open>Conversions go round\<close>

declare listAllMember.simps [simp del]

interpretation str_order: weak_order str_less
  by unfold_locales (auto simp: str_less_def)

text \<open>An element whose text, read and written as YAML, is converted back to it.\<close>

definition node_of :: "yaml_lib \<Rightarrow> ('a \<Rightarrow> string outcome) \<Rightarrow> 'a \<Rightarrow> yaml" where
  "node_of yl ts x = projr (bindE (ts x) (y_load yl))"

definition text_ok :: "yaml_lib \<Rightarrow> (string \<Rightarrow> 'a outcome) \<Rightarrow> ('a \<Rightarrow> string outcome) \<Rightarrow> 'a \<Rightarrow> bool" where
  "text_ok yl fs ts x \<longleftrightarrow> bindE (ts x) (y_load yl) = Inr (node_of yl ts x) \<and> fs (y_emit yl (node_of yl ts x)) = Inr x"

lemma foldE_Inr: "(\<And>x s. x \<in> set xs \<Longrightarrow> f x s = Inr (g x s)) \<Longrightarrow> foldE f xs s = Inr (fold g xs s)"
  by (induction xs arbitrary: s) (auto simp: bindE_def)

lemma bindE_Inr_iff: "bindE m f = Inr y \<longleftrightarrow> (\<exists>x. m = Inr x \<and> f x = Inr y)"
  by (cases m) (auto simp: bindE_def)

lemma fold_snoc: "fold (\<lambda>x ns. ns @ [f x]) xs ns = ns @ map f xs"
  by (induction xs arbitrary: ns) auto

lemma elements_to_ok:
  assumes "\<forall>x\<in>set xs. text_ok yl fs ts x"
  shows "elements_to yl ts xs = Inr (y_emit yl (sequence_node (map (node_of yl ts) xs)))"
proof -
  have "foldE (\<lambda>i ns. bindE (ts i) (\<lambda>s. bindE (y_load yl s) (\<lambda>n. Inr (ns @ [n])))) xs [] =
      Inr (fold (\<lambda>x ns. ns @ [node_of yl ts x]) xs [])"
    using assms by (intro foldE_Inr) (auto simp: text_ok_def bindE_Inr_iff)
  then show ?thesis by (simp add: elements_to_def fold_snoc bindE_def)
qed

lemma elements_from_ok:
  assumes "\<forall>x\<in>set xs. text_ok yl fs ts x"
    and "y_load yl s = Inr (sequence_node (map (node_of yl ts) xs))"
  shows "elements_from yl fs ins vec0 s = Inr (fold ins xs vec0)"
proof -
  let ?node = "sequence_node (map (node_of yl ts) xs)"
  have sz: "node_size ?node = length xs" by (cases xs) (simp_all add: sequence_node_def)
  have at: "node_at yl ?node i = node_of yl ts (xs ! i)" if "i < length xs" for i
    using that by (cases xs) (auto simp: sequence_node_def simp del: list.map)
  have "foldE (\<lambda>i vec. bindE (fs (y_emit yl (node_at yl ?node i))) (\<lambda>x. Inr (ins x vec))) [0..<length xs] vec0 =
      Inr (fold (\<lambda>i. ins (xs ! i)) [0..<length xs] vec0)"
    using assms(1) at by (intro foldE_Inr) (auto simp: text_ok_def bindE_Inr_iff)
  also have "fold (\<lambda>i. ins (xs ! i)) [0..<length xs] vec0 = fold ins (map ((!) xs) [0..<length xs]) vec0"
    by (simp add: fold_map comp_def)
  finally show ?thesis using assms(2) sz by (simp add: elements_from_def map_nth bindE_def)
qed

lemma kvs_set_new: "k \<notin> fst ` set kvs \<Longrightarrow> kvs_set k n kvs = kvs @ [(k, n)]"
  by (induction kvs) auto

lemma fold_kvs_set:
  "distinct (map fst kvs) \<Longrightarrow> fst ` set acc \<inter> fst ` set kvs = {} \<Longrightarrow>
     fold (\<lambda>(k, x). kvs_set k (f x)) kvs acc = acc @ map (\<lambda>(k, x). (k, f x)) kvs"
  by (induction kvs arbitrary: acc) (auto simp: kvs_set_new)

lemma entries_to_ok:
  assumes "\<forall>(k, x)\<in>set kvs. text_ok yl fs ts x" and "distinct (map fst kvs)"
  shows "entries_to yl ts kvs = Inr (y_emit yl (map_node (map (\<lambda>(k, x). (k, node_of yl ts x)) kvs)))"
proof -
  have "foldE (\<lambda>(k, x) kvs. bindE (ts x) (\<lambda>s. bindE (y_load yl s) (\<lambda>n. Inr (kvs_set k n kvs)))) kvs [] =
      Inr (fold (\<lambda>(k, x). kvs_set k (node_of yl ts x)) kvs [])"
    using assms(1) by (intro foldE_Inr) (auto simp: text_ok_def bindE_Inr_iff)
  then show ?thesis using assms(2) by (simp add: entries_to_def fold_kvs_set bindE_def)
qed

lemma entries_from_ok:
  assumes "\<forall>(k, x)\<in>set kvs. text_ok yl fs ts x"
    and "y_load yl s = Inr (map_node (map (\<lambda>(k, x). (k, node_of yl ts x)) kvs))"
  shows "entries_from yl fs ins vec0 s = Inr (fold ins kvs vec0)"
proof -
  let ?items = "map (\<lambda>(k, x). (ScalarNode k, node_of yl ts x)) kvs"
  have it: "node_items (map_node (map (\<lambda>(k, x). (k, node_of yl ts x)) kvs)) = Inr ?items"
    by (cases kvs) (auto simp: map_node_def)
  have "foldE (\<lambda>(k, n) vec. bindE (fs (y_emit yl n)) (\<lambda>x. Inr (ins (node_scalar k, x) vec))) ?items v = Inr (fold ins kvs v)" for v
    using assms(1) by (induction kvs arbitrary: v) (auto simp: text_ok_def bindE_def)
  then show ?thesis using assms(2) it by (simp add: entries_from_def bindE_def)
qed

text \<open>Filling an unordered container keeps what is put in, wherever the library places it.\<close>

lemma fold_place:
  assumes "\<And>x v. set (place x v) = insert x (set v)" and "\<And>x v. distinct (map key v) \<Longrightarrow> key x \<notin> key ` set v \<Longrightarrow> distinct (map key (place x v))"
  shows "distinct (map key (ys @ xs)) \<Longrightarrow> distinct (map key vec) \<Longrightarrow> set vec = set ys \<Longrightarrow>
    (let zs = fold (\<lambda>x vec. if key x \<in> key ` set vec then vec else place x vec) xs vec in distinct (map key zs) \<and> set zs = set ys \<union> set xs)"
proof (induction xs arbitrary: ys vec)
  case (Cons x xs)
  then have "key x \<notin> key ` set vec" by auto
  then show ?case using Cons.IH [of "ys @ [x]" "place x vec"] Cons.prems assms by (auto simp: Let_def)
qed simp


text \<open>A library that knows two documents.\<close>

definition demo_yaml :: yaml_lib where
  "demo_yaml =
     \<lparr>y_load = (\<lambda>s. if s = ''[1, 2]'' then Inr (SequenceNode [ScalarNode ''1'', ScalarNode ''2''])
                else if s = ''{a: 1}'' then Inr (MapNode [(ScalarNode ''a'', ScalarNode ''1'')]) else Inr (ScalarNode s)),
      y_emit = (\<lambda>n. case n of ScalarNode s \<Rightarrow> s | SequenceNode _ \<Rightarrow> ''[1, 2]'' | MapNode _ \<Rightarrow> ''{a: 1}'' | NullNode \<Rightarrow> ''~''),
      y_key_at = (\<lambda>_ _. NullNode), y_as_string = (\<lambda>_. Inl (Exception ''bad conversion''))\<rparr>"

definition demo_from :: "string \<Rightarrow> int outcome" where
  "demo_from s = (if s = ''1'' then Inr 1 else if s = ''2'' then Inr 2 else Inl (Exception ''bad_lexical_cast''))"

definition demo_to :: "int \<Rightarrow> string outcome" where
  "demo_to x = Inr (dec (nat x))"

lemma demo_text_ok: "text_ok demo_yaml demo_from demo_to 1" "text_ok demo_yaml demo_from demo_to 2"
  "node_of demo_yaml demo_to 1 = ScalarNode ''1''" "node_of demo_yaml demo_to 2 = ScalarNode ''2''"
  by code_simp+


section \<open>Listeners\<close>

datatype ('v, 'w) listener_op = Add "('v, 'w) on_change_cb" | Del u64 | Clear

fun apply_listener_op :: "('v, 'w) listener_op \<Rightarrow> u64 \<times> ('v, 'w) config_var \<Rightarrow> u64 \<times> ('v, 'w) config_var" where
  "apply_listener_op (Add cb) st = add_listener cb st"
| "apply_listener_op (Del key) (n, var) = (n, del_listener key var)"
| "apply_listener_op Clear (n, var) = (n, clear_listeners var)"

text \<open>The listeners that are registered after some operations, oldest first, each with its key.\<close>

fun live_listeners :: "('v, 'w) listener_op list \<Rightarrow> u64 \<Rightarrow> (u64 \<times> ('v, 'w) on_change_cb) list \<Rightarrow> (u64 \<times> ('v, 'w) on_change_cb) list" where
  "live_listeners [] n l = l"
| "live_listeners (Add cb # ops) n l = live_listeners ops (n + 1) (l @ [(n + 1, cb)])"
| "live_listeners (Del key # ops) n l = live_listeners ops n (filter (\<lambda>(k, _). k \<noteq> key) l)"
| "live_listeners (Clear # ops) n l = live_listeners ops n []"

lemma omap_put_last:
  assumes "ord_sorted (<) fst (xs @ [(k, v)])"
  shows "omap_put (<) k v xs = xs @ [(k :: u64, v)]"
proof -
  have s: "ord_sorted (<) fst xs" "\<forall>x\<in>set xs. fst x < k" using assms by (auto simp: ord_sorted_def sorted_wrt_append)
  then have "ord_find (<) fst k xs = None" using std_less.find_None [OF s(1)] by auto
  then show ?thesis using std_less.insert_last [OF assms] by (simp add: omap_put_def)
qed

lemma listeners_run:
  assumes "unat n + length ops < 2 ^ 64" and "ord_sorted (<) fst (cv_cbs var)" and "\<forall>x\<in>set (cv_cbs var). fst x \<le> n"
  shows "\<exists>n'. fold apply_listener_op ops (n, var) = (n', var\<lparr>cv_cbs := live_listeners ops n (cv_cbs var)\<rparr>) \<and>
    ord_sorted (<) fst (live_listeners ops n (cv_cbs var))"
  using assms
proof (induction ops arbitrary: n var)
  case (Cons op ops)
  show ?case
  proof (cases op)
    case (Add cb)
    have n: "unat (n + 1) = unat n + 1" using Cons.prems(1) by (simp add: unat_add_lem [THEN iffD1])
    then have "n < n + 1" by (simp add: word_less_nat_alt)
    then have "\<forall>x\<in>set (cv_cbs var). fst x < n + 1" using Cons.prems(3) by auto
    moreover from this have s: "ord_sorted (<) fst (cv_cbs var @ [(n + 1, cb)])"
      using Cons.prems(2) by (auto simp: ord_sorted_def sorted_wrt_append)
    ultimately show ?thesis
      using Cons.IH [of "n + 1" "var\<lparr>cv_cbs := cv_cbs var @ [(n + 1, cb)]\<rparr>"] Cons.prems(1) n Add
      by (auto simp: add_listener_def Let_def omap_put_last less_imp_le)
  next
    case (Del key)
    have "omap_erase (<) key (cv_cbs var) = filter (\<lambda>(k, _). k \<noteq> key) (cv_cbs var)"
      by (auto simp: omap_erase_def ord_erase_def intro!: filter_cong)
    then show ?thesis
      using Cons.IH [of n "del_listener key var"] Cons.prems Del ord_erase_sorted [OF Cons.prems(2), of key]
      by (auto simp: del_listener_def omap_erase_def)
  next
    case Clear
    then show ?thesis using Cons.IH [of n "clear_listeners var"] Cons.prems by (simp add: clear_listeners_def)
  qed
qed simp

text \<open>
  C30. Listeners of a variable, through any sequence of registrations, removals and clearings with fewer than \<open>2 ^ 64\<close> of
  them: a key finds exactly the listener registered under it and still there; setting the value it has does nothing; setting
  another value calls the registered listeners, oldest first, with the old and the new value, before the value changes, and
  an exception of one of them keeps the later ones from being called and the value from changing.
\<close>

theorem listeners_notified:
  assumes "unat n + length ops < 2 ^ 64" and "cv_cbs var = []"
  shows "let var' = snd (fold apply_listener_op ops (n, var)); live = live_listeners ops n [] in
    get_listener key var' = map_of live key \<and>
    set_value v var' w =
      (if v = cv_val var then (None, var', w)
       else let (e, w') = call_listeners live (cv_val var) v w in (e, if e = None then var'\<lparr>cv_val := v\<rparr> else var', w'))"
proof -
  let ?l = "live_listeners ops n []"
  have v: "snd (fold apply_listener_op ops (n, var)) = var\<lparr>cv_cbs := ?l\<rparr>" and s: "ord_sorted (<) fst ?l"
    using listeners_run [OF assms(1), of var] assms(2) by auto
  have "omap_get (<) key ?l = map_of ?l key"
  proof (cases "map_of ?l key")
    case None
    then have "\<forall>e\<in>set ?l. fst e \<noteq> key" by (auto simp: map_of_eq_None_iff)
    then show ?thesis using std_less.find_None [OF s, of key] None by (simp add: omap_get_def)
  next
    case (Some cb)
    then show ?thesis using std_less.find_Some [OF s, of "(key, cb)" key] by (simp add: omap_get_def map_of_SomeD)
  qed
  then show ?thesis by (simp add: v get_listener_def set_value_def Let_def split: prod.splits option.splits)
qed

definition demo_ops :: "(int, (int \<times> int) list) listener_op list" where
  "demo_ops = [Add (\<lambda>old new w. (None, w @ [(old, new)])), Add (\<lambda>_ _ w. (None, w @ [(0, 0)])), Del 7]"

definition demo_var :: "(int, (int \<times> int) list) config_var" where
  "demo_var = ConfigVar_new ''int'' demo_from demo_to ''Port'' 3 ''port''"

theorem listeners_notified_witness:
  "unat (5 :: u64) + length demo_ops < 2 ^ 64 \<and>
   (let var = snd (fold apply_listener_op demo_ops (5, demo_var)) in set_value 4 var [] = (None, var\<lparr>cv_val := 4\<rparr>, [(3, 4)]))"
  using listeners_notified [of 5 demo_ops demo_var 6 4 "[]"] by (simp add: Let_def demo_var_def demo_ops_def ConfigVar_new_def)

section \<open>Loading\<close>

text \<open>What a node is reached by: the keys on the way to it, and the name they make.\<close>

inductive node_path :: "yaml \<Rightarrow> string list \<Rightarrow> yaml \<Rightarrow> bool" where
  here: "node_path n [] n"
| there: "(k, m) \<in> set kvs \<Longrightarrow> node_path m ks n \<Longrightarrow> node_path (MapNode kvs) (node_scalar k # ks) n"

inductive_cases node_path_ConsE: "node_path n (k # ks) m"

definition dotted :: "string \<Rightarrow> string list \<Rightarrow> string" where
  "dotted = foldl (\<lambda>p k. if p = [] then k else p @ ''.'' @ k)"

definition name_ok :: "string \<Rightarrow> bool" where
  "name_ok name \<longleftrightarrow> set name \<subseteq> set lower_name_chars"

lemma dotted_prefix: "\<exists>s. dotted p ks = p @ s"
proof (induction ks arbitrary: p)
  case (Cons k ks)
  obtain s where "dotted (if p = [] then k else p @ ''.'' @ k) ks = (if p = [] then k else p @ ''.'' @ k) @ s" using Cons by blast
  then show ?case by (simp add: dotted_def)
qed (simp add: dotted_def)

lemma listAllMember_iff:
  "(q, n) \<in> set (listAllMember p root) \<longleftrightarrow> (\<exists>ks. node_path root ks n \<and> dotted p ks = q \<and> name_ok q)"
proof (induction p root rule: listAllMember.induct)
  case (1 p root)
  let ?k = "\<lambda>k. if p = [] then node_scalar k else p @ ''.'' @ node_scalar k"
  have bad: "list_ex (\<lambda>c. c \<notin> set lower_name_chars) p \<longleftrightarrow> \<not> name_ok p" by (auto simp: name_ok_def list_ex_iff)
  have pre: "name_ok p" if "name_ok (dotted p ks)" for ks
    using that dotted_prefix [of p ks] by (auto simp: name_ok_def)
  have d: "dotted p (node_scalar k # ks) = dotted (?k k) ks" for k ks by (simp add: dotted_def)
  have step: "(\<exists>ks. node_path root ks n \<and> dotted p ks = q \<and> name_ok q) \<longleftrightarrow>
      p = q \<and> root = n \<and> name_ok q \<or> (\<exists>kvs k m ks. root = MapNode kvs \<and> (k, m) \<in> set kvs \<and> node_path m ks n \<and> dotted (?k k) ks = q \<and> name_ok q)"
    (is "?l \<longleftrightarrow> ?r")
  proof
    assume ?l
    then obtain ks where k: "node_path root ks n" "dotted p ks = q" "name_ok q" by blast
    from k(1) show ?r
    proof cases
      case (there k m kvs ks')
      then have "dotted (?k k) ks' = q" using k(2) d [of k ks'] by (simp only:)
      then show ?thesis using there k(3) by blast
    qed (use k in \<open>simp add: dotted_def\<close>)
  next
    assume ?r
    then show ?l
    proof (elim disjE exE conjE)
      fix kvs k m ks
      assume a: "root = MapNode kvs" "(k, m) \<in> set kvs" "node_path m ks n" "dotted (?k k) ks = q" "name_ok q"
      then show ?l using node_path.there [OF a(2,3)] d [of k ks] by blast
    next
      assume "p = q" "root = n" "name_ok q"
      then show ?l using node_path.here [of n] by (auto simp: dotted_def intro!: exI [of _ "[]"])
    qed
  qed
  show ?case
  proof (cases "name_ok p")
    case False
    then show ?thesis using bad pre by (subst listAllMember.simps) auto
  next
    case ok: True
    show ?thesis
    proof (cases root)
      case (MapNode kvs)
      have "(q, n) \<in> set (listAllMember (?k k) m) \<longleftrightarrow> (\<exists>ks. node_path m ks n \<and> dotted (?k k) ks = q \<and> name_ok q)" if "(k, m) \<in> set kvs" for k m
        using 1 bad ok MapNode that by auto
      then show ?thesis
        unfolding step using ok bad MapNode by (subst listAllMember.simps) (fastforce simp: Bex_def)
    qed (use ok bad in \<open>unfold step, auto simp: listAllMember.simps\<close>)
  qed
qed

text \<open>Variables whose conversion fails with exceptions only and whose listeners throw nothing.\<close>

definition calm :: "('v, 'w) config_var \<Rightarrow> bool" where
  "calm var \<longleftrightarrow> (\<forall>s. case cv_from var s of Inl (Exception _) \<Rightarrow> True | Inl _ \<Rightarrow> False | Inr _ \<Rightarrow> True) \<and>
     (\<forall>(_, cb) \<in> set (cv_cbs var). \<forall>old new w. fst (cb old new w) = None)"

text \<open>The value a text leaves, and the texts a document has for a name, in the order they are met.\<close>

definition settle :: "(string \<Rightarrow> 'v outcome) \<Rightarrow> string \<Rightarrow> 'v \<Rightarrow> 'v" where
  "settle fs s v = (case fs s of Inr v' \<Rightarrow> v' | Inl _ \<Rightarrow> v)"

definition node_text :: "yaml_lib \<Rightarrow> yaml \<Rightarrow> string" where
  "node_text yl n = (case n of ScalarNode s \<Rightarrow> s | _ \<Rightarrow> y_emit yl n)"

definition texts :: "yaml_lib \<Rightarrow> (string \<times> yaml) list \<Rightarrow> string \<Rightarrow> string list" where
  "texts yl entries name = (if name = [] then [] else map (\<lambda>(_, n). node_text yl n) (filter (\<lambda>(p, _). p = name) entries))"

text \<open>The table in which every variable has taken its texts.\<close>

definition loaded :: "yaml_lib \<Rightarrow> (string \<times> yaml) list \<Rightarrow> ('v, 'w) datas \<Rightarrow> ('v, 'w) datas" where
  "loaded yl es d = (\<lambda>name. map_option (\<lambda>var. var\<lparr>cv_val := fold (settle (cv_from var)) (texts yl es name) (cv_val var)\<rparr>) (d name))"

lemma call_listeners_calm: "\<forall>(_, cb) \<in> set cbs. \<forall>old new w. fst (cb old new w) = None \<Longrightarrow> fst (call_listeners cbs old new w) = None"
proof (induction cbs arbitrary: w)
  case (Cons c cbs)
  obtain k cb where c: "c = (k, cb)" by (cases c)
  have "fst (cb old new w) = None" using Cons.prems c by simp
  then obtain w' where "cb old new w = (None, w')" by (cases "cb old new w") simp
  moreover have "fst (call_listeners cbs old new w') = None" for w' by (rule Cons.IH) (use Cons.prems in auto)
  ultimately show ?case by (simp add: c)
qed simp

lemma from_string_calm:
  assumes "calm var"
  shows "\<exists>w'. from_string s var w = Inr (False, var\<lparr>cv_val := settle (cv_from var) s (cv_val var)\<rparr>, w')"
proof (cases "cv_from var s")
  case (Inl e)
  have "case cv_from var s of Inl (Exception _) \<Rightarrow> True | Inl _ \<Rightarrow> False | Inr _ \<Rightarrow> True" using assms unfolding calm_def by blast
  then have "\<exists>m. e = Exception m" using Inl by (cases e) auto
  then show ?thesis using Inl by (auto simp: from_string_def settle_def)
next
  case (Inr v)
  obtain w' where "call_listeners (cv_cbs var) (cv_val var) v w = (None, w')"
    using call_listeners_calm [of "cv_cbs var" "cv_val var" v w] assms unfolding calm_def
    by (cases "call_listeners (cv_cbs var) (cv_val var) v w") auto
  then show ?thesis using Inr by (auto simp: from_string_def set_value_def settle_def)
qed

lemma tolower_name: "name_ok p \<Longrightarrow> map tolower p = p"
  by (induction p) (auto simp: name_ok_def lower_name_chars_def tolower_def)

lemma load_entry_calm:
  assumes "name_ok p" and "\<And>name var. d name = Some var \<Longrightarrow> calm var"
  shows "\<exists>w'. load_entry yl (p, n) (d, w) =
    Inr (loaded yl [(p, n)] d, w')"
proof (cases "p = [] \<or> d p = None")
  case True
  then have "loaded yl [(p, n)] d = d"
    by (auto simp: loaded_def fun_eq_iff texts_def option.map_ident)
  then show ?thesis using True tolower_name [OF assms(1)] by (auto simp: load_entry_def lookup_base_def)
next
  case False
  then obtain var where v: "d p = Some var" "p \<noteq> []" by auto
  obtain w' where "from_string (node_text yl n) var w = Inr (False, var\<lparr>cv_val := settle (cv_from var) (node_text yl n) (cv_val var)\<rparr>, w')"
    using from_string_calm [OF assms(2) [OF v(1)], of "node_text yl n" w] by blast
  moreover have "d(p \<mapsto> var\<lparr>cv_val := settle (cv_from var) (node_text yl n) (cv_val var)\<rparr>) =
      loaded yl [(p, n)] d"
    using v by (auto simp: loaded_def fun_eq_iff texts_def option.map_ident)
  ultimately show ?thesis
    using v tolower_name [OF assms(1)] by (auto simp: load_entry_def lookup_base_def bindE_def node_text_def)
qed

lemma calm_cv_val [simp]: "calm (var\<lparr>cv_val := v\<rparr>) = calm var"
  by (simp add: calm_def)

lemma texts_Cons: "texts yl (e # es) name = texts yl [e] name @ texts yl es name"
  by (auto simp: texts_def)

lemma load_entries_calm:
  assumes "\<forall>(p, n) \<in> set es. name_ok p" and "\<And>name var. d name = Some var \<Longrightarrow> calm var"
  shows "\<exists>w'. foldE (load_entry yl) es (d, w) =
    Inr (loaded yl es d, w')"
  using assms
proof (induction es arbitrary: d w)
  case Nil
  then show ?case by (auto simp: loaded_def texts_def fun_eq_iff option.map_ident)
next
  case (Cons e es)
  obtain p n where e: "e = (p, n)" by (cases e)
  let ?d = "loaded yl [e] d"
  obtain w' where 1: "load_entry yl e (d, w) = Inr (?d, w')"
    using load_entry_calm [of p d yl n w] Cons.prems e by auto
  have calm: "calm var" if "?d name = Some var" for name var
    using that Cons.prems(2) [of name] by (auto simp: loaded_def)
  have es: "\<forall>(p, n) \<in> set es. name_ok p" using Cons.prems(1) by auto
  have "\<exists>w''. foldE (load_entry yl) es (?d, w') = Inr (loaded yl es ?d, w'')"
    by (rule Cons.IH) (use es calm in auto)
  then obtain w'' where 2: "foldE (load_entry yl) es (?d, w') = Inr (loaded yl es ?d, w'')" by blast
  have "loaded yl es ?d = loaded yl (e # es) d"
    by (auto simp: loaded_def texts_Cons [of yl e es] option.map_comp comp_def fun_eq_iff)
  then show ?case using 1 2 by (simp add: bindE_def)
qed


definition demo_table :: "(int, unit) datas" where
  "demo_table = [''http.port'' \<mapsto> ConfigVar_new ''int'' demo_from demo_to ''http.port'' 0 ''the port'',
     ''Port'' \<mapsto> ConfigVar_new ''int'' demo_from demo_to ''Port'' 0 ''never loaded'']"


end
