(* ===== verification/Cool_Log.thy ===== *)
theory Cool_Log
  imports Cool_Config
begin

text \<open>
  The logging system of log.h and log.cpp: levels, events, the formatter with its pattern language, appenders and loggers, the
  table of loggers, and the configuration of the loggers from YAML through a listener of the variable \<open>logs\<close>.
\<close>

section \<open>Levels and events\<close>

text \<open>A level is the integer behind the enumeration: the code also casts 100 to it.\<close>

definition LogLevel_from_string :: "string \<Rightarrow> int" where
  "LogLevel_from_string v =
     (if v = ''debug'' then 1 else if v = ''info'' then 2 else if v = ''warn'' then 3 else if v = ''error'' then 4 else if v = ''fatal'' then 5
      else if v = ''DEBUG'' then 1 else if v = ''INFO'' then 2 else if v = ''WARN'' then 3 else if v = ''ERROR'' then 4 else if v = ''FATAL'' then 5
      else 0)"

definition LogLevel_to_string :: "int \<Rightarrow> string" where
  "LogLevel_to_string level =
     (if level = 1 then ''DEBUG'' else if level = 2 then ''INFO'' else if level = 3 then ''WARN'' else if level = 4 then ''ERROR''
      else if level = 5 then ''FATAL'' else ''UNKNOWN'')"

text \<open>Loggers and appenders are referred to by their place in the store below.\<close>

record log_event =
  ev_file :: string
  ev_line :: u32
  ev_elapse :: u32
  ev_thread_id :: u32
  ev_thread_name :: string
  ev_fiber_id :: u32
  ev_time :: u64
  ev_ss :: string
  ev_logger :: nat
  ev_level :: int

definition LogEvent_new :: "nat \<Rightarrow> int \<Rightarrow> string \<Rightarrow> u32 \<Rightarrow> u32 \<Rightarrow> u32 \<Rightarrow> string \<Rightarrow> u32 \<Rightarrow> u64 \<Rightarrow> log_event" where
  "LogEvent_new logger level file line elapse thread_id thread_name fiber_id time =
     \<lparr>ev_file = file, ev_line = line, ev_elapse = elapse, ev_thread_id = thread_id, ev_thread_name = thread_name,
      ev_fiber_id = fiber_id, ev_time = time, ev_ss = [], ev_logger = logger, ev_level = level\<rparr>"

text \<open>\<open>vasprintf\<close> is what the C library makes of the format and its arguments: \<^const>\<open>None\<close> where it fails.\<close>

definition LogEvent_format :: "string option \<Rightarrow> log_event \<Rightarrow> log_event" where
  "LogEvent_format vasprintf e = (case vasprintf of Some s \<Rightarrow> e\<lparr>ev_ss := ev_ss e @ s\<rparr> | None \<Rightarrow> e)"

definition get_time :: "log_event \<Rightarrow> u32" where
  "get_time e = ucast (ev_time e)"

section \<open>Format items\<close>

datatype format_item =
    MessageFormatItem
  | LevelFormatItem
  | ElapseFormatItem
  | ThreadIdFormatItem
  | ThreadNameFormatItem
  | NameFormatItem
  | FiberIdFormatItem
  | DateTimeFormatItem string
  | FilenameFormatItem
  | LineFormatItem
  | NewLineFormatItem
  | TabFormatItem
  | StringFormatItem string

definition DateTimeFormatItem_new :: "string \<Rightarrow> format_item" where
  "DateTimeFormatItem_new format = DateTimeFormatItem (if format = [] then ''%Y-%m-%d %H:%M:%S'' else format)"

text \<open>\<open>ftime\<close> is the text of a moment in a format, \<open>localtime_r\<close> and \<open>strftime\<close>; \<open>nm\<close> gives the names of loggers.\<close>

fun item_format :: "(string \<Rightarrow> u32 \<Rightarrow> string) \<Rightarrow> (nat \<Rightarrow> string) \<Rightarrow> log_event \<Rightarrow> format_item \<Rightarrow> string" where
  "item_format ftime nm e MessageFormatItem = ev_ss e"
| "item_format ftime nm e LevelFormatItem = LogLevel_to_string (ev_level e)"
| "item_format ftime nm e ElapseFormatItem = dec (unat (ev_elapse e))"
| "item_format ftime nm e ThreadIdFormatItem = dec (unat (ev_thread_id e))"
| "item_format ftime nm e ThreadNameFormatItem = ev_thread_name e"
| "item_format ftime nm e NameFormatItem = nm (ev_logger e)"
| "item_format ftime nm e FiberIdFormatItem = dec (unat (ev_fiber_id e))"
| "item_format ftime nm e (DateTimeFormatItem format) = ftime (c_str format) (get_time e)"
| "item_format ftime nm e FilenameFormatItem = ev_file e"
| "item_format ftime nm e LineFormatItem = dec (unat (ev_line e))"
| "item_format ftime nm e NewLineFormatItem = [CHR 0x0A]"
| "item_format ftime nm e TabFormatItem = [CHR 0x09]"
| "item_format ftime nm e (StringFormatItem s) = s"

section \<open>The formatter\<close>

record log_formatter =
  fm_pattern :: string
  fm_items :: "format_item list"
  fm_error :: bool

definition LogFormatter_format :: "(string \<Rightarrow> u32 \<Rightarrow> string) \<Rightarrow> (nat \<Rightarrow> string) \<Rightarrow> log_event \<Rightarrow> log_formatter \<Rightarrow> string" where
  "LogFormatter_format ftime nm e f = concat (map (item_format ftime nm e) (fm_items f))"

definition isalpha :: "char \<Rightarrow> bool" where
  "isalpha c \<longleftrightarrow> 65 \<le> (of_char c :: int) \<and> (of_char c :: int) \<le> 90 \<or> 97 \<le> (of_char c :: int) \<and> (of_char c :: int) \<le> 122"

text \<open>\<open>substr\<close> with a position inside the string.\<close>

definition substr :: "string \<Rightarrow> nat \<Rightarrow> nat \<Rightarrow> string" where
  "substr s pos len = take len (drop pos s)"

text \<open>
  The loop over the characters behind a percent sign at \<open>i\<close>, with the local variables of \<open>init\<close>; its result is the position where it
  stops, whether a brace is still open, and the two texts.
\<close>

function item_loop :: "string \<Rightarrow> nat \<Rightarrow> nat \<Rightarrow> bool \<Rightarrow> nat \<Rightarrow> string \<Rightarrow> string \<Rightarrow> nat \<times> bool \<times> string \<times> string" where
  "item_loop pat i n fmt_status fmt_begin str fmt =
     (if n < length pat
      then if \<not> fmt_status \<and> \<not> isalpha (pat ! n) \<and> pat ! n \<noteq> CHR ''{'' \<and> pat ! n \<noteq> CHR ''}''
           then (n, fmt_status, substr pat (i + 1) (n - i - 1), fmt)
           else if \<not> fmt_status \<and> pat ! n = CHR ''{''
           then item_loop pat i (n + 1) True n (substr pat (i + 1) (n - i - 1)) fmt
           else if fmt_status \<and> pat ! n = CHR ''}''
           then (n + 1, False, str, substr pat (fmt_begin + 1) (n - fmt_begin - 1))
           else item_loop pat i (n + 1) fmt_status fmt_begin (if n + 1 = length pat \<and> str = [] then drop (i + 1) pat else str) fmt
      else (n, fmt_status, str, fmt))"
  by pat_completeness auto
termination
  by (relation "measure (\<lambda>(pat, i, n, _). length pat - n)") auto

declare item_loop.simps [simp del]

lemma item_loop_mono: "n \<le> fst (item_loop pat i n st fb str fmt)"
proof (induction pat i n st fb str fmt rule: item_loop.induct)
  case (1 pat i n st fb str fmt)
  then show ?case by (subst item_loop.simps) (auto dest: Suc_leD)
qed

lemma item_loop_after: "(n, r) = item_loop pat i (Suc i) st fb str fmt \<Longrightarrow> i < n"
  using item_loop_mono [of "Suc i" pat i st fb str fmt] by (metis Suc_le_eq fst_conv)

text \<open>The pieces of a pattern: a text and, for a number 1, a format.\<close>

type_synonym pattern_piece = "string \<times> string \<times> nat"

function pattern_loop :: "string \<Rightarrow> nat \<Rightarrow> string \<Rightarrow> pattern_piece list \<Rightarrow> bool \<Rightarrow> pattern_piece list \<times> bool" where
  "pattern_loop pat i nstr vec err =
     (if i < length pat
      then if pat ! i \<noteq> CHR ''%'' then pattern_loop pat (i + 1) (nstr @ [pat ! i]) vec err
           else if i + 1 < length pat \<and> pat ! (i + 1) = CHR ''%'' then pattern_loop pat (i + 1) (nstr @ ''%'') vec err
           else case item_loop pat i (i + 1) False 0 [] [] of
                  (n, fmt_status, str, fmt) \<Rightarrow>
                    if \<not> fmt_status
                    then pattern_loop pat n [] (vec @ (if nstr = [] then [] else [(nstr, [], 0)]) @ [(str, fmt, 1)]) err
                    else pattern_loop pat (i + 1) nstr (vec @ [(''<<parse_error>>'', fmt, 0)]) True
      else (vec @ (if nstr = [] then [] else [(nstr, [], 0)]), err))"
  by pat_completeness auto
termination
  by (relation "measure (\<lambda>(pat, i, _). length pat - i)") (auto dest!: item_loop_after)

declare pattern_loop.simps [simp del]

definition format_items :: "(string \<times> (string \<Rightarrow> format_item)) list" where
  "format_items =
     [(''m'', \<lambda>_. MessageFormatItem), (''p'', \<lambda>_. LevelFormatItem), (''r'', \<lambda>_. ElapseFormatItem), (''c'', \<lambda>_. NameFormatItem),
      (''t'', \<lambda>_. ThreadIdFormatItem), (''n'', \<lambda>_. NewLineFormatItem), (''d'', DateTimeFormatItem_new), (''f'', \<lambda>_. FilenameFormatItem),
      (''l'', \<lambda>_. LineFormatItem), (''T'', \<lambda>_. TabFormatItem), (''F'', \<lambda>_. FiberIdFormatItem), (''N'', \<lambda>_. ThreadNameFormatItem)]"

definition piece_item :: "pattern_piece \<Rightarrow> format_item \<times> bool" where
  "piece_item = (\<lambda>(str, fmt, type).
     if type = 0 then (StringFormatItem str, False)
     else case map_of format_items str of
            None \<Rightarrow> (StringFormatItem (''<<error_format %'' @ str @ ''>>''), True)
          | Some mk \<Rightarrow> (mk fmt, False))"

definition LogFormatter_new :: "string \<Rightarrow> log_formatter" where
  "LogFormatter_new pattern =
     (case pattern_loop pattern 0 [] [] False of
        (vec, err) \<Rightarrow>
          \<lparr>fm_pattern = pattern, fm_items = map (\<lambda>p. fst (piece_item p)) vec, fm_error = err \<or> list_ex (\<lambda>p. snd (piece_item p)) vec\<rparr>)"

section \<open>Appenders and loggers\<close>

text \<open>
  The store of the logging system: the appenders and loggers that were created, the table of the manager and its root logger, and
  what has been written. A file appender whose file could not be opened writes nothing.
\<close>

datatype log_sink = File string bool | Stdout

record log_appender =
  ap_sink :: log_sink
  ap_formatter :: "log_formatter option"

record logger =
  lo_name :: string
  lo_level :: int
  lo_appenders :: "nat list"
  lo_formatter :: "log_formatter option"

record log_state =
  lg_appenders :: "log_appender list"
  lg_objects :: "logger list"
  lg_loggers :: "string \<Rightarrow> nat option"
  lg_root :: nat
  lg_out :: string
  lg_files :: "string \<Rightarrow> string"

definition appender_set_formatter :: "log_formatter option \<Rightarrow> log_appender \<Rightarrow> log_appender" where
  "appender_set_formatter val a = a\<lparr>ap_formatter := val\<rparr>"

definition FileLogAppender_new :: "(string \<Rightarrow> bool) \<Rightarrow> string \<Rightarrow> log_appender" where
  "FileLogAppender_new can_open filename = \<lparr>ap_sink = File filename (can_open filename), ap_formatter = None\<rparr>"

definition StdoutLogAppender_new :: log_appender where
  "StdoutLogAppender_new = \<lparr>ap_sink = Stdout, ap_formatter = None\<rparr>"

definition logger_name :: "log_state \<Rightarrow> nat \<Rightarrow> string" where
  "logger_name st l = lo_name (lg_objects st ! l)"

definition FileLogAppender_log ::
  "(string \<Rightarrow> u32 \<Rightarrow> string) \<Rightarrow> log_event \<Rightarrow> string \<Rightarrow> bool \<Rightarrow> log_appender \<Rightarrow> log_state \<Rightarrow> log_state outcome" where
  "FileLogAppender_log ftime e filename opened a st =
     (case ap_formatter a of
        None \<Rightarrow> Inl Null_deref
      | Some f \<Rightarrow>
          let text = LogFormatter_format ftime (logger_name st) e f
          in Inr (if opened then st\<lparr>lg_files := (lg_files st)(filename := lg_files st filename @ text)\<rparr> else st))"

definition StdoutLogAppender_log :: "(string \<Rightarrow> u32 \<Rightarrow> string) \<Rightarrow> log_event \<Rightarrow> log_appender \<Rightarrow> log_state \<Rightarrow> log_state outcome" where
  "StdoutLogAppender_log ftime e a st =
     (case ap_formatter a of
        None \<Rightarrow> Inl Null_deref
      | Some f \<Rightarrow> Inr (st\<lparr>lg_out := lg_out st @ LogFormatter_format ftime (logger_name st) e f\<rparr>))"

definition appender_log :: "(string \<Rightarrow> u32 \<Rightarrow> string) \<Rightarrow> log_event \<Rightarrow> nat \<Rightarrow> log_state \<Rightarrow> log_state outcome" where
  "appender_log ftime e i st =
     (let a = lg_appenders st ! i in
      case ap_sink a of
        File filename opened \<Rightarrow> FileLogAppender_log ftime e filename opened a st
      | Stdout \<Rightarrow> StdoutLogAppender_log ftime e a st)"

definition default_pattern :: string where
  "default_pattern = ''%d{%Y-%m-%d %H:%M:%S} %t(%N):%F [%p] [%c] %f:%l %m %n''"

definition Logger_new :: "string \<Rightarrow> logger" where
  "Logger_new name = \<lparr>lo_name = name, lo_level = 1, lo_appenders = [], lo_formatter = Some (LogFormatter_new default_pattern)\<rparr>"

definition upd_logger :: "nat \<Rightarrow> (logger \<Rightarrow> logger) \<Rightarrow> log_state \<Rightarrow> log_state" where
  "upd_logger l f st = st\<lparr>lg_objects := (lg_objects st)[l := f (lg_objects st ! l)]\<rparr>"

definition add_appender :: "nat \<Rightarrow> nat \<Rightarrow> log_state \<Rightarrow> log_state" where
  "add_appender l i st =
     (let a = lg_appenders st ! i;
          a = (if ap_formatter a = None then appender_set_formatter (lo_formatter (lg_objects st ! l)) a else a)
      in upd_logger l (\<lambda>x. x\<lparr>lo_appenders := lo_appenders x @ [i]\<rparr>) (st\<lparr>lg_appenders := (lg_appenders st)[i := a]\<rparr>))"

definition del_appender :: "nat \<Rightarrow> nat \<Rightarrow> log_state \<Rightarrow> log_state" where
  "del_appender l i st = upd_logger l (\<lambda>x. x\<lparr>lo_appenders := remove1 i (lo_appenders x)\<rparr>) st"

definition clear_appenders :: "nat \<Rightarrow> log_state \<Rightarrow> log_state" where
  "clear_appenders l st = upd_logger l (\<lambda>x. x\<lparr>lo_appenders := []\<rparr>) st"

definition set_level :: "nat \<Rightarrow> int \<Rightarrow> log_state \<Rightarrow> log_state" where
  "set_level l level st = upd_logger l (\<lambda>x. x\<lparr>lo_level := level\<rparr>) st"

definition set_formatter_ptr :: "nat \<Rightarrow> log_formatter option \<Rightarrow> log_state \<Rightarrow> log_state" where
  "set_formatter_ptr l val st = upd_logger l (\<lambda>x. x\<lparr>lo_formatter := val\<rparr>) st"

definition set_formatter :: "nat \<Rightarrow> string \<Rightarrow> log_state \<Rightarrow> log_state" where
  "set_formatter l val st =
     (let new_val = LogFormatter_new val in if fm_error new_val then st else set_formatter_ptr l (Some new_val) st)"

text \<open>
  Logging an event. The spin lock of a logger is held while its appenders write and, for a logger without appenders, while the root
  logger logs; \<open>held\<close> are the loggers whose lock this thread has.
\<close>

function Logger_log :: "(string \<Rightarrow> u32 \<Rightarrow> string) \<Rightarrow> log_event \<Rightarrow> nat list \<Rightarrow> nat \<Rightarrow> log_state \<Rightarrow> log_state outcome" where
  "Logger_log ftime e held l st =
     (let logger = lg_objects st ! l in
      if ev_level e \<ge> lo_level logger
      then if l \<in> set held then Inl Deadlock
           else if lo_appenders logger \<noteq> [] then foldE (appender_log ftime e) (lo_appenders logger) st
           else Logger_log ftime e (l # held) (lg_root st) st
      else Inr st)"
  by pat_completeness auto
termination
  by (relation "measure (\<lambda>(_, _, held, l, st). (if l = lg_root st then 0 else 2) + (if lg_root st \<in> set held then 0 else 1))") auto

declare Logger_log.simps [simp del]

text \<open>The macros: an event is made where the level is enough, and logged when the statement is over.\<close>

record log_site =
  si_file :: string
  si_line :: u32
  si_thread_id :: u32
  si_thread_name :: string
  si_fiber_id :: u32
  si_time :: u64

definition LOG_LEVEL :: "(string \<Rightarrow> u32 \<Rightarrow> string) \<Rightarrow> log_site \<Rightarrow> nat \<Rightarrow> int \<Rightarrow> string \<Rightarrow> log_state \<Rightarrow> log_state outcome" where
  "LOG_LEVEL ftime s l level text st =
     (if lo_level (lg_objects st ! l) \<le> level
      then let e = LogEvent_new l level (si_file s) (si_line s) 0 (si_thread_id s) (si_thread_name s) (si_fiber_id s) (si_time s)
           in Logger_log ftime (e\<lparr>ev_ss := text\<rparr>) [] l st
      else Inr st)"

definition LOG_FMT_LEVEL :: "(string \<Rightarrow> u32 \<Rightarrow> string) \<Rightarrow> log_site \<Rightarrow> nat \<Rightarrow> int \<Rightarrow> string option \<Rightarrow> log_state \<Rightarrow> log_state outcome" where
  "LOG_FMT_LEVEL ftime s l level vasprintf st =
     (if lo_level (lg_objects st ! l) \<le> level
      then let e = LogEvent_new l level (si_file s) (si_line s) 0 (si_thread_id s) (si_thread_name s) (si_fiber_id s) (si_time s)
           in Logger_log ftime (LogEvent_format vasprintf e) [] l st
      else Inr st)"

section \<open>The manager\<close>

definition new_logger :: "logger \<Rightarrow> log_state \<Rightarrow> nat \<times> log_state" where
  "new_logger x st = (length (lg_objects st), st\<lparr>lg_objects := lg_objects st @ [x]\<rparr>)"

definition new_appender :: "log_appender \<Rightarrow> log_state \<Rightarrow> nat \<times> log_state" where
  "new_appender a st = (length (lg_appenders st), st\<lparr>lg_appenders := lg_appenders st @ [a]\<rparr>)"

definition LoggerManager_new :: "string \<Rightarrow> (string \<Rightarrow> string) \<Rightarrow> log_state" where
  "LoggerManager_new out files =
     (let st = \<lparr>lg_appenders = [], lg_objects = [], lg_loggers = (\<lambda>_. None), lg_root = 0, lg_out = out, lg_files = files\<rparr>;
          (root, st) = new_logger (Logger_new ''root'') st;
          (i, st) = new_appender StdoutLogAppender_new st;
          st = add_appender root i st
      in st\<lparr>lg_root := root, lg_loggers := [''root'' \<mapsto> root]\<rparr>)"

definition add_logger :: "string \<Rightarrow> nat \<Rightarrow> log_state \<Rightarrow> log_state" where
  "add_logger name l st = st\<lparr>lg_loggers := (lg_loggers st)(name \<mapsto> l)\<rparr>"

definition get_logger :: "string \<Rightarrow> log_state \<Rightarrow> nat \<times> log_state" where
  "get_logger name st =
     (case lg_loggers st name of
        Some l \<Rightarrow> (l, st)
      | None \<Rightarrow> (case new_logger (Logger_new name) st of (l, st) \<Rightarrow> (l, st\<lparr>lg_loggers := (lg_loggers st)(name \<mapsto> l)\<rparr>)))"

section \<open>Configuration\<close>

record log_appender_define =
  lad_type :: int
  lad_formatter :: string
  lad_file :: string

record log_define =
  ld_name :: string
  ld_level :: int
  ld_formatter :: string
  ld_appenders :: "log_appender_define list"

text \<open>\<open>std::set<LogDefine>\<close>: a list sorted by name.\<close>

definition ld_less :: "log_define \<Rightarrow> log_define \<Rightarrow> bool" where
  "ld_less a b \<longleftrightarrow> str_less (ld_name a) (ld_name b)"

text \<open>
  Subscripting a node with a string: \<^const>\<open>None\<close> is a node that is not defined. Conversion to a string of a node that is no scalar is
  the library's.
\<close>

fun node_get :: "string \<Rightarrow> yaml \<Rightarrow> yaml option outcome" where
  "node_get key (MapNode kvs) = Inr (map_of kvs (ScalarNode key))"
| "node_get key (ScalarNode _) = Inl (Exception ''BadSubscript'')"
| "node_get key _ = Inr None"

definition node_as_string :: "yaml_lib \<Rightarrow> yaml \<Rightarrow> string outcome" where
  "node_as_string yl n = (case n of ScalarNode s \<Rightarrow> Inr s | _ \<Rightarrow> y_as_string yl n)"

definition node_get_string :: "yaml_lib \<Rightarrow> string \<Rightarrow> yaml \<Rightarrow> string option outcome" where
  "node_get_string yl key n =
     bindE (node_get key n) (\<lambda>v. case v of None \<Rightarrow> Inr None | Some m \<Rightarrow> bindE (node_as_string yl m) (\<lambda>s. Inr (Some s)))"

definition or_empty :: "string option \<Rightarrow> string" where
  "or_empty v = (case v of None \<Rightarrow> [] | Some s \<Rightarrow> s)"

text \<open>One entry of \<open>appenders\<close>: \<^const>\<open>None\<close> where it is skipped.\<close>

definition appender_define_from :: "yaml_lib \<Rightarrow> yaml \<Rightarrow> log_appender_define option outcome" where
  "appender_define_from yl a =
     bindE (node_get_string yl ''type'' a) (\<lambda>type.
       case type of
         None \<Rightarrow> Inr None
       | Some type \<Rightarrow>
           if type = ''FileLogAppender''
           then bindE (node_get_string yl ''file'' a) (\<lambda>file.
                  case file of
                    None \<Rightarrow> Inr None
                  | Some file \<Rightarrow>
                      bindE (node_get_string yl ''formatter'' a) (\<lambda>formatter.
                        Inr (Some \<lparr>lad_type = 1, lad_formatter = or_empty formatter, lad_file = file\<rparr>)))
           else if type = ''StdoutLogAppender'' then Inr (Some \<lparr>lad_type = 2, lad_formatter = [], lad_file = []\<rparr>)
           else Inr None)"

definition define_from :: "yaml_lib \<Rightarrow> yaml \<Rightarrow> log_define option outcome" where
  "define_from yl n =
     bindE (node_get_string yl ''name'' n) (\<lambda>name.
       case name of
         None \<Rightarrow> Inr None
       | Some name \<Rightarrow>
           bindE (node_get_string yl ''level'' n) (\<lambda>level.
           bindE (node_get_string yl ''formatter'' n) (\<lambda>formatter.
           bindE (node_get ''appenders'' n) (\<lambda>aps.
           bindE (case aps of
                    None \<Rightarrow> Inr []
                  | Some aps \<Rightarrow>
                      foldE (\<lambda>x lads. bindE (appender_define_from yl (node_at yl aps x)) (\<lambda>lad.
                               Inr (case lad of None \<Rightarrow> lads | Some lad \<Rightarrow> lads @ [lad]))) [0..<node_size aps] [])
             (\<lambda>lads.
               Inr (Some \<lparr>ld_name = name, ld_level = LogLevel_from_string (or_empty level), ld_formatter = or_empty formatter,
                          ld_appenders = lads\<rparr>))))))"

definition defines_from_string :: "yaml_lib \<Rightarrow> string \<Rightarrow> log_define list outcome" where
  "defines_from_string yl v =
     bindE (y_load yl v) (\<lambda>node.
       foldE (\<lambda>i vec. bindE (define_from yl (node_at yl node i)) (\<lambda>ld.
                Inr (case ld of None \<Rightarrow> vec | Some ld \<Rightarrow> ord_insert ld_less id ld vec))) [0..<node_size node] [])"

definition opt_entry :: "string \<Rightarrow> string \<Rightarrow> (string \<times> yaml) list" where
  "opt_entry key v = (if v = [] then [] else [(key, ScalarNode v)])"

definition appender_define_node :: "log_appender_define \<Rightarrow> yaml" where
  "appender_define_node a =
     map_node
       ((if lad_type a = 1 then [(''type'', ScalarNode ''FileLogAppender''), (''file'', ScalarNode (lad_file a))]
         else if lad_type a = 2 then [(''type'', ScalarNode ''StdoutLogAppender'')] else [])
        @ opt_entry ''formatter'' (lad_formatter a))"

definition define_node :: "log_define \<Rightarrow> yaml" where
  "define_node i =
     map_node
       ([(''name'', ScalarNode (ld_name i)), (''level'', ScalarNode (LogLevel_to_string (ld_level i)))]
        @ opt_entry ''formatter'' (ld_formatter i)
        @ (if ld_appenders i = [] then [] else [(''appenders'', SequenceNode (map appender_define_node (ld_appenders i)))]))"

definition defines_to_string :: "yaml_lib \<Rightarrow> log_define list \<Rightarrow> string outcome" where
  "defines_to_string yl v = Inr (y_emit yl (sequence_node (map define_node v)))"

text \<open>
  The listener: a logger whose definition is new or has changed is fetched and configured. For an unchanged definition the pointer
  stays null. \<open>find_define\<close> is \<open>find\<close> of the set, which compares names.
\<close>

definition find_define :: "log_define \<Rightarrow> log_define list \<Rightarrow> log_define option" where
  "find_define i v = ord_find ld_less id i v"

definition configure_appender :: "(string \<Rightarrow> bool) \<Rightarrow> nat \<Rightarrow> log_appender_define \<Rightarrow> log_state \<Rightarrow> log_state outcome" where
  "configure_appender can_open l a st =
     bindE (if lad_type a = 1 then Inr (FileLogAppender_new can_open (lad_file a))
            else if lad_type a = 2 then Inr StdoutLogAppender_new else Inl Null_deref) (\<lambda>ap.
       let ap = (if lad_formatter a = [] then ap else appender_set_formatter (Some (LogFormatter_new (lad_formatter a))) ap);
           (i, st) = new_appender ap st
       in Inr (add_appender l i st))"

definition configure_logger :: "(string \<Rightarrow> bool) \<Rightarrow> nat \<Rightarrow> log_define \<Rightarrow> log_state \<Rightarrow> log_state outcome" where
  "configure_logger can_open l i st =
     (let st = set_level l (ld_level i) st;
          st = clear_appenders l st;
          st = (if ld_formatter i = [] then st else set_formatter l (ld_formatter i) st)
      in foldE (configure_appender can_open l) (ld_appenders i) st)"

definition change_define :: "(string \<Rightarrow> bool) \<Rightarrow> log_define list \<Rightarrow> log_define \<Rightarrow> log_state \<Rightarrow> log_state outcome" where
  "change_define can_open old_value i st =
     (if find_define i old_value = Some i then Inl Null_deref
      else case get_logger (ld_name i) st of (l, st) \<Rightarrow> configure_logger can_open l i st)"

definition delete_define :: "log_define list \<Rightarrow> log_define \<Rightarrow> log_state \<Rightarrow> log_state outcome" where
  "delete_define new_value i st =
     (if find_define i new_value = None
      then case get_logger (ld_name i) st of (l, st) \<Rightarrow> Inr (clear_appenders l (set_level l 100 st))
      else Inr st)"

definition logs_changed ::
  "(string \<Rightarrow> u32 \<Rightarrow> string) \<Rightarrow> (string \<Rightarrow> bool) \<Rightarrow> log_site \<Rightarrow> log_define list \<Rightarrow> log_define list \<Rightarrow> log_state \<Rightarrow> log_state outcome" where
  "logs_changed ftime can_open s old_value new_value st =
     bindE (LOG_LEVEL ftime s (lg_root st) 1 ''on_logger_conf_changed'' st) (\<lambda>st.
     bindE (foldE (change_define can_open old_value) new_value st) (\<lambda>st.
       foldE (delete_define new_value) old_value st))"

text \<open>As a listener of the variable \<open>logs\<close>.\<close>

definition LogIniter_listener ::
  "(string \<Rightarrow> u32 \<Rightarrow> string) \<Rightarrow> (string \<Rightarrow> bool) \<Rightarrow> log_site \<Rightarrow> (log_define list, log_state) on_change_cb" where
  "LogIniter_listener ftime can_open s old_value new_value st =
     (case logs_changed ftime can_open s old_value new_value st of Inl e \<Rightarrow> (Some e, st) | Inr st \<Rightarrow> (None, st))"

section \<open>Patterns\<close>

text \<open>The pieces a pattern is meant to be made of.\<close>

datatype pattern = Text string | Item string "string option"

fun print_piece :: "pattern \<Rightarrow> string" where
  "print_piece (Text s) = s"
| "print_piece (Item name None) = ''%'' @ name"
| "print_piece (Item name (Some fmt)) = ''%'' @ name @ ''{'' @ fmt @ ''}''"

fun meant_piece :: "pattern \<Rightarrow> pattern_piece" where
  "meant_piece (Text s) = (s, [], 0)"
| "meant_piece (Item name fmt) = (name, case fmt of None \<Rightarrow> [] | Some f \<Rightarrow> f, 1)"

definition ends_name :: "string \<Rightarrow> bool" where
  "ends_name s \<longleftrightarrow> (case s of [] \<Rightarrow> True | c # _ \<Rightarrow> \<not> isalpha c \<and> c \<noteq> CHR ''{'' \<and> c \<noteq> CHR ''}'')"

fun pieces_ok :: "pattern list \<Rightarrow> bool" where
  "pieces_ok [] \<longleftrightarrow> True"
| "pieces_ok (Text s # ps) \<longleftrightarrow> s \<noteq> [] \<and> CHR ''%'' \<notin> set s \<and> (case ps of Text _ # _ \<Rightarrow> False | _ \<Rightarrow> True) \<and> pieces_ok ps"
| "pieces_ok (Item name None # ps) \<longleftrightarrow>
     name \<noteq> [] \<and> list_all isalpha name \<and> ends_name (concat (map print_piece ps)) \<and> pieces_ok ps"
| "pieces_ok (Item name (Some fmt) # ps) \<longleftrightarrow> name \<noteq> [] \<and> list_all isalpha name \<and> CHR ''}'' \<notin> set fmt \<and> pieces_ok ps"

lemma isalpha_chars: "isalpha c \<Longrightarrow> c \<noteq> CHR ''{'' \<and> c \<noteq> CHR ''}'' \<and> c \<noteq> CHR ''%''"
  by (auto simp: isalpha_def)

lemma drop_at: "drop n xs = c # ys \<Longrightarrow> n < length xs \<and> xs ! n = c \<and> drop (Suc n) xs = ys \<and> length xs = Suc n + length ys"
proof -
  assume d: "drop n xs = c # ys"
  then have n: "n < length xs" by (metis drop_all list.distinct(1) not_le)
  then have "drop n xs = xs ! n # drop (Suc n) xs" by (rule Cons_nth_drop_Suc [symmetric])
  then have "xs ! n = c" "drop (Suc n) xs = ys" using d by simp_all
  then show ?thesis using n by auto
qed

lemma item_loop_name:
  "list_all isalpha s \<Longrightarrow> drop n pat = s @ t \<Longrightarrow> t \<noteq> [] \<Longrightarrow> item_loop pat i n False fb [] fmt = item_loop pat i (n + length s) False fb [] fmt"
proof (induction s arbitrary: n)
  case (Cons c s)
  have n: "n < length pat" "pat ! n = c" "drop (Suc n) pat = s @ t" "Suc n \<noteq> length pat"
    using Cons.prems(2,3) drop_at [of n pat c "s @ t"] by auto
  then have "item_loop pat i n False fb [] fmt = item_loop pat i (Suc n) False fb [] fmt"
    using Cons.prems(1) isalpha_chars [of c] by (subst item_loop.simps) auto
  then show ?case using Cons.IH [of "Suc n"] Cons.prems(1,3) n(3) by simp
qed simp

lemma item_loop_fmt:
  "CHR ''}'' \<notin> set s \<Longrightarrow> drop n pat = s @ CHR ''}'' # t \<Longrightarrow> str \<noteq> [] \<Longrightarrow>
     item_loop pat i n True fb str fmt = (n + length s + 1, False, str, substr pat (fb + 1) (n + length s - fb - 1))"
proof (induction s arbitrary: n)
  case Nil
  then have "n < length pat" "pat ! n = CHR ''}''" using drop_at [of n pat "CHR ''}''" t] by auto
  then show ?case by (subst item_loop.simps) simp
next
  case (Cons c s)
  have n: "n < length pat" "pat ! n = c" "drop (Suc n) pat = s @ CHR ''}'' # t"
    using Cons.prems(2) drop_at [of n pat c "s @ CHR ''}'' # t"] by auto
  then have "item_loop pat i n True fb str fmt = item_loop pat i (Suc n) True fb str fmt"
    using Cons.prems(1,3) by (subst item_loop.simps) auto
  then show ?case using Cons.IH [of "Suc n"] Cons.prems(1,3) n(3) by simp
qed

lemma drop_split:
  assumes "drop i xs = s @ t" and "i \<le> length xs"
  shows "drop (i + length s) xs = t" "i + length s \<le> length xs"
proof -
  have "drop (length s) (drop i xs) = t" using assms(1) by simp
  then show "drop (i + length s) xs = t" by (simp add: add.commute)
  have "length xs - i = length s + length t" using arg_cong [OF assms(1), of length] by simp
  then show "i + length s \<le> length xs" using assms(2) by simp
qed

text \<open>What is read behind a percent sign.\<close>

lemma item_loop_plain:
  assumes "drop (Suc i) pat = name @ t" and "name \<noteq> []" and "list_all isalpha name" and "ends_name t"
  shows "item_loop pat i (Suc i) False 0 [] [] = (Suc i + length name, False, name, [])"
proof (cases t)
  case Nil
  obtain s c where s: "name = s @ [c]" using assms(2) by (cases name rule: rev_cases) auto
  have a: "list_all isalpha s" "isalpha c" using assms(3) s by auto
  have d: "drop (Suc i) pat = s @ [c]" using assms(1) Nil s by simp
  have n: "item_loop pat i (Suc i) False 0 [] [] = item_loop pat i (Suc i + length s) False 0 [] []"
    by (rule item_loop_name [OF a(1) d]) simp
  have "drop (Suc i + length s) pat = [c]" using d by (metis append_eq_conv_conj drop_drop add.commute)
  then have e: "Suc i + length s < length pat" "pat ! (Suc i + length s) = c" "length pat = Suc (Suc i + length s)"
    using drop_at [of "Suc i + length s" pat c "[]"] by auto
  have "item_loop pat i (Suc i + length s) False 0 [] [] = item_loop pat i (Suc (Suc i + length s)) False 0 (s @ [c]) []"
    using e a(2) isalpha_chars [of c] d by (subst item_loop.simps) auto
  also have "\<dots> = (Suc (Suc i + length s), False, s @ [c], [])" using e(3) by (subst item_loop.simps) simp
  finally show ?thesis using n s by simp
next
  case (Cons c r)
  have n: "item_loop pat i (Suc i) False 0 [] [] = item_loop pat i (Suc i + length name) False 0 [] []"
    by (rule item_loop_name [OF assms(3,1)]) (simp add: Cons)
  have "drop (Suc i + length name) pat = c # r" using assms(1) Cons by (metis append_eq_conv_conj drop_drop add.commute)
  then have e: "Suc i + length name < length pat" "pat ! (Suc i + length name) = c"
    using drop_at [of "Suc i + length name" pat c r] by auto
  have "substr pat (Suc i) (length name) = name" using assms(1) by (simp add: substr_def)
  then show ?thesis unfolding n using e assms(4) Cons by (subst item_loop.simps) (simp add: ends_name_def)
qed

lemma item_loop_braces:
  assumes "drop (Suc i) pat = name @ ''{'' @ f @ ''}'' @ t" and "name \<noteq> []" and "list_all isalpha name" and "CHR ''}'' \<notin> set f"
  shows "item_loop pat i (Suc i) False 0 [] [] = (Suc i + length name + length f + 2, False, name, f)"
proof -
  let ?n = "Suc i + length name"
  have n: "item_loop pat i (Suc i) False 0 [] [] = item_loop pat i ?n False 0 [] []"
    by (rule item_loop_name [OF assms(3,1)]) simp
  have "drop ?n pat = CHR ''{'' # f @ ''}'' @ t" using assms(1) by (metis append_eq_conv_conj drop_drop add.commute append_Cons append_Nil)
  then have e: "?n < length pat" "pat ! ?n = CHR ''{''" "drop (Suc ?n) pat = f @ CHR ''}'' # t"
    using drop_at [of ?n pat "CHR ''{''" "f @ ''}'' @ t"] by auto
  have s: "substr pat (Suc i) (length name) = name" "substr pat (Suc ?n) (length f) = f" using assms(1) e(3) by (simp_all add: substr_def)
  have "item_loop pat i ?n False 0 [] [] = item_loop pat i (Suc ?n) True ?n name []"
    using e(1,2) s(1) by (subst item_loop.simps) (simp add: isalpha_def)
  also have "\<dots> = (Suc ?n + length f + 1, False, name, f)"
    using item_loop_fmt [OF assms(4) e(3) assms(2), of i ?n "[]"] s(2) by simp
  finally show ?thesis unfolding n by simp
qed

lemma pattern_loop_text:
  "CHR ''%'' \<notin> set s \<Longrightarrow> drop i pat = s @ t \<Longrightarrow> pattern_loop pat i nstr vec err = pattern_loop pat (i + length s) (nstr @ s) vec err"
proof (induction s arbitrary: i nstr)
  case (Cons c s)
  have n: "i < length pat" "pat ! i = c" "drop (Suc i) pat = s @ t" using Cons.prems(2) drop_at [of i pat c "s @ t"] by auto
  then have "pattern_loop pat i nstr vec err = pattern_loop pat (Suc i) (nstr @ [c]) vec err"
    using Cons.prems(1) by (subst pattern_loop.simps) auto
  then show ?case using Cons.IH [of "Suc i" "nstr @ [c]"] Cons.prems(1) n(3) by simp
qed simp

definition flushed :: "string \<Rightarrow> pattern_piece list" where
  "flushed nstr = (if nstr = [] then [] else [(nstr, [], 0)])"

lemma pattern_loop_item:
  assumes "drop i pat = ''%'' @ name @ t" and "name \<noteq> []" and "list_all isalpha name"
    and "item_loop pat i (Suc i) False 0 [] [] = (n, False, str, fmt)"
  shows "pattern_loop pat i nstr vec err = pattern_loop pat n [] (vec @ flushed nstr @ [(str, fmt, 1)]) err"
proof -
  obtain c s where c: "name = c # s" using assms(2) by (cases name) auto
  have i: "i < length pat" "pat ! i = CHR ''%''" "drop (Suc i) pat = c # s @ t" using drop_at [of i pat "CHR ''%''" "name @ t"] assms(1) c by auto
  then have "pat ! (Suc i) = c" using drop_at [of "Suc i" pat c "s @ t"] by simp
  then have "pat ! (Suc i) \<noteq> CHR ''%''" using assms(3) c isalpha_chars [of c] by simp
  then show ?thesis using i(1,2) assms(4) by (subst pattern_loop.simps) (simp add: flushed_def)
qed

lemma pattern_loop_pieces:
  "pieces_ok ps \<Longrightarrow> (nstr \<noteq> [] \<Longrightarrow> case ps of Text _ # _ \<Rightarrow> False | _ \<Rightarrow> True) \<Longrightarrow> drop i pat = concat (map print_piece ps) \<Longrightarrow> i \<le> length pat \<Longrightarrow>
     pattern_loop pat i nstr vec err = (vec @ flushed nstr @ map meant_piece ps, err)"
proof (induction ps arbitrary: i nstr vec rule: pieces_ok.induct)
  case 1
  then have "i = length pat" by simp
  then show ?case by (subst pattern_loop.simps) (simp add: flushed_def)
next
  case (2 s ps)
  have "nstr = []" using 2(3) by auto
  moreover have d: "drop i pat = s @ concat (map print_piece ps)" using 2(4) by simp
  moreover note drop_split [OF d 2(5)]
  ultimately show ?case
    using 2(1) [of s "i + length s" vec] pattern_loop_text [OF _ d, of "[]" vec err] 2(2)
    by (simp add: flushed_def)
next
  case (3 name ps)
  have d: "drop i pat = ''%'' @ name @ concat (map print_piece ps)" using 3(4) by simp
  then have "drop (Suc i) pat = name @ concat (map print_piece ps)" using drop_at [of i pat "CHR ''%''"] by simp
  then have l: "item_loop pat i (Suc i) False 0 [] [] = (Suc i + length name, False, name, [])"
    using item_loop_plain [of i pat name] 3(2) by simp
  have e: "drop (Suc i + length name) pat = concat (map print_piece ps)" "Suc i + length name \<le> length pat"
    using drop_split [of i pat "''%'' @ name"] d 3(5) by auto
  show ?case
    using pattern_loop_item [OF d _ _ l, of nstr vec err] 3(1) [of "[]" "Suc i + length name" "vec @ flushed nstr @ [(name, [], 1)]"] 3(2) e
    by (simp add: flushed_def)
next
  case (4 name fmt ps)
  let ?t = "concat (map print_piece ps)" and ?n = "Suc i + length name + length fmt + 2"
  have d: "drop i pat = ''%'' @ name @ ''{'' @ fmt @ ''}'' @ ?t" using 4(4) by simp
  then have "drop (Suc i) pat = name @ ''{'' @ fmt @ ''}'' @ ?t" using drop_at [of i pat "CHR ''%''"] by simp
  then have l: "item_loop pat i (Suc i) False 0 [] [] = (?n, False, name, fmt)"
    using item_loop_braces [of i pat name fmt ?t] 4(2) by simp
  have e: "drop ?n pat = ?t" "?n \<le> length pat"
    using drop_split [of i pat "''%'' @ name @ ''{'' @ fmt @ ''}''" ?t] d 4(5) by (auto simp: add_ac)
  show ?case
    using pattern_loop_item [OF d _ _ l, of nstr vec err] 4(1) [of "[]" ?n "vec @ flushed nstr @ [(name, fmt, 1)]"] 4(2) e
    by (simp add: flushed_def)
qed

fun meant_text :: "(string \<Rightarrow> u32 \<Rightarrow> string) \<Rightarrow> (nat \<Rightarrow> string) \<Rightarrow> log_event \<Rightarrow> pattern \<Rightarrow> string" where
  "meant_text ftime nm e (Text s) = s"
| "meant_text ftime nm e (Item name fmt) =
     (case map_of format_items name of
        Some mk \<Rightarrow> item_format ftime nm e (mk (case fmt of None \<Rightarrow> [] | Some f \<Rightarrow> f))
      | None \<Rightarrow> ''<<error_format %'' @ name @ ''>>'')"

definition unknown_item :: "pattern \<Rightarrow> bool" where
  "unknown_item p = (case p of Text _ \<Rightarrow> False | Item name _ \<Rightarrow> name \<notin> fst ` set format_items)"

lemma piece_item_text: "item_format ftime nm e (fst (piece_item (meant_piece p))) = meant_text ftime nm e p"
  by (cases p) (auto simp: piece_item_def split: option.splits)

lemma piece_item_unknown: "snd (piece_item (meant_piece p)) = unknown_item p"
proof (cases p)
  case (Item name fmt)
  show ?thesis
    by (cases "map_of format_items name")
      (simp_all add: Item piece_item_def unknown_item_def map_of_eq_None_iff [symmetric])
qed (simp add: piece_item_def unknown_item_def)

lemma double_percent:
  assumes "CHR ''%'' \<notin> set s"
  shows "pattern_loop (s @ ''%%'') 0 [] [] False = ([(s @ ''%'', [], 0), ([], [], 1)], False)"
proof -
  let ?p = "s @ ''%%''" and ?n = "length s"
  have e: "?p ! ?n = CHR ''%''" "?p ! (Suc ?n) = CHR ''%''" "length ?p = Suc (Suc ?n)" by (simp_all add: nth_append)
  have "pattern_loop ?p 0 [] [] False = pattern_loop ?p ?n s [] False"
    using pattern_loop_text [OF assms, of 0 ?p "''%%''" "[]" "[]" False] by simp
  also have "\<dots> = pattern_loop ?p (Suc ?n) (s @ ''%'') [] False" using e by (subst pattern_loop.simps) simp
  also have "\<dots> = pattern_loop ?p (Suc (Suc ?n)) [] [(s @ ''%'', [], 0), ([], [], 1)] False"
    using e by (subst pattern_loop.simps, subst item_loop.simps) simp
  also have "\<dots> = ([(s @ ''%'', [], 0), ([], [], 1)], False)" using e by (subst pattern_loop.simps) simp
  finally show ?thesis .
qed

text \<open>
  C14. Patterns mean what they show: a pattern written from texts without percent signs, items \<open>%name\<close> that something else than a
  letter or brace follows, and items \<open>%name{format}\<close>, is read back into exactly these pieces; it is in error exactly if a name is
  unknown; and formatting an event writes the pieces one after the other. But \<open>%%\<close>, meant for a percent sign, leaves its second
  character behind as the start of an item: at the end of a pattern it is an error.
\<close>

theorem pattern_round_trip:
  assumes "pieces_ok ps" and "CHR ''%'' \<notin> set s"
  shows "(let f = LogFormatter_new (concat (map print_piece ps)) in
      fm_items f = map (\<lambda>p. fst (piece_item (meant_piece p))) ps \<and> (fm_error f \<longleftrightarrow> list_ex unknown_item ps) \<and>
      LogFormatter_format ftime nm e f = concat (map (meant_text ftime nm e) ps)) \<and>
    (let f = LogFormatter_new (s @ ''%%'') in
      fm_error f \<and> LogFormatter_format ftime nm e f = s @ ''%'' @ ''<<error_format %>>'')"
proof -
  have "pattern_loop (concat (map print_piece ps)) 0 [] [] False = (map meant_piece ps, False)"
    using pattern_loop_pieces [OF assms(1), of "[]" 0 "concat (map print_piece ps)" "[]" False] by (simp add: flushed_def)
  then have f: "LogFormatter_new (concat (map print_piece ps)) =
      \<lparr>fm_pattern = concat (map print_piece ps), fm_items = map (\<lambda>p. fst (piece_item (meant_piece p))) ps, fm_error = list_ex unknown_item ps\<rparr>"
    by (simp add: LogFormatter_new_def comp_def list_ex_iff piece_item_unknown)
  have g: "LogFormatter_new (s @ ''%%'') = \<lparr>fm_pattern = s @ ''%%'', fm_items = [StringFormatItem (s @ ''%''), StringFormatItem ''<<error_format %>>''], fm_error = True\<rparr>"
    by (simp add: LogFormatter_new_def double_percent [OF assms(2)] piece_item_def format_items_def)
  show ?thesis unfolding f g by (simp add: LogFormatter_format_def comp_def piece_item_text)
qed

definition default_pieces :: "pattern list" where
  "default_pieces =
     [Item ''d'' (Some ''%Y-%m-%d %H:%M:%S''), Text '' '', Item ''t'' None, Text ''('', Item ''N'' None, Text ''):'', Item ''F'' None, Text '' ['',
      Item ''p'' None, Text ''] ['', Item ''c'' None, Text ''] '', Item ''f'' None, Text '':'', Item ''l'' None, Text '' '', Item ''m'' None, Text '' '',
      Item ''n'' None]"

lemma default_pieces_ok: "pieces_ok default_pieces" "concat (map print_piece default_pieces) = default_pattern" "\<not> list_ex unknown_item default_pieces"
  by code_simp+

theorem pattern_round_trip_witness:
  "pieces_ok default_pieces \<and> \<not> fm_error (LogFormatter_new default_pattern) \<and> length (fm_items (LogFormatter_new default_pattern)) = 19 \<and>
   fm_error (LogFormatter_new ''100%%'')"
proof -
  have "length default_pieces = 19" by (simp add: default_pieces_def)
  then show ?thesis
    using pattern_round_trip [OF default_pieces_ok(1), of "''100''" "\<lambda>_ _. []" "\<lambda>_. []"] default_pieces_ok by (simp add: Let_def)
qed

section \<open>The store\<close>

text \<open>Pointers stay inside the store, and every appender that is in use has a formatter, as every logger has.\<close>

definition wf_log :: "log_state \<Rightarrow> bool" where
  "wf_log st \<longleftrightarrow> lg_root st < length (lg_objects st) \<and>
     (\<forall>name l. lg_loggers st name = Some l \<longrightarrow> l < length (lg_objects st)) \<and>
     (\<forall>x\<in>set (lg_objects st). lo_formatter x \<noteq> None \<and>
        (\<forall>i\<in>set (lo_appenders x). i < length (lg_appenders st) \<and> ap_formatter (lg_appenders st ! i) \<noteq> None))"

lemma wf_logD:
  assumes "wf_log st" and "l < length (lg_objects st)"
  shows "lo_formatter (lg_objects st ! l) \<noteq> None"
    "i \<in> set (lo_appenders (lg_objects st ! l)) \<Longrightarrow> i < length (lg_appenders st) \<and> ap_formatter (lg_appenders st ! i) \<noteq> None"
  using assms(1) nth_mem [OF assms(2)] unfolding wf_log_def by blast+

lemma wf_upd_logger:
  assumes "wf_log st" and "l < length (lg_objects st)" and "lo_formatter (f (lg_objects st ! l)) \<noteq> None"
    and "\<forall>i\<in>set (lo_appenders (f (lg_objects st ! l))). i < length (lg_appenders st) \<and> ap_formatter (lg_appenders st ! i) \<noteq> None"
  shows "wf_log (upd_logger l f st)"
proof -
  let ?ok = "\<lambda>x. lo_formatter x \<noteq> None \<and> (\<forall>i\<in>set (lo_appenders x). i < length (lg_appenders st) \<and> ap_formatter (lg_appenders st ! i) \<noteq> None)"
  have "?ok x" if "x \<in> set ((lg_objects st)[l := f (lg_objects st ! l)])" for x
  proof (cases "x = f (lg_objects st ! l)")
    case False
    then have "x \<in> set (lg_objects st)" using that set_update_subset_insert [of "lg_objects st" l "f (lg_objects st ! l)"] by blast
    then show ?thesis using assms(1) unfolding wf_log_def by blast
  qed (use assms(3,4) in blast)
  then show ?thesis using assms(1) by (simp add: wf_log_def upd_logger_def)
qed

lemma wf_new_logger: "wf_log st \<Longrightarrow> lo_formatter x \<noteq> None \<Longrightarrow> lo_appenders x = [] \<Longrightarrow> wf_log (snd (new_logger x st))"
  by (auto simp: wf_log_def new_logger_def less_Suc_eq)

lemma wf_new_appender: "wf_log st \<Longrightarrow> wf_log (snd (new_appender a st))"
  by (fastforce simp: wf_log_def new_appender_def nth_append)

lemma wf_get_logger:
  assumes "wf_log st"
  shows "wf_log (snd (get_logger name st))" "fst (get_logger name st) < length (lg_objects (snd (get_logger name st)))"
proof -
  have "wf_log (snd (new_logger (Logger_new name) st))" using wf_new_logger [OF assms] by (simp add: Logger_new_def)
  then show "wf_log (snd (get_logger name st))" "fst (get_logger name st) < length (lg_objects (snd (get_logger name st)))"
    using assms by (auto simp: get_logger_def wf_log_def new_logger_def split: option.splits)
qed

lemma wf_set_level: "wf_log st \<Longrightarrow> l < length (lg_objects st) \<Longrightarrow> wf_log (set_level l v st)"
  unfolding set_level_def by (rule wf_upd_logger) (auto dest: wf_logD)

lemma wf_clear_appenders: "wf_log st \<Longrightarrow> l < length (lg_objects st) \<Longrightarrow> wf_log (clear_appenders l st)"
  unfolding clear_appenders_def by (rule wf_upd_logger) (auto dest: wf_logD)

lemma wf_del_appender: "wf_log st \<Longrightarrow> l < length (lg_objects st) \<Longrightarrow> wf_log (del_appender l i st)"
  unfolding del_appender_def by (rule wf_upd_logger) (auto dest: wf_logD notin_set_remove1 set_remove1_subset [THEN subsetD])

lemma wf_set_formatter: "wf_log st \<Longrightarrow> l < length (lg_objects st) \<Longrightarrow> wf_log (set_formatter l val st)"
  unfolding set_formatter_def Let_def set_formatter_ptr_def by (auto intro!: wf_upd_logger dest: wf_logD)

lemma wf_add_appender:
  assumes "wf_log st" and "l < length (lg_objects st)" and "i < length (lg_appenders st)"
  shows "wf_log (add_appender l i st)"
proof -
  let ?a = "lg_appenders st ! i"
  let ?b = "if ap_formatter ?a = None then appender_set_formatter (lo_formatter (lg_objects st ! l)) ?a else ?a"
  let ?s = "st\<lparr>lg_appenders := (lg_appenders st)[i := ?b]\<rparr>"
  have b: "ap_formatter ?b \<noteq> None" using wf_logD(1) [OF assms(1,2)] by (simp add: appender_set_formatter_def)
  then have "wf_log ?s" using assms(1,3) by (auto simp: wf_log_def nth_list_update)
  then show ?thesis
    unfolding add_appender_def Let_def using assms(2,3) b wf_logD [of ?s l]
    by (intro wf_upd_logger) (auto simp: nth_list_update)
qed

section \<open>Delivery\<close>

text \<open>What the appenders \<open>as\<close> write for an event: each its own text, in order, to the standard output or to its file.\<close>

definition event_text :: "(string \<Rightarrow> u32 \<Rightarrow> string) \<Rightarrow> log_event \<Rightarrow> log_state \<Rightarrow> nat \<Rightarrow> string" where
  "event_text ftime e st i = LogFormatter_format ftime (logger_name st) e (the (ap_formatter (lg_appenders st ! i)))"

definition delivered :: "(string \<Rightarrow> u32 \<Rightarrow> string) \<Rightarrow> log_event \<Rightarrow> nat list \<Rightarrow> log_state \<Rightarrow> log_state" where
  "delivered ftime e as st =
     st\<lparr>lg_out := lg_out st @ concat (map (event_text ftime e st) (filter (\<lambda>i. ap_sink (lg_appenders st ! i) = Stdout) as)),
        lg_files := (\<lambda>file. lg_files st file @ concat (map (event_text ftime e st) (filter (\<lambda>i. ap_sink (lg_appenders st ! i) = File file True) as)))\<rparr>"

lemma appender_log_delivered:
  assumes "ap_formatter (lg_appenders st ! i) \<noteq> None"
  shows "appender_log ftime e i st = Inr (delivered ftime e [i] st)"
proof (cases "ap_sink (lg_appenders st ! i)")
  case (File f b)
  have "(\<lambda>file. lg_files st file @ concat (map (event_text ftime e st) (filter (\<lambda>i. ap_sink (lg_appenders st ! i) = File file True) [i]))) =
      (if b then (lg_files st)(f := lg_files st f @ event_text ftime e st i) else lg_files st)"
    using File by (auto simp: fun_eq_iff)
  then show ?thesis
    unfolding delivered_def using File assms by (auto simp: appender_log_def FileLogAppender_log_def event_text_def Let_def)
next
  case Stdout
  then show ?thesis using assms by (auto simp: appender_log_def StdoutLogAppender_log_def delivered_def event_text_def Let_def)
qed

lemma event_text_delivered [simp]: "event_text ftime e (delivered ftime e as st) = event_text ftime e st"
proof -
  have "logger_name (delivered ftime e as st) = logger_name st" "lg_appenders (delivered ftime e as st) = lg_appenders st"
    by (simp_all add: delivered_def logger_name_def fun_eq_iff)
  then show ?thesis by (intro ext) (simp add: event_text_def)
qed

lemma delivered_Cons: "delivered ftime e as (delivered ftime e [i] st) = delivered ftime e (i # as) st"
proof -
  have a: "lg_appenders (delivered ftime e [i] st) = lg_appenders st" by (simp add: delivered_def)
  show ?thesis unfolding delivered_def [of ftime e as] event_text_delivered a by (simp add: delivered_def fun_eq_iff)
qed

lemma foldE_appender_log:
  "\<forall>i\<in>set as. ap_formatter (lg_appenders st ! i) \<noteq> None \<Longrightarrow> foldE (appender_log ftime e) as st = Inr (delivered ftime e as st)"
proof (induction as arbitrary: st)
  case (Cons i as)
  have "lg_appenders (delivered ftime e [i] st) = lg_appenders st" by (simp add: delivered_def)
  then have "foldE (appender_log ftime e) as (delivered ftime e [i] st) = Inr (delivered ftime e (i # as) st)"
    using Cons.IH [of "delivered ftime e [i] st"] Cons.prems by (simp add: delivered_Cons)
  then show ?case using appender_log_delivered [of st i ftime e] Cons.prems by (simp add: bindE_def)
qed (simp add: delivered_def)

lemma wf_delivered: "wf_log st \<Longrightarrow> wf_log (delivered ftime e as st)"
  by (simp add: wf_log_def delivered_def)

text \<open>Where an event of a logger goes: to its appenders, without any to those of the root logger.\<close>

lemma Logger_log_cases:
  assumes "wf_log st" and "l < length (lg_objects st)"
  shows "Logger_log ftime e [] l st =
    (let x = lg_objects st ! l; root = lg_objects st ! lg_root st in
     if ev_level e < lo_level x then Inr st
     else if lo_appenders x \<noteq> [] then Inr (delivered ftime e (lo_appenders x) st)
     else if l \<noteq> lg_root st \<and> ev_level e < lo_level root then Inr st
     else if lo_appenders root \<noteq> [] then Inr (delivered ftime e (lo_appenders root) st)
     else Inl Deadlock)"
proof -
  have r: "lg_root st < length (lg_objects st)" using assms(1) by (simp add: wf_log_def)
  have d: "foldE (appender_log ftime e) (lo_appenders (lg_objects st ! k)) st = Inr (delivered ftime e (lo_appenders (lg_objects st ! k)) st)"
    if "k < length (lg_objects st)" for k
    using wf_logD(2) [OF assms(1) that] by (intro foldE_appender_log) blast
  have again: "Logger_log ftime e (lg_root st # held) (lg_root st) st = Inl Deadlock" if "ev_level e \<ge> lo_level (lg_objects st ! lg_root st)" for held
    using that by (subst Logger_log.simps) (simp add: Let_def)
  have root: "Logger_log ftime e [l] (lg_root st) st =
      (if ev_level e < lo_level (lg_objects st ! lg_root st) then Inr st
       else if lo_appenders (lg_objects st ! lg_root st) \<noteq> [] then Inr (delivered ftime e (lo_appenders (lg_objects st ! lg_root st)) st)
       else Inl Deadlock)" if "l \<noteq> lg_root st"
    using that d [OF r] again [of "[l]"] by (subst Logger_log.simps) (simp add: Let_def)
  show ?thesis
    using d [OF assms(2)] root again [of "[]"] by (cases "l = lg_root st") (subst Logger_log.simps, auto simp: Let_def)+
qed

lemma wf_Logger_log: "wf_log st \<Longrightarrow> l < length (lg_objects st) \<Longrightarrow> Logger_log ftime e [] l st = Inr st' \<Longrightarrow> wf_log st'"
  by (auto simp: Logger_log_cases Let_def wf_delivered split: if_splits)

text \<open>The operations of the logging system on pointers that are valid.\<close>

datatype log_op =
    Get_logger string
  | Add_logger string nat
  | Set_level nat int
  | Set_formatter nat string
  | Add_appender nat log_appender
  | Del_appender nat nat
  | Clear_appenders nat
  | Log log_site nat int string
  | Reconfigure log_site "log_define list" "log_define list"

fun op_valid :: "log_op \<Rightarrow> log_state \<Rightarrow> bool" where
  "op_valid (Get_logger _) st \<longleftrightarrow> True"
| "op_valid (Add_logger _ l) st \<longleftrightarrow> l < length (lg_objects st)"
| "op_valid (Set_level l _) st \<longleftrightarrow> l < length (lg_objects st)"
| "op_valid (Set_formatter l _) st \<longleftrightarrow> l < length (lg_objects st)"
| "op_valid (Add_appender l _) st \<longleftrightarrow> l < length (lg_objects st)"
| "op_valid (Del_appender l _) st \<longleftrightarrow> l < length (lg_objects st)"
| "op_valid (Clear_appenders l) st \<longleftrightarrow> l < length (lg_objects st)"
| "op_valid (Log _ l _ _) st \<longleftrightarrow> l < length (lg_objects st)"
| "op_valid (Reconfigure _ _ _) st \<longleftrightarrow> True"

fun run_op :: "(string \<Rightarrow> u32 \<Rightarrow> string) \<Rightarrow> (string \<Rightarrow> bool) \<Rightarrow> log_op \<Rightarrow> log_state \<Rightarrow> log_state outcome" where
  "run_op ftime can_open (Get_logger name) st = Inr (snd (get_logger name st))"
| "run_op ftime can_open (Add_logger name l) st = Inr (add_logger name l st)"
| "run_op ftime can_open (Set_level l level) st = Inr (set_level l level st)"
| "run_op ftime can_open (Set_formatter l val) st = Inr (set_formatter l val st)"
| "run_op ftime can_open (Add_appender l a) st = (case new_appender a st of (i, st) \<Rightarrow> Inr (add_appender l i st))"
| "run_op ftime can_open (Del_appender l i) st = Inr (del_appender l i st)"
| "run_op ftime can_open (Clear_appenders l) st = Inr (clear_appenders l st)"
| "run_op ftime can_open (Log s l level text) st = LOG_LEVEL ftime s l level text st"
| "run_op ftime can_open (Reconfigure s old_value new_value) st = logs_changed ftime can_open s old_value new_value st"

inductive log_reachable :: "(string \<Rightarrow> u32 \<Rightarrow> string) \<Rightarrow> (string \<Rightarrow> bool) \<Rightarrow> log_state \<Rightarrow> bool"
  for ftime :: "string \<Rightarrow> u32 \<Rightarrow> string" and can_open :: "string \<Rightarrow> bool" where
  start: "log_reachable ftime can_open (LoggerManager_new out files)"
| step: "log_reachable ftime can_open st \<Longrightarrow> op_valid op st \<Longrightarrow> run_op ftime can_open op st = Inr st' \<Longrightarrow> log_reachable ftime can_open st'"

lemma foldE_invariant: "foldE f xs s = Inr s' \<Longrightarrow> P s \<Longrightarrow> \<forall>x s s'. P s \<longrightarrow> f x s = Inr s' \<longrightarrow> P s' \<Longrightarrow> P s'"
  by (induction xs arbitrary: s) (auto simp: bindE_Inr_iff)

lemma wf_new_add_appender: "wf_log st \<Longrightarrow> l < length (lg_objects st) \<Longrightarrow> wf_log (add_appender l (fst (new_appender a st)) (snd (new_appender a st)))"
  by (rule wf_add_appender) (use wf_new_appender [of st a] in \<open>auto simp: new_appender_def\<close>)

lemma upd_logger_objects [simp]: "length (lg_objects (upd_logger l f st)) = length (lg_objects st)"
  by (simp add: upd_logger_def)

lemma log_objects [simp]:
  "length (lg_objects (set_level l v st)) = length (lg_objects st)" "length (lg_objects (clear_appenders l st)) = length (lg_objects st)"
  "length (lg_objects (set_formatter l p st)) = length (lg_objects st)" "length (lg_objects (add_appender l i st)) = length (lg_objects st)"
  by (simp_all add: set_level_def clear_appenders_def set_formatter_def set_formatter_ptr_def add_appender_def Let_def)

lemma wf_configure_appender:
  "wf_log st \<and> l < length (lg_objects st) \<Longrightarrow> configure_appender can_open l a st = Inr st' \<Longrightarrow> wf_log st' \<and> l < length (lg_objects st')"
  using wf_new_add_appender by (auto simp: configure_appender_def bindE_Inr_iff Let_def split_beta new_appender_def)

lemma wf_configure_logger:
  assumes "wf_log st" and "l < length (lg_objects st)" and "configure_logger can_open l i st = Inr st'"
  shows "wf_log st'"
proof -
  let ?s = "clear_appenders l (set_level l (ld_level i) st)"
  let ?t = "if ld_formatter i = [] then ?s else set_formatter l (ld_formatter i) ?s"
  have "wf_log ?t \<and> l < length (lg_objects ?t)" using assms(1,2) by (simp add: wf_set_formatter wf_clear_appenders wf_set_level)
  moreover have "foldE (configure_appender can_open l) (ld_appenders i) ?t = Inr st'" using assms(3) by (simp add: configure_logger_def Let_def)
  ultimately have "wf_log st' \<and> l < length (lg_objects st')"
    using foldE_invariant [of "configure_appender can_open l" _ _ _ "\<lambda>st. wf_log st \<and> l < length (lg_objects st)"] wf_configure_appender by blast
  then show ?thesis ..
qed

lemma wf_change_define: "wf_log st \<Longrightarrow> change_define can_open old_value i st = Inr st' \<Longrightarrow> wf_log st'"
  by (auto simp: change_define_def split_beta split: if_splits intro: wf_configure_logger [OF wf_get_logger])

lemma wf_delete_define: "wf_log st \<Longrightarrow> delete_define new_value i st = Inr st' \<Longrightarrow> wf_log st'"
  using wf_get_logger [of st "ld_name i"] by (auto simp: delete_define_def split_beta wf_clear_appenders wf_set_level split: if_splits)

lemma wf_add_logger: "wf_log st \<Longrightarrow> l < length (lg_objects st) \<Longrightarrow> wf_log (add_logger name l st)"
  by (auto simp: wf_log_def add_logger_def)

lemma wf_run_op:
  assumes "wf_log st" and "op_valid op st" and "run_op ftime can_open op st = Inr st'"
  shows "wf_log st'"
proof (cases op)
  case (Reconfigure s old_value new_value)
  obtain s1 s2 where s: "LOG_LEVEL ftime s (lg_root st) 1 ''on_logger_conf_changed'' st = Inr s1"
      "foldE (change_define can_open old_value) new_value s1 = Inr s2" "foldE (delete_define new_value) old_value s2 = Inr st'"
    using assms(3) Reconfigure by (auto simp: logs_changed_def bindE_Inr_iff)
  have "wf_log s1" using s(1) assms(1) wf_Logger_log [OF assms(1), of "lg_root st"] by (auto simp: LOG_LEVEL_def wf_log_def Let_def split: if_splits)
  then have "wf_log s2" using foldE_invariant [OF s(2), of wf_log] wf_change_define by blast
  then show ?thesis using foldE_invariant [OF s(3), of wf_log] wf_delete_define by blast
qed (use assms wf_get_logger wf_set_level wf_add_logger wf_set_formatter wf_new_add_appender wf_del_appender wf_clear_appenders wf_Logger_log in
      \<open>auto simp: LOG_LEVEL_def Let_def split_beta new_appender_def split: if_splits\<close>)

lemma wf_LoggerManager_new: "wf_log (LoggerManager_new out files)"
  by (simp add: LoggerManager_new_def wf_log_def new_logger_def new_appender_def add_appender_def upd_logger_def Let_def Logger_new_def
      appender_set_formatter_def StdoutLogAppender_new_def)

lemma log_reachable_wf: "log_reachable ftime can_open st \<Longrightarrow> wf_log st"
  by (induction rule: log_reachable.induct) (auto intro: wf_LoggerManager_new wf_run_op)

text \<open>
  C10. Delivery, in every state the operations of the logging system lead to: no pointer is dangling and no appender in use lacks
  a formatter. An event below the level of its logger goes nowhere; else every appender of the logger writes its own text once, in
  order, to the standard output or to its file, and nothing else is written; a logger without appenders leaves the event to the
  root logger; and where that has none either, its own lock is asked for again and the thread spins forever.
\<close>

theorem log_delivery:
  assumes "log_reachable ftime can_open st" and "l < length (lg_objects st)"
  shows "wf_log st \<and> Logger_log ftime e [] l st =
    (let x = lg_objects st ! l; root = lg_objects st ! lg_root st in
     if ev_level e < lo_level x then Inr st
     else if lo_appenders x \<noteq> [] then Inr (delivered ftime e (lo_appenders x) st)
     else if l \<noteq> lg_root st \<and> ev_level e < lo_level root then Inr st
     else if lo_appenders root \<noteq> [] then Inr (delivered ftime e (lo_appenders root) st)
     else Inl Deadlock)"
  using log_reachable_wf [OF assms(1)] Logger_log_cases [OF _ assms(2)] by blast

definition demo_event :: log_event where
  "demo_event = LogEvent_new 1 2 ''a.cpp'' 7 0 1 ''main'' 0 0"

definition demo_store :: log_state where
  "demo_store = snd (get_logger ''system'' (LoggerManager_new [] (\<lambda>_. [])))"

lemma demo_store_simps:
  "lg_objects demo_store = [Logger_new ''root''\<lparr>lo_appenders := [0]\<rparr>, Logger_new ''system'']" "lg_root demo_store = 0"
  by (simp_all add: demo_store_def get_logger_def LoggerManager_new_def new_logger_def new_appender_def add_appender_def upd_logger_def Let_def Logger_new_def
      appender_set_formatter_def StdoutLogAppender_new_def)

theorem log_delivery_witness:
  "Logger_log (\<lambda>_ _. []) demo_event [] 1 demo_store = Inr (delivered (\<lambda>_ _. []) demo_event [0] demo_store) \<and>
   Logger_log (\<lambda>_ _. []) demo_event [] 0 (clear_appenders 0 demo_store) = Inl Deadlock"
proof -
  have r: "log_reachable (\<lambda>_ _. []) (\<lambda>_. True) demo_store"
    unfolding demo_store_def by (rule log_reachable.step [OF log_reachable.start, where op = "Get_logger ''system''"]) simp_all
  then have c: "log_reachable (\<lambda>_ _. []) (\<lambda>_. True) (clear_appenders 0 demo_store)"
    by (rule log_reachable.step [where op = "Clear_appenders 0"]) (simp_all add: demo_store_simps)
  show ?thesis
    using log_delivery [OF r, of 1 demo_event] log_delivery [OF c, of 0 demo_event]
    by (simp add: demo_store_simps Logger_new_def demo_event_def LogEvent_new_def Let_def clear_appenders_def upd_logger_def)
qed

section \<open>Reconfiguration\<close>

lemma equiv_by_str [simp]: "equiv_by str_less a b \<longleftrightarrow> a = b"
proof -
  have "inj (of_char :: char \<Rightarrow> int)" by (simp add: inj_on_def)
  then have "map of_char a = (map of_char b :: int list) \<longleftrightarrow> a = b" by (simp add: inj_map_eq_map)
  then show ?thesis by (auto simp: equiv_by_def str_less_def)
qed

interpretation define_order: weak_order ld_less
  by unfold_locales (use str_order.irrefl str_order.trans str_order.between in \<open>auto simp: ld_less_def\<close>)

lemma equiv_by_define [simp]: "equiv_by ld_less a b \<longleftrightarrow> ld_name a = ld_name b"
  using equiv_by_str [of "ld_name a" "ld_name b"] by (simp add: equiv_by_def ld_less_def)

abbreviation defines_sorted :: "log_define list \<Rightarrow> bool" where
  "defines_sorted v \<equiv> ord_sorted ld_less id v"

lemma defines_distinct: "defines_sorted v \<Longrightarrow> distinct (map ld_name v)"
  using str_order.sorted_distinct [of ld_name v] by (simp add: ord_sorted_def ld_less_def)

lemma find_define_Some: "defines_sorted v \<Longrightarrow> i \<in> set v \<Longrightarrow> find_define i v = Some i"
  unfolding find_define_def by (rule define_order.find_Some [where key = id and k = i for i, simplified id_apply]) simp_all

lemma find_define_in: "defines_sorted v \<Longrightarrow> find_define i v = Some j \<Longrightarrow> j \<in> set v \<and> ld_name j = ld_name i"
  unfolding find_define_def using define_order.find_in [of id v i j] by simp

lemma find_define_None: "defines_sorted v \<Longrightarrow> find_define i v = None \<longleftrightarrow> ld_name i \<notin> ld_name ` set v"
  unfolding find_define_def using define_order.find_None [of id v i] by (simp add: image_iff eq_commute)

text \<open>What there is to see of a logger: its level, its formatter, and its appenders with their formatters.\<close>

type_synonym logger_view = "int \<times> log_formatter option \<times> (log_sink \<times> log_formatter option) list"

definition appender_view :: "log_state \<Rightarrow> nat \<Rightarrow> log_sink \<times> log_formatter option" where
  "appender_view st i = (ap_sink (lg_appenders st ! i), ap_formatter (lg_appenders st ! i))"

definition view :: "log_state \<Rightarrow> nat \<Rightarrow> logger_view" where
  "view st l = (let x = lg_objects st ! l in (lo_level x, lo_formatter x, map (appender_view st) (lo_appenders x)))"

text \<open>What a definition makes of a logger with formatter \<open>f\<close>.\<close>

definition set_pattern :: "string \<Rightarrow> log_formatter option \<Rightarrow> log_formatter option" where
  "set_pattern p f = (if p = [] \<or> fm_error (LogFormatter_new p) then f else Some (LogFormatter_new p))"

definition defined_appender :: "(string \<Rightarrow> bool) \<Rightarrow> log_formatter option \<Rightarrow> log_appender_define \<Rightarrow> log_sink \<times> log_formatter option" where
  "defined_appender can_open f a =
     (if lad_type a = 1 then File (lad_file a) (can_open (lad_file a)) else Stdout,
      if lad_formatter a = [] then f else Some (LogFormatter_new (lad_formatter a)))"

definition defined_logger :: "(string \<Rightarrow> bool) \<Rightarrow> log_define \<Rightarrow> log_formatter option \<Rightarrow> logger_view" where
  "defined_logger can_open i f =
     (let f = set_pattern (ld_formatter i) f in (ld_level i, f, map (defined_appender can_open f) (ld_appenders i)))"

definition same_tables :: "log_state \<Rightarrow> log_state \<Rightarrow> bool" where
  "same_tables st st' \<longleftrightarrow> lg_loggers st' = lg_loggers st \<and> lg_root st' = lg_root st \<and> lg_out st' = lg_out st \<and> lg_files st' = lg_files st \<and>
     length (lg_objects st') = length (lg_objects st)"

lemma view_upd_logger:
  assumes "l < length (lg_objects st)"
  shows "view (upd_logger l f st) k = (if k = l
    then (lo_level (f (lg_objects st ! l)), lo_formatter (f (lg_objects st ! l)), map (appender_view st) (lo_appenders (f (lg_objects st ! l)))) else view st k)"
proof -
  have "appender_view (upd_logger l f st) = appender_view st" by (simp add: appender_view_def upd_logger_def fun_eq_iff)
  then show ?thesis using assms by (simp add: view_def upd_logger_def Let_def nth_list_update)
qed

lemma same_upd_logger: "same_tables st (upd_logger l f st)"
  by (simp add: same_tables_def upd_logger_def)

lemma same_tables_trans: "same_tables a b \<Longrightarrow> same_tables b c \<Longrightarrow> same_tables a c"
  by (simp add: same_tables_def)

lemma configure_appender_view:
  assumes "wf_log st" and l: "l < length (lg_objects st)" and "lad_type a = 1 \<or> lad_type a = 2"
  shows "\<exists>st'. configure_appender can_open l a st = Inr st' \<and> wf_log st' \<and> same_tables st st' \<and>
    (\<forall>k<length (lg_objects st). view st' k =
       (if k = l then (fst (view st l), fst (snd (view st l)), snd (snd (view st l)) @ [defined_appender can_open (fst (snd (view st l))) a]) else view st k))"
proof -
  let ?n = "length (lg_appenders st)" and ?f = "lo_formatter (lg_objects st ! l)"
  define ap where "ap = (let p = (if lad_type a = 1 then FileLogAppender_new can_open (lad_file a) else StdoutLogAppender_new) in
    if lad_formatter a = [] then p else appender_set_formatter (Some (LogFormatter_new (lad_formatter a))) p)"
  let ?b = "if ap_formatter ap = None then appender_set_formatter ?f ap else ap"
  let ?s = "st\<lparr>lg_appenders := lg_appenders st @ [?b]\<rparr>"
  let ?st' = "upd_logger l (\<lambda>x. x\<lparr>lo_appenders := lo_appenders x @ [?n]\<rparr>) ?s"
  have r: "configure_appender can_open l a st = Inr ?st'"
    using assms(3) by (auto simp: configure_appender_def bindE_def new_appender_def add_appender_def Let_def ap_def)
  then have wf: "wf_log ?st'" using wf_configure_appender [of st l can_open a ?st'] assms by blast
  have old: "map (appender_view ?s) (lo_appenders (lg_objects st ! k)) = map (appender_view st) (lo_appenders (lg_objects st ! k))" if "k < length (lg_objects st)" for k
    using wf_logD(2) [OF assms(1) that] by (auto simp: appender_view_def nth_append)
  have new: "appender_view ?s ?n = defined_appender can_open ?f a"
    by (auto simp: appender_view_def defined_appender_def ap_def Let_def FileLogAppender_new_def StdoutLogAppender_new_def appender_set_formatter_def)
  have "view ?st' k = (if k = l then (fst (view st l), fst (snd (view st l)), snd (snd (view st l)) @ [defined_appender can_open (fst (snd (view st l))) a]) else view st k)"
    if "k < length (lg_objects st)" for k
    using view_upd_logger [of l ?s "\<lambda>x. x\<lparr>lo_appenders := lo_appenders x @ [?n]\<rparr>" k] l old [OF l] old [OF that] new by (simp add: view_def Let_def)
  moreover have "same_tables st ?st'" by (simp add: same_tables_def upd_logger_def)
  ultimately show ?thesis using r wf by blast
qed

lemma configure_appenders_view:
  assumes "wf_log st" and "l < length (lg_objects st)" and "\<forall>a\<in>set as. lad_type a = 1 \<or> lad_type a = 2"
  shows "\<exists>st'. foldE (configure_appender can_open l) as st = Inr st' \<and> wf_log st' \<and> same_tables st st' \<and>
    (\<forall>k<length (lg_objects st). view st' k =
       (if k = l then (fst (view st l), fst (snd (view st l)), snd (snd (view st l)) @ map (defined_appender can_open (fst (snd (view st l)))) as) else view st k))"
  using assms
proof (induction as arbitrary: st)
  case (Cons a as)
  obtain s where s: "configure_appender can_open l a st = Inr s" "wf_log s" "same_tables st s"
    "\<forall>k<length (lg_objects st). view s k =
       (if k = l then (fst (view st l), fst (snd (view st l)), snd (snd (view st l)) @ [defined_appender can_open (fst (snd (view st l))) a]) else view st k)"
    using configure_appender_view [OF Cons.prems(1,2), of a can_open] Cons.prems(3) by auto
  have l: "l < length (lg_objects s)" "length (lg_objects s) = length (lg_objects st)" using s(3) Cons.prems(2) by (auto simp: same_tables_def)
  obtain st' where t: "foldE (configure_appender can_open l) as s = Inr st'" "wf_log st'" "same_tables s st'"
    "\<forall>k<length (lg_objects s). view st' k =
       (if k = l then (fst (view s l), fst (snd (view s l)), snd (snd (view s l)) @ map (defined_appender can_open (fst (snd (view s l)))) as) else view s k)"
    using Cons.IH [OF s(2) l(1)] Cons.prems(3) by auto
  have "same_tables st st'" using s(3) t(3) by (rule same_tables_trans)
  then show ?case using s t(1,2,4) l Cons.prems(2) by (auto simp: bindE_def)
qed (auto simp: same_tables_def)

lemma configure_logger_view:
  assumes "wf_log st" and l: "l < length (lg_objects st)" and "\<forall>a\<in>set (ld_appenders i). lad_type a = 1 \<or> lad_type a = 2"
  shows "\<exists>st'. configure_logger can_open l i st = Inr st' \<and> wf_log st' \<and> same_tables st st' \<and>
    (\<forall>k<length (lg_objects st). view st' k = (if k = l then defined_logger can_open i (fst (snd (view st l))) else view st k))"
proof -
  define f where "f = set_pattern (ld_formatter i) (lo_formatter (lg_objects st ! l))"
  define t where "t = (let s = clear_appenders l (set_level l (ld_level i) st) in if ld_formatter i = [] then s else set_formatter l (ld_formatter i) s)"
  have upd: "upd_logger l g (upd_logger l h st) = upd_logger l (g \<circ> h) st" for g h using l by (simp add: upd_logger_def)
  have t_eq: "t = upd_logger l (\<lambda>x. x\<lparr>lo_level := ld_level i, lo_appenders := [], lo_formatter := set_pattern (ld_formatter i) (lo_formatter x)\<rparr>) st"
    by (simp add: t_def Let_def set_formatter_def set_formatter_ptr_def clear_appenders_def set_level_def upd set_pattern_def comp_def)
  have vt: "view t k = (if k = l then (ld_level i, f, []) else view st k)" if "k < length (lg_objects st)" for k
    using view_upd_logger [OF l] unfolding t_eq f_def by simp
  have "wf_log t" using assms(1) l by (auto simp: t_def Let_def wf_set_formatter wf_clear_appenders wf_set_level)
  moreover have st: "same_tables st t" unfolding t_eq by (rule same_upd_logger)
  moreover from st have lt: "l < length (lg_objects t)" "length (lg_objects t) = length (lg_objects st)" using l by (auto simp: same_tables_def)
  ultimately obtain st' where s: "foldE (configure_appender can_open l) (ld_appenders i) t = Inr st'" "wf_log st'" "same_tables t st'"
    "\<forall>k<length (lg_objects t). view st' k =
       (if k = l then (fst (view t l), fst (snd (view t l)), snd (snd (view t l)) @ map (defined_appender can_open (fst (snd (view t l)))) (ld_appenders i)) else view t k)"
    using configure_appenders_view [of t l "ld_appenders i" can_open] assms(3) by blast
  have "view st' k = (if k = l then defined_logger can_open i (fst (snd (view st l))) else view st k)" if "k < length (lg_objects st)" for k
    using s(4) vt [OF that] vt [OF l] that lt l by (auto simp: defined_logger_def Let_def f_def view_def)
  moreover have "configure_logger can_open l i st = Inr st'" using s(1) by (simp add: configure_logger_def t_def Let_def)
  ultimately show ?thesis using s(2) same_tables_trans [OF st s(3)] by blast
qed

text \<open>The loggers by name; different names have different loggers.\<close>

definition named_view :: "log_state \<Rightarrow> string \<Rightarrow> logger_view option" where
  "named_view st name = map_option (view st) (lg_loggers st name)"

definition names_apart :: "log_state \<Rightarrow> bool" where
  "names_apart st \<longleftrightarrow> (\<forall>m n l. lg_loggers st m = Some l \<longrightarrow> lg_loggers st n = Some l \<longrightarrow> m = n)"

definition formatter_of :: "logger_view option \<Rightarrow> log_formatter option" where
  "formatter_of v = (case v of None \<Rightarrow> Some (LogFormatter_new default_pattern) | Some (_, f, _) \<Rightarrow> f)"

lemma get_logger_view:
  assumes "wf_log st" and "names_apart st"
  shows "let (l, s) = get_logger name st in
    wf_log s \<and> names_apart s \<and> lg_root s = lg_root st \<and> lg_loggers s name = Some l \<and> l < length (lg_objects s) \<and>
    fst (snd (view s l)) = formatter_of (named_view st name) \<and> (\<forall>m. m \<noteq> name \<longrightarrow> named_view s m = named_view st m)"
proof (cases "lg_loggers st name")
  case (Some l)
  then have "l < length (lg_objects st)" using assms(1) by (simp add: wf_log_def)
  then show ?thesis using Some assms by (auto simp: get_logger_def named_view_def formatter_of_def split: prod.splits)
next
  case None
  let ?s = "st\<lparr>lg_objects := lg_objects st @ [Logger_new name], lg_loggers := (lg_loggers st)(name \<mapsto> length (lg_objects st))\<rparr>"
  have g: "get_logger name st = (length (lg_objects st), ?s)" using None by (simp add: get_logger_def new_logger_def)
  have b: "l < length (lg_objects st)" if "lg_loggers st m = Some l" for m l using assms(1) that by (auto simp: wf_log_def)
  have "names_apart ?s" using assms(2) b by (fastforce simp: names_apart_def)
  moreover have "view ?s k = view st k" if "k < length (lg_objects st)" for k
    using that by (simp add: view_def appender_view_def nth_append Let_def)
  then have "named_view ?s m = named_view st m" if "m \<noteq> name" for m using that b [of m] by (cases "lg_loggers st m") (auto simp: named_view_def)
  moreover have "fst (snd (view ?s (length (lg_objects st)))) = formatter_of (named_view st name)"
    using None by (simp add: view_def named_view_def formatter_of_def Logger_new_def Let_def)
  moreover have "wf_log ?s" using wf_get_logger(1) [OF assms(1), of name] g by simp
  ultimately show ?thesis unfolding g by simp
qed

definition appenders_ok :: "log_define \<Rightarrow> bool" where
  "appenders_ok i \<longleftrightarrow> list_all (\<lambda>a. lad_type a = 1 \<or> lad_type a = 2) (ld_appenders i)"

lemma change_define_view:
  assumes "wf_log st" and "names_apart st" and "appenders_ok i" and "find_define i old \<noteq> Some i"
  shows "\<exists>st'. change_define can_open old i st = Inr st' \<and> wf_log st' \<and> names_apart st' \<and>
    named_view st' = (named_view st)(ld_name i \<mapsto> defined_logger can_open i (formatter_of (named_view st (ld_name i))))"
proof -
  obtain l s where g: "get_logger (ld_name i) st = (l, s)" by (cases "get_logger (ld_name i) st")
  have s: "wf_log s" "names_apart s" "lg_loggers s (ld_name i) = Some l" "l < length (lg_objects s)"
      "fst (snd (view s l)) = formatter_of (named_view st (ld_name i))" "\<forall>m. m \<noteq> ld_name i \<longrightarrow> named_view s m = named_view st m"
    using get_logger_view [OF assms(1,2), of "ld_name i"] g by simp_all
  obtain st' where t: "configure_logger can_open l i s = Inr st'" "wf_log st'" "same_tables s st'"
      "\<forall>k<length (lg_objects s). view st' k = (if k = l then defined_logger can_open i (fst (snd (view s l))) else view s k)"
    using configure_logger_view [OF s(1,4), of i can_open] assms(3) by (auto simp: appenders_ok_def list_all_iff)
  have tab: "lg_loggers st' = lg_loggers s" using t(3) by (simp add: same_tables_def)
  have "named_view st' m = named_view st m" if "m \<noteq> ld_name i" for m
  proof (cases "lg_loggers s m")
    case (Some k)
    then have "k \<noteq> l" "k < length (lg_objects s)" using s(1-3) that by (auto simp: names_apart_def wf_log_def)
    then show ?thesis using Some tab t(4) s(6) that by (auto simp: named_view_def)
  qed (use tab s(6) that in \<open>auto simp: named_view_def\<close>)
  moreover have "named_view st' (ld_name i) = Some (defined_logger can_open i (formatter_of (named_view st (ld_name i))))"
    using s(3-5) tab t(4) by (simp add: named_view_def)
  moreover have "names_apart st'" using s(2) tab by (simp add: names_apart_def)
  ultimately show ?thesis using t(1,2) g assms(4) by (auto simp: change_define_def fun_eq_iff)
qed

lemma delete_define_view:
  assumes "wf_log st" and "names_apart st"
  shows "\<exists>st'. delete_define new i st = Inr st' \<and> wf_log st' \<and> names_apart st' \<and>
    named_view st' = (if find_define i new = None then (named_view st)(ld_name i \<mapsto> (100, formatter_of (named_view st (ld_name i)), [])) else named_view st)"
proof (cases "find_define i new = None")
  case True
  obtain l s where g: "get_logger (ld_name i) st = (l, s)" by (cases "get_logger (ld_name i) st")
  have s: "wf_log s" "names_apart s" "lg_loggers s (ld_name i) = Some l" "l < length (lg_objects s)"
      "fst (snd (view s l)) = formatter_of (named_view st (ld_name i))" "\<forall>m. m \<noteq> ld_name i \<longrightarrow> named_view s m = named_view st m"
    using get_logger_view [OF assms, of "ld_name i"] g by simp_all
  let ?t = "clear_appenders l (set_level l 100 s)"
  have t: "?t = upd_logger l (\<lambda>x. x\<lparr>lo_level := 100, lo_appenders := []\<rparr>) s"
    using s(4) by (simp add: clear_appenders_def set_level_def upd_logger_def)
  have v: "view ?t k = (if k = l then (100, fst (snd (view s l)), []) else view s k)" for k
    unfolding t using view_upd_logger [OF s(4)] by (simp add: view_def Let_def)
  have tab: "lg_loggers ?t = lg_loggers s" by (simp add: t upd_logger_def)
  have "named_view ?t m = named_view st m" if "m \<noteq> ld_name i" for m
    using that s(2,3,6) v tab by (cases "lg_loggers s m") (auto simp: named_view_def names_apart_def)
  then have "named_view ?t = (named_view st)(ld_name i \<mapsto> (100, formatter_of (named_view st (ld_name i)), []))"
    using s(3,5) v tab by (auto simp: fun_eq_iff named_view_def)
  moreover have "names_apart ?t" using s(2) tab by (simp add: names_apart_def)
  moreover have "wf_log ?t" using s(1,4) by (simp add: wf_clear_appenders wf_set_level)
  ultimately show ?thesis using True g by (simp add: delete_define_def)
qed (use assms in \<open>auto simp: delete_define_def\<close>)

lemma find_name_None: "find (\<lambda>i. ld_name i = name) v = None \<longleftrightarrow> name \<notin> ld_name ` set v"
  unfolding find_None_iff image_iff by metis

lemma change_defines_view:
  assumes "wf_log st" and "names_apart st" and "\<forall>i\<in>set new. appenders_ok i \<and> find_define i old \<noteq> Some i" and "distinct (map ld_name new)"
  shows "\<exists>st'. foldE (change_define can_open old) new st = Inr st' \<and> wf_log st' \<and> names_apart st' \<and>
    (\<forall>name. named_view st' name =
       (case find (\<lambda>i. ld_name i = name) new of
          Some i \<Rightarrow> Some (defined_logger can_open i (formatter_of (named_view st name)))
        | None \<Rightarrow> named_view st name))"
  using assms
proof (induction new arbitrary: st)
  case (Cons i new)
  obtain s where s: "change_define can_open old i st = Inr s" "wf_log s" "names_apart s"
      "named_view s = (named_view st)(ld_name i \<mapsto> defined_logger can_open i (formatter_of (named_view st (ld_name i))))"
    using change_define_view [OF Cons.prems(1,2), of i old can_open] Cons.prems(3) by auto
  obtain st' where t: "foldE (change_define can_open old) new s = Inr st'" "wf_log st'" "names_apart st'"
      "\<forall>name. named_view st' name =
         (case find (\<lambda>i. ld_name i = name) new of
            Some i \<Rightarrow> Some (defined_logger can_open i (formatter_of (named_view s name)))
          | None \<Rightarrow> named_view s name)"
    using Cons.IH [OF s(2,3)] Cons.prems(3,4) by auto
  have "find (\<lambda>j. ld_name j = ld_name i) new = None" using Cons.prems(4) by (simp add: find_name_None)
  then show ?case using s(1,4) t by (auto simp: bindE_def split: option.splits)
qed auto

lemma delete_defines_view:
  assumes "wf_log st" and "names_apart st" and "distinct (map ld_name old)"
  shows "\<exists>st'. foldE (delete_define new) old st = Inr st' \<and> wf_log st' \<and> names_apart st' \<and>
    (\<forall>name. named_view st' name =
       (case find (\<lambda>i. ld_name i = name) old of
          Some i \<Rightarrow> if find_define i new = None then Some (100, formatter_of (named_view st name), []) else named_view st name
        | None \<Rightarrow> named_view st name))"
  using assms
proof (induction old arbitrary: st)
  case (Cons i old)
  obtain s where s: "delete_define new i st = Inr s" "wf_log s" "names_apart s"
      "named_view s = (if find_define i new = None then (named_view st)(ld_name i \<mapsto> (100, formatter_of (named_view st (ld_name i)), [])) else named_view st)"
    using delete_define_view [OF Cons.prems(1,2), of new i] by auto
  obtain st' where t: "foldE (delete_define new) old s = Inr st'" "wf_log st'" "names_apart st'"
      "\<forall>name. named_view st' name =
         (case find (\<lambda>i. ld_name i = name) old of
            Some i \<Rightarrow> if find_define i new = None then Some (100, formatter_of (named_view s name), []) else named_view s name
          | None \<Rightarrow> named_view s name)"
    using Cons.IH [OF s(2,3)] Cons.prems(3) by auto
  have "find (\<lambda>j. ld_name j = ld_name i) old = None" using Cons.prems(3) by (simp add: find_name_None)
  then show ?case using s(1,4) t by (auto simp: bindE_def split: option.splits)
qed auto

lemma conf_message_view:
  assumes "wf_log st" and "names_apart st" and "lo_appenders (lg_objects st ! lg_root st) \<noteq> []"
  shows "\<exists>st'. LOG_LEVEL ftime s (lg_root st) level text st = Inr st' \<and> wf_log st' \<and> names_apart st' \<and> named_view st' = named_view st"
proof -
  have r: "lg_root st < length (lg_objects st)" using assms(1) by (simp add: wf_log_def)
  have "view (delivered ftime e as st) = view st" for e as by (simp add: view_def appender_view_def delivered_def fun_eq_iff Let_def)
  moreover have "lg_loggers (delivered ftime e as st) = lg_loggers st" for e as by (simp add: delivered_def)
  ultimately have v: "named_view (delivered ftime e as st) = named_view st" for e as by (intro ext) (simp add: named_view_def)
  have n: "names_apart (delivered ftime e as st)" for e as using assms(2) by (simp add: names_apart_def delivered_def)
  show ?thesis
    using v n assms wf_delivered [OF assms(1)] by (auto simp: LOG_LEVEL_def Let_def Logger_log_cases [OF assms(1) r])
qed

text \<open>
  Reconfiguration: when no definition of the new set was in the old one and the root logger can write, the listener of \<open>logs\<close>
  ends, keeps the store in order, and makes the loggers what the definitions say: the logger of a definition has its level, its
  pattern unless that is empty or in error, and exactly its appenders in order, each with its own pattern or the logger's; a
  logger whose definition is gone has level 100 and no appenders; and every other logger is as it was.
\<close>

theorem logs_reconfigured:
  assumes "wf_log st" and "names_apart st" and "lo_appenders (lg_objects st ! lg_root st) \<noteq> []"
    and "defines_sorted old" and "defines_sorted new" and "\<forall>i\<in>set new. appenders_ok i \<and> i \<notin> set old"
  shows "\<exists>st'. logs_changed ftime can_open s old new st = Inr st' \<and> wf_log st' \<and> names_apart st' \<and>
    (\<forall>name. named_view st' name =
       (case find (\<lambda>i. ld_name i = name) new of
          Some i \<Rightarrow> Some (defined_logger can_open i (formatter_of (named_view st name)))
        | None \<Rightarrow> if name \<in> ld_name ` set old then Some (100, formatter_of (named_view st name), []) else named_view st name))"
proof -
  obtain s1 where 1: "LOG_LEVEL ftime s (lg_root st) 1 ''on_logger_conf_changed'' st = Inr s1" "wf_log s1" "names_apart s1" "named_view s1 = named_view st"
    using conf_message_view [OF assms(1-3)] by blast
  have "find_define i old \<noteq> Some i" if "i \<in> set new" for i using find_define_in [OF assms(4)] assms(6) that by blast
  then have "\<forall>i\<in>set new. appenders_ok i \<and> find_define i old \<noteq> Some i" using assms(6) by blast
  then obtain s2 where 2: "foldE (change_define can_open old) new s1 = Inr s2" "wf_log s2" "names_apart s2"
      "\<forall>name. named_view s2 name = (case find (\<lambda>i. ld_name i = name) new of
          Some i \<Rightarrow> Some (defined_logger can_open i (formatter_of (named_view s1 name))) | None \<Rightarrow> named_view s1 name)"
    using change_defines_view [OF 1(2,3) _ defines_distinct [OF assms(5)], of old can_open] by blast
  obtain st' where 3: "foldE (delete_define new) old s2 = Inr st'" "wf_log st'" "names_apart st'"
      "\<forall>name. named_view st' name = (case find (\<lambda>i. ld_name i = name) old of
          Some i \<Rightarrow> if find_define i new = None then Some (100, formatter_of (named_view s2 name), []) else named_view s2 name
        | None \<Rightarrow> named_view s2 name)"
    using delete_defines_view [OF 2(2,3) defines_distinct [OF assms(4)], of new] by blast
  have "named_view st' name = (case find (\<lambda>i. ld_name i = name) new of
          Some i \<Rightarrow> Some (defined_logger can_open i (formatter_of (named_view st name)))
        | None \<Rightarrow> if name \<in> ld_name ` set old then Some (100, formatter_of (named_view st name), []) else named_view st name)" for name
  proof -
    note o = find_name_None [of name old] and n = find_name_None [of name new]
    have v2: "named_view s2 name = (case find (\<lambda>i. ld_name i = name) new of
        Some i \<Rightarrow> Some (defined_logger can_open i (formatter_of (named_view st name))) | None \<Rightarrow> named_view st name)" using spec [OF 2(4), of name] unfolding 1(4) .
    have "find_define j new = None \<longleftrightarrow> find (\<lambda>i. ld_name i = name) new = None" if "find (\<lambda>i. ld_name i = name) old = Some j" for j
      using that find_define_None [OF assms(5), of j] n by (auto simp: find_Some_iff)
    then show ?thesis
      using spec [OF 3(4), of name] v2 o by (cases "find (\<lambda>i. ld_name i = name) old"; cases "find (\<lambda>i. ld_name i = name) new") auto
  qed
  then show ?thesis using 1(1) 2(1) 3(1-3) by (auto simp: logs_changed_def bindE_def)
qed

lemma foldE_append: "foldE f (xs @ ys) s = bindE (foldE f xs s) (foldE f ys)"
  by (induction xs arbitrary: s) (auto simp: bindE_def split: sum.splits)

text \<open>
  C38. A configuration that changes something but repeats one definition of a logger crashes the program: setting \<open>logs\<close> from its
  text runs the listener, which has no logger for an unchanged definition and uses the null pointer.
\<close>

theorem unchanged_define_crashes:
  assumes "wf_log st" and "names_apart st" and "lo_appenders (lg_objects st ! lg_root st) \<noteq> []"
    and "cv_from var text = Inr new" and "cv_cbs var = [(key, LogIniter_listener ftime can_open s)]" and "new \<noteq> cv_val var"
    and "defines_sorted (cv_val var)" and "defines_sorted new" and "\<forall>i\<in>set new. appenders_ok i"
    and "i \<in> set new" and "i \<in> set (cv_val var)"
  shows "from_string text var st = Inl Null_deref"
proof -
  let ?old = "cv_val var"
  obtain s1 where 1: "LOG_LEVEL ftime s (lg_root st) 1 ''on_logger_conf_changed'' st = Inr s1" "wf_log s1" "names_apart s1"
    using conf_message_view [OF assms(1-3)] by blast
  have "find_define i ?old = Some i" using find_define_Some [OF assms(7)] assms(11) by blast
  then obtain pre j post where n: "new = pre @ j # post" "find_define j ?old = Some j" "\<forall>k\<in>set pre. find_define k ?old \<noteq> Some k"
    using assms(10) split_list_first_prop [of new "\<lambda>k. find_define k ?old = Some k"] by blast
  have "distinct (map ld_name pre)" "\<forall>k\<in>set pre. appenders_ok k \<and> find_define k ?old \<noteq> Some k"
    using defines_distinct [OF assms(8)] n assms(9) by auto
  then obtain s2 where "foldE (change_define can_open ?old) pre s1 = Inr s2"
    using change_defines_view [OF 1(2,3), of pre ?old can_open] by blast
  then have "foldE (change_define can_open ?old) new s1 = Inl Null_deref"
    using n by (simp add: foldE_append bindE_def change_define_def)
  then have "logs_changed ftime can_open s ?old new st = Inl Null_deref" using 1(1) by (simp add: logs_changed_def bindE_def)
  then show ?thesis using assms(4-6) by (simp add: from_string_def set_value_def LogIniter_listener_def)
qed

section \<open>Definitions as text\<close>

text \<open>What is left of a definition that is printed and read.\<close>

definition kept_appender :: "log_appender_define \<Rightarrow> log_appender_define" where
  "kept_appender a = (if lad_type a = 2 then \<lparr>lad_type = 2, lad_formatter = [], lad_file = []\<rparr> else a)"

definition kept_define :: "log_define \<Rightarrow> log_define" where
  "kept_define i = i\<lparr>ld_level := (if 1 \<le> ld_level i \<and> ld_level i \<le> 5 then ld_level i else 0), ld_appenders := map kept_appender (ld_appenders i)\<rparr>"

lemma map_of_scalar: "map_of (map (\<lambda>(k, n). (ScalarNode k, n)) kvs) (ScalarNode key) = map_of kvs key"
  by (induction kvs) auto

lemma node_get_map_node: "node_get key (map_node kvs) = Inr (map_of kvs key)"
  by (simp add: map_node_def map_of_scalar)

lemma foldE_nth: "foldE (\<lambda>i. f (xs ! i)) [0..<length xs] s = foldE f xs s"
proof -
  have "foldE f (map g js) s = foldE (\<lambda>i. f (g i)) js s" for g js s by (induction js arbitrary: s) (auto simp: bindE_def split: sum.splits)
  from this [of "(!) xs" "[0..<length xs]" s] show ?thesis by (simp add: map_nth)
qed

lemma foldE_cong: "(\<And>x s. x \<in> set xs \<Longrightarrow> f x s = g x s) \<Longrightarrow> foldE f xs s = foldE g xs s"
  by (induction xs arbitrary: s) (auto simp: bindE_def split: sum.splits)

lemma foldE_nodes: "foldE (\<lambda>x. f (node_at yl (sequence_node ns) x)) [0..<node_size (sequence_node ns)] s = foldE f ns s"
proof (cases ns)
  case (Cons n r)
  have "foldE (\<lambda>x. f (node_at yl (SequenceNode ns) x)) [0..<length ns] s = foldE (\<lambda>x. f (ns ! x)) [0..<length ns] s"
    by (intro foldE_cong) simp
  then have "foldE (\<lambda>x. f (node_at yl (SequenceNode ns) x)) [0..<length ns] s = foldE f ns s" by (simp only: foldE_nth)
  moreover have "sequence_node ns = SequenceNode ns" using Cons by (simp add: sequence_node_def)
  ultimately show ?thesis by (simp only: node_size.simps)
qed (simp add: sequence_node_def)

lemma appender_define_node_from:
  assumes "lad_type a = 1 \<or> lad_type a = 2"
  shows "appender_define_from yl (appender_define_node a) = Inr (Some (kept_appender a))"
  using assms by (auto simp: appender_define_from_def appender_define_node_def node_get_string_def node_get_map_node bindE_def
      node_as_string_def opt_entry_def or_empty_def kept_appender_def)

lemma level_round_trip: "LogLevel_from_string (LogLevel_to_string v) = (if 1 \<le> v \<and> v \<le> 5 then v else 0)"
  by (auto simp: LogLevel_to_string_def LogLevel_from_string_def)

lemma appender_nodes_from:
  "list_all (\<lambda>a. lad_type a = 1 \<or> lad_type a = 2) as \<Longrightarrow>
   foldE (\<lambda>n lads. bindE (appender_define_from yl n) (\<lambda>lad. Inr (case lad of None \<Rightarrow> lads | Some lad \<Rightarrow> lads @ [lad])))
     (map appender_define_node as) lads = Inr (lads @ map kept_appender as)"
  by (induction as arbitrary: lads) (auto simp: appender_define_node_from bindE_def)

lemma define_node_from:
  assumes "appenders_ok i"
  shows "define_from yl (define_node i) = Inr (Some (kept_define i))"
proof -
  let ?ns = "map appender_define_node (ld_appenders i)"
  let ?f = "\<lambda>n lads. bindE (appender_define_from yl n) (\<lambda>lad. Inr (case lad of None \<Rightarrow> lads | Some lad \<Rightarrow> lads @ [lad]))"
  have f: "foldE (\<lambda>x. ?f (node_at yl (sequence_node ?ns) x)) [0..<node_size (sequence_node ?ns)] [] = Inr (map kept_appender (ld_appenders i))"
    using appender_nodes_from [of "ld_appenders i" yl "[]"] assms by (simp add: foldE_nodes [where f = ?f] appenders_ok_def)
  have s: "SequenceNode ?ns = sequence_node ?ns" if "ld_appenders i \<noteq> []" using that by (simp add: sequence_node_def)
  let ?m = "[(''name'', ScalarNode (ld_name i)), (''level'', ScalarNode (LogLevel_to_string (ld_level i)))] @ opt_entry ''formatter'' (ld_formatter i)
      @ (if ld_appenders i = [] then [] else [(''appenders'', sequence_node ?ns)])"
  have d: "define_node i = map_node ?m" using s by (simp add: define_node_def)
  have m: "map_of ?m ''name'' = Some (ScalarNode (ld_name i))" "map_of ?m ''level'' = Some (ScalarNode (LogLevel_to_string (ld_level i)))"
      "map_of ?m ''formatter'' = (if ld_formatter i = [] then None else Some (ScalarNode (ld_formatter i)))"
      "map_of ?m ''appenders'' = (if ld_appenders i = [] then None else Some (sequence_node ?ns))"
    by (simp_all add: opt_entry_def)
  have "(case map_of ?m ''appenders'' of None \<Rightarrow> Inr [] | Some aps \<Rightarrow> foldE (\<lambda>x. ?f (node_at yl aps x)) [0..<node_size aps] []) =
      Inr (map kept_appender (ld_appenders i))" using f m(4) by simp
  then show ?thesis
    unfolding define_from_def d node_get_string_def node_get_map_node m(1-3)
    by (simp add: bindE_def node_as_string_def or_empty_def kept_define_def level_round_trip)
qed

text \<open>
  The definitions of loggers printed and read again are the same up to two things: a level that is none of the five becomes
  \<open>UNKNOWN\<close>, and the pattern of an appender for the standard output is lost, because it is printed but never read.
\<close>

theorem defines_round_trip:
  assumes "y_load yl (y_emit yl (sequence_node (map define_node v))) = Inr (sequence_node (map define_node v))"
    and "defines_sorted v" and "list_all appenders_ok v"
  shows "bindE (defines_to_string yl v) (defines_from_string yl) = Inr (map kept_define v)"
proof -
  let ?f = "\<lambda>n vec. bindE (define_from yl n) (\<lambda>ld. Inr (case ld of None \<Rightarrow> vec | Some ld \<Rightarrow> ord_insert ld_less id ld vec))"
  have "foldE ?f (map define_node v) vec = Inr (fold (ord_insert ld_less id) (map kept_define v) vec)" for vec
    using assms(3) by (induction v arbitrary: vec) (auto simp: define_node_from bindE_def)
  moreover have "defines_sorted (map kept_define v)" using assms(2) by (simp add: ord_sorted_def sorted_wrt_map ld_less_def kept_define_def)
  ultimately have "foldE ?f (map define_node v) [] = Inr (map kept_define v)" using define_order.fold_insert [of id "[]" "map kept_define v"] by simp
  then show ?thesis
    using assms(1) by (simp add: defines_to_string_def defines_from_string_def bindE_def foldE_nodes [where f = ?f, unfolded bindE_def])
qed

definition demo_define :: log_define where
  "demo_define = \<lparr>ld_name = ''system'', ld_level = 2, ld_formatter = ''%m%n'',
     ld_appenders = [\<lparr>lad_type = 1, lad_formatter = [], lad_file = ''a.log''\<rparr>, \<lparr>lad_type = 2, lad_formatter = ''%p %m'', lad_file = []\<rparr>]\<rparr>"

definition demo_define_root :: log_define where
  "demo_define_root = \<lparr>ld_name = ''root'', ld_level = 1, ld_formatter = [], ld_appenders = []\<rparr>"

definition node_yaml :: "yaml \<Rightarrow> yaml_lib" where
  "node_yaml n = demo_yaml\<lparr>y_load := (\<lambda>_. Inr n)\<rparr>"

theorem defines_round_trip_witness:
  "bindE (defines_to_string (node_yaml (sequence_node [define_node demo_define])) [demo_define])
     (defines_from_string (node_yaml (sequence_node [define_node demo_define]))) = Inr [kept_define demo_define] \<and>
   kept_define demo_define \<noteq> demo_define"
proof -
  have "list_all appenders_ok [demo_define]" "kept_define demo_define \<noteq> demo_define" by code_simp+
  then show ?thesis
    using defines_round_trip [of "node_yaml (sequence_node [define_node demo_define])" "[demo_define]"] by (simp add: node_yaml_def ord_sorted_def)
qed

lemma demo_store_ok: "wf_log demo_store" "names_apart demo_store" "lo_appenders (lg_objects demo_store ! lg_root demo_store) \<noteq> []"
proof -
  have m: "wf_log (LoggerManager_new [] (\<lambda>_. []))" by (rule wf_LoggerManager_new)
  have "names_apart (LoggerManager_new [] (\<lambda>_. []))"
    by (auto simp: names_apart_def LoggerManager_new_def new_logger_def new_appender_def add_appender_def upd_logger_def Let_def split: if_splits)
  then show "wf_log demo_store" "names_apart demo_store"
    using get_logger_view [OF m, of "''system''"] by (auto simp: demo_store_def split_beta)
  show "lo_appenders (lg_objects demo_store ! lg_root demo_store) \<noteq> []" by (simp add: demo_store_simps)
qed

theorem logs_reconfigured_witness:
  "\<exists>st'. logs_changed (\<lambda>_ _. []) (\<lambda>_. True) (\<lparr>si_file = ''log.cpp'', si_line = 532, si_thread_id = 1, si_thread_name = ''main'', si_fiber_id = 0, si_time = 0\<rparr>)
       [demo_define_root] [demo_define] demo_store = Inr st' \<and>
     map_option fst (named_view st' ''system'') = Some 2 \<and> map_option (length \<circ> snd \<circ> snd) (named_view st' ''system'') = Some 2 \<and>
     map_option fst (named_view st' ''root'') = Some 100"
proof -
  have ok: "appenders_ok demo_define" "demo_define \<noteq> demo_define_root" "ld_name demo_define = ''system''" "ld_name demo_define_root = ''root''"
      "ld_level demo_define = 2" "length (ld_appenders demo_define) = 2" by code_simp+
  show ?thesis
    using logs_reconfigured [OF demo_store_ok, of "[demo_define_root]" "[demo_define]" "\<lambda>_ _. []" "\<lambda>_. True"
        "\<lparr>si_file = ''log.cpp'', si_line = 532, si_thread_id = 1, si_thread_name = ''main'', si_fiber_id = 0, si_time = 0\<rparr>"] ok
    by (auto simp: ord_sorted_def defined_logger_def Let_def)
qed

theorem unchanged_define_crashes_witness:
  "from_string ''[...]'' \<lparr>cv_name = ''logs'', cv_des = ''logs config'', cv_type = ''set<LogDefine>'',
       cv_from = defines_from_string (node_yaml (sequence_node [define_node demo_define_root, define_node (demo_define\<lparr>ld_appenders := []\<rparr>)])),
       cv_to = defines_to_string demo_yaml, cv_val = [demo_define_root],
       cv_cbs = [(1, LogIniter_listener (\<lambda>_ _. []) (\<lambda>_. True)
         \<lparr>si_file = ''log.cpp'', si_line = 532, si_thread_id = 1, si_thread_name = ''main'', si_fiber_id = 0, si_time = 0\<rparr>)]\<rparr> demo_store = Inl Null_deref"
proof -
  let ?d = "demo_define\<lparr>ld_appenders := []\<rparr>"
  have f: "defines_from_string (node_yaml (sequence_node [define_node demo_define_root, define_node ?d])) ''[...]'' = Inr [demo_define_root, ?d]"
      "list_all appenders_ok [demo_define_root, ?d]" "str_less (ld_name demo_define_root) (ld_name ?d)"
    by code_simp+
  show ?thesis
    by (rule unchanged_define_crashes [OF demo_store_ok, where new = "[demo_define_root, ?d]" and i = demo_define_root])
      (use f in \<open>simp_all add: ord_sorted_def ld_less_def\<close>)
qed

section \<open>Definitions that were read\<close>

lemma appender_define_type: "appender_define_from yl a = Inr (Some lad) \<Longrightarrow> lad_type lad = 1 \<or> lad_type lad = 2"
proof -
  assume a: "appender_define_from yl a = Inr (Some lad)"
  then obtain t where t: "node_get_string yl ''type'' a = Inr (Some t)"
    by (cases "node_get_string yl ''type'' a") (auto simp: appender_define_from_def bindE_def split: option.splits)
  show ?thesis
  proof (cases "t = ''FileLogAppender''")
    case True
    then obtain f where f: "node_get_string yl ''file'' a = Inr (Some f)"
      using a t by (cases "node_get_string yl ''file'' a") (auto simp: appender_define_from_def bindE_def split: option.splits)
    then show ?thesis using a t True
      by (cases "node_get_string yl ''formatter'' a") (auto simp: appender_define_from_def bindE_def)
  qed (use a t in \<open>auto simp: appender_define_from_def bindE_def split: if_splits\<close>)
qed

lemma define_from_ok:
  assumes "define_from yl n = Inr (Some ld)"
  shows "appenders_ok ld"
proof -
  let ?f = "\<lambda>aps x lads. bindE (appender_define_from yl (node_at yl aps x)) (\<lambda>lad. Inr (case lad of None \<Rightarrow> lads | Some lad \<Rightarrow> lads @ [lad]))"
  let ?Q = "list_all (\<lambda>a. lad_type a = 1 \<or> lad_type a = 2)"
  have step: "?Q s'" if "?Q s" "?f aps x s = Inr s'" for aps x s s'
    using that appender_define_type [of yl "node_at yl aps x"] by (cases "appender_define_from yl (node_at yl aps x)") (auto simp: bindE_def split: option.splits)
  have lads: "?Q lads" if "foldE (?f aps) xs [] = Inr lads" for aps xs lads
  proof -
    have "\<forall>x s s'. ?Q s \<longrightarrow> ?f aps x s = Inr s' \<longrightarrow> ?Q s'" by (intro allI impI) (rule step)
    then show ?thesis by (rule foldE_invariant [OF that, of ?Q, rotated]) simp
  qed
  obtain name where name: "node_get_string yl ''name'' n = Inr (Some name)"
    using assms by (cases "node_get_string yl ''name'' n") (auto simp: define_from_def bindE_def split: option.splits)
  obtain level formatter aps where m: "node_get_string yl ''level'' n = Inr level" "node_get_string yl ''formatter'' n = Inr formatter"
      "node_get ''appenders'' n = Inr aps"
    using assms name by (cases "node_get_string yl ''level'' n"; cases "node_get_string yl ''formatter'' n"; cases "node_get ''appenders'' n")
      (auto simp: define_from_def bindE_def)
  show ?thesis
  proof (cases aps)
    case None
    then show ?thesis using assms name m by (auto simp: define_from_def bindE_def appenders_ok_def)
  next
    case (Some a)
    then obtain l where "foldE (?f a) [0..<node_size a] [] = Inr l" "ld_appenders ld = l"
      using assms name m by (cases "foldE (?f a) [0..<node_size a] []") (auto simp: define_from_def bindE_def)
    then show ?thesis using lads [of a] by (simp add: appenders_ok_def)
  qed
qed

text \<open>What is read from a text is a set, and its appenders are of the two known types.\<close>

lemma defines_from_string_ok:
  assumes "defines_from_string yl v = Inr new"
  shows "defines_sorted new" "\<forall>i\<in>set new. appenders_ok i"
proof -
  let ?P = "\<lambda>v. defines_sorted v \<and> (\<forall>i\<in>set v. appenders_ok i)"
  obtain node where n: "foldE (\<lambda>i vec. bindE (define_from yl (node_at yl node i)) (\<lambda>ld.
      Inr (case ld of None \<Rightarrow> vec | Some ld \<Rightarrow> ord_insert ld_less id ld vec))) [0..<node_size node] [] = Inr new"
    using assms by (auto simp: defines_from_string_def bindE_Inr_iff)
  have ins: "?P (ord_insert ld_less id ld vec)" if "?P vec" "appenders_ok ld" for ld vec
  proof -
    have "set (ord_insert ld_less id ld vec) \<subseteq> insert ld (set vec)"
      using define_order.set_insert [of id vec ld] that(1) by (cases "ord_find ld_less id ld vec") (auto simp: ord_insert_def)
    then show ?thesis using that define_order.insert_sorted [of id vec ld] by auto
  qed
  let ?f = "\<lambda>i vec. bindE (define_from yl (node_at yl node i)) (\<lambda>ld. Inr (case ld of None \<Rightarrow> vec | Some ld \<Rightarrow> ord_insert ld_less id ld vec))"
  have step: "?P v'" if "?P v" "?f i v = Inr v'" for i v v'
  proof (cases "define_from yl (node_at yl node i)")
    case (Inr r)
    then show ?thesis using that ins [OF that(1)] define_from_ok [of yl "node_at yl node i"] by (cases r) (auto simp: bindE_def)
  qed (use that(2) in \<open>simp add: bindE_def\<close>)
  have "\<forall>x s s'. ?P s \<longrightarrow> ?f x s = Inr s' \<longrightarrow> ?P s'" by (intro allI impI) (rule step)
  then have "?P new" by (rule foldE_invariant [OF n, of ?P, rotated]) simp
  then show "defines_sorted new" "\<forall>i\<in>set new. appenders_ok i" by auto
qed

end
