(* ===== verification/Cool_Thread.thy ===== *)
theory Cool_Thread
  imports Cool_Text "HOL-Library.Signed_Division"
begin

text \<open>
  The locks, the semaphore and the threads of thread.h and thread.cpp, and the small functions of util.cpp. The locks are given as
  what one call does to them, a call that has to wait as \<^const>\<open>None\<close>; the guards that hold them, and the start of a thread, are step
  relations, since what is claimed of them is about threads that take turns in any order.
\<close>

section \<open>Locks\<close>

text \<open>
  A lock as the pthread library and \<open>std::atomic_flag\<close> describe it: free or taken, and for a read-write lock the number of readers.
  \<open>Mutex\<close>, \<open>SpinLock\<close> and \<open>CASLock\<close> are a flag, \<open>NullMutex\<close> and \<open>NullRWMutex\<close> keep nothing.
\<close>

datatype lock_state = Flag bool | RW bool nat | Null

fun Mutex_lock :: "lock_state \<Rightarrow> lock_state option" where
  "Mutex_lock (Flag b) = (if b then None else Some (Flag True))"
| "Mutex_lock s = None"

fun Mutex_unlock :: "lock_state \<Rightarrow> lock_state" where
  "Mutex_unlock (Flag _) = Flag False"
| "Mutex_unlock s = s"

definition NullMutex_lock :: "lock_state \<Rightarrow> lock_state option" where
  "NullMutex_lock s = Some s"

fun RWMutex_rdlock :: "lock_state \<Rightarrow> lock_state option" where
  "RWMutex_rdlock (RW w r) = (if w then None else Some (RW w (r + 1)))"
| "RWMutex_rdlock s = None"

fun RWMutex_wrlock :: "lock_state \<Rightarrow> lock_state option" where
  "RWMutex_wrlock (RW w r) = (if w \<or> r > 0 then None else Some (RW True r))"
| "RWMutex_wrlock s = None"

fun RWMutex_unlock :: "lock_state \<Rightarrow> lock_state" where
  "RWMutex_unlock (RW w r) = (if w then RW False r else RW w (r - 1))"
| "RWMutex_unlock s = s"

definition SpinLock_lock :: "lock_state \<Rightarrow> lock_state option" where
  "SpinLock_lock s = Mutex_lock s"

text \<open>\<open>CASLock\<close>: one turn of the loop sets the flag and tells what it was; the loop ends when it was clear.\<close>

fun test_and_set :: "lock_state \<Rightarrow> bool \<times> lock_state" where
  "test_and_set (Flag b) = (b, Flag True)"
| "test_and_set s = (True, s)"

definition CASLock_turn :: "lock_state \<Rightarrow> lock_state option" where
  "CASLock_turn s = (case test_and_set s of (True, _) \<Rightarrow> None | (False, s) \<Rightarrow> Some s)"

definition CASLock_unlock :: "lock_state \<Rightarrow> lock_state" where
  "CASLock_unlock s = Mutex_unlock s"

section \<open>Guards\<close>

text \<open>A guard with its flag; locking a guard that holds the lock and unlocking one that does not are no calls.\<close>

datatype guard_kind = Scoped | Read_scoped | Write_scoped

definition guard_lock :: "(lock_state \<Rightarrow> lock_state option) \<Rightarrow> bool \<times> lock_state \<Rightarrow> (bool \<times> lock_state) option" where
  "guard_lock acq = (\<lambda>(m_locked, m). if \<not> m_locked then map_option (\<lambda>m. (True, m)) (acq m) else Some (m_locked, m))"

definition guard_unlock :: "(lock_state \<Rightarrow> lock_state) \<Rightarrow> bool \<times> lock_state \<Rightarrow> bool \<times> lock_state" where
  "guard_unlock rel = (\<lambda>(m_locked, m). if m_locked then (False, rel m) else (m_locked, m))"

definition ReadScoped_lock :: "bool \<times> lock_state \<Rightarrow> (bool \<times> lock_state) option" where
  "ReadScoped_lock = guard_lock RWMutex_rdlock"

definition ReadScoped_unlock :: "bool \<times> lock_state \<Rightarrow> bool \<times> lock_state" where
  "ReadScoped_unlock = guard_unlock RWMutex_unlock"

definition WriteScoped_lock :: "bool \<times> lock_state \<Rightarrow> (bool \<times> lock_state) option" where
  "WriteScoped_lock = guard_lock RWMutex_wrlock"

definition WriteScoped_unlock :: "bool \<times> lock_state \<Rightarrow> bool \<times> lock_state" where
  "WriteScoped_unlock = guard_unlock RWMutex_unlock"

lemmas scoped_defs = guard_lock_def guard_unlock_def ReadScoped_lock_def ReadScoped_unlock_def WriteScoped_lock_def WriteScoped_unlock_def

text \<open>The three kinds of guards over the lock they are made for.\<close>

fun kind_lock :: "guard_kind \<Rightarrow> bool \<times> lock_state \<Rightarrow> (bool \<times> lock_state) option" where
  "kind_lock Scoped = guard_lock Mutex_lock"
| "kind_lock Read_scoped = ReadScoped_lock"
| "kind_lock Write_scoped = WriteScoped_lock"

fun kind_unlock :: "guard_kind \<Rightarrow> bool \<times> lock_state \<Rightarrow> bool \<times> lock_state" where
  "kind_unlock Scoped = guard_unlock Mutex_unlock"
| "kind_unlock Read_scoped = ReadScoped_unlock"
| "kind_unlock Write_scoped = WriteScoped_unlock"

text \<open>
  Any number of guards over one lock, of any threads: a new guard locks, a guard locks or unlocks again, and one that goes away unlocks.
  A step that would have to wait is not possible.
\<close>

type_synonym guards = "(guard_kind \<times> bool) list"

inductive guard_step :: "guards \<times> lock_state \<Rightarrow> guards \<times> lock_state \<Rightarrow> bool" where
  enter: "kind_lock k (False, m) = Some (b, m') \<Longrightarrow> guard_step (gs, m) (gs @ [(k, b)], m')"
| lock: "i < length gs \<Longrightarrow> gs ! i = (k, b) \<Longrightarrow> kind_lock k (b, m) = Some (b', m') \<Longrightarrow> guard_step (gs, m) (gs[i := (k, b')], m')"
| unlock: "i < length gs \<Longrightarrow> gs ! i = (k, b) \<Longrightarrow> kind_unlock k (b, m) = (b', m') \<Longrightarrow> guard_step (gs, m) (gs[i := (k, b')], m')"
| leave: "i < length gs \<Longrightarrow> gs ! i = (k, b) \<Longrightarrow> kind_unlock k (b, m) = (b', m') \<Longrightarrow> guard_step (gs, m) (take i gs @ drop (Suc i) gs, m')"

definition holders :: "guard_kind \<Rightarrow> guards \<Rightarrow> nat" where
  "holders k gs = count_list gs (k, True)"

text \<open>The lock counts the guards that hold it.\<close>

fun lock_counts :: "guards \<Rightarrow> lock_state \<Rightarrow> bool" where
  "lock_counts gs (Flag b) \<longleftrightarrow> holders Scoped gs = of_bool b \<and> holders Read_scoped gs = 0 \<and> holders Write_scoped gs = 0"
| "lock_counts gs (RW w r) \<longleftrightarrow> holders Write_scoped gs = of_bool w \<and> holders Read_scoped gs = r \<and> holders Scoped gs = 0 \<and> (w \<longrightarrow> r = 0)"
| "lock_counts gs Null \<longleftrightarrow> (\<forall>k. holders k gs = 0)"

lemma holders_append [simp]: "holders k (gs @ hs) = holders k gs + holders k hs"
  by (simp add: holders_def)

lemma holders_Cons [simp]: "holders k (g # gs) = of_bool (g = (k, True)) + holders k gs"
  by (simp add: holders_def)

lemma holders_Nil [simp]: "holders k [] = 0"
  by (simp add: holders_def)

lemma holders_at:
  assumes "i < length gs" and "gs ! i = g"
  shows "holders k gs = of_bool (g = (k, True)) + holders k (take i gs @ drop (Suc i) gs)"
    "holders k (gs[i := h]) = of_bool (h = (k, True)) + holders k (take i gs @ drop (Suc i) gs)"
proof -
  have "gs = take i gs @ g # drop (Suc i) gs" using assms id_take_nth_drop by blast
  then have "holders k gs = holders k (take i gs @ g # drop (Suc i) gs)" by simp
  then show "holders k gs = of_bool (g = (k, True)) + holders k (take i gs @ drop (Suc i) gs)" by simp
  show "holders k (gs[i := h]) = of_bool (h = (k, True)) + holders k (take i gs @ drop (Suc i) gs)"
    using assms(1) by (simp add: upd_conv_take_nth_drop)
qed

lemma kind_lock_counts:
  assumes "kind_lock k (b, m) = Some (b', m')" and "\<And>j. holders j gs = of_bool ((k, b) = (j, True)) + holders j rest"
    and "\<And>j. holders j hs = of_bool ((k, b') = (j, True)) + holders j rest" and "lock_counts gs m"
  shows "lock_counts hs m'"
  using assms by (cases k; cases m; cases b) (auto simp: scoped_defs split: if_splits)

lemma kind_unlock_counts:
  assumes "kind_unlock k (b, m) = (b', m')" and "\<And>j. holders j gs = of_bool ((k, b) = (j, True)) + holders j rest"
    and "\<And>j. holders j hs = of_bool ((k, b') = (j, True)) + holders j rest" and "lock_counts gs m"
  shows "lock_counts hs m' \<and> \<not> b'"
  using assms by (cases k; cases m; cases b) (auto simp: scoped_defs of_bool_def split: if_splits)

lemma guard_step_counts:
  assumes "guard_step s s'" and "lock_counts (fst s) (snd s)"
  shows "lock_counts (fst s') (snd s')"
  using assms
proof (induction rule: guard_step.induct)
  case (enter k m b m' gs)
  then show ?case using kind_lock_counts [OF enter(1), of gs gs "gs @ [(k, b)]"] by auto
next
  case (lock i gs k b m b' m')
  show ?case
    using kind_lock_counts [OF lock(3) holders_at(1) [OF lock(1,2)] holders_at(2) [OF lock(1,2)]] lock(4) by simp
next
  case (unlock i gs k b m b' m')
  show ?case
    using kind_unlock_counts [OF unlock(3) holders_at(1) [OF unlock(1,2)] holders_at(2) [OF unlock(1,2)]] unlock(4) by auto
next
  case (leave i gs k b m b' m')
  have "lock_counts (gs[i := (k, b')]) m'" "\<not> b'"
    using kind_unlock_counts [OF leave(3) holders_at(1) [OF leave(1,2)] holders_at(2) [OF leave(1,2)]] leave(4) by auto
  then show ?case using holders_at(2) [OF leave(1,2), of _ "(k, b')"] by (cases m') auto
qed

fun lock_shape :: "lock_state \<Rightarrow> nat" where
  "lock_shape (Flag _) = 0"
| "lock_shape (RW _ _) = 1"
| "lock_shape Null = 2"

lemma kind_shape:
  "kind_lock k (b, m) = Some (b', m') \<Longrightarrow> lock_shape m' = lock_shape m" "kind_unlock k (b, m) = (b', m') \<Longrightarrow> lock_shape m' = lock_shape m"
  by (cases k; cases m; auto simp: scoped_defs split: if_splits)+

lemma guard_step_shape: "guard_step s s' \<Longrightarrow> lock_shape (snd s') = lock_shape (snd s)"
  by (induction rule: guard_step.induct) (auto dest: kind_shape)

text \<open>
  C15. Guards: whatever threads make of guards over one lock, in whatever order, the lock is taken exactly as often as guards hold it.
  So at most one guard holds a mutex; at most one writer holds a read-write lock, and none while a reader does; and the lock is free
  again when no guard holds it, however often guards were locked and unlocked by hand and in which order they went away.
\<close>

theorem guards_exclusive:
  assumes "guard_step\<^sup>*\<^sup>* ([], m) (gs, m')" and "m = Flag False \<or> m = RW False 0"
  shows "lock_counts gs m' \<and> holders Scoped gs \<le> 1 \<and> holders Write_scoped gs \<le> 1 \<and>
    (holders Write_scoped gs = 0 \<or> holders Read_scoped gs = 0) \<and> (m' = m \<longleftrightarrow> (\<forall>k. holders k gs = 0))"
proof -
  have "lock_counts [] m" using assms(2) by auto
  moreover have "lock_counts (fst s') (snd s')" if "guard_step\<^sup>*\<^sup>* s s'" "lock_counts (fst s) (snd s)" for s s'
    using that by (induction rule: rtranclp_induct) (auto intro: guard_step_counts)
  ultimately have c: "lock_counts gs m'" using assms(1) by fastforce
  have "lock_shape (snd s') = lock_shape (snd s)" if "guard_step\<^sup>*\<^sup>* s s'" for s s'
    using that by (induction rule: rtranclp_induct) (auto dest: guard_step_shape)
  from this [OF assms(1)] have f: "lock_shape m' = lock_shape m" by simp
  have all: "(\<forall>k. holders k gs = 0) \<longleftrightarrow> holders Scoped gs = 0 \<and> holders Read_scoped gs = 0 \<and> holders Write_scoped gs = 0"
    using guard_kind.exhaust by metis
  show ?thesis using c f assms(2) unfolding all by (cases m') (auto simp: of_bool_def split: if_splits)
qed

theorem guards_exclusive_witness:
  "guard_step\<^sup>*\<^sup>* ([], RW False 0) ([(Read_scoped, True), (Read_scoped, False)], RW False 1) \<and>
   holders Write_scoped [(Read_scoped, True), (Read_scoped, False)] \<le> 1 \<and> RW False 1 \<noteq> RW False 0"
proof -
  have "guard_step ([], RW False 0) ([] @ [(Read_scoped, True)], RW False 1)" by (rule guard_step.enter) (simp add: scoped_defs)
  moreover have "guard_step ([(Read_scoped, True)], RW False 1) ([(Read_scoped, True)] @ [(Read_scoped, True)], RW False 2)"
    by (rule guard_step.enter) (simp add: scoped_defs)
  moreover have "guard_step ([(Read_scoped, True), (Read_scoped, True)], RW False 2) ([(Read_scoped, True), (Read_scoped, True)][1 := (Read_scoped, False)], RW False 1)"
    by (rule guard_step.unlock [where b = True]) (simp_all add: scoped_defs)
  ultimately have r: "guard_step\<^sup>*\<^sup>* ([], RW False 0) ([(Read_scoped, True), (Read_scoped, False)], RW False 1)"
    by (simp add: numeral_2_eq_2)
  show ?thesis using guards_exclusive [OF r] r by simp
qed

section \<open>Threads\<close>

text \<open>
  A thread object with the count of its semaphore. The callback is there until the new thread takes it. \<open>tid\<close> is the number the system
  gives the thread.
\<close>

record 'c thread =
  th_id :: int
  th_thread :: bool
  th_cb :: "'c option"
  th_name :: string
  th_sem :: nat

definition Thread_init :: "'c \<Rightarrow> string \<Rightarrow> 'c thread" where
  "Thread_init cb name =
     \<lparr>th_id = - 1, th_thread = False, th_cb = Some cb, th_name = (if name = [] then ''UNKNOWN'' else name), th_sem = 0\<rparr>"

definition sem_notify :: "'c thread \<Rightarrow> 'c thread" where
  "sem_notify t = t\<lparr>th_sem := th_sem t + 1\<rparr>"

definition sem_wait :: "'c thread \<Rightarrow> 'c thread option" where
  "sem_wait t = (if th_sem t > 0 then Some (t\<lparr>th_sem := th_sem t - 1\<rparr>) else None)"

text \<open>Setting the name of the calling thread: \<open>this\<close> is its object, if it has one.\<close>

definition SetName :: "string \<Rightarrow> 'c thread option \<times> string \<Rightarrow> 'c thread option \<times> string" where
  "SetName name = (\<lambda>(this, _). (map_option (\<lambda>t. t\<lparr>th_name := name\<rparr>) this, name))"

definition Thread_join :: "(unit \<Rightarrow> int) \<Rightarrow> 'c thread \<Rightarrow> 'c thread outcome" where
  "Thread_join pthread_join t =
     (if th_thread t then if pthread_join () \<noteq> 0 then Inl (Exception ''pthread_join error'') else Inr (t\<lparr>th_thread := False\<rparr>) else Inr t)"

text \<open>
  The constructor and \<open>run\<close> take turns. The constructor is before the creation of the thread, waiting, or back at its caller; \<open>run\<close> has
  its statements before it one after the other; \<open>t_thread_name\<close> is the name the new thread has for itself. A wait can be interrupted,
  and \<open>Semaphore::wait\<close> returns then as well: \<open>intr\<close> tells whether that happens.
\<close>

datatype ctor_pc = Creating | Waiting | Returned
datatype run_pc = Not_there | Begin | Named | Identified | Swapped | Notified | Done

record 'c start =
  st_ctor :: ctor_pc
  st_run :: run_pc
  st_thread :: "'c thread"
  st_name :: string
  st_cb :: "'c option"

definition start_init :: "'c \<Rightarrow> string \<Rightarrow> 'c start" where
  "start_init cb name = \<lparr>st_ctor = Creating, st_run = Not_there, st_thread = Thread_init cb name, st_name = ''UNKNOWN'', st_cb = None\<rparr>"

inductive thread_step :: "bool \<Rightarrow> int \<Rightarrow> 'c start \<Rightarrow> 'c start \<Rightarrow> bool" for intr :: bool and tid :: int where
  create: "st_ctor s = Creating \<Longrightarrow>
    thread_step intr tid s (s\<lparr>st_ctor := Waiting, st_run := Begin, st_thread := (st_thread s)\<lparr>th_thread := True\<rparr>\<rparr>)"
| wait: "st_ctor s = Waiting \<Longrightarrow> sem_wait (st_thread s) = Some t \<Longrightarrow> thread_step intr tid s (s\<lparr>st_ctor := Returned, st_thread := t\<rparr>)"
| interrupt: "intr \<Longrightarrow> st_ctor s = Waiting \<Longrightarrow> thread_step intr tid s (s\<lparr>st_ctor := Returned\<rparr>)"
| name: "st_run s = Begin \<Longrightarrow> thread_step intr tid s (s\<lparr>st_run := Named, st_name := th_name (st_thread s)\<rparr>)"
| identify: "st_run s = Named \<Longrightarrow> thread_step intr tid s (s\<lparr>st_run := Identified, st_thread := (st_thread s)\<lparr>th_id := tid\<rparr>\<rparr>)"
| swap: "st_run s = Identified \<Longrightarrow>
    thread_step intr tid s (s\<lparr>st_run := Swapped, st_cb := th_cb (st_thread s), st_thread := (st_thread s)\<lparr>th_cb := st_cb s\<rparr>\<rparr>)"
| notify: "st_run s = Swapped \<Longrightarrow> thread_step intr tid s (s\<lparr>st_run := Notified, st_thread := sem_notify (st_thread s)\<rparr>)"
| call: "st_run s = Notified \<Longrightarrow> thread_step intr tid s (s\<lparr>st_run := Done\<rparr>)"

inductive_cases thread_stepE: "thread_step intr tid s s'"

text \<open>How far \<open>run\<close> is decides what the object looks like; the semaphore is up exactly between the notification and the return.\<close>

definition start_inv :: "int \<Rightarrow> 'c \<Rightarrow> string \<Rightarrow> 'c start \<Rightarrow> bool" where
  "start_inv tid cb name s \<longleftrightarrow> (let t = st_thread s; r = st_run s in
     (st_ctor s = Creating \<longleftrightarrow> r = Not_there) \<and> th_name t = th_name (Thread_init cb name) \<and>
     (r \<notin> {Not_there, Begin} \<longrightarrow> st_name s = th_name t) \<and>
     th_id t = (if r \<in> {Not_there, Begin, Named} then - 1 else tid) \<and>
     th_cb t = (if r \<in> {Not_there, Begin, Named, Identified} then Some cb else None) \<and>
     st_cb s = (if r \<in> {Not_there, Begin, Named, Identified} then None else Some cb) \<and>
     th_sem t = (if r \<in> {Notified, Done} \<and> st_ctor s = Waiting then 1 else 0) \<and>
     (st_ctor s = Returned \<longrightarrow> r \<in> {Notified, Done}))"

lemma start_inv_init: "start_inv tid cb name (start_init cb name)"
  by (simp add: start_init_def start_inv_def Thread_init_def)

lemma start_inv_step: "thread_step False tid s s' \<Longrightarrow> start_inv tid cb name s \<Longrightarrow> start_inv tid cb name s'"
  by (cases "st_ctor s"; erule thread_stepE) (auto simp: start_inv_def Let_def sem_wait_def sem_notify_def split: if_splits)

lemma start_inv_returned:
  "start_inv tid cb name s \<Longrightarrow> st_ctor s = Returned \<Longrightarrow>
   th_id (st_thread s) = tid \<and> st_name s = (if name = [] then ''UNKNOWN'' else name) \<and> th_cb (st_thread s) = None \<and> st_cb s = Some cb"
  by (auto simp: start_inv_def Let_def Thread_init_def)

text \<open>
  C35. Starting a thread: without interruptions, when the constructor is back at its caller the new thread has set its number and its
  name and has taken the callback, in whatever order the two threads took turns. But the wait for this ignores that it was
  interrupted, so the constructor can return while the object still has no number and its callback, which the new thread will use
  whether or not the object is still there.
\<close>

theorem thread_started:
  assumes "tid \<noteq> - 1"
  shows "((thread_step False tid)\<^sup>*\<^sup>* (start_init cb name) s \<and> st_ctor s = Returned \<longrightarrow>
      th_id (st_thread s) = tid \<and> st_name s = (if name = [] then ''UNKNOWN'' else name) \<and> th_cb (st_thread s) = None \<and> st_cb s = Some cb) \<and>
    (\<exists>s. (thread_step True tid)\<^sup>*\<^sup>* (start_init cb name) s \<and> st_ctor s = Returned \<and> th_id (st_thread s) \<noteq> tid \<and> th_cb (st_thread s) = Some cb)"
proof
  have "start_inv tid cb name s" if "(thread_step False tid)\<^sup>*\<^sup>* (start_init cb name) s" for s
    using that by (induction rule: rtranclp_induct) (auto intro: start_inv_step start_inv_init)
  then show "(thread_step False tid)\<^sup>*\<^sup>* (start_init cb name) s \<and> st_ctor s = Returned \<longrightarrow>
      th_id (st_thread s) = tid \<and> st_name s = (if name = [] then ''UNKNOWN'' else name) \<and> th_cb (st_thread s) = None \<and> st_cb s = Some cb"
    using start_inv_returned [of tid cb name s] by blast
next
  let ?s = "start_init cb name"
  let ?w = "?s\<lparr>st_ctor := Waiting, st_run := Begin, st_thread := (st_thread ?s)\<lparr>th_thread := True\<rparr>\<rparr>"
  have "thread_step True tid ?s ?w" by (rule thread_step.create) (simp add: start_init_def)
  moreover have "thread_step True tid ?w (?w\<lparr>st_ctor := Returned\<rparr>)" by (rule thread_step.interrupt) simp_all
  ultimately have "(thread_step True tid)\<^sup>*\<^sup>* ?s (?w\<lparr>st_ctor := Returned\<rparr>)" by (meson converse_rtranclp_into_rtranclp r_into_rtranclp)
  moreover have "th_id (st_thread (?w\<lparr>st_ctor := Returned\<rparr>)) \<noteq> tid" "th_cb (st_thread (?w\<lparr>st_ctor := Returned\<rparr>)) = Some cb"
    using assms by (simp_all add: start_init_def Thread_init_def)
  ultimately show "\<exists>s. (thread_step True tid)\<^sup>*\<^sup>* ?s s \<and> st_ctor s = Returned \<and> th_id (st_thread s) \<noteq> tid \<and> th_cb (st_thread s) = Some cb"
    by (intro exI [of _ "?w\<lparr>st_ctor := Returned\<rparr>"]) simp
qed

theorem thread_started_witness:
  "\<exists>s. (thread_step True 7)\<^sup>*\<^sup>* (start_init () ''io'') s \<and> st_ctor s = Returned \<and> th_id (st_thread s) \<noteq> 7"
  using thread_started [of 7 "()" "''io''"] by auto

section \<open>Utilities\<close>

text \<open>\<open>symbols\<close> is what \<open>backtrace\<close> and \<open>backtrace_symbols\<close> give, nothing where they fail; a negative \<open>skip\<close> is a huge unsigned number.\<close>

definition backtrace :: "(int \<Rightarrow> string list option) \<Rightarrow> int \<Rightarrow> int \<Rightarrow> string list \<Rightarrow> string list" where
  "backtrace symbols n skip bt =
     (case symbols n of None \<Rightarrow> bt | Some strings \<Rightarrow> bt @ drop (unat (word_of_int skip :: u64)) strings)"

definition backtrace_tostring :: "(int \<Rightarrow> string list option) \<Rightarrow> int \<Rightarrow> int \<Rightarrow> string \<Rightarrow> string" where
  "backtrace_tostring symbols n skip prefix = concat (map (\<lambda>s. prefix @ s @ [CHR 0x0A]) (backtrace symbols n skip []))"

definition GetCurrentMS :: "u64 \<times> u64 \<Rightarrow> u64" where
  "GetCurrentMS = (\<lambda>(tv_sec, tv_usec). tv_sec * 1000 + word_of_int (sint tv_usec sdiv 1000))"

definition GetCurrentUS :: "u64 \<times> u64 \<Rightarrow> u64" where
  "GetCurrentUS = (\<lambda>(tv_sec, tv_usec). tv_sec * 1000 * 1000 + tv_usec)"

end
