(* ===== verification/Spec2Isabelle.thy ===== *)
theory Spec2Isabelle
  imports Cool_Codec Cool_TcpServer Cool_Hook Cool_RequestSafe Cool_HttpServer Cool_Log Cool_Thread
begin

text \<open>
  A verification library for the C++ network framework \<^emph>\<open>cool\<close>. Files are named relative to \<^verbatim>\<open>src/src\<close> of the repository.

  \<^bold>\<open>The program.\<close> The framework runs many fibers on few threads. A fiber that would block in a system call registers with the I/O
  manager and gives its thread away; the manager is a scheduler whose idle loop waits for epoll events and timers. The hooked
  system calls make this invisible to the code on top: sockets, streams, the TCP server and the HTTP server, which parses requests with a
  generated scanner and hands them to servlets. Byte arrays serialise data, the configuration is read from YAML, and the
  logging system is configured through it.

  \<^bold>\<open>How it is modelled.\<close> A class is a record, an enumeration a datatype, a method a function that takes the object and returns it
  changed. Objects that are shared are places in a heap or table. An operation that can fail returns an \<open>outcome\<close>, whose faults
  are exceptions, failed assertions, null pointers, accesses out of bounds, dangling iterators, overflows of signed integers, deadlocks and
  endless loops (\<^verbatim>\<open>Cool_Prelude\<close>). Fixed-width integers are words wherever their width can show. What the program calls but does not contain is a
  parameter: the system calls, \<open>epoll_ctl\<close>, \<open>getaddrinfo\<close>, \<open>fnmatch\<close>, \<open>strftime\<close>, \<open>boost::lexical_cast\<close>, the reading and printing of YAML text, what the user's
  callbacks do in their turn on the processor. Where threads can interfere, the critical sections are separate steps and the interference is an
  argument or a step relation; elsewhere a lock makes an operation atomic. Log messages of other components are left out.

  \<^bold>\<open>Shared theories.\<close>
  \<^item> \<^verbatim>\<open>Cool_Prelude\<close>: outcomes and their sequencing, words, overwriting parts of lists.
  \<^item> \<^verbatim>\<open>Cool_Text\<close>: numbers as text, C strings, searching and joining.
  \<^item> \<^verbatim>\<open>Cool_Containers\<close>: \<open>std::set\<close> and \<open>std::map\<close> as lists sorted by a comparator, with their laws in the locale \<open>weak_order\<close>; it is interpreted for
    addresses, timers, header names, strings and logger definitions, and for \<open>std::less\<close>.

  \<^bold>\<open>Byte arrays\<close> (bytearray.h, bytearray.cpp, endian.h).
  \<^item> \<^verbatim>\<open>Cool_ByteArray\<close>: the chain of nodes, its cursor, growth, raw reads and writes, seeking, scatter/gather views, files. A byte array refines a plain
    sequence of bytes with a position, under any sequence of operations (\<open>ba_run_refines\<close>); what one read or write does
    (\<open>ba_read_spec\<close>, \<open>ba_write_spec\<close>), the views and the transfer through a file.
  \<^item> \<^verbatim>\<open>Cool_Endian\<close>, \<^verbatim>\<open>Cool_Codec\<close>: byte order and all typed readers and writers. The locale \<open>wire_codec\<close> is the contract of one format, \<open>wire_family\<close> that of all;
    any message of typed values is read back (\<open>message_round_trip\<close>), and reading variable-length integers from arbitrary bytes is safe (\<open>varint_safe\<close>).

  \<^bold>\<open>Runtime\<close> (timer.*, fd_manager.*, fiber.*, scheduler.*, iomanager.*, hook.*, thread.*, util.*).
  \<^item> \<^verbatim>\<open>Cool_Timer\<close>: timers in an ordered set; no operation faults and the set stays sorted (\<open>timers_never_fault\<close>), exactly the timers that are due are
    collected (\<open>listExpiredCb_exact\<close>).
  \<^item> \<^verbatim>\<open>Cool_FdManager\<close>: contexts of descriptors and their table.
  \<^item> \<^verbatim>\<open>Cool_Fiber\<close>: states of fibers and switching between contexts; what a time slice does (\<open>fiber_slice\<close>).
  \<^item> \<^verbatim>\<open>Cool_Scheduler\<close>: the queue and the loop of a thread; what a round does (\<open>scheduler_round\<close>), and that a queue whose tasks end is emptied
    (\<open>scheduler_drains\<close>, with a bound on the number of rounds).
  \<^item> \<^verbatim>\<open>Cool_IOManager\<close>: registering, cancelling and triggering events, and the idle loop; registrations, epoll's interest and the pending count agree (\<open>io_registrations\<close>),
    no operation faults on states that agree (\<open>io_no_fault\<close>), an event wakes its waiter once (\<open>io_wakes_waiter\<close>).
  \<^item> \<^verbatim>\<open>Cool_Hook\<close>: every hooked function; a call that waits longer than its timeout is woken and fails with ETIMEDOUT (\<open>do_io_times_out\<close>), the result is that of the original
    call (\<open>do_io_result\<close>), and the user sees the blocking mode it has set (\<open>nonblock_view\<close>).
  \<^item> \<^verbatim>\<open>Cool_Thread\<close>: locks, scoped guards, semaphores, threads, and util.cpp; guards exclude each other under every interleaving (\<open>guards_exclusive\<close>), and what the
    constructor of a thread may rely on (\<open>thread_started\<close>).

  \<^bold>\<open>Network\<close> (address.*, socket.*, stream.*, socket_stream.*, tcp_server.*).
  \<^item> \<^verbatim>\<open>Cool_Address\<close>: all address classes; networks and broadcast addresses of prefixes (\<open>prefix_masks\<close>), the text of IPv6 addresses (\<open>ipv6_text_form\<close>), the forms of host names.
  \<^item> \<^verbatim>\<open>Cool_Socket\<close>: sockets, streams and socket streams; the fixed-size loops transfer exactly (\<open>fix_size_exact\<close>).
  \<^item> \<^verbatim>\<open>Cool_TcpServer\<close>: binding is all or nothing (\<open>server_bind_all_or_nothing\<close>), stopping closes every socket.

  \<^bold>\<open>HTTP\<close> (http/).
  \<^item> \<^verbatim>\<open>Cool_Http\<close>: messages and header maps, which refine functions on case-folded names (\<open>header_map_refines\<close>).
  \<^item> \<^verbatim>\<open>Cool_Scanner\<close>, \<^verbatim>\<open>Cool_RequestMachine\<close>, \<^verbatim>\<open>Cool_ResponseMachine\<close>: the generated scanners, all states and transitions as data, and how they run.
  \<^item> \<^verbatim>\<open>Cool_HttpParser\<close>: actions, callbacks and drivers of both parsers.
  \<^item> \<^verbatim>\<open>Cool_RequestMoves\<close>, \<^verbatim>\<open>Cool_RequestTrip\<close>: a request that was written out is parsed back (\<open>request_round_trip\<close>).
  \<^item> \<^verbatim>\<open>Cool_RequestSafe\<close>: the request parser is safe on arbitrary bytes (\<open>request_parser_safe\<close>), calls back in the order of the grammar (\<open>request_callback_order\<close>), and garbles
    requests that are split between reads (\<open>split_request_garbled\<close>).
  \<^item> \<^verbatim>\<open>Cool_Servlet\<close>: the dispatcher, and which servlet serves a path after any history of registrations (\<open>dispatch_precedence\<close>).
  \<^item> \<^verbatim>\<open>Cool_HttpServer\<close>: sessions and the server on top of the socket stream, the parser and the dispatcher; a request is answered by its servlet
    (\<open>server_answers\<close>), and what becomes of bodies (\<open>recv_request_whole\<close>, \<open>split_body_overflow\<close>).

  \<^bold>\<open>Configuration and logging\<close> (config.*, log.*).
  \<^item> \<^verbatim>\<open>Cool_Config\<close>: conversions of containers (\<open>containers_round_trip\<close>), variables and listeners (\<open>listeners_notified\<close>), loading (\<open>config_load\<close>).
  \<^item> \<^verbatim>\<open>Cool_Log\<close>: patterns (\<open>pattern_round_trip\<close>), delivery of events in every reachable state (\<open>log_delivery\<close>), the text of definitions, and the listener that configures
    loggers, also where it crashes (\<open>unchanged_define_crashes\<close>).
  \<^item> In this theory: loading a document configures the loggers (\<open>logging_from_yaml\<close>).

  \<^bold>\<open>Loops.\<close> Loops that end are functions with a termination proof; the number of steps is never cut off. The loops that may run forever, because they repeat a system call
  or read from a peer, are partial functions whose value \<^const>\<open>None\<close> stands for not returning (\<open>intr_loop\<close>, \<open>readFix_loop\<close>, \<open>writeFix_loop\<close>, \<open>fix_ba_loop\<close>, \<open>recv_loop\<close>, \<open>client_loop\<close>); the
  theorems about them state that they return. The scheduling loop and the idle loop run a given number of rounds; \<open>scheduler_drains\<close> gives a
  number that is enough.

  \<^bold>\<open>Not modelled.\<close> The grammars \<^verbatim>\<open>http11_parser.rl\<close> and \<^verbatim>\<open>httpclient_parser.rl\<close> apart from their actions: they are the input of a generator whose output, the
  scanners, is modelled. The destructor of \<open>IOManager\<close> and that of \<open>Thread\<close>, which give resources back to the system, and the failures of the pthread calls that make locks.
  The macros and base classes of macro.h, singleton.h, noncopyable.h and cool.h, which have no behaviour of their own. Memory allocation, except where
  its failure or its contents can be seen, and the memory order of atomic operations.
\<close>

section \<open>Logging configured by a document\<close>

lemma load_logs:
  "load_from_yaml yl (MapNode [(ScalarNode ''logs'', SequenceNode ns)]) (d, st) = load_entry yl (''logs'', SequenceNode ns) (d, st)"
proof -
  have "listAllMember [] (MapNode [(ScalarNode ''logs'', SequenceNode ns)]) =
      [([], MapNode [(ScalarNode ''logs'', SequenceNode ns)]), (''logs'', SequenceNode ns)]"
    by (simp add: listAllMember.simps lower_name_chars_def)
  moreover have "load_entry yl ([], m) (d, st) = Inr (d, st)" for m by (simp add: load_entry_def)
  ultimately show ?thesis
    by (cases "load_entry yl (''logs'', SequenceNode ns) (d, st)") (simp_all add: load_from_yaml_def bindE_def)
qed

text \<open>
  C9. Configuration and logging together: loading a document with a list of logger definitions under \<open>logs\<close>, none of them repeated
  from before, ends with the variable at its new value and the loggers as the definitions say: the logger of a definition has its
  level, its pattern unless that is empty or in error, and exactly its appenders in order, each with its own pattern or the
  logger's; a logger whose definition is gone is silenced; and every other logger is as it was.
\<close>

theorem logging_from_yaml:
  assumes "d ''logs'' = Some var" and "cv_from var = defines_from_string yl" and "cv_cbs var = [(key, LogIniter_listener ftime can_open s)]"
    and "defines_from_string yl (y_emit yl (SequenceNode ns)) = Inr new" and "new \<noteq> cv_val var"
    and "defines_sorted (cv_val var)" and "set new \<inter> set (cv_val var) = {}"
    and "wf_log st" and "names_apart st" and "lo_appenders (lg_objects st ! lg_root st) \<noteq> []"
  shows "\<exists>st'. load_from_yaml yl (MapNode [(ScalarNode ''logs'', SequenceNode ns)]) (d, st) = Inr (d(''logs'' \<mapsto> var\<lparr>cv_val := new\<rparr>), st') \<and>
    wf_log st' \<and> names_apart st' \<and>
    (\<forall>name. named_view st' name =
       (case find (\<lambda>i. ld_name i = name) new of
          Some i \<Rightarrow> Some (defined_logger can_open i (formatter_of (named_view st name)))
        | None \<Rightarrow> if name \<in> ld_name ` set (cv_val var) then Some (100, formatter_of (named_view st name), []) else named_view st name))"
proof -
  have "\<forall>i\<in>set new. appenders_ok i \<and> i \<notin> set (cv_val var)" using defines_from_string_ok(2) [OF assms(4)] assms(7) by blast
  then obtain st' where st': "logs_changed ftime can_open s (cv_val var) new st = Inr st'" "wf_log st'" "names_apart st'"
      "\<forall>name. named_view st' name =
         (case find (\<lambda>i. ld_name i = name) new of
            Some i \<Rightarrow> Some (defined_logger can_open i (formatter_of (named_view st name)))
          | None \<Rightarrow> if name \<in> ld_name ` set (cv_val var) then Some (100, formatter_of (named_view st name), []) else named_view st name)"
    using logs_reconfigured [OF assms(8-10,6) defines_from_string_ok(1) [OF assms(4)], of ftime can_open s] by blast
  have "from_string (y_emit yl (SequenceNode ns)) var st = Inr (False, var\<lparr>cv_val := new\<rparr>, st')"
    using assms(2-5) st'(1) by (simp add: from_string_def set_value_def LogIniter_listener_def)
  moreover have "map tolower ''logs'' = ''logs''" by (simp add: tolower_def)
  ultimately have "load_from_yaml yl (MapNode [(ScalarNode ''logs'', SequenceNode ns)]) (d, st) = Inr (d(''logs'' \<mapsto> var\<lparr>cv_val := new\<rparr>), st')"
    using assms(1) unfolding load_logs by (simp add: load_entry_def lookup_base_def bindE_def)
  then show ?thesis using st'(2-4) by blast
qed

definition demo_site :: log_site where
  "demo_site = \<lparr>si_file = ''log.cpp'', si_line = 532, si_thread_id = 1, si_thread_name = ''main'', si_fiber_id = 0, si_time = 0\<rparr>"

definition demo_logs :: "(log_define list, log_state) config_var" where
  "demo_logs = (ConfigVar_new ''set<LogDefine>'' (defines_from_string (node_yaml (sequence_node [define_node (demo_define\<lparr>ld_appenders := []\<rparr>)])))
     (defines_to_string demo_yaml) ''logs'' [demo_define_root] ''logs config'')\<lparr>cv_cbs := [(1, LogIniter_listener (\<lambda>_ _. []) (\<lambda>_. True) demo_site)]\<rparr>"

theorem logging_from_yaml_witness:
  "\<exists>d st'. load_from_yaml (node_yaml (sequence_node [define_node (demo_define\<lparr>ld_appenders := []\<rparr>)]))
       (MapNode [(ScalarNode ''logs'', SequenceNode [define_node (demo_define\<lparr>ld_appenders := []\<rparr>)])]) ([''logs'' \<mapsto> demo_logs], demo_store) = Inr (d, st') \<and>
     map_option fst (named_view st' ''system'') = Some 2 \<and> map_option fst (named_view st' ''root'') = Some 100"
proof -
  let ?d = "demo_define\<lparr>ld_appenders := []\<rparr>"
  let ?yl = "node_yaml (sequence_node [define_node ?d])"
  have f: "defines_from_string ?yl (y_emit ?yl (SequenceNode [define_node ?d])) = Inr [?d]" "?d \<noteq> demo_define_root"
      "ld_name ?d = ''system''" "ld_level ?d = 2" "ld_name demo_define_root = ''root''"
    by code_simp+
  show ?thesis
    using logging_from_yaml [of "[''logs'' \<mapsto> demo_logs]" demo_logs ?yl 1 "\<lambda>_ _. []" "\<lambda>_. True" demo_site "[define_node ?d]" "[?d]" demo_store]
      f demo_store_ok
    by (auto simp: demo_logs_def ConfigVar_new_def ord_sorted_def defined_logger_def Let_def)
qed

end
